(* ===== verification/Prelude.thy ===== *)
theory Prelude
  imports Main "HOL-Library.Word"
begin

text \<open>
  Shared vocabulary of the development: bytes, the C result codes (0 or a negated errno), the
  wrap-around of unsigned C integers kept as natural numbers, memcpy into a byte array
  (\<open>patch\<close>) and the relation "differs only inside a range" (\<open>same_outside\<close>) that every frame
  lemma of the flash code is stated with.
\<close>

unbundle bit_operations_syntax

type_synonym byte = "8 word"
type_synonym bytes = "8 word list"

section \<open>Result codes\<close>

text \<open>The Linux errno values the C sources name. A C function returns 0 or a negated errno.\<close>

abbreviation (input) ENOENT :: int where "ENOENT \<equiv> 2"
abbreviation (input) EPERM :: int where "EPERM \<equiv> 1"
abbreviation (input) ESRCH :: int where "ESRCH \<equiv> 3"
abbreviation (input) EACCES :: int where "EACCES \<equiv> 13"
abbreviation (input) EINTR :: int where "EINTR \<equiv> 4"
abbreviation (input) EIO :: int where "EIO \<equiv> 5"
abbreviation (input) EAGAIN :: int where "EAGAIN \<equiv> 11"
abbreviation (input) ENOMEM :: int where "ENOMEM \<equiv> 12"
abbreviation (input) EFAULT :: int where "EFAULT \<equiv> 14"
abbreviation (input) EBUSY :: int where "EBUSY \<equiv> 16"
abbreviation (input) EEXIST :: int where "EEXIST \<equiv> 17"
abbreviation (input) ENODEV :: int where "ENODEV \<equiv> 19"
abbreviation (input) EINVAL :: int where "EINVAL \<equiv> 22"
abbreviation (input) ENOTTY :: int where "ENOTTY \<equiv> 25"
abbreviation (input) EFBIG :: int where "EFBIG \<equiv> 27"
abbreviation (input) ENOSPC :: int where "ENOSPC \<equiv> 28"
abbreviation (input) ENAMETOOLONG :: int where "ENAMETOOLONG \<equiv> 36"
abbreviation (input) EPROTO :: int where "EPROTO \<equiv> 71"
abbreviation (input) EBADMSG :: int where "EBADMSG \<equiv> 74"
abbreviation (input) ETIMEDOUT :: int where "ETIMEDOUT \<equiv> 110"

section \<open>Unsigned C integers as natural numbers\<close>

definition wrap32 :: "nat \<Rightarrow> nat" where
  "wrap32 n = n mod 2 ^ 32"

definition wrap64 :: "nat \<Rightarrow> nat" where
  "wrap64 n = n mod 2 ^ 64"

named_theorems wrap_simps \<open>wrap-around that does not happen\<close>

lemma wrap32_id [wrap_simps]: "n < 2 ^ 32 \<Longrightarrow> wrap32 n = n"
  by (simp add: wrap32_def)

lemma wrap64_id [wrap_simps]: "n < 2 ^ 64 \<Longrightarrow> wrap64 n = n"
  by (simp add: wrap64_def)

lemma wrap32_less: "wrap32 n < 2 ^ 32"
  by (simp add: wrap32_def)

lemma wrap64_less: "wrap64 n < 2 ^ 64"
  by (simp add: wrap64_def)

lemma unat_byte_less: "unat (b :: byte) < 256"
  using unsigned_less [where ?'a = nat, of b] by simp

text \<open>Rounding up to a multiple, as \<open>(n + m - 1) / m * m\<close> does when nothing wraps.\<close>

lemma round_up_ge: "0 < m \<Longrightarrow> n \<le> (n + m - 1) div m * m" for n m :: nat
proof -
  assume "0 < m"
  then have "n + m - 1 < m + (n + m - 1) div m * m"
    by (rule dividend_less_div_times)
  then show ?thesis by linarith
qed

lemma round_up_less: "(n + m - 1) div m * m < n + m" if "0 < m" for n m :: nat
proof -
  have "(n + m - 1) div m * m \<le> n + m - 1" by (rule div_times_less_eq_dividend)
  with that show ?thesis by linarith
qed

lemma round_up_le_multiple: "n \<le> k \<Longrightarrow> m dvd k \<Longrightarrow> 0 < m \<Longrightarrow> (n + m - 1) div m * m \<le> k" for n m k :: nat
proof -
  assume nk: "n \<le> k" and "m dvd k" and m: "0 < m"
  then obtain q where k: "k = q * m" by (metis dvd_def mult.commute)
  have "n + m - 1 < (q + 1) * m" using nk m by (simp add: k)
  then have "(n + m - 1) div m < q + 1" by (simp add: less_mult_imp_div_less)
  then show ?thesis by (simp add: k)
qed

section \<open>memcpy into an array\<close>

definition patch :: "'a list \<Rightarrow> nat \<Rightarrow> 'a list \<Rightarrow> 'a list" where
  "patch xs off ys = take off xs @ ys @ drop (off + length ys) xs"

lemma length_patch [simp]: "off + length ys \<le> length xs \<Longrightarrow> length (patch xs off ys) = length xs"
  by (simp add: patch_def)

lemma patch_nil [simp]: "patch xs off [] = xs"
  by (simp add: patch_def)

lemma patch_whole: "length ys = length xs \<Longrightarrow> patch xs 0 ys = ys"
  by (simp add: patch_def)

lemma take_drop_patch: "off \<le> length xs \<Longrightarrow> take (length ys) (drop off (patch xs off ys)) = ys"
  by (simp add: patch_def)

lemma take_patch: "off \<le> length xs \<Longrightarrow> take (off + length ys) (patch xs off ys) = take off xs @ ys"
  by (simp add: patch_def)

section \<open>Frames: lists that differ only inside a range\<close>

definition same_outside :: "nat \<Rightarrow> nat \<Rightarrow> 'a list \<Rightarrow> 'a list \<Rightarrow> bool" where
  "same_outside off n xs ys \<longleftrightarrow>
     length xs = length ys \<and> take off xs = take off ys \<and> drop (off + n) xs = drop (off + n) ys"

lemma same_outside_refl [simp]: "same_outside off n xs xs"
  by (simp add: same_outside_def)

lemma same_outside_sym: "same_outside off n xs ys \<Longrightarrow> same_outside off n ys xs"
  by (simp add: same_outside_def)

lemma same_outside_length: "same_outside off n xs ys \<Longrightarrow> length xs = length ys"
  by (simp add: same_outside_def)

lemma same_outside_trans [trans]:
  "same_outside off n xs ys \<Longrightarrow> same_outside off n ys zs \<Longrightarrow> same_outside off n xs zs"
  by (simp add: same_outside_def)

lemma take_eq_mono: "take k xs = take k ys \<Longrightarrow> j \<le> k \<Longrightarrow> take j xs = take j ys"
  by (metis min.absorb1 take_take)

lemma drop_eq_mono: "drop k xs = drop k ys \<Longrightarrow> k \<le> j \<Longrightarrow> drop j xs = drop j ys"
  by (metis drop_drop le_add_diff_inverse2)

lemma same_outside_widen:
  "same_outside off n xs ys \<Longrightarrow> off' \<le> off \<Longrightarrow> off + n \<le> off' + n' \<Longrightarrow> same_outside off' n' xs ys"
  unfolding same_outside_def by (blast intro: take_eq_mono drop_eq_mono)

text \<open>A range outside the changed one reads the same before and after.\<close>

lemma same_outside_range:
  assumes "same_outside off n xs ys" and "a + k \<le> off \<or> off + n \<le> a"
  shows "take k (drop a xs) = take k (drop a ys)"
  using assms(2)
proof
  assume le: "a + k \<le> off"
  have "take (a + k) xs = take (a + k) ys"
    using assms(1) le by (auto simp: same_outside_def intro: take_eq_mono)
  then show ?thesis by (metis add.commute take_drop)
next
  assume "off + n \<le> a"
  then have "drop a xs = drop a ys"
    using assms(1) by (auto simp: same_outside_def intro: drop_eq_mono)
  then show ?thesis by simp
qed

lemma same_outside_patch:
  "off + length ys \<le> length xs \<Longrightarrow> same_outside off (length ys) xs (patch xs off ys)"
  by (auto simp: same_outside_def patch_def)

lemma take_drop_append:
  "take (m + n) (drop a xs) = take m (drop a xs) @ take n (drop (a + m) xs)"
  by (simp add: take_add add.commute)

lemma take_drop_split:
  "take m (drop a xs) = take k (drop a xs) @ take (m - k) (drop (a + k) xs)" if "k \<le> m"
  using that take_drop_append [of k "m - k" a xs] by simp

end
