(* ===== verification/Sha256.thy ===== *)
theory Sha256
  imports Prelude
begin

text \<open>
  The SHA-256 of \<^verbatim>\<open>src/platform/posix/sha256.c\<close>: the compression function, the streaming state
  (\<open>sha256_init\<close>, \<open>sha256_update\<close>, \<open>sha256_final\<close>) and the hex printer, beside the one-shot
  specification \<open>sha256\<close> (pad the whole message, fold the compression over its blocks). The
  theorem of this theory is that any way of cutting a message into updates computes \<open>sha256\<close>.
\<close>

section \<open>Tables\<close>

definition sha256_round_constants :: "32 word list" where
  "sha256_round_constants =
    [0x428A2F98, 0x71374491, 0xB5C0FBCF, 0xE9B5DBA5, 0x3956C25B, 0x59F111F1, 0x923F82A4, 0xAB1C5ED5,
     0xD807AA98, 0x12835B01, 0x243185BE, 0x550C7DC3, 0x72BE5D74, 0x80DEB1FE, 0x9BDC06A7, 0xC19BF174,
     0xE49B69C1, 0xEFBE4786, 0x0FC19DC6, 0x240CA1CC, 0x2DE92C6F, 0x4A7484AA, 0x5CB0A9DC, 0x76F988DA,
     0x983E5152, 0xA831C66D, 0xB00327C8, 0xBF597FC7, 0xC6E00BF3, 0xD5A79147, 0x06CA6351, 0x14292967,
     0x27B70A85, 0x2E1B2138, 0x4D2C6DFC, 0x53380D13, 0x650A7354, 0x766A0ABB, 0x81C2C92E, 0x92722C85,
     0xA2BFE8A1, 0xA81A664B, 0xC24B8B70, 0xC76C51A3, 0xD192E819, 0xD6990624, 0xF40E3585, 0x106AA070,
     0x19A4C116, 0x1E376C08, 0x2748774C, 0x34B0BCB5, 0x391C0CB3, 0x4ED8AA4A, 0x5B9CCA4F, 0x682E6FF3,
     0x748F82EE, 0x78A5636F, 0x84C87814, 0x8CC70208, 0x90BEFFFA, 0xA4506CEB, 0xBEF9A3F7, 0xC67178F2]"

definition sha256_initial_words :: "32 word list" where
  "sha256_initial_words =
    [0x6A09E667, 0xBB67AE85, 0x3C6EF372, 0xA54FF53A, 0x510E527F, 0x9B05688C, 0x1F83D9AB, 0x5BE0CD19]"

section \<open>The compression function\<close>

definition rotate_right :: "32 word \<Rightarrow> nat \<Rightarrow> 32 word" where
  "rotate_right v n = drop_bit n v OR push_bit (32 - n) v"

definition be32 :: "bytes \<Rightarrow> nat \<Rightarrow> 32 word" where
  "be32 block i = push_bit 24 (ucast (block ! (i * 4))) OR push_bit 16 (ucast (block ! (i * 4 + 1)))
     OR push_bit 8 (ucast (block ! (i * 4 + 2))) OR ucast (block ! (i * 4 + 3))"

definition sha256_extend :: "32 word list \<Rightarrow> nat \<Rightarrow> 32 word list" where
  "sha256_extend w i =
     (let s0 = rotate_right (w ! (i - 15)) 7 XOR rotate_right (w ! (i - 15)) 18 XOR drop_bit 3 (w ! (i - 15));
          s1 = rotate_right (w ! (i - 2)) 17 XOR rotate_right (w ! (i - 2)) 19 XOR drop_bit 10 (w ! (i - 2))
      in w @ [w ! (i - 16) + s0 + w ! (i - 7) + s1])"

definition sha256_schedule :: "bytes \<Rightarrow> 32 word list" where
  "sha256_schedule block = foldl sha256_extend (map (be32 block) [0..<16]) [16..<64]"

type_synonym sha256_vars =
  "32 word \<times> 32 word \<times> 32 word \<times> 32 word \<times> 32 word \<times> 32 word \<times> 32 word \<times> 32 word"

definition sha256_round :: "32 word list \<Rightarrow> sha256_vars \<Rightarrow> nat \<Rightarrow> sha256_vars" where
  "sha256_round w v i = (case v of (a, b, c, d, e, f, g, h) \<Rightarrow>
     let t1 = h + (rotate_right e 6 XOR rotate_right e 11 XOR rotate_right e 25) +
                ((e AND f) XOR (NOT e AND g)) + sha256_round_constants ! i + w ! i;
         t2 = (rotate_right a 2 XOR rotate_right a 13 XOR rotate_right a 22) +
                ((a AND b) XOR (a AND c) XOR (b AND c))
     in (t1 + t2, a, b, c, d + t1, e, f, g))"

definition sha256_compress :: "32 word list \<Rightarrow> bytes \<Rightarrow> 32 word list" where
  "sha256_compress words block =
     (let w = sha256_schedule block
      in case foldl (sha256_round w)
             (words ! 0, words ! 1, words ! 2, words ! 3, words ! 4, words ! 5, words ! 6, words ! 7) [0..<64]
         of (a, b, c, d, e, f, g, h) \<Rightarrow>
           [words ! 0 + a, words ! 1 + b, words ! 2 + c, words ! 3 + d,
            words ! 4 + e, words ! 5 + f, words ! 6 + g, words ! 7 + h])"

lemma length_sha256_compress [simp]: "length (sha256_compress h b) = 8"
  by (simp add: sha256_compress_def Let_def split: prod.split)

section \<open>The streaming state\<close>

record sha256_state =
  sha_h :: "32 word list"
  sha_length :: "64 word"
  sha_block :: bytes
  sha_used :: nat

text \<open>The block of a fresh state is whatever the memory held.\<close>

definition sha256_init :: "bytes \<Rightarrow> sha256_state" where
  "sha256_init junk = \<lparr>sha_h = sha256_initial_words, sha_length = 0, sha_block = junk, sha_used = 0\<rparr>"

text \<open>The loop over whole blocks: the chaining words and the bytes left over.\<close>

function sha256_blocks :: "32 word list \<Rightarrow> bytes \<Rightarrow> 32 word list \<times> bytes" where
  "sha256_blocks h bs =
     (if 64 \<le> length bs then sha256_blocks (sha256_compress h (take 64 bs)) (drop 64 bs) else (h, bs))"
  by pat_completeness auto
termination
  by (relation "measure (\<lambda>(h, bs). length bs)") auto

declare sha256_blocks.simps [simp del]

definition sha256_update :: "sha256_state \<Rightarrow> bytes \<Rightarrow> sha256_state" where
  "sha256_update st data =
     (let st = st\<lparr>sha_length := sha_length st + of_nat (length data)\<rparr>;
          absorb = (\<lambda>st bs. case sha256_blocks (sha_h st) bs of (h, rest) \<Rightarrow>
             st\<lparr>sha_h := h, sha_block := patch (sha_block st) 0 rest, sha_used := length rest\<rparr>)
      in if sha_used st \<noteq> 0 then
           (let n = (if length data < 64 - sha_used st then length data else 64 - sha_used st);
                st = st\<lparr>sha_block := patch (sha_block st) (sha_used st) (take n data),
                        sha_used := sha_used st + n\<rparr>
            in if sha_used st < 64 then st
               else absorb (st\<lparr>sha_h := sha256_compress (sha_h st) (sha_block st), sha_used := 0\<rparr>)
                      (drop n data))
         else absorb st data)"

definition be32_bytes :: "32 word \<Rightarrow> bytes" where
  "be32_bytes w = [ucast (drop_bit 24 w), ucast (drop_bit 16 w), ucast (drop_bit 8 w), ucast w]"

definition be64_bytes :: "64 word \<Rightarrow> bytes" where
  "be64_bytes v = map (\<lambda>i. ucast (drop_bit (56 - 8 * i) v)) [0..<8]"

definition sha256_final :: "sha256_state \<Rightarrow> bytes \<times> sha256_state" where
  "sha256_final st =
     (let bits = sha_length st * 8;
          st = st\<lparr>sha_block := (sha_block st)[sha_used st := 0x80], sha_used := sha_used st + 1\<rparr>;
          st = (if 56 < sha_used st then
                  (let b = patch (sha_block st) (sha_used st) (replicate (64 - sha_used st) 0)
                   in st\<lparr>sha_block := b, sha_h := sha256_compress (sha_h st) b, sha_used := 0\<rparr>)
                else st);
          b = patch (sha_block st) (sha_used st) (replicate (56 - sha_used st) 0);
          b = patch b 56 (be64_bytes bits);
          st = st\<lparr>sha_block := b, sha_h := sha256_compress (sha_h st) b\<rparr>
      in (concat (map be32_bytes (sha_h st)), st))"

definition hex_digits :: string where
  "hex_digits = ''0123456789abcdef''"

definition sha256_hex :: "bytes \<Rightarrow> string" where
  "sha256_hex digest =
     concat (map (\<lambda>b. [hex_digits ! unat (drop_bit 4 b), hex_digits ! unat (b AND 15)]) digest)"

section \<open>The one-shot specification\<close>

definition sha256_pad :: "bytes \<Rightarrow> bytes" where
  "sha256_pad msg = msg @ 0x80 # replicate ((119 - length msg mod 64) mod 64) 0 @
     be64_bytes (of_nat (length msg) * 8)"

definition sha256_digest_words :: "32 word list \<Rightarrow> bytes" where
  "sha256_digest_words h = concat (map be32_bytes h)"

definition sha256 :: "bytes \<Rightarrow> bytes" where
  "sha256 msg = sha256_digest_words (fst (sha256_blocks sha256_initial_words (sha256_pad msg)))"

section \<open>The block loop\<close>

lemma sha256_blocks_short: "length bs < 64 \<Longrightarrow> sha256_blocks h bs = (h, bs)"
  by (simp add: sha256_blocks.simps)

lemma sha256_blocks_step:
  "64 \<le> length bs \<Longrightarrow> sha256_blocks h bs = sha256_blocks (sha256_compress h (take 64 bs)) (drop 64 bs)"
  by (subst sha256_blocks.simps) simp

lemma sha256_blocks_one:
  "length b = 64 \<Longrightarrow> sha256_blocks h (b @ bs) = sha256_blocks (sha256_compress h b) bs"
  by (simp add: sha256_blocks_step)

lemma sha256_blocks_append:
  "sha256_blocks h (xs @ ys) = (case sha256_blocks h xs of (h', r) \<Rightarrow> sha256_blocks h' (r @ ys))"
proof (induction h xs rule: sha256_blocks.induct)
  case (1 h xs)
  show ?case
  proof (cases "64 \<le> length xs")
    case True
    then show ?thesis using "1.IH" by (simp add: sha256_blocks_step)
  next
    case False
    then show ?thesis by (simp add: sha256_blocks_short)
  qed
qed

lemma length_sha256_blocks_rest: "length (snd (sha256_blocks h bs)) = length bs mod 64"
proof (induction h bs rule: sha256_blocks.induct)
  case (1 h bs)
  show ?case
  proof (cases "64 \<le> length bs")
    case True
    then show ?thesis using "1.IH" by (simp add: sha256_blocks_step le_mod_geq)
  next
    case False
    then show ?thesis by (simp add: sha256_blocks_short)
  qed
qed

lemma length_sha256_blocks_words: "length h = 8 \<Longrightarrow> length (fst (sha256_blocks h bs)) = 8"
proof (induction h bs rule: sha256_blocks.induct)
  case (1 h bs)
  show ?case
  proof (cases "64 \<le> length bs")
    case True
    then show ?thesis using "1.IH" by (simp add: sha256_blocks_step)
  next
    case False
    then show ?thesis using "1.prems" by (simp add: sha256_blocks_short)
  qed
qed

section \<open>The streaming state holds a prefix of the message\<close>

definition sha_abs :: "sha256_state \<Rightarrow> bytes \<Rightarrow> bool" where
  "sha_abs st msg \<longleftrightarrow> length (sha_block st) = 64 \<and> sha_used st < 64 \<and>
     sha_length st = of_nat (length msg) \<and>
     sha256_blocks sha256_initial_words msg = (sha_h st, take (sha_used st) (sha_block st))"

lemma sha_abs_init: "length junk = 64 \<Longrightarrow> sha_abs (sha256_init junk) []"
  by (simp add: sha_abs_def sha256_init_def sha256_blocks_short)

lemma sha_abs_blocksD:
  "sha_abs st msg \<Longrightarrow>
     sha256_blocks sha256_initial_words (msg @ xs) =
     sha256_blocks (sha_h st) (take (sha_used st) (sha_block st) @ xs)"
  by (simp add: sha_abs_def sha256_blocks_append [of _ msg])

lemma sha_abs_used: "sha_abs st msg \<Longrightarrow> sha_used st = length msg mod 64"
  using length_sha256_blocks_rest [of sha256_initial_words msg] by (simp add: sha_abs_def)

lemma sha_abs_intro:
  assumes "sha256_blocks sha256_initial_words msg = sha256_blocks h bs" and "length block = 64"
    and "sha_h st = fst (sha256_blocks h bs)" and "sha_length st = of_nat (length msg)"
    and "sha_block st = patch block 0 (snd (sha256_blocks h bs))"
    and "sha_used st = length (snd (sha256_blocks h bs))"
  shows "sha_abs st msg"
proof -
  have "length (snd (sha256_blocks h bs)) < 64"
    by (simp add: length_sha256_blocks_rest)
  with assms show ?thesis
    by (simp add: sha_abs_def patch_def prod_eq_iff)
qed

lemma sha_abs_update:
  assumes abs: "sha_abs st msg"
  shows "sha_abs (sha256_update st data) (msg @ data)"
proof -
  let ?u = "sha_used st" and ?len = "of_nat (length (msg @ data)) :: 64 word"
  have u: "?u < 64" and b: "length (sha_block st) = 64" and l: "sha_length st + of_nat (length data) = ?len"
    using abs by (simp_all add: sha_abs_def)
  have blocks: "sha256_blocks sha256_initial_words (msg @ data) =
      sha256_blocks (sha_h st) (take ?u (sha_block st) @ data)"
    using abs by (rule sha_abs_blocksD)
  consider (empty) "?u = 0" | (fits) "?u \<noteq> 0" "?u + length data < 64" | (fills) "?u \<noteq> 0" "64 \<le> ?u + length data"
    by linarith
  then show ?thesis
  proof cases
    case empty
    then have "sha256_blocks sha256_initial_words (msg @ data) = sha256_blocks (sha_h st) data"
      using blocks by simp
    from sha_abs_intro [OF this b] empty l show ?thesis
      by (simp add: sha256_update_def Let_def split_beta)
  next
    case fits
    then have "sha256_blocks sha256_initial_words (msg @ data) = (sha_h st, take ?u (sha_block st) @ data)"
      using blocks b by (simp add: sha256_blocks_short)
    moreover have "length data < 64 - ?u"
      using fits by simp
    ultimately show ?thesis
      using fits b l by (simp add: sha256_update_def Let_def sha_abs_def take_patch)
  next
    case fills
    let ?n = "64 - ?u"
    have n: "(if length data < 64 - ?u then length data else 64 - ?u) = ?n" using fills by auto
    have full: "patch (sha_block st) ?u (take ?n data) = take ?u (sha_block st) @ take ?n data"
      using fills u b by (simp add: patch_def)
    have full_len: "length (take ?u (sha_block st) @ take ?n data) = 64" using fills u b by simp
    have "sha256_blocks sha256_initial_words (msg @ data) =
        sha256_blocks (sha256_compress (sha_h st) (take ?u (sha_block st) @ take ?n data)) (drop ?n data)"
      using sha256_blocks_one [OF full_len, of "sha_h st" "drop ?n data"] blocks by simp
    from sha_abs_intro [OF this full_len] fills l full show ?thesis
      by (simp add: sha256_update_def Let_def split_beta n)
  qed
qed

lemma sha_abs_updates: "sha_abs st msg \<Longrightarrow> sha_abs (foldl sha256_update st chunks) (msg @ concat chunks)"
proof (induction chunks arbitrary: st msg)
  case Nil
  then show ?case by simp
next
  case (Cons c chunks)
  from Cons.prems have "sha_abs (sha256_update st c) (msg @ c)" by (rule sha_abs_update)
  then show ?case using Cons.IH by fastforce
qed

lemma length_be64_bytes [simp]: "length (be64_bytes v) = 8"
  by (simp add: be64_bytes_def)

lemma sha256_final_abs:
  assumes abs: "sha_abs st msg"
  shows "fst (sha256_final st) = sha256 msg"
proof -
  let ?u = "sha_used st" and ?len = "be64_bytes (of_nat (length msg) * 8)"
  have u: "?u < 64" and b: "length (sha_block st) = 64" and l: "sha_length st = of_nat (length msg)"
    using abs by (simp_all add: sha_abs_def)
  let ?t = "take ?u (sha_block st)"
  have upd: "(sha_block st)[?u := 0x80] = ?t @ 0x80 # drop (Suc ?u) (sha_block st)"
    using u b by (simp add: upd_conv_take_nth_drop)
  have pad: "sha256_blocks sha256_initial_words (sha256_pad msg) =
      sha256_blocks (sha_h st) (?t @ 0x80 # replicate ((119 - ?u) mod 64) 0 @ ?len)"
    using sha_abs_blocksD [OF abs] sha_abs_used [OF abs] by (simp add: sha256_pad_def)
  have final_words: "fst (sha256_final st) = sha256_digest_words h"
    if "56 < ?u + 1" and "h = sha256_compress (sha256_compress (sha_h st) (?t @ 0x80 # replicate (63 - ?u) 0))
          (replicate 56 0 @ ?len)" for h
  proof -
    have "patch (?t @ 0x80 # drop (Suc ?u) (sha_block st)) (Suc ?u) (replicate (63 - ?u) 0) =
        ?t @ 0x80 # replicate (63 - ?u) 0"
      using that u b by (simp add: patch_def)
    moreover have "patch (patch (?t @ 0x80 # replicate (63 - ?u) 0) 0 (replicate 56 0)) 56 ?len =
        replicate 56 0 @ ?len"
      using that u b by (simp add: patch_def)
    ultimately show ?thesis
      using that l upd by (simp add: sha256_final_def Let_def sha256_digest_words_def)
  qed
  show ?thesis
  proof (cases "56 < ?u + 1")
    case True
    let ?b1 = "?t @ 0x80 # replicate (63 - ?u) 0" and ?b2 = "replicate 56 0 @ ?len"
    have "(119 - ?u) mod 64 = (63 - ?u) + 56" using True u by simp
    then have tail: "?t @ 0x80 # replicate ((119 - ?u) mod 64) 0 @ ?len = ?b1 @ ?b2 @ []"
      by (simp only: replicate_add) simp
    have "sha256_blocks (sha_h st) (?b1 @ ?b2 @ []) =
        (sha256_compress (sha256_compress (sha_h st) ?b1) ?b2, [])"
      using sha256_blocks_one [of ?b1 "sha_h st" "?b2 @ []"]
        sha256_blocks_one [of ?b2 "sha256_compress (sha_h st) ?b1" "[]"] True u b
      by (simp add: sha256_blocks_short)
    then have "sha256 msg = sha256_digest_words (sha256_compress (sha256_compress (sha_h st) ?b1) ?b2)"
      by (simp only: sha256_def pad tail fst_conv)
    with final_words [OF True refl] show ?thesis by simp
  next
    case False
    let ?b = "?t @ 0x80 # replicate (55 - ?u) 0 @ ?len"
    have z: "(119 - ?u) mod 64 = 55 - ?u" using False u by (simp add: mod_if)
    have "sha256_blocks (sha_h st) (?b @ []) = (sha256_compress (sha_h st) ?b, [])"
      using sha256_blocks_one [of ?b "sha_h st" "[]"] False u b by (simp add: sha256_blocks_short)
    then have "sha256 msg = sha256_digest_words (sha256_compress (sha_h st) ?b)"
      by (simp only: sha256_def pad z append_Nil2 fst_conv)
    moreover have "patch (?t @ 0x80 # drop (Suc ?u) (sha_block st)) (Suc ?u) (replicate (55 - ?u) 0) =
        ?t @ 0x80 # replicate (55 - ?u) 0 @ drop 56 (sha_block st)"
      using False u b by (simp add: patch_def drop_Cons')
    moreover have "patch (?t @ 0x80 # replicate (55 - ?u) 0 @ drop 56 (sha_block st)) 56 ?len = ?b"
      using False u b by (simp add: patch_def take_Cons')
    ultimately show ?thesis
      using False l upd by (simp add: sha256_final_def Let_def sha256_digest_words_def)
  qed
qed

lemma sha256_stream:
  "length junk = 64 \<Longrightarrow>
     fst (sha256_final (foldl sha256_update (sha256_init junk) chunks)) = sha256 (concat chunks)"
  using sha256_final_abs [OF sha_abs_updates [OF sha_abs_init]] by simp

text \<open>
  C30. However a message is cut into updates, and whatever the state's block buffer held before,
  sha256_init, the updates and sha256_final give the SHA-256 of the whole message.
\<close>

theorem sha256_streaming:
  "length junk = 64 \<Longrightarrow>
     fst (sha256_final (foldl sha256_update (sha256_init junk) chunks)) = sha256 (concat chunks)"
  by (rule sha256_stream)

theorem sha256_streaming_witness:
  "fst (sha256_final (foldl sha256_update (sha256_init (replicate 64 7)) [[97, 98], [99]])) = sha256 [97, 98, 99]"
  using sha256_streaming [of "replicate 64 7" "[[97, 98], [99]]"] by simp

lemma length_sha256 [simp]: "length (sha256 msg) = 32"
proof -
  have "length (fst (sha256_blocks sha256_initial_words xs)) = 8" for xs
    by (simp add: length_sha256_blocks_words sha256_initial_words_def)
  moreover have "length (concat (map be32_bytes ws)) = 4 * length ws" for ws
    by (induction ws) (simp_all add: be32_bytes_def)
  ultimately show ?thesis by (simp add: sha256_def sha256_digest_words_def)
qed

end
