(* ===== verification/Flash_Write.thy ===== *)
theory Flash_Write
  imports Sha256
begin

text \<open>
  The flash writer (\<^verbatim>\<open>flasher/flash_write.c\<close>): check the request, write every erase block that
  differs (erase, program, read back, at most three times), then read the whole span again, compare
  and hash it. A device and an image source are the structs of function pointers of the code; each
  call takes and returns the state \<open>'w\<close> of the world behind the pointer. The locale
  \<open>flash_device_laws\<close> states what a flash device promises whatever faults it has, \<open>flash_job\<close> adds
  an image source; \<open>Mtd_Device\<close> interprets both on the model of \<^verbatim>\<open>mtd_device.c\<close>.
\<close>

section \<open>Devices, sources, reports\<close>

abbreviation (input) FLASH_MAX_ERASE_SIZE :: nat where "FLASH_MAX_ERASE_SIZE \<equiv> 262144"
abbreviation (input) FLASH_WRITE_ATTEMPTS :: nat where "FLASH_WRITE_ATTEMPTS \<equiv> 3"

record 'w flash_device =
  dev_size :: nat
  dev_erase_size :: nat
  dev_erase :: "nat \<Rightarrow> nat \<Rightarrow> 'w \<Rightarrow> int \<times> 'w"
  dev_read :: "nat \<Rightarrow> nat \<Rightarrow> 'w \<Rightarrow> int \<times> bytes \<times> 'w"
  dev_write :: "nat \<Rightarrow> bytes \<Rightarrow> 'w \<Rightarrow> int \<times> 'w"

record 'w flash_source =
  src_length :: nat
  src_read :: "nat \<Rightarrow> nat \<Rightarrow> 'w \<Rightarrow> int \<times> bytes \<times> 'w"

record flash_report =
  rep_offset :: nat
  rep_length :: nat
  rep_span :: nat
  rep_blocks :: nat
  rep_skipped :: nat
  rep_written :: nat
  rep_retries :: nat
  rep_modified :: bool
  rep_stage :: string
  rep_failed_offset :: nat
  rep_error :: int
  rep_sha256 :: bytes

definition zero_report :: flash_report where
  "zero_report = \<lparr>rep_offset = 0, rep_length = 0, rep_span = 0, rep_blocks = 0, rep_skipped = 0,
     rep_written = 0, rep_retries = 0, rep_modified = False, rep_stage = '''', rep_failed_offset = 0,
     rep_error = 0, rep_sha256 = replicate 32 0\<rparr>"

definition flash_fail :: "flash_report \<Rightarrow> string \<Rightarrow> nat \<Rightarrow> int \<Rightarrow> int \<times> flash_report" where
  "flash_fail rep stage off err =
     (let e = (if 0 < err then err else EIO)
      in (- e, rep\<lparr>rep_stage := stage, rep_failed_offset := off, rep_error := e\<rparr>))"

section \<open>One block of the image\<close>

definition load_block :: "'w flash_source \<Rightarrow> nat \<Rightarrow> nat \<Rightarrow> 'w \<Rightarrow> int \<times> bytes \<times> 'w" where
  "load_block img image_offset sz w =
     (let block = replicate sz 0xff
      in if src_length img \<le> image_offset then (0, block, w)
         else let remaining = src_length img - image_offset;
                  n = (if remaining < sz then remaining else sz)
              in case src_read img image_offset n w of (r, bs, w) \<Rightarrow> (r, patch block 0 bs, w))"

definition check_request :: "'w flash_device \<Rightarrow> nat \<Rightarrow> nat \<Rightarrow> flash_report \<Rightarrow> int \<times> flash_report" where
  "check_request d off len rep =
     (if dev_erase_size d = 0 \<or> FLASH_MAX_ERASE_SIZE < dev_erase_size d \<or>
         dev_size d mod dev_erase_size d \<noteq> 0
      then flash_fail rep ''geometry'' 0 EINVAL
      else if off mod dev_erase_size d \<noteq> 0 then flash_fail rep ''offset'' off EINVAL
      else if len = 0 then flash_fail rep ''length'' off EINVAL
      else if dev_size d < off \<or> dev_size d - off < len then flash_fail rep ''size'' off EFBIG
      else (0, rep))"

section \<open>Writing\<close>

text \<open>The attempts at one block, from the given attempt number on.\<close>

function program_block ::
  "'w flash_device \<Rightarrow> nat \<Rightarrow> bytes \<Rightarrow> nat \<Rightarrow> flash_report \<Rightarrow> 'w \<Rightarrow> int \<times> flash_report \<times> 'w" where
  "program_block d at want attempt rep w =
     (let rep = rep\<lparr>rep_modified := True\<rparr>;
          failed = (\<lambda>stage err w. case flash_fail rep stage at err of (r, rep) \<Rightarrow> (r, rep, w))
      in case dev_erase d at (dev_erase_size d) w of (r, w) \<Rightarrow>
         if r \<noteq> 0 then failed ''erase'' (- r) w
         else case dev_write d at want w of (r, w) \<Rightarrow>
         if r \<noteq> 0 then failed ''write'' (- r) w
         else case dev_read d at (dev_erase_size d) w of (r, have_bs, w) \<Rightarrow>
         if r \<noteq> 0 then failed ''verify-read'' (- r) w
         else if want = have_bs then (0, rep, w)
         else if FLASH_WRITE_ATTEMPTS \<le> attempt + 1 then failed ''verify'' EIO w
         else program_block d at want (attempt + 1) (rep\<lparr>rep_retries := wrap32 (rep_retries rep + 1)\<rparr>) w)"
  by pat_completeness auto
termination
  by (relation "measure (\<lambda>(d, at, want, attempt, rep, w). FLASH_WRITE_ATTEMPTS - attempt)") auto

declare program_block.simps [simp del]

text \<open>One round of the writing loop, at \<open>pos\<close> bytes into the image.\<close>

definition write_block ::
  "'w flash_device \<Rightarrow> 'w flash_source \<Rightarrow> nat \<Rightarrow> nat \<Rightarrow> flash_report \<Rightarrow> 'w \<Rightarrow> int \<times> flash_report \<times> 'w" where
  "write_block d img off pos rep w =
     (let at = off + pos;
          failed = (\<lambda>stage err w. case flash_fail rep stage at err of (r, rep) \<Rightarrow> (r, rep, w))
      in case load_block img pos (dev_erase_size d) w of (r, want, w) \<Rightarrow>
         if r \<noteq> 0 then failed ''image-read'' (- r) w
         else case dev_read d at (dev_erase_size d) w of (r, have_bs, w) \<Rightarrow>
         if r \<noteq> 0 then failed ''read'' (- r) w
         else if want = have_bs then (0, rep\<lparr>rep_skipped := wrap32 (rep_skipped rep + 1)\<rparr>, w)
         else case program_block d at want 0 rep w of (r, rep, w) \<Rightarrow>
           if r \<noteq> 0 then (r, rep, w) else (0, rep\<lparr>rep_written := wrap32 (rep_written rep + 1)\<rparr>, w))"

text \<open>The loop; the first number counts the rounds left, (span - pos) / erase.\<close>

fun write_blocks ::
  "nat \<Rightarrow> 'w flash_device \<Rightarrow> 'w flash_source \<Rightarrow> nat \<Rightarrow> nat \<Rightarrow> flash_report \<Rightarrow> 'w \<Rightarrow>
   int \<times> flash_report \<times> 'w" where
  "write_blocks 0 d img off pos rep w = (0, rep, w)"
| "write_blocks (Suc n) d img off pos rep w =
     (case write_block d img off pos rep w of (r, rep, w) \<Rightarrow>
        if r \<noteq> 0 then (r, rep, w)
        else write_blocks n d img off (pos + dev_erase_size d) rep w)"

section \<open>The final pass\<close>

fun verify_blocks ::
  "nat \<Rightarrow> 'w flash_device \<Rightarrow> 'w flash_source \<Rightarrow> nat \<Rightarrow> nat \<Rightarrow> sha256_state \<Rightarrow> flash_report \<Rightarrow> 'w \<Rightarrow>
   int \<times> sha256_state \<times> flash_report \<times> 'w" where
  "verify_blocks 0 d img off pos hash rep w = (0, hash, rep, w)"
| "verify_blocks (Suc n) d img off pos hash rep w =
     (let at = off + pos;
          failed = (\<lambda>stage err w. case flash_fail rep stage at err of (r, rep) \<Rightarrow> (r, hash, rep, w))
      in case load_block img pos (dev_erase_size d) w of (r, want, w) \<Rightarrow>
         if r \<noteq> 0 then failed ''image-read'' (- r) w
         else case dev_read d at (dev_erase_size d) w of (r, have_bs, w) \<Rightarrow>
         if r \<noteq> 0 then failed ''final-read'' (- r) w
         else if want \<noteq> have_bs then failed ''final-verify'' EIO w
         else let remaining = src_length img - pos;
                  n' = (if remaining < dev_erase_size d then remaining else dev_erase_size d)
              in verify_blocks n d img off (pos + dev_erase_size d)
                   (sha256_update hash (take n' have_bs)) rep w)"

text \<open>
  The allocator is the world's: \<open>mal n w\<close> says whether malloc(n) succeeded. The first function is
  the part of flash_write_image behind the request check, for a span of \<open>n\<close> blocks.
\<close>

definition flash_write_span ::
  "(nat \<Rightarrow> 'w \<Rightarrow> bool \<times> 'w) \<Rightarrow> 'w flash_device \<Rightarrow> 'w flash_source \<Rightarrow> nat \<Rightarrow> nat \<Rightarrow> flash_report \<Rightarrow> 'w \<Rightarrow>
   int \<times> flash_report \<times> 'w" where
  "flash_write_span mal d img off n rep w =
     (case mal (dev_erase_size d) w of (ok1, w) \<Rightarrow>
      case mal (dev_erase_size d) w of (ok2, w) \<Rightarrow>
      if \<not> ok1 \<or> \<not> ok2 then (case flash_fail rep ''memory'' off ENOMEM of (r, rep) \<Rightarrow> (r, rep, w))
      else case write_blocks n d img off 0 rep w of (r, rep, w) \<Rightarrow>
      if r \<noteq> 0 then (r, rep, w)
      else case verify_blocks n d img off 0 (sha256_init (replicate 64 0)) rep w of (r, hash, rep, w) \<Rightarrow>
        if r \<noteq> 0 then (r, rep, w)
        else (0, rep\<lparr>rep_sha256 := fst (sha256_final hash)\<rparr>, w))"

definition flash_write_image ::
  "(nat \<Rightarrow> 'w \<Rightarrow> bool \<times> 'w) \<Rightarrow> 'w flash_device \<Rightarrow> 'w flash_source \<Rightarrow> nat \<Rightarrow> 'w \<Rightarrow>
   int \<times> flash_report \<times> 'w" where
  "flash_write_image mal d img off w =
     (let rep = zero_report\<lparr>rep_offset := off, rep_length := src_length img, rep_stage := ''done''\<rparr>
      in case check_request d off (src_length img) rep of (r, rep) \<Rightarrow>
         if r \<noteq> 0 then (r, rep, w)
         else let blocks = wrap64 (src_length img + dev_erase_size d - 1) div dev_erase_size d
              in flash_write_span mal d img off blocks
                   (rep\<lparr>rep_span := blocks * dev_erase_size d, rep_blocks := wrap32 blocks\<rparr>) w)"

section \<open>Hashing a range\<close>

abbreviation (input) HASH_CHUNK :: nat where "HASH_CHUNK \<equiv> 65536"

definition hash_take :: "nat \<Rightarrow> nat" where
  "hash_take left = (if left < HASH_CHUNK then left else HASH_CHUNK)"

lemma hash_take_bounds: "0 < n \<Longrightarrow> 0 < hash_take n" "hash_take n \<le> n" "hash_take n \<le> HASH_CHUNK"
  by (simp_all add: hash_take_def)

function hash_chunks ::
  "(nat \<Rightarrow> nat \<Rightarrow> 'w \<Rightarrow> int \<times> bytes \<times> 'w) \<Rightarrow> nat \<Rightarrow> nat \<Rightarrow> nat \<Rightarrow> sha256_state \<Rightarrow> 'w \<Rightarrow>
   int \<times> sha256_state \<times> 'w" where
  "hash_chunks rd off len pos hash w =
     (if pos < len then
        let n = hash_take (len - pos)
        in case rd (off + pos) n w of (r, buffer, w) \<Rightarrow>
           if r \<noteq> 0 then (r, hash, w)
           else hash_chunks rd off len (pos + n) (sha256_update hash buffer) w
      else (0, hash, w))"
  by pat_completeness auto
termination
  by (relation "measure (\<lambda>(rd, off, len, pos, hash, w). len - pos)") (auto intro: diff_less_mono2 simp: hash_take_bounds)

declare hash_chunks.simps [simp del]

text \<open>On failure the digest is left alone; the callers do not read it then.\<close>

definition flash_hash_range ::
  "(nat \<Rightarrow> 'w \<Rightarrow> bool \<times> 'w) \<Rightarrow> 'w flash_device \<Rightarrow> nat \<Rightarrow> nat \<Rightarrow> 'w \<Rightarrow> int \<times> bytes \<times> 'w" where
  "flash_hash_range mal d off len w =
     (if dev_size d < off \<or> dev_size d - off < len then (- EFBIG, [], w)
      else case mal HASH_CHUNK w of (ok, w) \<Rightarrow>
        if \<not> ok then (- ENOMEM, [], w)
        else case hash_chunks (dev_read d) off len 0 (sha256_init (replicate 64 0)) w of (r, hash, w) \<Rightarrow>
          (r, if r = 0 then fst (sha256_final hash) else [], w))"

section \<open>What a flash device promises\<close>

text \<open>
  \<open>contents w\<close> is what the device holds in the world \<open>w\<close>, \<open>ok\<close> the world's own well-formedness.
  Reads and allocations never change the contents; an erase or a write, whatever its result, changes
  only its range, and a successful erase leaves it all ones. A failed or torn erase or write may
  leave anything in its range: a power cut is the failure of the operation it hits.
\<close>

locale flash_device_laws =
  fixes d :: "'w flash_device"
    and mal :: "nat \<Rightarrow> 'w \<Rightarrow> bool \<times> 'w"
    and contents :: "'w \<Rightarrow> bytes"
    and ok :: "'w \<Rightarrow> bool"
  assumes contents_length: "ok w \<Longrightarrow> length (contents w) = dev_size d"
    and size_64: "dev_size d + dev_erase_size d \<le> 2 ^ 64"
    and read_any: "ok w \<Longrightarrow> dev_read d off n w = (r, bs, w') \<Longrightarrow>
      ok w' \<and> contents w' = contents w \<and> (r = 0 \<longrightarrow> take n (drop off (contents w)) = bs \<and> length bs = n)"
    and erase_law: "ok w \<Longrightarrow> off + n \<le> dev_size d \<Longrightarrow> dev_erase d off n w = (r, w') \<Longrightarrow>
      ok w' \<and> same_outside off n (contents w) (contents w') \<and>
      (r = 0 \<longrightarrow> take n (drop off (contents w')) = replicate n 0xff)"
    and write_law: "ok w \<Longrightarrow> off + length bs \<le> dev_size d \<Longrightarrow> dev_write d off bs w = (r, w') \<Longrightarrow>
      ok w' \<and> same_outside off (length bs) (contents w) (contents w')"
    and malloc_law: "ok w \<Longrightarrow> mal n w = (b, w') \<Longrightarrow> ok w' \<and> contents w' = contents w"

text \<open>An image source over the same world: it reads out the bytes of \<open>image\<close>.\<close>

locale flash_job = flash_device_laws +
  fixes img :: "'w flash_source" and image :: bytes
  assumes src_length: "src_length img = length image"
    and src_law: "ok w \<Longrightarrow> off + n \<le> length image \<Longrightarrow> src_read img off n w = (r, bs, w') \<Longrightarrow>
      ok w' \<and> contents w' = contents w \<and> (r = 0 \<longrightarrow> bs = take n (drop off image))"

context flash_device_laws begin

lemma read_law:
  assumes "ok w" and "off + n \<le> dev_size d" and "dev_read d off n w = (r, bs, w')"
  shows "ok w' \<and> contents w' = contents w \<and> (r = 0 \<longrightarrow> bs = take n (drop off (contents w)))"
  using read_any [OF assms(1,3)] by blast

definition touched :: "nat \<Rightarrow> nat \<Rightarrow> 'w \<Rightarrow> 'w \<Rightarrow> bool" where
  "touched off n w w' \<longleftrightarrow> ok w' \<and> same_outside off n (contents w) (contents w')"

lemma touched_refl: "ok w \<Longrightarrow> touched off n w w"
  by (simp add: touched_def)

lemma touched_trans: "touched off n w w' \<Longrightarrow> touched off n w' w'' \<Longrightarrow> touched off n w w''"
  by (auto simp: touched_def intro: same_outside_trans)

lemma touched_widen: "touched off n w w' \<Longrightarrow> off' \<le> off \<Longrightarrow> off + n \<le> off' + n' \<Longrightarrow> touched off' n' w w'"
  by (auto simp: touched_def intro: same_outside_widen)

lemma touched_ok: "touched off n w w' \<Longrightarrow> ok w'"
  by (simp add: touched_def)

lemma same_touched: "ok w' \<Longrightarrow> contents w' = contents w \<Longrightarrow> touched off n w w'"
  by (simp add: touched_def)

lemma read_touched:
  "ok w \<Longrightarrow> at + n \<le> dev_size d \<Longrightarrow> dev_read d at n w = (r, bs, w') \<Longrightarrow> touched off k w w'"
  using read_law same_touched by blast

lemma erase_touched:
  "ok w \<Longrightarrow> off + n \<le> dev_size d \<Longrightarrow> dev_erase d off n w = (r, w') \<Longrightarrow> touched off n w w'"
  using erase_law by (simp add: touched_def)

lemma write_touched:
  "ok w \<Longrightarrow> off + length bs \<le> dev_size d \<Longrightarrow> dev_write d off bs w = (r, w') \<Longrightarrow>
     touched off (length bs) w w'"
  using write_law by (simp add: touched_def)

lemma program_block_touched:
  assumes "program_block d at want attempt rep w = (r, rep', w')" and "ok w"
    and "at + dev_erase_size d \<le> dev_size d" and "length want = dev_erase_size d"
  shows "touched at (dev_erase_size d) w w' \<and> rep_modified rep'"
  using assms(1,2)
proof (induction "FLASH_WRITE_ATTEMPTS - attempt" arbitrary: attempt rep w rule: less_induct)
  case less
  let ?E = "dev_erase_size d"
  obtain r1 w1 where e: "dev_erase d at ?E w = (r1, w1)" by fastforce
  obtain r2 w2 where wr: "dev_write d at want w1 = (r2, w2)" by fastforce
  obtain r3 bs w3 where rd: "dev_read d at ?E w2 = (r3, bs, w3)" by (metis prod_cases3)
  have t1: "touched at ?E w w1" using erase_touched [OF less.prems(2) assms(3) e] .
  have t2: "touched at ?E w1 w2" using write_touched [OF touched_ok [OF t1] _ wr] assms(3,4) by simp
  have t3: "touched at ?E w2 w3" using read_touched [OF touched_ok [OF t2] assms(3) rd] .
  note t12 = touched_trans [OF t1 t2]
  note t13 = touched_trans [OF t12 t3]
  have "(w' = w1 \<or> w' = w2 \<or> w' = w3) \<and> rep_modified rep' \<or>
      attempt + 1 < FLASH_WRITE_ATTEMPTS \<and> (\<exists>rep2. program_block d at want (attempt + 1) rep2 w3 = (r, rep', w'))"
    using less.prems(1) unfolding program_block.simps [of d at want attempt rep w]
    by (auto simp: e wr rd flash_fail_def Let_def split: if_splits)
  then show ?case
  proof (elim disjE conjE exE)
    fix rep2 assume again: "program_block d at want (attempt + 1) rep2 w3 = (r, rep', w')"
      and "attempt + 1 < FLASH_WRITE_ATTEMPTS"
    then have "touched at ?E w3 w' \<and> rep_modified rep'"
      by (intro less.hyps [OF _ again touched_ok [OF t3]]) simp
    then show ?thesis using touched_trans [OF t13] by blast
  qed (use t1 t12 t13 in simp_all)
qed

end

context flash_job begin

definition padded :: "nat \<Rightarrow> nat \<Rightarrow> bytes" where
  "padded k n = take n (drop k image) @ replicate (n - (length image - k)) 0xff"

lemma length_padded [simp]: "length (padded k n) = n"
  by (simp add: padded_def)

lemma padded_append: "padded k (m + n) = padded k m @ padded (k + m) n"
proof (cases "length image \<le> k + m")
  case True
  then have "replicate (m + n - (length image - k)) (0xff :: byte) =
      replicate (m - (length image - k)) 0xff @ replicate n 0xff"
    by (simp add: replicate_add [symmetric])
  then show ?thesis using True by (simp add: padded_def)
next
  case False
  then show ?thesis by (simp add: padded_def take_drop_append)
qed

lemma load_block_ok:
  assumes "load_block img k n w = (r, bs, w')" and "ok w"
  shows "ok w' \<and> contents w' = contents w \<and> (r = 0 \<longrightarrow> bs = padded k n)"
proof (cases "length image \<le> k")
  case True
  then show ?thesis using assms by (auto simp: load_block_def padded_def src_length)
next
  case False
  let ?n = "if length image - k < n then length image - k else n"
  obtain r1 b1 w1 where rd: "src_read img k ?n w = (r1, b1, w1)" by (metis prod_cases3)
  have "k + ?n \<le> length image" using False by auto
  note law = src_law [OF assms(2) this rd]
  show ?thesis using assms(1) law False
    by (auto simp: load_block_def src_length rd Let_def padded_def patch_def min_def split: if_splits)
qed

lemma write_block_touched:
  assumes "write_block d img off pos rep w = (r, rep', w')" and "ok w"
    and "off + pos + dev_erase_size d \<le> dev_size d"
  shows "touched (off + pos) (dev_erase_size d) w w' \<and>
    (rep_modified rep' \<or> contents w' = contents w) \<and> (rep_modified rep \<longrightarrow> rep_modified rep')"
proof -
  let ?E = "dev_erase_size d"
  obtain r1 want w1 where ld: "load_block img pos ?E w = (r1, want, w1)" by (metis prod_cases3)
  obtain r2 have' w2 where rd: "dev_read d (off + pos) ?E w1 = (r2, have', w2)" by (metis prod_cases3)
  obtain r3 rep3 w3 where pb: "program_block d (off + pos) want 0 rep w2 = (r3, rep3, w3)" by (metis prod_cases3)
  have l: "ok w1" "contents w1 = contents w" "r1 = 0 \<longrightarrow> length want = ?E"
    using load_block_ok [OF ld assms(2)] by auto
  have r: "ok w2" "contents w2 = contents w" using read_law [OF l(1) assms(3) rd] l by auto
  have t1: "touched (off + pos) ?E w w1" and t2: "touched (off + pos) ?E w w2"
    using l r same_touched by blast+
  have p: "r1 = 0 \<Longrightarrow> touched (off + pos) ?E w w3 \<and> rep_modified rep3"
    using program_block_touched [OF pb r(1) assms(3)] l(3) touched_trans [OF t2] by blast
  show ?thesis using assms(1) l r t1 t2 p
    by (auto simp: write_block_def ld rd pb flash_fail_def Let_def split: if_splits)
qed

lemma write_blocks_touched:
  assumes "write_blocks n d img off pos rep w = (r, rep', w')" and "ok w"
    and "off + pos + n * dev_erase_size d \<le> dev_size d"
  shows "touched (off + pos) (n * dev_erase_size d) w w' \<and>
    (rep_modified rep' \<or> contents w' = contents w) \<and> (rep_modified rep \<longrightarrow> rep_modified rep')"
  using assms
proof (induction n arbitrary: pos rep w)
  case 0
  then show ?case by (simp add: touched_refl)
next
  case (Suc n)
  let ?E = "dev_erase_size d"
  obtain r1 rep1 w1 where b: "write_block d img off pos rep w = (r1, rep1, w1)" by (metis prod_cases3)
  have one: "touched (off + pos) ?E w w1 \<and> (rep_modified rep1 \<or> contents w1 = contents w) \<and>
      (rep_modified rep \<longrightarrow> rep_modified rep1)"
    using Suc.prems by (intro write_block_touched [OF b]) simp_all
  then have first: "touched (off + pos) (Suc n * ?E) w w1" by (auto intro: touched_widen)
  show ?case
  proof (cases "r1 = 0")
    case False
    then show ?thesis using Suc.prems(1) one first by (simp add: b)
  next
    case True
    then have rest: "write_blocks n d img off (pos + ?E) rep1 w1 = (r, rep', w')"
      using Suc.prems(1) by (simp add: b)
    have ih: "touched (off + (pos + ?E)) (n * ?E) w1 w' \<and> (rep_modified rep' \<or> contents w' = contents w1) \<and>
        (rep_modified rep1 \<longrightarrow> rep_modified rep')"
      using Suc.prems(3) touched_ok first by (intro Suc.IH [OF rest]) (auto simp: algebra_simps)
    then have "touched (off + pos) (Suc n * ?E) w1 w'" by (auto intro: touched_widen)
    then show ?thesis using ih one touched_trans [OF first] by auto
  qed
qed

lemma take_padded: "take (if length image - k < n then length image - k else n) (padded k n) = take n (drop k image)"
  by (simp add: padded_def)

lemma verify_blocks_ok:
  assumes "verify_blocks n d img off pos hash rep w = (r, hash', rep', w')" and "ok w"
    and "off + pos + n * dev_erase_size d \<le> dev_size d"
  shows "ok w' \<and> contents w' = contents w \<and> rep_modified rep' = rep_modified rep \<and>
    (r = 0 \<longrightarrow> rep' = rep \<and>
       take (n * dev_erase_size d) (drop (off + pos) (contents w)) = padded pos (n * dev_erase_size d) \<and>
       (sha_abs hash (take pos image) \<longrightarrow> sha_abs hash' (take (pos + n * dev_erase_size d) image)))"
  using assms
proof (induction n arbitrary: pos hash w)
  case 0
  then show ?case by (simp add: padded_def)
next
  case (Suc n)
  let ?E = "dev_erase_size d"
  obtain r1 want w1 where ld: "load_block img pos ?E w = (r1, want, w1)" by (metis prod_cases3)
  obtain r2 have' w2 where rd: "dev_read d (off + pos) ?E w1 = (r2, have', w2)" by (metis prod_cases3)
  have l: "ok w1" "contents w1 = contents w" "r1 = 0 \<Longrightarrow> want = padded pos ?E"
    using load_block_ok [OF ld Suc.prems(2)] by auto
  have fits: "off + pos + ?E \<le> dev_size d" using Suc.prems(3) by simp
  have rr: "ok w2" "contents w2 = contents w" "r2 = 0 \<Longrightarrow> have' = take ?E (drop (off + pos) (contents w))"
    using read_law [OF l(1) fits rd] l(2) by auto
  let ?n = "if src_length img - pos < ?E then src_length img - pos else ?E"
  show ?case
  proof (cases "r1 = 0 \<and> r2 = 0 \<and> want = have'")
    case False
    then show ?thesis using Suc.prems(1) l rr
      by (auto simp: ld rd flash_fail_def Let_def split: if_splits)
  next
    case True
    then have rest: "verify_blocks n d img off (pos + ?E) (sha256_update hash (take ?n have')) rep w2 =
        (r, hash', rep', w')"
      using Suc.prems(1) by (simp add: ld rd Let_def)
    have block: "have' = padded pos ?E" "take ?E (drop (off + pos) (contents w)) = padded pos ?E"
      using True l rr by simp_all
    have "take ?n have' = take ?E (drop pos image)"
      unfolding block src_length by (rule take_padded)
    then have sha: "sha_abs hash (take pos image) \<Longrightarrow>
        sha_abs (sha256_update hash (take ?n have')) (take (pos + ?E) image)"
      using sha_abs_update by (simp only: take_add)
    have "off + (pos + ?E) + n * ?E \<le> dev_size d" using Suc.prems(3) by (simp add: algebra_simps)
    from Suc.IH [OF rest rr(1) this] show ?thesis
      using rr(2) sha block(2)
      by (auto simp: take_drop_append padded_append add.assoc)
  qed
qed

abbreviation span :: nat where
  "span \<equiv> (length image + dev_erase_size d - 1) div dev_erase_size d * dev_erase_size d"

lemma flash_write_span_result:
  assumes run: "flash_write_span mal d img off n rep w = (r, rep', w')" and "ok w"
    and fits: "off + n * dev_erase_size d \<le> dev_size d" and covers: "length image \<le> n * dev_erase_size d"
  shows "touched off (n * dev_erase_size d) w w' \<and> (rep_modified rep' \<or> contents w' = contents w) \<and>
    (r = 0 \<longrightarrow> take (n * dev_erase_size d) (drop off (contents w')) = padded 0 (n * dev_erase_size d) \<and>
       rep_sha256 rep' = sha256 image)"
proof -
  let ?E = "dev_erase_size d" and ?S = "n * dev_erase_size d"
  obtain b1 w1 where m1: "mal ?E w = (b1, w1)" by fastforce
  obtain b2 w2 where m2: "mal ?E w1 = (b2, w2)" by fastforce
  obtain r3 rep3 w3 where wr: "write_blocks n d img off 0 rep w2 = (r3, rep3, w3)" by (metis prod_cases3)
  obtain r4 h4 rep4 w4 where vf: "verify_blocks n d img off 0 (sha256_init (replicate 64 0)) rep3 w3 =
      (r4, h4, rep4, w4)" by (metis prod_cases4)
  have ok2: "ok w2" "contents w2 = contents w"
    using malloc_law [OF assms(2) m1] malloc_law [OF _ m2] by auto
  have t2: "touched off ?S w w2" using ok2 same_touched by simp
  have t3: "touched off ?S w w3" "rep_modified rep3 \<or> contents w3 = contents w"
    using write_blocks_touched [OF wr ok2(1)] fits ok2(2) by (auto simp: touched_def)
  have v: "ok w4" "contents w4 = contents w3" "rep_modified rep4 = rep_modified rep3"
    "r4 = 0 \<Longrightarrow> take ?S (drop off (contents w3)) = padded 0 ?S"
    "r4 = 0 \<Longrightarrow> sha_abs (sha256_init (replicate 64 0)) (take 0 image) \<Longrightarrow> sha_abs h4 (take (0 + ?S) image)"
    using verify_blocks_ok [OF vf touched_ok [OF t3(1)]] fits by auto
  have sha: "r4 = 0 \<Longrightarrow> fst (sha256_final h4) = sha256 image"
    using v(5) sha256_final_abs sha_abs_init covers by simp
  have t4: "touched off ?S w w4" using t3(1) v by (simp add: touched_def)
  show ?thesis
    using run ok2(2) t2 t3 t4 v(2,3,4) sha
    by (auto simp: flash_write_span_def m1 m2 wr vf flash_fail_def Let_def split: if_splits)
qed

lemma request_fits:
  assumes "check_request d off (length image) rep = (0, rep')"
  shows "0 < dev_erase_size d \<and> off mod dev_erase_size d = 0 \<and> image \<noteq> [] \<and> off + span \<le> dev_size d \<and>
    wrap64 (length image + dev_erase_size d - 1) = length image + dev_erase_size d - 1 \<and> rep' = rep"
proof -
  let ?E = "dev_erase_size d"
  have c: "0 < ?E" "dev_size d mod ?E = 0" "off mod ?E = 0" "image \<noteq> []" "off + length image \<le> dev_size d"
    "rep' = rep"
    using assms by (auto simp: check_request_def flash_fail_def split: if_splits)
  have "?E dvd dev_size d - off" using c(2,3) by (auto intro: dvd_diff_nat)
  then have "span \<le> dev_size d - off" using c by (intro round_up_le_multiple) simp_all
  moreover have "wrap64 (length image + ?E - 1) = length image + ?E - 1"
    using c size_64 by (intro wrap64_id) simp
  ultimately show ?thesis using c by simp
qed

lemma check_request_failed:
  "check_request d off n rep = (r, rep') \<Longrightarrow> rep_modified rep' = rep_modified rep"
  by (auto simp: check_request_def flash_fail_def Let_def split: if_splits)

lemma flash_write_image_result:
  assumes run: "flash_write_image mal d img off w = (r, rep, w')" and "ok w"
  shows "touched off span w w' \<and> (rep_modified rep \<or> contents w' = contents w) \<and>
    (r = 0 \<longrightarrow> off + span \<le> dev_size d \<and> take span (drop off (contents w')) = padded 0 span \<and>
       rep_sha256 rep = sha256 image)"
proof -
  let ?rep = "zero_report\<lparr>rep_offset := off, rep_length := src_length img, rep_stage := ''done''\<rparr>"
  obtain r0 rep0 where chk: "check_request d off (length image) ?rep = (r0, rep0)" by fastforce
  show ?thesis
  proof (cases "r0 = 0")
    case False
    then have "r = r0" "w' = w" using run chk by (simp_all add: flash_write_image_def src_length Let_def)
    then show ?thesis using False touched_refl [OF assms(2)] by simp
  next
    case True
    note fit = request_fits [OF chk [unfolded True]]
    from run have "flash_write_span mal d img off ((length image + dev_erase_size d - 1) div dev_erase_size d)
        (rep0\<lparr>rep_span := span, rep_blocks := wrap32 (span div dev_erase_size d)\<rparr>) w = (r, rep, w')"
      using chk True fit by (simp add: flash_write_image_def src_length Let_def)
    from flash_write_span_result [OF this assms(2)] show ?thesis
      using fit round_up_ge by blast
  qed
qed

end

text \<open>The same without the vocabulary of the locale.\<close>

context flash_job begin

lemma flash_write_image_post:
  assumes run: "flash_write_image mal d img off w = (r, rep, w')" and "ok w"
  shows "ok w' \<and> same_outside off span (contents w) (contents w') \<and> (\<not> rep_modified rep \<longrightarrow> contents w' = contents w) \<and>
    (r = 0 \<longrightarrow> off + span \<le> dev_size d \<and>
       take span (drop off (contents w')) = image @ replicate (span - length image) 0xff \<and>
       rep_sha256 rep = sha256 image)"
proof -
  have "r = 0 \<Longrightarrow> 0 < dev_erase_size d"
    using run by (cases "dev_erase_size d = 0") (auto simp: flash_write_image_def check_request_def flash_fail_def Let_def)
  then have "r = 0 \<Longrightarrow> length image \<le> span" using round_up_ge by blast
  then show ?thesis
    using flash_write_image_result [OF assms] by (auto simp: touched_def padded_def)
qed

end

section \<open>Hashing a range of the device\<close>

lemma hash_chunks_sound:
  assumes "hash_chunks rd off len pos hash w = (r, hash', w')" and "P w" and "pos \<le> len"
    and law: "\<And>a n w r bs w'. P w \<Longrightarrow> a + n \<le> off + len \<Longrightarrow> rd a n w = (r, bs, w') \<Longrightarrow>
      P w' \<and> (r = 0 \<longrightarrow> bs = take n (drop a data))"
  shows "P w' \<and> (r = 0 \<and> sha_abs hash (take pos (drop off data)) \<longrightarrow> sha_abs hash' (take len (drop off data)))"
  using assms(1-3)
proof (induction "len - pos" arbitrary: pos hash w rule: less_induct)
  case less
  let ?n = "hash_take (len - pos)"
  show ?case
  proof (cases "pos < len")
    case False
    then show ?thesis using less.prems by (simp add: hash_chunks.simps)
  next
    case True
    obtain r1 buf w1 where rd: "rd (off + pos) ?n w = (r1, buf, w1)" by (metis prod_cases3)
    have n: "0 < ?n" "pos + ?n \<le> len" using True hash_take_bounds(1,2) [of "len - pos"] by auto
    have l: "P w1" "r1 = 0 \<Longrightarrow> buf = take ?n (drop (off + pos) data)"
      using law [OF less.prems(2) _ rd] n(2) by auto
    show ?thesis
    proof (cases "r1 = 0")
      case False
      then show ?thesis using less.prems l True by (auto simp: hash_chunks.simps [of rd off] rd Let_def)
    next
      case ok1: True
      then have rest: "hash_chunks rd off len (pos + ?n) (sha256_update hash buf) w1 = (r, hash', w')"
        using less.prems True by (simp add: hash_chunks.simps [of rd off len pos] rd Let_def)
      have ih: "P w' \<and> (r = 0 \<and> sha_abs (sha256_update hash buf) (take (pos + ?n) (drop off data)) \<longrightarrow>
             sha_abs hash' (take len (drop off data)))"
        using n True by (intro less.hyps [OF _ rest l(1)]) auto
      have "take (pos + ?n) (drop off data) = take pos (drop off data) @ buf"
        using l(2) [OF ok1] by (simp only: take_drop_append)
      then show ?thesis using ih sha_abs_update by auto
    qed
  qed
qed

context flash_device_laws begin

lemma hash_chunks_ok:
  assumes "hash_chunks (dev_read d) off len 0 (sha256_init (replicate 64 0)) w = (r, hash, w')" and "ok w"
    and "off + len \<le> dev_size d"
  shows "ok w' \<and> contents w' = contents w \<and> (r = 0 \<longrightarrow> sha_abs hash (take len (drop off (contents w))))"
proof -
  have "(ok w' \<and> contents w' = contents w) \<and>
      (r = 0 \<and> sha_abs (sha256_init (replicate 64 0)) (take 0 (drop off (contents w))) \<longrightarrow>
         sha_abs hash (take len (drop off (contents w))))"
  proof (rule hash_chunks_sound [OF assms(1)])
    fix a n v r bs v'
    assume "ok v \<and> contents v = contents w" and "a + n \<le> off + len" and "dev_read d a n v = (r, bs, v')"
    then show "(ok v' \<and> contents v' = contents w) \<and> (r = 0 \<longrightarrow> bs = take n (drop a (contents w)))"
      using read_law [of v a n r bs v'] assms(3) by auto
  qed (use assms(2) in simp_all)
  then show ?thesis using sha_abs_init [of "replicate 64 0"] by simp
qed

lemma flash_hash_range_ok:
  assumes "flash_hash_range mal d off len w = (r, digest, w')" and "ok w"
  shows "ok w' \<and> contents w' = contents w \<and>
    (r = 0 \<longrightarrow> off + len \<le> dev_size d \<and> digest = sha256 (take len (drop off (contents w))))"
proof (cases "dev_size d < off \<or> dev_size d - off < len")
  case True
  then show ?thesis using assms by (auto simp: flash_hash_range_def)
next
  case False
  then have fits: "off + len \<le> dev_size d" by auto
  obtain b w1 where m: "mal HASH_CHUNK w = (b, w1)" by fastforce
  have law: "ok w1" "contents w1 = contents w" using malloc_law [OF assms(2) m] by auto
  obtain r1 h w2 where hc: "hash_chunks (dev_read d) off len 0 (sha256_init (replicate 64 0)) w1 = (r1, h, w2)"
    by (metis prod_cases3)
  have "ok w2 \<and> contents w2 = contents w1 \<and> (r1 = 0 \<longrightarrow> sha_abs h (take len (drop off (contents w1))))"
    using hash_chunks_ok [OF hc law(1) fits] .
  then show ?thesis using assms(1) False fits law sha256_final_abs
    by (auto simp: flash_hash_range_def m hc split: if_splits)
qed

end

section \<open>A device without faults\<close>

text \<open>Every call succeeds, and programming erased bytes leaves exactly the bytes written.\<close>

locale reliable_flash = flash_device_laws +
  assumes read_reliable: "ok w \<Longrightarrow> off + n \<le> dev_size d \<Longrightarrow> fst (dev_read d off n w) = 0"
    and erase_reliable: "ok w \<Longrightarrow> off + n \<le> dev_size d \<Longrightarrow> fst (dev_erase d off n w) = 0"
    and write_reliable: "ok w \<Longrightarrow> off + length bs \<le> dev_size d \<Longrightarrow>
      take (length bs) (drop off (contents w)) = replicate (length bs) 0xff \<Longrightarrow>
      dev_write d off bs w = (r, w') \<Longrightarrow> r = 0 \<and> take (length bs) (drop off (contents w')) = bs"
    and malloc_reliable: "ok w \<Longrightarrow> fst (mal n w)"

locale reliable_job = flash_job + reliable_flash +
  assumes src_reliable: "ok w \<Longrightarrow> off + n \<le> length image \<Longrightarrow> fst (src_read img off n w) = 0"

lemma hash_chunks_total:
  assumes "P w" and "\<And>a n w. P w \<Longrightarrow> a + n \<le> off + len \<Longrightarrow> fst (rd a n w) = 0 \<and> P (snd (snd (rd a n w)))"
  shows "fst (hash_chunks rd off len pos hash w) = 0"
  using assms(1)
proof (induction "len - pos" arbitrary: pos hash w rule: less_induct)
  case less
  show ?case
  proof (cases "pos < len")
    case False
    then show ?thesis by (simp add: hash_chunks.simps)
  next
    case True
    let ?n = "hash_take (len - pos)"
    have n: "0 < ?n" "off + pos + ?n \<le> off + len" using True hash_take_bounds(1,2) [of "len - pos"] by auto
    obtain r1 buf w1 where rd: "rd (off + pos) ?n w = (r1, buf, w1)" by (metis prod_cases3)
    have "r1 = 0" "P w1" using assms(2) [OF less.prems n(2)] rd by auto
    moreover have "fst (hash_chunks rd off len (pos + ?n) (sha256_update hash buf) w1) = 0"
      using n True \<open>P w1\<close> by (intro less.hyps) auto
    ultimately show ?thesis using True by (simp add: hash_chunks.simps [of rd off len pos] rd Let_def)
  qed
qed

context reliable_flash begin

lemma program_block_reliable:
  assumes ok: "ok w" and fits: "at + dev_erase_size d \<le> dev_size d" and len: "length want = dev_erase_size d"
    and run: "program_block d at want attempt rep w = (r, rep', w')"
  shows "r = 0 \<and> take (length want) (drop at (contents w')) = want"
proof -
  let ?E = "dev_erase_size d"
  obtain r1 w1 where e: "dev_erase d at ?E w = (r1, w1)" by fastforce
  have e1: "r1 = 0" "ok w1" "take ?E (drop at (contents w1)) = replicate ?E 0xff"
    using erase_reliable [OF ok fits] erase_law [OF ok fits e] e by auto
  obtain r2 w2 where wr: "dev_write d at want w1 = (r2, w2)" by fastforce
  have w2: "r2 = 0" "ok w2" "take ?E (drop at (contents w2)) = want"
    using write_reliable [OF e1(2) _ _ wr] write_law [OF e1(2) _ wr] e1 fits len by auto
  obtain r3 bs w3 where rd: "dev_read d at ?E w2 = (r3, bs, w3)" by (metis prod_cases3)
  have "r3 = 0" "contents w3 = contents w2" "bs = want"
    using read_reliable [OF w2(2) fits] read_law [OF w2(2) fits rd] rd w2(3) by auto
  then show ?thesis
    using run w2 e1(1) len unfolding program_block.simps [of d at want attempt rep w] by (auto simp: e wr rd Let_def)
qed

lemma hash_chunks_reliable:
  "ok w \<Longrightarrow> off + len \<le> dev_size d \<Longrightarrow> fst (hash_chunks (dev_read d) off len pos hash w) = 0"
proof (rule hash_chunks_total [of ok])
  fix a n v assume "ok v" and "a + n \<le> off + len" and fits: "off + len \<le> dev_size d"
  then show "fst (dev_read d a n v) = 0 \<and> ok (snd (snd (dev_read d a n v)))"
    using read_reliable [of v a n] read_law [of v a n] by (metis le_trans prod.collapse)
qed

lemma flash_hash_range_reliable:
  assumes "ok w" and "off + len \<le> dev_size d"
  shows "fst (flash_hash_range mal d off len w) = 0"
proof -
  obtain b w1 where m: "mal HASH_CHUNK w = (b, w1)" by fastforce
  have "b" "ok w1" using malloc_law [OF assms(1) m] malloc_reliable [OF assms(1), of HASH_CHUNK] m by auto
  then show ?thesis
    using hash_chunks_reliable [OF \<open>ok w1\<close> assms(2), of 0 "sha256_init (replicate 64 0)"] assms(2)
    by (auto simp: flash_hash_range_def m split_beta)
qed

end

context reliable_job begin

lemma load_block_reliable: "ok w \<Longrightarrow> fst (load_block img k n w) = 0"
proof (cases "length image \<le> k")
  case False
  assume "ok w"
  moreover have "k + (if length image - k < n then length image - k else n) \<le> length image" using False by auto
  ultimately show ?thesis using src_reliable False by (simp add: load_block_def src_length Let_def split_beta)
qed (simp add: load_block_def src_length)

lemma write_block_reliable:
  assumes "write_block d img off pos rep w = (r, rep', w')" and "ok w"
    and fits: "off + pos + dev_erase_size d \<le> dev_size d"
  shows "r = 0 \<and> take (dev_erase_size d) (drop (off + pos) (contents w')) = padded pos (dev_erase_size d)"
proof -
  let ?E = "dev_erase_size d"
  obtain r1 want w1 where ld: "load_block img pos ?E w = (r1, want, w1)" by (metis prod_cases3)
  obtain r2 have' w2 where rd: "dev_read d (off + pos) ?E w1 = (r2, have', w2)" by (metis prod_cases3)
  obtain r3 rep3 w3 where pb: "program_block d (off + pos) want 0 rep w2 = (r3, rep3, w3)" by (metis prod_cases3)
  have l: "r1 = 0" "ok w1" "contents w1 = contents w" "want = padded pos ?E"
    using load_block_reliable [OF assms(2), of pos ?E] load_block_ok [OF ld assms(2)] ld by auto
  have r: "r2 = 0" "ok w2" "contents w2 = contents w" "have' = take ?E (drop (off + pos) (contents w))"
    using read_reliable [OF l(2) fits] read_law [OF l(2) fits rd] rd l(3) by auto
  have p: "r3 = 0 \<and> take (length want) (drop (off + pos) (contents w3)) = want"
    using l(4) by (intro program_block_reliable [OF r(2) fits _ pb]) simp
  show ?thesis using assms(1) l(1,3) l(4) [symmetric] r p by (auto simp: write_block_def ld rd pb Let_def split: if_splits)
qed

lemma write_blocks_reliable:
  assumes "write_blocks n d img off pos rep w = (r, rep', w')" and "ok w"
    and "off + pos + n * dev_erase_size d \<le> dev_size d"
  shows "r = 0 \<and> take (n * dev_erase_size d) (drop (off + pos) (contents w')) = padded pos (n * dev_erase_size d)"
  using assms
proof (induction n arbitrary: pos rep w)
  case 0
  then show ?case by (simp add: padded_def)
next
  case (Suc n)
  let ?E = "dev_erase_size d"
  obtain r1 rep1 w1 where b: "write_block d img off pos rep w = (r1, rep1, w1)" by (metis prod_cases3)
  have fits: "off + pos + ?E \<le> dev_size d" using Suc.prems(3) by simp
  have one: "r1 = 0" "take ?E (drop (off + pos) (contents w1)) = padded pos ?E"
    using write_block_reliable [OF b Suc.prems(2) fits] by auto
  have t: "ok w1" using write_block_touched [OF b Suc.prems(2) fits] touched_ok by blast
  have rest: "write_blocks n d img off (pos + ?E) rep1 w1 = (r, rep', w')" using Suc.prems(1) one(1) by (simp add: b)
  have more: "off + (pos + ?E) + n * ?E \<le> dev_size d" using Suc.prems(3) by (simp add: algebra_simps)
  note ih = Suc.IH [OF rest t more]
  have "same_outside (off + (pos + ?E)) (n * ?E) (contents w1) (contents w')"
    using write_blocks_touched [OF rest t more] by (simp add: touched_def)
  then have "take ?E (drop (off + pos) (contents w')) = padded pos ?E"
    using one(2) by (subst same_outside_range [symmetric]) auto
  then show ?case using ih by (simp add: take_drop_append padded_append add.assoc)
qed

lemma verify_blocks_reliable:
  assumes "ok w" and "off + pos + n * dev_erase_size d \<le> dev_size d"
    and "take (n * dev_erase_size d) (drop (off + pos) (contents w)) = padded pos (n * dev_erase_size d)"
  shows "fst (verify_blocks n d img off pos hash rep w) = 0"
  using assms
proof (induction n arbitrary: pos hash w)
  case 0
  then show ?case by simp
next
  case (Suc n)
  let ?E = "dev_erase_size d"
  obtain r1 want w1 where ld: "load_block img pos ?E w = (r1, want, w1)" by (metis prod_cases3)
  obtain r2 have' w2 where rd: "dev_read d (off + pos) ?E w1 = (r2, have', w2)" by (metis prod_cases3)
  have fits: "off + pos + ?E \<le> dev_size d" using Suc.prems(2) by simp
  have l: "r1 = 0" "ok w1" "contents w1 = contents w" "want = padded pos ?E"
    using load_block_reliable [OF Suc.prems(1), of pos ?E] load_block_ok [OF ld Suc.prems(1)] ld by auto
  have r: "r2 = 0" "ok w2" "contents w2 = contents w" "have' = take ?E (drop (off + pos) (contents w))"
    using read_reliable [OF l(2) fits] read_law [OF l(2) fits rd] rd l(3) by auto
  have lenc: "length (contents w) = dev_size d" using contents_length Suc.prems(1) by simp
  have two: "take ?E (drop (off + pos) (contents w)) = padded pos ?E \<and>
      take (n * ?E) (drop (off + (pos + ?E)) (contents w)) = padded (pos + ?E) (n * ?E)"
    using Suc.prems(3) fits lenc by (simp add: take_drop_append padded_append add.assoc)
  have "fst (verify_blocks n d img off (pos + ?E) h rep w2) = 0" for h
    using two r Suc.prems(2) by (intro Suc.IH) (simp_all add: algebra_simps)
  then show ?case using l r two by (simp add: ld rd Let_def)
qed

lemma flash_write_image_reliable:
  assumes "ok w" and good: "fst (check_request d off (length image) zero_report) = 0"
  shows "fst (flash_write_image mal d img off w) = 0"
proof -
  let ?E = "dev_erase_size d" and ?n = "(length image + dev_erase_size d - 1) div dev_erase_size d"
  let ?rep = "zero_report\<lparr>rep_offset := off, rep_length := src_length img, rep_stage := ''done''\<rparr>"
  have "fst (check_request d off (length image) ?rep) = 0"
    using good by (auto simp: check_request_def flash_fail_def Let_def split: if_splits)
  then obtain rep0 where chk: "check_request d off (length image) ?rep = (0, rep0)" by (metis prod.collapse)
  note fit = request_fits [OF chk]
  define rep1 where "rep1 = rep0\<lparr>rep_span := span, rep_blocks := wrap32 (span div ?E)\<rparr>"
  obtain b1 w1 where m1: "mal ?E w = (b1, w1)" by fastforce
  obtain b2 w2 where m2: "mal ?E w1 = (b2, w2)" by fastforce
  have mm: "b1" "b2" "ok w2"
    using malloc_law [OF assms(1) m1] malloc_law [OF _ m2] malloc_reliable m1 m2 assms(1) by (metis fst_conv)+
  obtain r3 rep3 w3 where wr: "write_blocks ?n d img off 0 rep1 w2 = (r3, rep3, w3)" by (metis prod_cases3)
  have fits: "off + 0 + ?n * ?E \<le> dev_size d" using fit by simp
  have w: "r3 = 0" "take (?n * ?E) (drop (off + 0) (contents w3)) = padded 0 (?n * ?E)" "ok w3"
    using write_blocks_reliable [OF wr mm(3) fits] write_blocks_touched [OF wr mm(3) fits] touched_ok by auto
  have v: "fst (verify_blocks ?n d img off 0 (sha256_init (replicate 64 0)) rep3 w3) = 0"
    using verify_blocks_reliable [OF w(3) fits w(2)] .
  show ?thesis using chk fit v w(1) mm wr
    by (auto simp: flash_write_image_def src_length flash_write_span_def m1 m2 rep1_def Let_def split_beta)
qed

end

section \<open>The counters of the report\<close>

text \<open>These hold of any device at all: no law is needed.\<close>

lemma wrap32_le: "wrap32 n \<le> n"
  by (simp add: wrap32_def)

lemma program_block_counters:
  assumes "program_block d at want attempt rep w = (r, rep', w')"
  shows "rep_blocks rep' = rep_blocks rep \<and> rep_skipped rep' = rep_skipped rep \<and> rep_written rep' = rep_written rep \<and>
    rep_retries rep' \<le> rep_retries rep + (FLASH_WRITE_ATTEMPTS - 1 - attempt)"
  using assms
proof (induction "FLASH_WRITE_ATTEMPTS - attempt" arbitrary: attempt rep w rule: less_induct)
  case less
  obtain r1 w1 where e: "dev_erase d at (dev_erase_size d) w = (r1, w1)" by fastforce
  obtain r2 w2 where wr: "dev_write d at want w1 = (r2, w2)" by fastforce
  obtain r3 bs w3 where rd: "dev_read d at (dev_erase_size d) w2 = (r3, bs, w3)" by (metis prod_cases3)
  let ?again = "rep\<lparr>rep_modified := True, rep_retries := wrap32 (rep_retries rep + 1)\<rparr>"
  have "rep_blocks rep' = rep_blocks rep \<and> rep_skipped rep' = rep_skipped rep \<and> rep_written rep' = rep_written rep \<and> rep_retries rep' = rep_retries rep \<or>
      attempt + 1 < FLASH_WRITE_ATTEMPTS \<and> program_block d at want (attempt + 1) ?again w3 = (r, rep', w')"
    using less.prems unfolding program_block.simps [of d at want attempt rep w]
    by (auto simp: e wr rd flash_fail_def Let_def split: if_splits)
  then show ?case
  proof (elim disjE conjE)
    assume "attempt + 1 < FLASH_WRITE_ATTEMPTS"
      and again: "program_block d at want (attempt + 1) ?again w3 = (r, rep', w')"
    then have "rep_blocks rep' = rep_blocks ?again \<and> rep_skipped rep' = rep_skipped ?again \<and> rep_written rep' = rep_written ?again \<and>
        rep_retries rep' \<le> rep_retries ?again + (FLASH_WRITE_ATTEMPTS - 1 - (attempt + 1))"
      by (intro less.hyps [OF _ again]) simp
    then show ?thesis using wrap32_le [of "rep_retries rep + 1"] \<open>attempt + 1 < FLASH_WRITE_ATTEMPTS\<close> by (simp, linarith)
  qed simp
qed

lemma write_block_counters:
  assumes "write_block d img off pos rep w = (r, rep', w')"
  shows "rep_blocks rep' = rep_blocks rep \<and> rep_retries rep' \<le> rep_retries rep + 2 \<and>
    (r = 0 \<longrightarrow> rep_skipped rep' = wrap32 (rep_skipped rep + 1) \<and> rep_written rep' = rep_written rep \<or>
       rep_skipped rep' = rep_skipped rep \<and> rep_written rep' = wrap32 (rep_written rep + 1))"
proof -
  obtain r1 want w1 where ld: "load_block img pos (dev_erase_size d) w = (r1, want, w1)" by (metis prod_cases3)
  obtain r2 have' w2 where rd: "dev_read d (off + pos) (dev_erase_size d) w1 = (r2, have', w2)" by (metis prod_cases3)
  obtain r3 rep3 w3 where pb: "program_block d (off + pos) want 0 rep w2 = (r3, rep3, w3)" by (metis prod_cases3)
  show ?thesis using assms program_block_counters [OF pb]
    by (auto simp: write_block_def ld rd pb flash_fail_def Let_def split: if_splits)
qed

lemma write_blocks_counters:
  assumes "write_blocks n d img off pos rep w = (r, rep', w')"
    and "rep_skipped rep + rep_written rep + n < 2 ^ 32"
  shows "rep_blocks rep' = rep_blocks rep \<and> rep_retries rep' \<le> rep_retries rep + 2 * n \<and>
    (r = 0 \<longrightarrow> rep_skipped rep' + rep_written rep' = rep_skipped rep + rep_written rep + n)"
  using assms
proof (induction n arbitrary: pos rep w)
  case 0
  then show ?case by simp
next
  case (Suc n)
  obtain r1 rep1 w1 where b: "write_block d img off pos rep w = (r1, rep1, w1)" by (metis prod_cases3)
  note one = write_block_counters [OF b]
  show ?case
  proof (cases "r1 = 0")
    case False
    then show ?thesis using Suc.prems one by (simp add: b)
  next
    case True
    then have "rep_skipped rep1 + rep_written rep1 = rep_skipped rep + rep_written rep + 1"
      using one Suc.prems(2) by (auto simp: wrap_simps)
    moreover have "write_blocks n d img off (pos + dev_erase_size d) rep1 w1 = (r, rep', w')"
      using Suc.prems(1) True by (simp add: b)
    ultimately show ?thesis using Suc.IH [of "pos + dev_erase_size d" rep1 w1] Suc.prems(2) one by auto
  qed
qed

lemma verify_blocks_counters:
  "verify_blocks n d img off pos hash rep w = (r, hash', rep', w') \<Longrightarrow>
   rep_skipped rep' = rep_skipped rep \<and> rep_written rep' = rep_written rep \<and> rep_retries rep' = rep_retries rep \<and>
   rep_blocks rep' = rep_blocks rep"
  by (induction n arbitrary: pos hash w) (auto simp: flash_fail_def Let_def split: if_splits prod.splits)

lemma flash_write_image_counters:
  assumes "flash_write_image mal d img off w = (r, rep, w')"
    and "src_length img + dev_erase_size d \<le> 2 ^ 64" and "(src_length img + dev_erase_size d - 1) div dev_erase_size d < 2 ^ 32"
  shows "rep_retries rep \<le> 2 * rep_blocks rep \<and> (r = 0 \<longrightarrow> rep_skipped rep + rep_written rep = rep_blocks rep)"
proof -
  define n where "n = (src_length img + dev_erase_size d - 1) div dev_erase_size d"
  let ?E = "dev_erase_size d"
  let ?rep = "zero_report\<lparr>rep_offset := off, rep_length := src_length img, rep_stage := ''done''\<rparr>"
  obtain r0 rep0 where chk: "check_request d off (src_length img) ?rep = (r0, rep0)" by fastforce
  have c0: "rep_skipped rep0 = 0 \<and> rep_written rep0 = 0 \<and> rep_retries rep0 = 0 \<and> rep_blocks rep0 = 0"
    using chk by (auto simp: check_request_def flash_fail_def zero_report_def Let_def split: if_splits)
  show ?thesis
  proof (cases "r0 = 0")
    case False
    then show ?thesis using assms(1) c0 chk by (auto simp: flash_write_image_def Let_def)
  next
    case True
    have E: "0 < ?E" using chk True by (auto simp: check_request_def flash_fail_def Let_def split: if_splits)
    have wr: "wrap64 (src_length img + ?E - 1) = src_length img + ?E - 1"
      using assms(2) E by (intro wrap64_id) linarith
    define rep1 where "rep1 = rep0\<lparr>rep_span := n * ?E, rep_blocks := wrap32 n\<rparr>"
    have run: "flash_write_span mal d img off n rep1 w = (r, rep, w')"
      using assms(1) chk True by (simp add: flash_write_image_def wr [unfolded One_nat_def] rep1_def n_def Let_def)
    obtain b1 w1 where m1: "mal ?E w = (b1, w1)" by fastforce
    obtain b2 w2 where m2: "mal ?E w1 = (b2, w2)" by fastforce
    obtain r3 rep3 w3 where wb: "write_blocks n d img off 0 rep1 w2 = (r3, rep3, w3)" by (metis prod_cases3)
    obtain r4 h4 rep4 w4 where vf: "verify_blocks n d img off 0 (sha256_init (replicate 64 0)) rep3 w3 =
        (r4, h4, rep4, w4)" by (metis prod_cases4)
    have b1: "rep_blocks rep1 = n" "rep_retries rep1 = 0" "rep_skipped rep1 = 0" "rep_written rep1 = 0"
      using assms(3) c0 by (simp_all add: rep1_def wrap32_id n_def)
    have w: "rep_retries rep3 \<le> 2 * n" "r3 = 0 \<longrightarrow> rep_skipped rep3 + rep_written rep3 = n"
      using write_blocks_counters [OF wb] b1 assms(3) by (auto simp: n_def)
    have b3: "rep_blocks rep3 = n" using write_blocks_counters [OF wb] b1 assms(3) by (simp add: n_def)
    show ?thesis
      using run w b1 b3 verify_blocks_counters [OF vf]
      by (auto simp: flash_write_span_def m1 m2 wb vf flash_fail_def Let_def split: if_splits)
  qed
qed

end
