(* ===== verification/C_Strings.thy ===== *)
theory C_Strings
  imports Prelude
begin

text \<open>
  The C library calls on text that the sources use: strtoul and strtoull (white space, sign, the 0x
  prefix of base 16, saturation, the end pointer), %u and %x. A C string is the list of its
  characters before the terminating NUL; an end pointer is the number of characters consumed, 0 when
  no number was found. The second half proves that strtoul reads back what printf wrote.
\<close>

lemma drop_step: "drop n l = xs @ ys \<Longrightarrow> drop (n + length xs) l = ys"
  by (metis add.commute append_eq_conv_conj drop_drop)

lemma nth_step: "drop n l = x # ys \<Longrightarrow> l ! n = x"
  by (metis drop_all hd_drop_conv_nth linorder_not_le list.discI list.sel(1))

section \<open>strtoul\<close>

definition is_space :: "char \<Rightarrow> bool" where
  "is_space c = (let n = (of_char c :: nat) in n = 32 \<or> 9 \<le> n \<and> n \<le> 13)"

definition digit_value :: "nat \<Rightarrow> char \<Rightarrow> nat option" where
  "digit_value base c =
     (let n = (of_char c :: nat);
          v = (if 48 \<le> n \<and> n \<le> 57 then n - 48 else if 97 \<le> n \<and> n \<le> 122 then n - 87
               else if 65 \<le> n \<and> n \<le> 90 then n - 55 else base)
      in if v < base then Some v else None)"

definition is_digit :: "nat \<Rightarrow> char \<Rightarrow> bool" where
  "is_digit base c = (digit_value base c \<noteq> None)"

definition digits_value :: "nat \<Rightarrow> string \<Rightarrow> nat" where
  "digits_value base ds = foldl (\<lambda>v c. v * base + the (digit_value base c)) 0 ds"

definition hex_prefix :: "nat \<Rightarrow> string \<Rightarrow> bool" where
  "hex_prefix base s = (case s of
       a # b # c # _ \<Rightarrow> base = 16 \<and> a = CHR ''0'' \<and> (b = CHR ''x'' \<or> b = CHR ''X'') \<and> is_digit 16 c
     | _ \<Rightarrow> False)"

text \<open>
  The value, the characters consumed and whether errno is set to ERANGE, for an unsigned type whose
  greatest value is \<open>limit\<close>. A minus sign negates in the type.
\<close>

definition strtoul :: "nat \<Rightarrow> nat \<Rightarrow> string \<Rightarrow> nat \<times> nat \<times> bool" where
  "strtoul limit base s =
     (let ws = length (takeWhile is_space s);
          s1 = drop ws s;
          sign = (if s1 \<noteq> [] \<and> (hd s1 = CHR ''-'' \<or> hd s1 = CHR ''+'') then 1 else 0);
          neg = (s1 \<noteq> [] \<and> hd s1 = CHR ''-'');
          s2 = drop sign s1;
          pre = (if hex_prefix base s2 then 2 else 0);
          ds = takeWhile (is_digit base) (drop pre s2)
      in if ds = [] then (0, 0, False)
         else let v = digits_value base ds; n = ws + sign + pre + length ds
              in if limit < v then (limit, n, True)
                 else if neg then ((limit + 1 - v) mod (limit + 1), n, False)
                 else (v, n, False))"

abbreviation (input) UINT32_MAX :: nat where "UINT32_MAX \<equiv> 4294967295"
abbreviation (input) UINT64_MAX :: nat where "UINT64_MAX \<equiv> 18446744073709551615"

section \<open>Printing\<close>

definition digit_char :: "nat \<Rightarrow> char" where
  "digit_char d = char_of (if d < 10 then 48 + d else 87 + d)"

function print_nat :: "nat \<Rightarrow> nat \<Rightarrow> string" where
  "print_nat base n = (if n < base \<or> base < 2 then [digit_char n]
     else print_nat base (n div base) @ [digit_char (n mod base)])"
  by pat_completeness auto
termination by (relation "measure snd") auto

declare print_nat.simps [simp del]

text \<open>%0wx and %0wo.\<close>

definition print_padded :: "nat \<Rightarrow> nat \<Rightarrow> nat \<Rightarrow> string" where
  "print_padded w base n = (let s = print_nat base n in replicate (w - length s) CHR ''0'' @ s)"

definition print_int :: "int \<Rightarrow> string" where
  "print_int i = (if i < 0 then CHR ''-'' # print_nat 10 (nat (- i)) else print_nat 10 (nat i))"

section \<open>Reading back what was printed\<close>

lemma of_char_digit_char: "d < 16 \<Longrightarrow> (of_char (digit_char d) :: nat) = (if d < 10 then 48 + d else 87 + d)"
  by (simp add: digit_char_def)

lemma digit_value_char [simp]: "d < base \<Longrightarrow> base \<le> 16 \<Longrightarrow> digit_value base (digit_char d) = Some d"
  by (simp add: digit_value_def of_char_digit_char Let_def)

lemma is_digit_char [simp]: "d < base \<Longrightarrow> base \<le> 16 \<Longrightarrow> is_digit base (digit_char d)"
  by (simp add: is_digit_def)

lemma print_nat_nonempty [simp]: "print_nat base n \<noteq> []"
  by (subst print_nat.simps) simp

lemma print_nat_digits: "2 \<le> base \<Longrightarrow> base \<le> 16 \<Longrightarrow> c \<in> set (print_nat base n) \<Longrightarrow> is_digit base c"
proof (induction base n rule: print_nat.induct)
  case (1 base n)
  then show ?case by (subst (asm) (2) print_nat.simps) (auto split: if_splits)
qed

lemma digits_value_snoc: "digits_value base (ds @ [c]) = digits_value base ds * base + the (digit_value base c)"
  by (simp add: digits_value_def)

lemma digits_value_cons:
  "digits_value base (c # ds) = the (digit_value base c) * base ^ length ds + digits_value base ds"
proof (induction ds rule: rev_induct)
  case Nil
  then show ?case by (simp add: digits_value_def)
next
  case (snoc d ds)
  show ?case using snoc digits_value_snoc [of base "c # ds" d] by (simp add: digits_value_snoc algebra_simps)
qed

lemma digits_value_print: "2 \<le> base \<Longrightarrow> base \<le> 16 \<Longrightarrow> digits_value base (print_nat base n) = n"
proof (induction base n rule: print_nat.induct)
  case (1 base n)
  show ?case
  proof (cases "n < base")
    case True
    then show ?thesis using 1 by (simp add: print_nat.simps [of base n] digits_value_def)
  next
    case False
    then show ?thesis using 1 by (simp add: print_nat.simps [of base n] digits_value_snoc)
  qed
qed

lemma digit_value_zero: "0 < base \<Longrightarrow> digit_value base (CHR ''0'') = Some 0"
  by (simp add: digit_value_def Let_def)

lemma digits_value_zeros: "0 < base \<Longrightarrow> digits_value base (replicate k CHR ''0'' @ ds) = digits_value base ds"
  by (induction k) (simp_all add: digits_value_def digit_value_zero)

text \<open>A number in front of a character that is no digit (and no x) is read as it was printed.\<close>

lemma is_digit_not_special: "is_digit base c \<Longrightarrow> \<not> is_space c \<and> c \<noteq> CHR ''-'' \<and> c \<noteq> CHR ''+''"
  by (auto simp: is_digit_def digit_value_def is_space_def Let_def split: if_splits)

lemma x_no_hex_digit: "\<not> is_digit 16 CHR ''x''" "\<not> is_digit 16 CHR ''X''"
  by (simp_all add: is_digit_def digit_value_def Let_def)

lemma strtoul_digits:
  assumes ds: "ds \<noteq> []" "\<forall>c\<in>set ds. is_digit base c" and rest: "rest = [] \<or> \<not> is_digit base (hd rest)"
    and x: "base = 16 \<Longrightarrow> rest = [] \<or> hd rest \<noteq> CHR ''x'' \<and> hd rest \<noteq> CHR ''X''"
    and sp: "\<forall>c\<in>set sp. is_space c" and lim: "digits_value base ds \<le> limit"
  shows "strtoul limit base (sp @ ds @ rest) = (digits_value base ds, length sp + length ds, False)"
proof -
  have h: "is_digit base (hd ds)" using ds by (cases ds) auto
  have "takeWhile is_space (sp @ ds @ rest) = sp"
    using sp h ds(1) is_digit_not_special by (cases ds) (auto simp: takeWhile_append)
  moreover have "takeWhile (is_digit base) (ds @ rest) = ds"
    using ds rest by (cases rest) (auto simp: takeWhile_append)
  moreover have "\<not> hex_prefix base (ds @ rest)"
    using ds x x_no_hex_digit rest by (auto simp: hex_prefix_def append_eq_Cons_conv split: list.splits)
  moreover have "hd (ds @ rest) \<noteq> CHR ''-''" "hd (ds @ rest) \<noteq> CHR ''+''"
    using ds(1) is_digit_not_special [OF h] by simp_all
  moreover have "\<not> limit < digits_value base ds" using lim by simp
  ultimately show ?thesis using ds(1) unfolding strtoul_def Let_def by simp
qed

lemma strtoul_print:
  assumes "2 \<le> base" "base \<le> 16" and "rest = [] \<or> \<not> is_digit base (hd rest)"
    and "base = 16 \<Longrightarrow> rest = [] \<or> hd rest \<noteq> CHR ''x'' \<and> hd rest \<noteq> CHR ''X''"
    and "\<forall>c\<in>set sp. is_space c" and "n \<le> limit"
  shows "strtoul limit base (sp @ print_padded w base n @ rest) =
    (n, length sp + length (print_padded w base n), False)"
proof -
  have v: "digits_value base (print_padded w base n) = n"
    using assms by (simp add: print_padded_def Let_def digits_value_zeros digits_value_print)
  show ?thesis
    using assms print_nat_digits [of base _ n] digit_value_zero [of base]
    by (subst strtoul_digits) (auto simp: v, auto simp: print_padded_def Let_def is_digit_def)
qed

lemma print_padded_0: "print_padded 0 base n = print_nat base n"
  by (simp add: print_padded_def)

end
