(* ===== verification/Mtd_Table.thy ===== *)
theory Mtd_Table
  imports C_Strings
begin

text \<open>
  The partition table of \<^verbatim>\<open>/proc/mtd\<close> as \<^verbatim>\<open>flasher/mtd_table.c\<close> reads it: a line scanner over C
  pointers (kept as offsets from the start of the line) and the search for the one entry with an
  index or a name. The code runs on 32-bit ARM: unsigned long has 32 bits.
\<close>

section \<open>Code\<close>

record mtd_entry =
  entry_index :: nat
  entry_size :: nat
  entry_erase_size :: nat
  entry_name :: string

abbreviation (input) MTD_NAME_SIZE :: nat where "MTD_NAME_SIZE \<equiv> 64"

text \<open>\<open>s\<close> is the text from the line on, up to the NUL; the line ends at offset \<open>n\<close>.\<close>

definition parse_line :: "string \<Rightarrow> nat \<Rightarrow> int + mtd_entry" where
  "parse_line s n =
     (if n < 4 \<or> take 3 s \<noteq> ''mtd'' then Inl (- EINVAL)
      else case strtoul UINT32_MAX 10 (drop 3 s) of (index, k, _) \<Rightarrow>
      let cursor = 3 + k in
      if k = 0 \<or> n \<le> cursor \<or> s ! cursor \<noteq> CHR '':'' then Inl (- EINVAL)
      else let field = cursor + 1 in
      case strtoul UINT64_MAX 16 (drop field s) of (sz, k, _) \<Rightarrow>
      let cursor = field + k in
      if k = 0 \<or> n \<le> cursor then Inl (- EINVAL)
      else case strtoul UINT64_MAX 16 (drop cursor s) of (erase, k, _) \<Rightarrow>
      let cursor = cursor + k in
      if k = 0 \<or> n \<le> cursor \<or> erase = 0 \<or> UINT32_MAX < erase then Inl (- EINVAL)
      else let cursor = cursor + length (takeWhile (\<lambda>c. c = CHR '' '') (take (n - cursor) (drop cursor s))) in
      if n \<le> cursor \<or> s ! cursor \<noteq> CHR 0x22 then Inl (- EINVAL)
      else let name = take (n - (cursor + 1)) (drop (cursor + 1) s);
               quoted = takeWhile (\<lambda>c. c \<noteq> CHR 0x22) name in
      if length quoted = length name \<or> MTD_NAME_SIZE \<le> length quoted then Inl (- EINVAL)
      else Inr \<lparr>entry_index = index, entry_size = sz, entry_erase_size = erase, entry_name = quoted\<rparr>)"

definition line_length :: "string \<Rightarrow> nat" where
  "line_length s = length (takeWhile (\<lambda>c. c \<noteq> CHR 0x0A) s)"

function find_entry :: "(mtd_entry \<Rightarrow> bool) \<Rightarrow> string \<Rightarrow> mtd_entry option \<Rightarrow> int + mtd_entry" where
  "find_entry match line found =
     (if line = [] then (case found of Some e \<Rightarrow> Inr e | None \<Rightarrow> Inl (- ENOENT))
      else let n = line_length line; next_line = drop (n + 1) line in
        case parse_line line n of
          Inl _ \<Rightarrow> find_entry match next_line found
        | Inr candidate \<Rightarrow>
            if match candidate
            then if found \<noteq> None then Inl (- EINVAL) else find_entry match next_line (Some candidate)
            else find_entry match next_line found)"
  by pat_completeness auto
termination by (relation "measure (\<lambda>(match, line, found). length line)") auto

declare find_entry.simps [simp del]

definition mtd_table_find :: "string \<Rightarrow> nat \<Rightarrow> int + mtd_entry" where
  "mtd_table_find text index = find_entry (\<lambda>e. entry_index e = index) text None"

definition mtd_table_find_name :: "string \<Rightarrow> string \<Rightarrow> int + mtd_entry" where
  "mtd_table_find_name text name = find_entry (\<lambda>e. entry_name e = name) text None"

section \<open>What the search finds\<close>

text \<open>The entries of a text, line by line.\<close>

function table_entries :: "string \<Rightarrow> mtd_entry list" where
  "table_entries line =
     (if line = [] then []
      else (case parse_line line (line_length line) of Inl _ \<Rightarrow> [] | Inr e \<Rightarrow> [e]) @
        table_entries (drop (line_length line + 1) line))"
  by pat_completeness auto
termination by (relation "measure length") auto

declare table_entries.simps [simp del]

definition unique_entry :: "(mtd_entry \<Rightarrow> bool) \<Rightarrow> mtd_entry list \<Rightarrow> int + mtd_entry" where
  "unique_entry match es = (case filter match es of
     [] \<Rightarrow> Inl (- ENOENT) | [e] \<Rightarrow> Inr e | _ \<Rightarrow> Inl (- EINVAL))"

lemma find_entry_eq:
  "find_entry match line found = (case found of
     None \<Rightarrow> unique_entry match (table_entries line)
   | Some e \<Rightarrow> if filter match (table_entries line) = [] then Inr e else Inl (- EINVAL))"
proof (induction match line found rule: find_entry.induct)
  case (1 match line found)
  show ?case
  proof (cases "line = []")
    case True
    then show ?thesis
      by (auto simp: find_entry.simps table_entries.simps unique_entry_def split: option.splits)
  next
    case False
    show ?thesis
      using False "1.IH" [OF False refl refl]
      by (auto simp: find_entry.simps [of match line] table_entries.simps [of line] unique_entry_def Let_def
          split: option.splits sum.splits list.splits)
  qed
qed

lemma unique_entry_iff:
  "unique_entry match es = Inr e \<longleftrightarrow> filter match es = [e]"
  by (auto simp: unique_entry_def split: list.splits)

section \<open>A table as the kernel prints it\<close>

definition mtd_line :: "mtd_entry \<Rightarrow> string" where
  "mtd_line e = ''mtd'' @ print_nat 10 (entry_index e) @ '': '' @ print_padded 8 16 (entry_size e) @ '' '' @
     print_padded 8 16 (entry_erase_size e) @ '' '' @ [CHR 0x22] @ entry_name e @ [CHR 0x22, CHR 0x0A]"

definition proc_mtd :: "mtd_entry list \<Rightarrow> string" where
  "proc_mtd es = ''dev:    size   erasesize  name'' @ [CHR 0x0A] @ concat (map mtd_line es)"

definition entry_ok :: "mtd_entry \<Rightarrow> bool" where
  "entry_ok e \<longleftrightarrow> entry_index e \<le> UINT32_MAX \<and> entry_size e \<le> UINT64_MAX \<and> 0 < entry_erase_size e \<and>
     entry_erase_size e \<le> UINT32_MAX \<and> length (entry_name e) < MTD_NAME_SIZE \<and>
     CHR 0x22 \<notin> set (entry_name e) \<and> CHR 0x0A \<notin> set (entry_name e)"

lemma print_padded_nonempty [simp]: "print_padded w base n \<noteq> []"
  by (simp add: print_padded_def Let_def)

lemma newline_no_digit: "\<not> is_digit base CHR 0x0A"
  by (simp add: is_digit_def digit_value_def Let_def)

lemma newline_not_printed: "2 \<le> base \<Longrightarrow> base \<le> 16 \<Longrightarrow> CHR 0x0A \<notin> set (print_nat base n)"
  using print_nat_digits newline_no_digit by blast

lemma newline_not_padded: "2 \<le> base \<Longrightarrow> base \<le> 16 \<Longrightarrow> CHR 0x0A \<notin> set (print_padded w base n)"
  using newline_not_printed by (auto simp: print_padded_def Let_def)

lemma line_length_mtd_line: "entry_ok e \<Longrightarrow> line_length (mtd_line e @ rest) = length (mtd_line e) - 1"
proof -
  assume ok: "entry_ok e"
  define body where "body = butlast (mtd_line e)"
  have line: "mtd_line e = body @ [CHR 0x0A]"
    by (simp add: body_def mtd_line_def butlast_append)
  have "CHR 0x0A \<notin> set body"
    using ok newline_not_printed newline_not_padded
    by (auto simp: body_def mtd_line_def butlast_append entry_ok_def)
  then show ?thesis by (auto simp: line_length_def line takeWhile_append)
qed

lemma parse_mtd_line:
  assumes ok: "entry_ok e"
  shows "parse_line (mtd_line e @ rest) (length (mtd_line e) - 1) = Inr e"
proof -
  define i s z where "i = print_nat 10 (entry_index e)"
    and "s = print_padded 8 16 (entry_size e)" and "z = print_padded 8 16 (entry_erase_size e)"
  let ?q = "[CHR 0x22]" and ?tail = "CHR 0x22 # CHR 0x0A # rest"
  let ?n = "length (mtd_line e) - 1"
  have line: "mtd_line e @ rest = ''mtd'' @ i @ '': '' @ s @ '' '' @ z @ '' '' @ ?q @ entry_name e @ ?tail"
    by (simp add: mtd_line_def i_def s_def z_def)
  have n: "?n = 9 + length i + length s + length z + length (entry_name e)"
    by (simp add: mtd_line_def i_def s_def z_def)
  have ne: "i \<noteq> []" "s \<noteq> []" "z \<noteq> []" by (simp_all add: i_def s_def z_def)
  have si: "strtoul UINT32_MAX 10 (i @ '': '' @ t) = (entry_index e, length i, False)" for t
    using strtoul_print [of 10 "'': '' @ t" "[]" "entry_index e" UINT32_MAX 0] ok
    by (simp add: i_def print_padded_0 entry_ok_def is_digit_def digit_value_def Let_def)
  have ss: "strtoul UINT64_MAX 16 ('' '' @ s @ '' '' @ t) = (entry_size e, 1 + length s, False)" for t
    using strtoul_print [of 16 "'' '' @ t" "'' ''" "entry_size e" UINT64_MAX 8] ok
    by (simp add: s_def entry_ok_def is_digit_def digit_value_def is_space_def Let_def)
  have sz: "strtoul UINT64_MAX 16 ('' '' @ z @ '' '' @ t) = (entry_erase_size e, 1 + length z, False)" for t
    using strtoul_print [of 16 "'' '' @ t" "'' ''" "entry_erase_size e" UINT64_MAX 8] ok
    by (simp add: z_def entry_ok_def is_digit_def digit_value_def is_space_def Let_def)
  define l where "l = mtd_line e @ rest"
  have d0: "take 3 l = ''mtd''" "drop 3 l = i @ '': '' @ s @ '' '' @ z @ '' '' @ ?q @ entry_name e @ ?tail"
    by (simp_all add: l_def line)
  note d1 = drop_step [OF d0(2)]
  have d2: "drop (3 + length i + 1) l = ('' '' @ s) @ '' '' @ z @ '' '' @ ?q @ entry_name e @ ?tail"
    using drop_step [of "3 + length i" l "'':''"] d1 by simp
  have d3: "drop (3 + length i + 1 + (1 + length s)) l = ('' '' @ z) @ '' '' @ ?q @ entry_name e @ ?tail"
    using drop_step [OF d2] by simp
  have d4: "drop (3 + length i + 1 + (1 + length s) + (1 + length z)) l = '' '' @ ?q @ entry_name e @ ?tail"
    using drop_step [OF d3] by simp
  have d5: "drop (3 + length i + 1 + (1 + length s) + (1 + length z) + 1) l = ?q @ entry_name e @ ?tail"
    using drop_step [of _ l "'' ''", OF d4] by simp
  note d6 = drop_step [OF d5]
  have colon: "l ! (3 + length i) = CHR '':''" and quote: "l ! (3 + length i + 1 + (1 + length s) + (1 + length z) + 1) = CHR 0x22"
    using nth_step d1 d5 by auto
  have lens: "0 < length i" "0 < length s" "0 < length z" using ne by auto
  have one: "strtoul UINT32_MAX 10 (drop 3 l) = (entry_index e, length i, False)" using si d0(2) by simp
  have two: "strtoul UINT64_MAX 16 (drop (3 + length i + 1) l) = (entry_size e, 1 + length s, False)"
    using ss d2 by simp
  have three: "strtoul UINT64_MAX 16 (drop (3 + length i + 1 + (1 + length s)) l) = (entry_erase_size e, 1 + length z, False)"
    using sz d3 by simp
  have name: "takeWhile (\<lambda>c. c \<noteq> CHR 0x22) (entry_name e @ ?q) = entry_name e"
    using ok by (auto simp: entry_ok_def takeWhile_append)
  define c4 where "c4 = 3 + length i + 1 + (1 + length s) + (1 + length z)"
  have m4: "9 + length i + length s + length z + length (entry_name e) = c4 + 3 + length (entry_name e)"
    by (simp add: c4_def)
  have sp: "takeWhile (\<lambda>c. c = CHR '' '') (take (c4 + 3 + length (entry_name e) - c4) ('' '' @ ?q @ entry_name e @ ?tail)) = '' ''"
    by (simp add: take_Cons')
  have nm: "take (c4 + 3 + length (entry_name e) - (c4 + length '' '' + 1)) (drop (c4 + length '' '' + 1) l) = entry_name e @ ?q"
    using d6 by (simp add: c4_def)
  have c4: "3 + length i < c4" "3 + length i + 1 + (1 + length s) < c4" "length i > 0" "l ! (c4 + length '' '') = CHR 0x22"
    using lens quote by (simp_all add: c4_def)
  show ?thesis
    unfolding parse_line_def l_def [symmetric] n m4 one two three prod.case Let_def d4 [folded c4_def] c4_def [symmetric] sp nm name
    using ok d0(1) colon c4 by (simp add: entry_ok_def)
qed

lemma table_entries_lines: "\<forall>e\<in>set es. entry_ok e \<Longrightarrow> table_entries (concat (map mtd_line es)) = es"
proof (induction es)
  case Nil
  then show ?case by (simp add: table_entries.simps)
next
  case (Cons e es)
  have "mtd_line e \<noteq> []" by (simp add: mtd_line_def)
  then show ?case using Cons
    by (simp add: table_entries.simps [of "mtd_line e @ _"] line_length_mtd_line parse_mtd_line [unfolded One_nat_def] Suc_leI)
qed

lemma table_entries_proc: "\<forall>e\<in>set es. entry_ok e \<Longrightarrow> table_entries (proc_mtd es) = es"
proof -
  assume "\<forall>e\<in>set es. entry_ok e"
  moreover have "line_length (proc_mtd es) = 30" by (simp add: proc_mtd_def line_length_def)
  moreover have "parse_line (proc_mtd es) 30 = Inl (- EINVAL)" by (simp add: proc_mtd_def parse_line_def)
  ultimately show ?thesis
    by (simp add: table_entries.simps [of "proc_mtd es"] table_entries_lines) (simp add: proc_mtd_def table_entries_lines)
qed

lemma mtd_find_proc:
  assumes "\<forall>e\<in>set es. entry_ok e" and "distinct (map entry_index es)"
  shows "mtd_table_find (proc_mtd es) i = Inr e \<longleftrightarrow> e \<in> set es \<and> entry_index e = i"
proof -
  have "mtd_table_find (proc_mtd es) i = Inr e \<longleftrightarrow> filter (\<lambda>e. entry_index e = i) es = [e]"
    using assms(1) by (simp add: mtd_table_find_def find_entry_eq table_entries_proc unique_entry_iff)
  also have "\<dots> \<longleftrightarrow> e \<in> set es \<and> entry_index e = i"
    using assms(2)
  proof (induction es)
    case (Cons a es)
    show ?case
    proof (cases "entry_index a = i")
      case True
      have none: "\<forall>x\<in>set es. entry_index x \<noteq> i"
      proof
        fix x assume "x \<in> set es"
        then have "entry_index x \<in> entry_index ` set es" by (rule imageI)
        then show "entry_index x \<noteq> i" using True Cons.prems by (auto simp del: image_iff)
      qed
      then have "filter (\<lambda>e. entry_index e = i) es = []" by (simp add: filter_empty_conv)
      then show ?thesis using True none by auto
    next
      case False
      then show ?thesis using Cons by auto
    qed
  qed simp
  finally show ?thesis .
qed

section \<open>Properties\<close>

text \<open>
  On a table as the kernel prints it, the search by index finds exactly the entry with that
  index, with its size, erase size and name, and the search by name finds an entry exactly when the
  name is unique, and otherwise tells a missing name (-ENOENT) from an ambiguous one (-EINVAL).
\<close>

theorem mtd_table_finds:
  assumes "\<forall>e\<in>set es. entry_ok e" and "distinct (map entry_index es)"
  shows "(mtd_table_find (proc_mtd es) i = Inr e \<longleftrightarrow> e \<in> set es \<and> entry_index e = i) \<and>
    mtd_table_find_name (proc_mtd es) nm = unique_entry (\<lambda>e. entry_name e = nm) es"
  using mtd_find_proc [OF assms] assms(1)
  by (simp add: mtd_table_find_name_def find_entry_eq table_entries_proc)

definition example_mtd :: "mtd_entry list" where
  "example_mtd =
     [\<lparr>entry_index = 0, entry_size = 0x60000, entry_erase_size = 0x1000, entry_name = ''boot''\<rparr>,
      \<lparr>entry_index = 5, entry_size = 0x500000, entry_erase_size = 0x1000, entry_name = ''res''\<rparr>]"

theorem mtd_table_finds_witness:
  "mtd_table_find (proc_mtd example_mtd) 5 = Inr (example_mtd ! 1) \<and>
   mtd_table_find_name (proc_mtd example_mtd) ''res'' = Inr (example_mtd ! 1) \<and>
   mtd_table_find_name (proc_mtd example_mtd) ''data'' = Inl (- ENOENT)"
  using mtd_table_finds [of example_mtd 5 "example_mtd ! 1" "''res''"]
    mtd_table_finds [of example_mtd 5 "example_mtd ! 1" "''data''"]
  by (simp add: example_mtd_def entry_ok_def unique_entry_def)

end
