(* ===== verification/Mtd_Device.thy ===== *)
theory Mtd_Device
  imports Flash_Write Mtd_Table
begin

text \<open>
  The MTD character device behind the flash writer (\<^verbatim>\<open>flasher/mtd_device.c\<close>): the exact read and write
  loops over pread and pwrite, the erase call, opening a device and finding one by name. The kernel is
  a world \<open>mtd_world\<close>: the bytes of the NOR chip, the bytes of the image file, and a script that says
  how each system call (or malloc) ends. An empty script means that every call succeeds; programming
  NOR flash can only clear bits. The theory ends with the interpretations of the interfaces of
  \<open>Flash_Write\<close> on this device.
\<close>

section \<open>The world\<close>

text \<open>
  How a system call ends: in full; with an errno and no effect; after \<open>n\<close> bytes; with an errno after
  leaving anything in its range (an erase or write cut off); or reporting success after leaving
  anything in its range (worn flash).
\<close>

datatype outcome = Fine | Errno int | Short nat | Torn int bytes | Corrupt bytes

record mtd_world =
  chip :: bytes
  image_file :: bytes
  script :: "outcome list"

definition next_outcome :: "mtd_world \<Rightarrow> outcome \<times> mtd_world" where
  "next_outcome w = (case script w of [] \<Rightarrow> (Fine, w) | c # cs \<Rightarrow> (c, w\<lparr>script := cs\<rparr>))"

definition fill :: "nat \<Rightarrow> bytes \<Rightarrow> bytes" where
  "fill n g = take n (g @ replicate n 0)"

text \<open>Programming clears bits.\<close>

definition program :: "nat \<Rightarrow> bytes \<Rightarrow> bytes \<Rightarrow> bytes" where
  "program off bs c = patch c off (map2 (AND) (take (length bs) (drop off c)) bs)"

definition sys_malloc :: "nat \<Rightarrow> mtd_world \<Rightarrow> bool \<times> mtd_world" where
  "sys_malloc n w = (case next_outcome w of (c, w) \<Rightarrow>
     (case c of Errno _ \<Rightarrow> False | Torn _ _ \<Rightarrow> False | _ \<Rightarrow> True, w))"

definition sys_pread :: "(mtd_world \<Rightarrow> bytes) \<Rightarrow> nat \<Rightarrow> nat \<Rightarrow> mtd_world \<Rightarrow> (int + bytes) \<times> mtd_world" where
  "sys_pread data off n w =
     (let avail = take n (drop off (data w))
      in case next_outcome w of (c, w) \<Rightarrow>
         (case c of Errno e \<Rightarrow> Inl e | Torn e _ \<Rightarrow> Inl e | Short k \<Rightarrow> Inr (take k avail) | _ \<Rightarrow> Inr avail, w))"

text \<open>A write to the chip: the number of bytes taken.\<close>

definition sys_pwrite :: "nat \<Rightarrow> bytes \<Rightarrow> mtd_world \<Rightarrow> (int + nat) \<times> mtd_world" where
  "sys_pwrite off bs w =
     (case next_outcome w of (c, w) \<Rightarrow>
        let room = length (chip w) - off; avail = take room bs
        in if room = 0 then (Inl ENOSPC, w)
           else case c of
             Fine \<Rightarrow> (Inr (length avail), w\<lparr>chip := program off avail (chip w)\<rparr>)
           | Short k \<Rightarrow> (Inr (length (take k avail)), w\<lparr>chip := program off (take k avail) (chip w)\<rparr>)
           | Errno e \<Rightarrow> (Inl e, w)
           | Torn e g \<Rightarrow> (Inl e, w\<lparr>chip := patch (chip w) off (fill (length avail) g)\<rparr>)
           | Corrupt g \<Rightarrow> (Inr (length avail), w\<lparr>chip := patch (chip w) off (fill (length avail) g)\<rparr>))"

definition sys_memerase :: "nat \<Rightarrow> nat \<Rightarrow> mtd_world \<Rightarrow> int \<times> mtd_world" where
  "sys_memerase start len w =
     (case next_outcome w of (c, w) \<Rightarrow>
        if length (chip w) < start + len then (EINVAL, w)
        else case c of
          Errno e \<Rightarrow> (e, w)
        | Torn e g \<Rightarrow> (e, w\<lparr>chip := patch (chip w) start (fill len g)\<rparr>)
        | _ \<Rightarrow> (0, w\<lparr>chip := patch (chip w) start (replicate len 0xff)\<rparr>))"

lemma next_outcome_script: "next_outcome w = (c, w') \<Longrightarrow> c \<noteq> Fine \<Longrightarrow> length (script w') < length (script w)"
  by (auto simp: next_outcome_def split: list.splits)

lemma next_outcome_script_le: "next_outcome w = (c, w') \<Longrightarrow> length (script w') \<le> length (script w)"
  by (auto simp: next_outcome_def split: list.splits)

lemma sys_pread_script:
  "sys_pread data off n w = (x, w') \<Longrightarrow> length (script w') \<le> length (script w) \<and>
     (isl x \<longrightarrow> length (script w') < length (script w)) \<and> (\<forall>bs. x = Inr bs \<longrightarrow> length bs \<le> n)"
  by (auto simp: sys_pread_def Let_def split: prod.splits outcome.splits
      dest: next_outcome_script next_outcome_script_le)

lemma sys_pwrite_script:
  "sys_pwrite off bs w = (x, w') \<Longrightarrow> length (script w') \<le> length (script w) \<and>
     (isl x \<and> x \<noteq> Inl ENOSPC \<longrightarrow> length (script w') < length (script w)) \<and> (\<forall>k. x = Inr k \<longrightarrow> k \<le> length bs)"
  by (auto simp: sys_pwrite_def Let_def split: prod.splits outcome.splits if_splits
      dest: next_outcome_script next_outcome_script_le)

section \<open>Exact reads and writes\<close>

function fd_read_exact :: "(mtd_world \<Rightarrow> bytes) \<Rightarrow> nat \<Rightarrow> nat \<Rightarrow> mtd_world \<Rightarrow> int \<times> bytes \<times> mtd_world" where
  "fd_read_exact data off n w =
     (if n = 0 then (0, [], w)
      else case sys_pread data off n w of (x, w') \<Rightarrow>
        case x of
          Inl e \<Rightarrow> if e = EINTR then fd_read_exact data off n w' else (- e, [], w')
        | Inr bs \<Rightarrow>
            if bs = [] then (- EIO, [], w')
            else case fd_read_exact data (off + length bs) (n - length bs) w' of (r, bs', w'') \<Rightarrow>
              (r, bs @ bs', w''))"
  by pat_completeness auto
termination
proof (relation "measure (\<lambda>(data, off, n, w). n + length (script w))", goal_cases)
  case (2 data off n w x w' e)
  then show ?case using sys_pread_script [of data off n w x w'] by simp
next
  case (3 data off n w x w' bs)
  then show ?case using sys_pread_script [of data off n w x w'] by (cases bs) auto
qed simp

function fd_write_exact :: "nat \<Rightarrow> bytes \<Rightarrow> mtd_world \<Rightarrow> int \<times> mtd_world" where
  "fd_write_exact off bs w =
     (if bs = [] then (0, w)
      else case sys_pwrite off bs w of (x, w') \<Rightarrow>
        case x of
          Inl e \<Rightarrow> if e = EINTR then fd_write_exact off bs w' else (- e, w')
        | Inr count \<Rightarrow> if count = 0 then (- EIO, w') else fd_write_exact (off + count) (drop count bs) w')"
  by pat_completeness auto
termination
proof (relation "measure (\<lambda>(off, bs, w). length bs + length (script w))", goal_cases)
  case (2 off bs w x w' e)
  then show ?case using sys_pwrite_script [of off bs w x w'] by simp
next
  case (3 off bs w x w' count)
  then show ?case using sys_pwrite_script [of off bs w x w'] by auto
qed simp

declare fd_read_exact.simps [simp del] fd_write_exact.simps [simp del]

section \<open>The device\<close>

definition mtd_erase :: "nat \<Rightarrow> nat \<Rightarrow> mtd_world \<Rightarrow> int \<times> mtd_world" where
  "mtd_erase off len w =
     (if UINT32_MAX < off then (- EINVAL, w)
      else case sys_memerase off len w of (e, w) \<Rightarrow> (if e \<noteq> 0 then - e else 0, w))"

definition mtd_read :: "nat \<Rightarrow> nat \<Rightarrow> mtd_world \<Rightarrow> int \<times> bytes \<times> mtd_world" where
  "mtd_read off n w = fd_read_exact chip off n w"

definition mtd_write :: "nat \<Rightarrow> bytes \<Rightarrow> mtd_world \<Rightarrow> int \<times> mtd_world" where
  "mtd_write off bs w = fd_write_exact off bs w"

text \<open>The device struct of a handle; MEMGETINFO gives 32-bit sizes.\<close>

definition mtd_flash :: "32 word \<Rightarrow> 32 word \<Rightarrow> mtd_world flash_device" where
  "mtd_flash sz erase_sz =
     \<lparr>dev_size = unat sz, dev_erase_size = unat erase_sz, dev_erase = mtd_erase, dev_read = mtd_read,
      dev_write = mtd_write\<rparr>"

text \<open>The image source: a range of a file (\<^verbatim>\<open>range_read\<close>; \<^verbatim>\<open>file_read\<close> is the range at 0).\<close>

definition range_read :: "nat \<Rightarrow> nat \<Rightarrow> nat \<Rightarrow> mtd_world \<Rightarrow> int \<times> bytes \<times> mtd_world" where
  "range_read start off n w = fd_read_exact image_file (wrap64 (start + off)) n w"

definition range_source :: "nat \<Rightarrow> nat \<Rightarrow> mtd_world flash_source" where
  "range_source start len = \<lparr>src_length = len, src_read = range_read start\<rparr>"

section \<open>The exact loops are exact\<close>

definition script_ok :: "mtd_world \<Rightarrow> bool" where
  "script_ok w = (\<forall>c\<in>set (script w). case c of Errno e \<Rightarrow> 0 < e | Torn e _ \<Rightarrow> 0 < e | _ \<Rightarrow> True)"

lemma script_ok_chip [simp]: "script_ok (w\<lparr>chip := c\<rparr>) = script_ok w"
  by (simp add: script_ok_def)

lemma next_outcome_ok:
  assumes "next_outcome w = (c, w')" and "script_ok w"
  shows "script_ok w' \<and> chip w' = chip w \<and> image_file w' = image_file w \<and>
    (\<forall>e. c = Errno e \<longrightarrow> 0 < e) \<and> (\<forall>e g. c = Torn e g \<longrightarrow> 0 < e)"
  using assms by (auto simp: next_outcome_def script_ok_def split: list.splits)

lemma length_fill [simp]: "length (fill n g) = n"
  by (simp add: fill_def)

lemma malloc_ok: "sys_malloc n w = (b, w') \<Longrightarrow> script_ok w \<Longrightarrow>
    script_ok w' \<and> chip w' = chip w \<and> image_file w' = image_file w"
  by (auto simp: sys_malloc_def dest: next_outcome_ok split: prod.splits)

text \<open>What a read is of: the chip or the file, not the script.\<close>

definition plain_data :: "(mtd_world \<Rightarrow> bytes) \<Rightarrow> bool" where
  "plain_data data = (\<forall>w w'. chip w' = chip w \<and> image_file w' = image_file w \<longrightarrow> data w' = data w)"

lemma plain_dataD:
  "plain_data data \<Longrightarrow> chip w' = chip w \<Longrightarrow> image_file w' = image_file w \<Longrightarrow> data w' = data w"
  unfolding plain_data_def by blast

lemma plain_data [simp]: "plain_data chip" "plain_data image_file"
  by (simp_all add: plain_data_def)

lemma sys_pread_ok:
  assumes "sys_pread data off n w = (x, w')" and "script_ok w"
  shows "script_ok w' \<and> chip w' = chip w \<and> image_file w' = image_file w \<and>
    (case x of Inl e \<Rightarrow> 0 < e | Inr bs \<Rightarrow> take (length bs) (drop off (data w)) = bs \<and> length bs \<le> n)"
proof -
  obtain c w1 where c: "next_outcome w = (c, w1)" by fastforce
  show ?thesis using assms(1) next_outcome_ok [OF c assms(2)]
    by (cases c) (auto simp: sys_pread_def c min_def)
qed

lemma fd_read_exact_ok:
  assumes "fd_read_exact data off n w = (r, bs, w')" and "script_ok w" and "plain_data data"
  shows "script_ok w' \<and> chip w' = chip w \<and> image_file w' = image_file w \<and> r \<le> 0 \<and>
    (r = 0 \<longrightarrow> bs = take n (drop off (data w)) \<and> length bs = n)"
  using assms
proof (induction data off n w arbitrary: r bs w' rule: fd_read_exact.induct)
  case (1 data off n w)
  show ?case
  proof (cases "n = 0")
    case True
    then show ?thesis using "1.prems" by (simp add: fd_read_exact.simps)
  next
    case False
    obtain x w1 where x: "sys_pread data off n w = (x, w1)" by fastforce
    note law = sys_pread_ok [OF x "1.prems"(2)]
    have same: "data w1 = data w" using law plain_dataD [OF "1.prems"(3)] by blast
    show ?thesis
    proof (cases x)
      case (Inl e)
      show ?thesis
      proof (cases "e = EINTR")
        case True
        then have "fd_read_exact data off n w1 = (r, bs, w')"
          using "1.prems"(1) False Inl by (simp add: fd_read_exact.simps [of data off n w] x)
        then have "script_ok w' \<and> chip w' = chip w1 \<and> image_file w' = image_file w1 \<and> r \<le> 0 \<and>
            (r = 0 \<longrightarrow> bs = take n (drop off (data w1)) \<and> length bs = n)"
          using "1.IH"(1) [OF False x [symmetric] Inl True _ _ "1.prems"(3)] law by blast
        with law show ?thesis unfolding same by metis
      next
        case no: False
        then show ?thesis
          using "1.prems"(1) False Inl law by (simp add: fd_read_exact.simps [of data off n w] x)
      qed
    next
      case (Inr part)
      show ?thesis
      proof (cases "part = []")
        case True
        then show ?thesis using "1.prems" law False Inr by (simp add: fd_read_exact.simps [of data off n w] x)
      next
        case some: False
        obtain r2 bs2 w2 where rec: "fd_read_exact data (off + length part) (n - length part) w1 = (r2, bs2, w2)"
          by (metis prod_cases3)
        have out: "r = r2" "bs = part @ bs2" "w' = w2"
          using "1.prems"(1) False some Inr by (simp_all add: fd_read_exact.simps [of data off n w] x rec)
        have whole: "r2 = 0 \<Longrightarrow> part @ bs2 = take n (drop off (data w))"
          using "1.IH"(2) [OF False x [symmetric] Inr some rec _ "1.prems"(3)] law Inr same
          by (simp add: take_drop_split [of "length part" n off])
        have rest: "script_ok w2 \<and> chip w2 = chip w1 \<and> image_file w2 = image_file w1 \<and> r2 \<le> 0 \<and>
            (r2 = 0 \<longrightarrow> length bs2 = n - length part)"
          using "1.IH"(2) [OF False x [symmetric] Inr some rec conjunct1 [OF law] "1.prems"(3)] by blast
        have "length part \<le> n" using law Inr by simp
        then have "r2 = 0 \<Longrightarrow> length (part @ bs2) = n" using rest by simp
        then show ?thesis using law rest whole unfolding out by metis
      qed
    qed
  qed
qed

lemma length_program [simp]: "off + length bs \<le> length c \<Longrightarrow> length (program off bs c) = length c"
  by (simp add: program_def)

lemma same_outside_program: "off + length bs \<le> length c \<Longrightarrow> same_outside off (length bs) c (program off bs c)"
proof -
  assume le: "off + length bs \<le> length c"
  then have "length (map2 (AND) (take (length bs) (drop off c)) bs) = length bs" by simp
  then show ?thesis
    using same_outside_patch [of off "map2 (AND) (take (length bs) (drop off c)) bs" c] le
    unfolding program_def by metis
qed

lemma sys_pwrite_ok:
  assumes "sys_pwrite off bs w = (x, w')" and "script_ok w" and "off + length bs \<le> length (chip w)"
  shows "script_ok w' \<and> image_file w' = image_file w \<and> same_outside off (length bs) (chip w) (chip w') \<and>
    (case x of Inl e \<Rightarrow> 0 < e | Inr k \<Rightarrow> k \<le> length bs)"
proof -
  obtain c w1 where c: "next_outcome w = (c, w1)" by fastforce
  note law = next_outcome_ok [OF c assms(2)]
  have part: "same_outside off (length bs) (chip w) (program off (take k bs) (chip w))" for k
    using assms(3) by (intro same_outside_widen [OF same_outside_program]) auto
  have torn: "same_outside off (length bs) (chip w) (patch (chip w) off (fill (length bs) g))" for g
    using same_outside_patch [of off "fill (length bs) g" "chip w"] assms(3) by simp
  show ?thesis using assms(1,3) law part torn part [of "length bs"]
    by (cases c) (auto simp: sys_pwrite_def c Let_def split: if_splits)
qed

lemma fd_write_exact_ok:
  assumes "fd_write_exact off bs w = (r, w')" and "script_ok w" and "off + length bs \<le> length (chip w)"
  shows "script_ok w' \<and> image_file w' = image_file w \<and> same_outside off (length bs) (chip w) (chip w') \<and> r \<le> 0"
  using assms
proof (induction off bs w arbitrary: r w' rule: fd_write_exact.induct)
  case (1 off bs w)
  show ?case
  proof (cases "bs = []")
    case True
    then show ?thesis using "1.prems" by (simp add: fd_write_exact.simps)
  next
    case False
    obtain x w1 where x: "sys_pwrite off bs w = (x, w1)" by fastforce
    note law = sys_pwrite_ok [OF x "1.prems"(2,3)]
    have len: "length (chip w1) = length (chip w)" using law same_outside_length by metis
    show ?thesis
    proof (cases x)
      case (Inl e)
      show ?thesis
      proof (cases "e = EINTR")
        case True
        then have "fd_write_exact off bs w1 = (r, w')"
          using "1.prems"(1) False Inl by (simp add: fd_write_exact.simps [of off bs w] x)
        then show ?thesis
          using "1.IH"(1) [OF False x [symmetric] Inl True] law len "1.prems"(3) same_outside_trans by auto
      next
        case no: False
        then show ?thesis
          using "1.prems"(1) False Inl law by (simp add: fd_write_exact.simps [of off bs w] x)
      qed
    next
      case (Inr k)
      show ?thesis
      proof (cases "k = 0")
        case True
        then show ?thesis using "1.prems"(1) False Inr law by (simp add: fd_write_exact.simps [of off bs w] x)
      next
        case some: False
        have rec: "fd_write_exact (off + k) (drop k bs) w1 = (r, w')"
          using "1.prems"(1) False some Inr by (simp add: fd_write_exact.simps [of off bs w] x)
        have ih: "script_ok w' \<and> image_file w' = image_file w1 \<and>
            same_outside (off + k) (length (drop k bs)) (chip w1) (chip w') \<and> r \<le> 0"
          using law len "1.prems"(3) Inr by (intro "1.IH"(2) [OF False x [symmetric] Inr some rec]) auto
        then have "same_outside off (length bs) (chip w1) (chip w')"
          using law Inr by (auto intro: same_outside_widen)
        then show ?thesis using ih law same_outside_trans by auto
      qed
    qed
  qed
qed

section \<open>The device keeps the promises of a flash device\<close>

text \<open>A chip of the size MEMGETINFO gave, and the image in the file, at \<open>start\<close>.\<close>

definition chip_ok :: "32 word \<Rightarrow> mtd_world \<Rightarrow> bool" where
  "chip_ok sz w \<longleftrightarrow> script_ok w \<and> length (chip w) = unat sz"

definition job_ok :: "32 word \<Rightarrow> nat \<Rightarrow> bytes \<Rightarrow> mtd_world \<Rightarrow> bool" where
  "job_ok sz start img w \<longleftrightarrow> chip_ok sz w \<and> start + length img < 2 ^ 64 \<and>
     take (length img) (drop start (image_file w)) = img"

definition fine_ok :: "32 word \<Rightarrow> nat \<Rightarrow> bytes \<Rightarrow> mtd_world \<Rightarrow> bool" where
  "fine_ok sz start img w \<longleftrightarrow> job_ok sz start img w \<and> script w = []"

lemma mtd_read_law:
  assumes "chip_ok sz w" and "mtd_read off n w = (r, bs, w')"
  shows "chip_ok sz w' \<and> chip w' = chip w \<and> image_file w' = image_file w \<and>
    (r = 0 \<longrightarrow> take n (drop off (chip w)) = bs \<and> length bs = n)"
  using fd_read_exact_ok [of chip off n w r bs w'] assms unfolding mtd_read_def chip_ok_def by (metis plain_data(1))

lemma mtd_write_law:
  assumes "chip_ok sz w" and "off + length bs \<le> unat sz" and "mtd_write off bs w = (r, w')"
  shows "chip_ok sz w' \<and> image_file w' = image_file w \<and> same_outside off (length bs) (chip w) (chip w')"
  using fd_write_exact_ok [of off bs w r w'] assms same_outside_length [of off "length bs" "chip w" "chip w'"]
  by (auto simp: mtd_write_def chip_ok_def)

lemma same_outside_patch_n: "length ys = n \<Longrightarrow> off + n \<le> length xs \<Longrightarrow> same_outside off n xs (patch xs off ys)"
  using same_outside_patch by blast

lemma mtd_erase_law:
  assumes "chip_ok sz w" and "off + n \<le> unat sz" and "mtd_erase off n w = (r, w')"
  shows "chip_ok sz w' \<and> image_file w' = image_file w \<and> same_outside off n (chip w) (chip w') \<and>
    (r = 0 \<longrightarrow> take n (drop off (chip w')) = replicate n 0xff)"
proof -
  have small: "\<not> UINT32_MAX < off" using assms(2) unsigned_less [where ?'a = nat, of sz] by simp
  have fits: "off + n \<le> length (chip w)" using assms by (simp add: chip_ok_def)
  obtain c w1 where c: "next_outcome w = (c, w1)" by fastforce
  have law: "script_ok w1 \<and> chip w1 = chip w \<and> image_file w1 = image_file w \<and>
      (\<forall>e. c = Errno e \<longrightarrow> 0 < e) \<and> (\<forall>e g. c = Torn e g \<longrightarrow> 0 < e)"
    using next_outcome_ok [OF c] assms(1) by (simp add: chip_ok_def)
  have erased: "take n (drop off (patch (chip w) off (replicate n 0xff))) = replicate n 0xff"
    using take_drop_patch [of off "chip w" "replicate n 0xff"] fits by simp
  show ?thesis using assms(1,3) law small fits erased
    by (cases c) (auto simp: mtd_erase_def sys_memerase_def c chip_ok_def intro!: same_outside_patch_n)
qed

lemma range_read_law:
  assumes "job_ok sz start img w" and "off + n \<le> length img" and "range_read start off n w = (r, bs, w')"
  shows "job_ok sz start img w' \<and> chip w' = chip w \<and> (r = 0 \<longrightarrow> bs = take n (drop off img))"
proof -
  have "start + off < 2 ^ 64" using assms(1,2) by (simp add: job_ok_def)
  then have run: "fd_read_exact image_file (start + off) n w = (r, bs, w')"
    using assms(3) by (simp add: range_read_def wrap64_id)
  have img: "take n (drop (start + off) (image_file w)) = take n (drop off img)"
  proof -
    have "take n (drop off img) = take n (drop off (take (length img) (drop start (image_file w))))"
      using assms(1) by (simp add: job_ok_def)
    also have "\<dots> = take n (drop (start + off) (image_file w))"
      using assms(2) by (simp add: drop_take add.commute min_def)
    finally show ?thesis by simp
  qed
  show ?thesis using fd_read_exact_ok [OF run] assms(1) img by (auto simp: job_ok_def chip_ok_def)
qed

lemma sys_malloc_law:
  "chip_ok sz w \<Longrightarrow> sys_malloc n w = (b, w') \<Longrightarrow> chip_ok sz w' \<and> chip w' = chip w \<and> image_file w' = image_file w"
  using malloc_ok [of n w b w'] by (auto simp: chip_ok_def)

lemma two_words_64: "unat (sz :: 32 word) + unat (erase_sz :: 32 word) \<le> 2 ^ 64"
  using unsigned_less [where ?'a = nat, of sz] unsigned_less [where ?'a = nat, of erase_sz] by simp

lemma mtd_flash_sel [simp]:
  "dev_size (mtd_flash sz erase_sz) = unat sz" "dev_erase_size (mtd_flash sz erase_sz) = unat erase_sz"
  "dev_erase (mtd_flash sz erase_sz) = mtd_erase" "dev_read (mtd_flash sz erase_sz) = mtd_read"
  "dev_write (mtd_flash sz erase_sz) = mtd_write"
  by (simp_all add: mtd_flash_def)

lemma range_source_sel [simp]:
  "src_length (range_source start n) = n" "src_read (range_source start n) = range_read start"
  by (simp_all add: range_source_def)

interpretation mtd: flash_device_laws "mtd_flash sz erase_sz" sys_malloc chip "chip_ok sz"
  for sz erase_sz
proof (unfold_locales, goal_cases)
  case 1 then show ?case by (simp add: chip_ok_def)
next
  case 2 then show ?case using two_words_64 by simp
next
  case (3 w off n r bs w') then show ?case using mtd_read_law [of sz w off n r bs w'] by simp
next
  case (4 w off n r w') then show ?case using mtd_erase_law [of sz w off n r w'] by simp
next
  case (5 w off bs r w') then show ?case using mtd_write_law [of sz w off bs r w'] by simp
next
  case (6 w n b w') then show ?case using sys_malloc_law [of sz w n b w'] by simp
qed

lemma job_ok_step: "job_ok sz start img w \<Longrightarrow> chip_ok sz w' \<Longrightarrow> image_file w' = image_file w \<Longrightarrow> job_ok sz start img w'"
  by (simp add: job_ok_def)

lemma job_ok_chip: "job_ok sz start img w \<Longrightarrow> chip_ok sz w"
  by (simp add: job_ok_def)

interpretation mtd_job: flash_job "mtd_flash sz erase_sz" sys_malloc chip "job_ok sz start img"
  "range_source start (length img)" img
  for sz erase_sz start img
proof (unfold_locales, goal_cases)
  case 1 then show ?case by (simp add: job_ok_def chip_ok_def)
next
  case 2 then show ?case using two_words_64 by simp
next
  case (3 w off n r bs w') then show ?case
    using mtd_read_law [OF job_ok_chip, of sz start img w off n r bs w'] job_ok_step [of sz start img w w'] by simp
next
  case (4 w off n r w') then show ?case
    using mtd_erase_law [OF job_ok_chip, of sz start img w off n r w'] job_ok_step [of sz start img w w'] by simp
next
  case (5 w off bs r w') then show ?case
    using mtd_write_law [OF job_ok_chip, of sz start img w off bs r w'] job_ok_step [of sz start img w w'] by simp
next
  case (6 w n b w') then show ?case
    using sys_malloc_law [OF job_ok_chip, of sz start img w n b w'] job_ok_step [of sz start img w w'] by simp
next
  case 7 then show ?case by simp
next
  case (8 w off n r bs w') then show ?case using range_read_law [of sz start img w off n r bs w'] by simp
qed

section \<open>Without faults\<close>

lemma next_outcome_fine: "script w = [] \<Longrightarrow> next_outcome w = (Fine, w)"
  by (simp add: next_outcome_def)

lemma fd_read_exact_fine:
  "script w = [] \<Longrightarrow> n = 0 \<or> off + n \<le> length (data w) \<Longrightarrow> fd_read_exact data off n w = (0, take n (drop off (data w)), w)"
  by (auto simp: fd_read_exact.simps [of data off n w] fd_read_exact.simps [of data _ 0] sys_pread_def next_outcome_fine)

lemma fd_write_exact_fine:
  "script w = [] \<Longrightarrow> off + length bs \<le> length (chip w) \<Longrightarrow>
     fd_write_exact off bs w = (0, w\<lparr>chip := program off bs (chip w)\<rparr>)"
  by (cases bs) (auto simp: fd_write_exact.simps [of off] fd_write_exact.simps [of _ "[]"] sys_pwrite_def
      next_outcome_fine program_def)

lemma byte_and_ff: "(0xff :: byte) AND b = b"
proof -
  have "(0xff :: byte) = - 1" by simp
  then show ?thesis by (simp only: and.left_neutral)
qed

lemma program_erased:
  assumes "take (length bs) (drop off c) = replicate (length bs) (0xff :: byte)" and "off + length bs \<le> length c"
  shows "take (length bs) (drop off (program off bs c)) = bs"
proof -
  have "map2 (AND) (replicate (length xs) (0xff :: byte)) xs = xs" for xs
    by (induction xs) (simp_all add: byte_and_ff)
  then have "map2 (AND) (take (length bs) (drop off c)) bs = bs" using assms(1) by simp
  then show ?thesis using take_drop_patch [of off c bs] assms(2) by (simp add: program_def)
qed

lemma fine_okD: "fine_ok sz start img w \<Longrightarrow> job_ok sz start img w \<and> script w = []"
  by (simp add: fine_ok_def)

lemma job_ok_file:
  assumes "job_ok sz start img w" and "off + n \<le> length img"
  shows "n = 0 \<or> start + off + n \<le> length (image_file w)"
proof -
  have "length (take (length img) (drop start (image_file w))) = length img" using assms(1) by (simp add: job_ok_def)
  then show ?thesis using assms(2) by (auto simp: min_def split: if_splits)
qed

lemma fine_read: "fine_ok sz start img w \<Longrightarrow> off + n \<le> unat sz \<Longrightarrow>
    mtd_read off n w = (0, take n (drop off (chip w)), w)"
  by (simp add: mtd_read_def fine_ok_def job_ok_def chip_ok_def fd_read_exact_fine)

lemma sys_pread_fine: "script w = [] \<Longrightarrow> sys_pread data off n w = (Inr (take n (drop off (data w))), w)"
  by (simp add: sys_pread_def next_outcome_fine)

lemma fd_read_exact_fine_world: "fd_read_exact data off n w = (r, bs, w') \<Longrightarrow> script w = [] \<Longrightarrow> w' = w"
proof (induction data off n w arbitrary: r bs w' rule: fd_read_exact.induct)
  case (1 data off n w)
  show ?case
  proof (cases "n = 0 \<or> take n (drop off (data w)) = []")
    case True
    then show ?thesis using "1.prems" by (auto simp: fd_read_exact.simps [of data _ n w] sys_pread_fine split: if_splits)
  next
    case False
    then show ?thesis
      using "1.prems" "1.IH"(2) [OF _ sys_pread_fine [OF "1.prems"(2), symmetric] refl] "1.prems"(2)
      by (auto simp: fd_read_exact.simps [of data off n w] sys_pread_fine simp del: length_take split: prod.splits)
  qed
qed

lemma fine_read_script: "fine_ok sz start img w \<Longrightarrow> mtd_read off n w = (r, bs, w') \<Longrightarrow> fine_ok sz start img w'"
  using fd_read_exact_fine_world [of chip off n w r bs w'] by (auto simp: mtd_read_def fine_ok_def)

lemma fine_erase: "fine_ok sz start img w \<Longrightarrow> off + n \<le> unat sz \<Longrightarrow>
    mtd_erase off n w = (0, w\<lparr>chip := patch (chip w) off (replicate n 0xff)\<rparr>)"
  using unsigned_less [where ?'a = nat, of sz]
  by (simp add: mtd_erase_def sys_memerase_def fine_ok_def job_ok_def chip_ok_def next_outcome_fine)

lemma fine_write: "fine_ok sz start img w \<Longrightarrow> off + length bs \<le> unat sz \<Longrightarrow>
    mtd_write off bs w = (0, w\<lparr>chip := program off bs (chip w)\<rparr>)"
  by (simp add: mtd_write_def fine_ok_def job_ok_def chip_ok_def fd_write_exact_fine)

lemma fine_malloc: "fine_ok sz start img w \<Longrightarrow> sys_malloc n w = (True, w)"
  by (simp add: fine_ok_def sys_malloc_def next_outcome_fine)

lemma fine_source: "fine_ok sz start img w \<Longrightarrow> off + n \<le> length img \<Longrightarrow>
    range_read start off n w = (0, take n (drop (start + off) (image_file w)), w)"
  using job_ok_file [of sz start img w off n]
  by (simp add: range_read_def fine_ok_def fd_read_exact_fine wrap64_id job_ok_def)

lemma fine_ok_chip:
  "fine_ok sz start img w \<Longrightarrow> length c = length (chip w) \<Longrightarrow> fine_ok sz start img (w\<lparr>chip := c\<rparr>)"
  by (simp add: fine_ok_def job_ok_def chip_ok_def)

lemma fine_ok_job: "fine_ok sz start img w \<Longrightarrow> job_ok sz start img w"
  by (simp add: fine_ok_def)

lemma fine_length: "fine_ok sz start img w \<Longrightarrow> length (chip w) = unat sz"
  by (simp add: fine_ok_def job_ok_def chip_ok_def)

interpretation mtd_fine: reliable_job "mtd_flash sz erase_sz" sys_malloc chip "fine_ok sz start img"
  "range_source start (length img)" img
  for sz erase_sz start img
proof (unfold_locales, goal_cases)
  case 1 then show ?case by (simp add: fine_length)
next
  case 2 then show ?case using two_words_64 by simp
next
  case (3 w off n r bs w') then show ?case
    using mtd_read_law [OF job_ok_chip [OF fine_ok_job], of sz start img w off n r bs w']
      fine_read_script [of sz start img w off n r bs w'] by simp
next
  case (4 w off n r w') then show ?case
    using fine_erase [of sz start img w off n] mtd_erase_law [OF job_ok_chip [OF fine_ok_job], of sz start img w off n r w']
      fine_ok_chip [of sz start img w "patch (chip w) off (replicate n 0xff)"] fine_length [of sz start img w]
    by auto
next
  case (5 w off bs r w') then show ?case
    using fine_write [of sz start img w off bs] mtd_write_law [OF job_ok_chip [OF fine_ok_job], of sz start img w off bs r w']
      fine_ok_chip [of sz start img w "program off bs (chip w)"] fine_length [of sz start img w]
    by auto
next
  case (6 w n b w') then show ?case by (simp add: fine_malloc)
next
  case 7 then show ?case by simp
next
  case (8 w off n r bs w') then show ?case
    using range_read_law [OF fine_ok_job, of sz start img w off n r bs w'] by (auto simp: fine_source)
next
  case (9 w off n) then show ?case by (simp add: fine_read)
next
  case (10 w off n) then show ?case by (simp add: fine_erase)
next
  case (11 w off bs r w') then show ?case
    by (auto simp: fine_write fine_length program_erased)
next
  case (12 w n) then show ?case by (simp add: fine_malloc)
next
  case (13 w off n) then show ?case by (simp add: fine_source)
qed

section \<open>Properties of the flash writer\<close>

definition example_world :: "outcome list \<Rightarrow> mtd_world" where
  "example_world cs = \<lparr>chip = replicate 16 0xa5, image_file = [9, 1, 2, 3, 4, 5, 9], script = cs\<rparr>"

lemma example_script_ok: "script_ok (example_world [])" "script_ok (example_world [Short 1, Errno 4, Fine])"
    "script_ok (example_world [Fine, Fine, Fine, Fine, Torn 5 [1, 2]])"
  by (simp_all add: script_ok_def example_world_def)

lemma example_job_ok: "script_ok (example_world cs) \<Longrightarrow> job_ok 16 1 [1, 2, 3, 4, 5] (example_world cs)"
  by (simp add: job_ok_def chip_ok_def) (simp add: example_world_def)

lemma example_fine_ok: "fine_ok 16 1 [1, 2, 3, 4, 5] (example_world [])"
  using example_job_ok [OF example_script_ok(1)] by (simp add: fine_ok_def) (simp add: example_world_def)

text \<open>
  The exact loops: whatever the script of short counts, EINTR and errors, fd_read_exact returns 0
  only with exactly the bytes asked for, and otherwise a negated errno, and it changes nothing.
\<close>

theorem fd_read_exact_exact:
  assumes "fd_read_exact chip off n w = (r, bs, w')" and "script_ok w"
  shows "chip w' = chip w \<and> r \<le> 0 \<and> (r = 0 \<longrightarrow> bs = take n (drop off (chip w)) \<and> length bs = n)"
  using fd_read_exact_ok [OF assms plain_data(1)] by blast

theorem fd_read_exact_exact_witness:
  "\<exists>r bs w'. fd_read_exact chip 1 3 (example_world [Short 1, Errno 4, Fine]) = (r, bs, w') \<and> chip w' = replicate 16 0xa5 \<and>
     (r = 0 \<longrightarrow> bs = replicate 3 0xa5)"
proof -
  obtain r bs w' where run: "fd_read_exact chip 1 3 (example_world [Short 1, Errno 4, Fine]) = (r, bs, w')"
    by (metis prod_cases3)
  have "take 3 (drop 1 (chip (example_world [Short 1, Errno 4, Fine]))) = replicate 3 0xa5"
    "chip (example_world [Short 1, Errno 4, Fine]) = replicate 16 0xa5"
    by (simp_all add: example_world_def)
  with fd_read_exact_exact [OF run example_script_ok(2)] run show ?thesis by metis
qed

text \<open>
  C14. Success of flash_write_image means what it says, on every world of faults: when it returns 0, the
  span of whole blocks at the offset holds the image followed by erased bytes, the rest of the chip is
  as it was, and the reported digest is the SHA-256 of the image.
\<close>

theorem flash_write_success:
  assumes "job_ok sz start img w" and "span = (length img + unat erase_sz - 1) div unat erase_sz * unat erase_sz"
    and "flash_write_image sys_malloc (mtd_flash sz erase_sz) (range_source start (length img)) off w = (0, rep, w')"
  shows "take span (drop off (chip w')) = img @ replicate (span - length img) 0xff \<and>
    same_outside off span (chip w) (chip w') \<and> rep_sha256 rep = sha256 img"
  using mtd_job.flash_write_image_post [OF assms(3,1)] assms(2) by simp

lemma flash_write_fine:
  assumes "fine_ok sz start img w" and "0 < unat erase_sz" and "unat erase_sz \<le> FLASH_MAX_ERASE_SIZE"
    and "unat erase_sz dvd unat sz" and "unat erase_sz dvd off" and "img \<noteq> []" and "off + length img \<le> unat sz"
  shows "fst (flash_write_image sys_malloc (mtd_flash sz erase_sz) (range_source start (length img)) off w) = 0"
proof -
  have "check_request (mtd_flash sz erase_sz) off (length img) zero_report = (0, zero_report)"
    using assms(2-7) by (auto simp: check_request_def dvd_eq_mod_eq_0)
  then show ?thesis using mtd_fine.flash_write_image_reliable [OF assms(1)] by simp
qed

lemma example_write:
  "\<exists>rep w'. flash_write_image sys_malloc (mtd_flash 16 4) (range_source 1 (length [1, 2, 3, 4, 5 :: byte])) 4 (example_world [])
     = (0, rep, w')"
proof -
  have "fst (flash_write_image sys_malloc (mtd_flash 16 4) (range_source 1 (length [1, 2, 3, 4, 5 :: byte])) 4 (example_world [])) = 0"
    by (rule flash_write_fine [OF example_fine_ok]) simp_all
  then show ?thesis by (metis prod.collapse)
qed

theorem flash_write_success_witness:
  "\<exists>(rep :: flash_report) (w' :: mtd_world). take 8 (drop 4 (chip w')) = [1, 2, 3, 4, 5, 0xff, 0xff, 0xff] \<and> rep_sha256 rep = sha256 [1, 2, 3, 4, 5] \<and>
     same_outside 4 8 (chip (example_world [])) (chip w')"
proof -
  obtain rep w' where run: "flash_write_image sys_malloc (mtd_flash 16 4)
      (range_source 1 (length [1, 2, 3, 4, 5 :: byte])) 4 (example_world []) = (0, rep, w')"
    using example_write by blast
  have span: "8 = (length [1, 2, 3, 4, 5 :: byte] + unat (4 :: 32 word) - 1) div unat (4 :: 32 word) * unat (4 :: 32 word)"
    by simp
  note post = flash_write_success [OF example_job_ok [OF example_script_ok(1)] span run]
  show ?thesis
    by (rule exI [of _ rep], rule exI [of _ w']) (use post in \<open>simp add: eval_nat_numeral\<close>)
qed

text \<open>
  C16. Whatever happens - any fault at any call, any result - flash_write_image changes nothing outside
  the span of blocks at the offset, and when its report says "not modified" the chip is as it was.
\<close>

theorem flash_write_frame:
  assumes "job_ok sz start img w" and "span = (length img + unat erase_sz - 1) div unat erase_sz * unat erase_sz"
    and "flash_write_image sys_malloc (mtd_flash sz erase_sz) (range_source start (length img)) off w = (r, rep, w')"
  shows "same_outside off span (chip w) (chip w') \<and> (\<not> rep_modified rep \<longrightarrow> chip w' = chip w)"
  using mtd_job.flash_write_image_post [OF assms(3,1)] assms(2) by simp

theorem flash_write_frame_witness:
  "\<exists>r rep w'. flash_write_image sys_malloc (mtd_flash 16 4) (range_source 1 (length [1, 2, 3, 4, 5 :: byte])) 4
       (example_world [Fine, Fine, Fine, Fine, Torn 5 [1, 2]]) = (r, rep, w') \<and>
     take 4 (chip w') = replicate 4 0xa5 \<and> drop 12 (chip w') = replicate 4 0xa5"
proof -
  let ?w = "example_world [Fine, Fine, Fine, Fine, Torn 5 [1, 2]]"
  obtain r rep w' where run: "flash_write_image sys_malloc (mtd_flash 16 4)
      (range_source 1 (length [1, 2, 3, 4, 5 :: byte])) 4 ?w = (r, rep, w')"
    by (metis prod_cases3)
  have span: "8 = (length [1, 2, 3, 4, 5 :: byte] + unat (4 :: 32 word) - 1) div unat (4 :: 32 word) * unat (4 :: 32 word)"
    by simp
  have "same_outside 4 8 (chip ?w) (chip w')"
    using flash_write_frame [OF example_job_ok [OF example_script_ok(3)] span run] by blast
  moreover have "take 4 (chip ?w) = replicate 4 0xa5" "drop 12 (chip ?w) = replicate 4 0xa5"
    by (simp_all add: example_world_def)
  ultimately have "take 4 (chip w') = replicate 4 0xa5 \<and> drop 12 (chip w') = replicate 4 0xa5"
    by (auto simp only: same_outside_def) simp_all
  then show ?thesis using run by blast
qed

text \<open>
  On a device without faults flash_write_image succeeds for every request that the geometry
  allows: erase blocks of at most 256 KiB that tile the device, an offset on a block boundary, and an
  image that is not empty and fits behind it.
\<close>

theorem flash_write_succeeds:
  assumes "fine_ok sz start img w" and "0 < unat erase_sz" and "unat erase_sz \<le> FLASH_MAX_ERASE_SIZE"
    and "unat erase_sz dvd unat sz" and "unat erase_sz dvd off" and "img \<noteq> []" and "off + length img \<le> unat sz"
  shows "fst (flash_write_image sys_malloc (mtd_flash sz erase_sz) (range_source start (length img)) off w) = 0"
  using assms by (rule flash_write_fine)

theorem flash_write_succeeds_witness:
  "fst (flash_write_image sys_malloc (mtd_flash 16 4) (range_source 1 (length [1, 2, 3, 4, 5 :: byte])) 8
     (example_world [])) = 0"
  by (rule flash_write_succeeds [OF example_fine_ok]) simp_all

text \<open>
  The counters of the report add up, on any device and any source: after success every block was
  either skipped or written, and no block was tried more than three times.
\<close>

theorem flash_write_counts:
  assumes "flash_write_image mal d img off w = (r, rep, w')"
    and "src_length img + dev_erase_size d \<le> 2 ^ 64" and "(src_length img + dev_erase_size d - 1) div dev_erase_size d < 2 ^ 32"
  shows "rep_retries rep \<le> 2 * rep_blocks rep \<and> (r = 0 \<longrightarrow> rep_skipped rep + rep_written rep = rep_blocks rep)"
  using assms by (rule flash_write_image_counters)

theorem flash_write_counts_witness:
  "\<exists>rep w'. flash_write_image sys_malloc (mtd_flash 16 4) (range_source 1 (length [1, 2, 3, 4, 5 :: byte])) 4 (example_world [])
     = (0, rep, w') \<and> rep_skipped rep + rep_written rep = rep_blocks rep"
proof -
  obtain rep w' where run: "flash_write_image sys_malloc (mtd_flash 16 4)
      (range_source 1 (length [1, 2, 3, 4, 5 :: byte])) 4 (example_world []) = (0, rep, w')"
    using example_write by blast
  have "src_length (range_source 1 (length [1, 2, 3, 4, 5 :: byte])) + dev_erase_size (mtd_flash 16 4) \<le> 2 ^ 64"
    "(src_length (range_source 1 (length [1, 2, 3, 4, 5 :: byte])) + dev_erase_size (mtd_flash 16 4) - 1) div
       dev_erase_size (mtd_flash 16 4) < 2 ^ 32"
    by simp_all
  from flash_write_counts [OF run this] run show ?thesis by blast
qed

end
