(* ===== verification/Deploy_Token.thy ===== *)
theory Deploy_Token
  imports C_Strings Complex_Main
begin

text \<open>
  Files and clocks as the programs see them (\<^verbatim>\<open>contract/posix_files.h\<close>) and the deploy token
  (\<^verbatim>\<open>contract/deploy_token.h\<close>, \<^verbatim>\<open>contract/deploy_token_file.h\<close>): the file an installer keeps fresh
  while it updates the device. Times are doubles in the code and rationals here, so rounding is not
  modelled. What one look at the file system and the clocks gives is a record \<open>token_look\<close>.
\<close>

section \<open>Files and clocks\<close>

datatype file_kind = Regular | Directory | Char_Device | Symlink | Other_Kind

record stat_info =
  st_kind :: file_kind
  st_dev :: nat
  st_major :: nat
  st_minor :: nat
  st_size :: int
  st_mode :: nat
  st_uid :: nat
  st_gid :: nat
  st_mtime_sec :: int
  st_mtime_nsec :: int

text \<open>stat and lstat: the errno, or what they fill in.\<close>

type_synonym stat_call = "string \<Rightarrow> int + stat_info"

abbreviation (input) PATH_MAX :: nat where "PATH_MAX \<equiv> 4096"

text \<open>A directory on another device than its parent.\<close>

definition tc002_mounted :: "stat_call \<Rightarrow> string \<Rightarrow> bool" where
  "tc002_mounted stat directory =
     (let parent = directory @ ''/..'' in
      if PATH_MAX \<le> length parent then False
      else case stat directory of Inl _ \<Rightarrow> False
        | Inr self \<Rightarrow> (case stat parent of Inl _ \<Rightarrow> False | Inr parent_info \<Rightarrow> st_dev self \<noteq> st_dev parent_info))"

text \<open>dirname(3) on a path.\<close>

definition dirname :: "string \<Rightarrow> string" where
  "dirname path =
     (let strip = (\<lambda>s. rev (dropWhile (\<lambda>c. c = CHR ''/'') (rev s)));
          p = strip path; dir = strip (rev (dropWhile (\<lambda>c. c \<noteq> CHR ''/'') (rev p)))
      in if path = [] then ''.''
         else if p = [] then ''/''
         else if CHR ''/'' \<notin> set p then ''.''
         else if dir = [] then ''/'' else dir)"

text \<open>The open of a directory and the fsync of it answer 0 or an errno.\<close>

definition tc002_sync_parent :: "(string \<Rightarrow> int) \<Rightarrow> (string \<Rightarrow> int) \<Rightarrow> string \<Rightarrow> int" where
  "tc002_sync_parent open_dir fsync_dir path =
     (if path = [] then - EINVAL
      else if PATH_MAX \<le> length path then - ENAMETOOLONG
      else let dir = dirname path in
        if open_dir dir \<noteq> 0 then - open_dir dir
        else if fsync_dir dir \<noteq> 0 then - fsync_dir dir else 0)"

definition tc002_clock_seconds :: "(int \<times> int) option \<Rightarrow> rat" where
  "tc002_clock_seconds now = (case now of None \<Rightarrow> - 1 | Some (sec, nsec) \<Rightarrow> of_int sec + of_int nsec / 1000000000)"

section \<open>The token's text\<close>

abbreviation (input) AWTRIX_DEPLOY_TOKEN_STALE_SECONDS :: nat where "AWTRIX_DEPLOY_TOKEN_STALE_SECONDS \<equiv> 90"
abbreviation (input) AWTRIX_DEPLOY_HOLD_SECONDS :: nat where "AWTRIX_DEPLOY_HOLD_SECONDS \<equiv> 1800"
abbreviation (input) AWTRIX_DEPLOY_TOKEN_TEXT_LIMIT :: nat where "AWTRIX_DEPLOY_TOKEN_TEXT_LIMIT \<equiv> 64"

text \<open>The digits loop: value, number of digits and the text it stopped at; None after 15 digits.\<close>

fun token_number :: "string \<Rightarrow> rat \<Rightarrow> rat \<Rightarrow> nat \<Rightarrow> bool \<Rightarrow> (rat \<times> nat \<times> string) option" where
  "token_number [] val unit digits fraction = Some (val, digits, [])"
| "token_number (c # text) val unit digits fraction =
     (case digit_value 10 c of
        Some v \<Rightarrow>
          if 15 < digits + 1 then None
          else if fraction then token_number text (val + unit / 10 * of_nat v) (unit / 10) (digits + 1) fraction
          else token_number text (val * 10 + of_nat v) unit (digits + 1) fraction
      | None \<Rightarrow>
          if c = CHR ''.'' \<and> 0 < digits \<and> \<not> fraction then token_number text val unit digits True
          else Some (val, digits, c # text))"

definition deploy_token_uptime :: "string \<Rightarrow> rat option" where
  "deploy_token_uptime text =
     (if take 7 text \<noteq> ''deploy '' then None
      else case token_number (drop 7 text) 0 1 0 False of None \<Rightarrow> None
        | Some (val, digits, rest) \<Rightarrow>
            if digits = 0 \<or> (rest \<noteq> [] \<and> rest \<noteq> [CHR 0x0A]) then None else Some val)"

definition deploy_token_age :: "string \<Rightarrow> rat \<Rightarrow> rat \<Rightarrow> rat" where
  "deploy_token_age text uptime wall_age =
     (case deploy_token_uptime text of Some written \<Rightarrow> uptime - written | None \<Rightarrow> wall_age)"

section \<open>Watching the token\<close>

record deploy_token_watch =
  dw_seen :: bool
  dw_seconds :: int
  dw_nanoseconds :: int
  dw_changed :: rat

definition deploy_token_fresh ::
  "deploy_token_watch \<Rightarrow> int \<Rightarrow> int \<Rightarrow> rat \<Rightarrow> rat \<Rightarrow> rat \<Rightarrow> bool \<times> deploy_token_watch" where
  "deploy_token_fresh watch seconds nanoseconds now age stale =
     (let watch = (if \<not> dw_seen watch \<or> seconds \<noteq> dw_seconds watch \<or> nanoseconds \<noteq> dw_nanoseconds watch
            then \<lparr>dw_seen = True, dw_seconds = seconds, dw_nanoseconds = nanoseconds,
                  dw_changed = (if dw_seen watch then now else now - (if 0 < age then age else 0))\<rparr>
            else watch)
      in (now - dw_changed watch < stale, watch))"

text \<open>
  One look: the stat of the token (lstat when links are not followed), the three clocks, and the text
  read from it (empty when it cannot be opened or read).
\<close>

record token_look =
  look_stat :: "int + stat_info"
  look_wall :: "(int \<times> int) option"
  look_now :: "(int \<times> int) option"
  look_boot :: "(int \<times> int) option"
  look_text :: string

definition deploy_token_file_active ::
  "bool \<Rightarrow> rat \<Rightarrow> token_look \<Rightarrow> deploy_token_watch \<Rightarrow> bool \<times> deploy_token_watch" where
  "deploy_token_file_active no_follow stale look watch =
     (case look_stat look of Inl _ \<Rightarrow> (False, watch)
      | Inr info \<Rightarrow>
        if no_follow \<and> st_kind info \<noteq> Regular then (False, watch)
        else let wall = tc002_clock_seconds (look_wall look); now = tc002_clock_seconds (look_now look) in
        if wall < 0 \<or> now < 0 then (False, watch)
        else let written = tc002_clock_seconds (Some (st_mtime_sec info, st_mtime_nsec info));
                 age = wall - written in
        if \<not> dw_seen watch
        then let text = take (AWTRIX_DEPLOY_TOKEN_TEXT_LIMIT - 1) (look_text look);
                 uptime = tc002_clock_seconds (look_boot look) in
             if uptime < 0 then (False, watch)
             else deploy_token_fresh watch (st_mtime_sec info) (st_mtime_nsec info) now
                    (deploy_token_age text uptime age) stale
        else deploy_token_fresh watch (st_mtime_sec info) (st_mtime_nsec info) now age stale)"

section \<open>Reading back a token\<close>

lemma token_number_digits:
  assumes "\<forall>c\<in>set ds. is_digit 10 c" and "k + length ds \<le> 15"
  shows "token_number (ds @ rest) val unit k fraction =
    (if fraction then token_number rest (val + unit * of_nat (digits_value 10 ds) / 10 ^ length ds)
         (unit / 10 ^ length ds) (k + length ds) True
     else token_number rest (val * 10 ^ length ds + of_nat (digits_value 10 ds)) unit (k + length ds) False)"
  using assms
proof (induction ds arbitrary: val unit k)
  case Nil
  then show ?case by (simp add: digits_value_def)
next
  case (Cons d ds)
  obtain v where v: "digit_value 10 d = Some v" using Cons.prems(1) by (auto simp: is_digit_def)
  have "digits_value 10 (d # ds) = v * 10 ^ length ds + digits_value 10 ds"
    using digits_value_cons [of 10 d ds] v by simp
  then show ?case using Cons v by (cases fraction) (simp_all add: algebra_simps add_divide_distrib)
qed

definition rat_text :: "nat \<Rightarrow> string \<Rightarrow> string" where
  "rat_text n ds = print_nat 10 n @ (if ds = [] then [] else CHR ''.'' # ds)"

lemma uptime_roundtrip:
  assumes "\<forall>c\<in>set ds. is_digit 10 c" and "length (print_nat 10 n) + length ds \<le> 15"
    and "tail = [] \<or> tail = [CHR 0x0A]"
  shows "deploy_token_uptime (''deploy '' @ rat_text n ds @ tail) =
    Some (of_nat n + of_nat (digits_value 10 ds) / 10 ^ length ds)"
proof -
  have dot: "digit_value 10 CHR ''.'' = None" "digit_value 10 CHR 0x0A = None"
    by (simp_all add: digit_value_def Let_def)
  have len: "0 < length (print_nat 10 n)" by simp
  have int: "token_number (print_nat 10 n @ rest) 0 1 0 False = token_number rest (of_nat n) 1 (length (print_nat 10 n)) False" for rest
    using token_number_digits [of "print_nat 10 n" 0 rest 0 1 False] print_nat_digits [of 10] assms(2)
    by (simp add: digits_value_print)
  show ?thesis
  proof (cases "ds = []")
    case True
    then show ?thesis using assms(3) int len dot
      by (auto simp: deploy_token_uptime_def rat_text_def digits_value_def)
  next
    case False
    have "token_number (print_nat 10 n @ (CHR ''.'' # ds) @ tail) 0 1 0 False =
        token_number (ds @ tail) (of_nat n) 1 (length (print_nat 10 n)) True"
      using int [of "(CHR ''.'' # ds) @ tail"] len dot by simp
    also have "\<dots> = Some (of_nat n + of_nat (digits_value 10 ds) / 10 ^ length ds, length (print_nat 10 n) + length ds, tail)"
      using token_number_digits [OF assms(1,2), of tail "of_nat n" 1 True] assms(3) dot by auto
    finally show ?thesis using False assms(3) len
      by (auto simp: deploy_token_uptime_def rat_text_def)
  qed
qed

section \<open>When a token is active\<close>

definition look_valid :: "bool \<Rightarrow> token_look \<Rightarrow> bool" where
  "look_valid no_follow look \<longleftrightarrow>
     (\<exists>info. look_stat look = Inr info \<and> (no_follow \<longrightarrow> st_kind info = Regular)) \<and>
     0 \<le> tc002_clock_seconds (look_wall look) \<and> 0 \<le> tc002_clock_seconds (look_now look) \<and>
     0 \<le> tc002_clock_seconds (look_boot look)"

definition same_mtime :: "token_look \<Rightarrow> token_look \<Rightarrow> bool" where
  "same_mtime l1 l2 \<longleftrightarrow>
     (\<forall>a b. look_stat l1 = Inr a \<and> look_stat l2 = Inr b \<longrightarrow>
        st_mtime_sec a = st_mtime_sec b \<and> st_mtime_nsec a = st_mtime_nsec b)"

text \<open>The age of a token at the first look: by the uptime it names, else by the wall clock.\<close>

definition look_age :: "token_look \<Rightarrow> rat" where
  "look_age look = deploy_token_age (take (AWTRIX_DEPLOY_TOKEN_TEXT_LIMIT - 1) (look_text look))
     (tc002_clock_seconds (look_boot look))
     (tc002_clock_seconds (look_wall look) -
      (case look_stat look of Inr info \<Rightarrow> tc002_clock_seconds (Some (st_mtime_sec info, st_mtime_nsec info)) | Inl _ \<Rightarrow> 0))"

lemma first_look:
  assumes "\<not> dw_seen watch" and "look_valid nf look"
  shows "deploy_token_file_active nf stale look watch =
    (max 0 (look_age look) < stale,
     \<lparr>dw_seen = True,
      dw_seconds = (case look_stat look of Inr info \<Rightarrow> st_mtime_sec info | Inl _ \<Rightarrow> 0),
      dw_nanoseconds = (case look_stat look of Inr info \<Rightarrow> st_mtime_nsec info | Inl _ \<Rightarrow> 0),
      dw_changed = tc002_clock_seconds (look_now look) - max 0 (look_age look)\<rparr>)"
  using assms
  by (auto simp: deploy_token_file_active_def look_valid_def look_age_def deploy_token_fresh_def max_def Let_def)

lemma later_look:
  assumes "look_valid nf l1" and "look_valid nf l2" and "same_mtime l1 l2" and "\<not> dw_seen watch"
  shows "fst (deploy_token_file_active nf stale l2 (snd (deploy_token_file_active nf stale l1 watch))) \<longleftrightarrow>
    tc002_clock_seconds (look_now l2) - tc002_clock_seconds (look_now l1) + max 0 (look_age l1) < stale"
  using assms
  by (auto simp: first_look deploy_token_file_active_def [of _ _ l2] look_valid_def same_mtime_def deploy_token_fresh_def
      Let_def algebra_simps)

section \<open>Properties\<close>

definition example_look :: "int \<Rightarrow> token_look" where
  "example_look t = \<lparr>look_stat = Inr \<lparr>st_kind = Regular, st_dev = 1, st_major = 0, st_minor = 0, st_size = 9, st_mode = 384,
       st_uid = 0, st_gid = 0, st_mtime_sec = 7, st_mtime_nsec = 0\<rparr>,
     look_wall = Some (1700000000 + t, 0), look_now = Some (t, 0), look_boot = Some (t, 0), look_text = ''deploy 45.5''\<rparr>"

definition fresh_watch :: deploy_token_watch where
  "fresh_watch = \<lparr>dw_seen = False, dw_seconds = 0, dw_nanoseconds = 0, dw_changed = 0\<rparr>"

lemma example_look_valid: "0 \<le> t \<Longrightarrow> look_valid nf (example_look t)"
  by (simp add: look_valid_def example_look_def tc002_clock_seconds_def)

text \<open>
  A deploy token that nobody touches goes stale on time: after a first look that found it, with its
  age taken from the uptime it names (else from the wall clock, never negative), any later look that
  finds the same modification time says active exactly while the time since the first look plus that
  age is below the stale limit.
\<close>

theorem deploy_token_goes_stale:
  assumes "look_valid nf l1" and "look_valid nf l2" and "same_mtime l1 l2" and "\<not> dw_seen watch"
  shows "fst (deploy_token_file_active nf stale l2 (snd (deploy_token_file_active nf stale l1 watch))) \<longleftrightarrow>
    tc002_clock_seconds (look_now l2) - tc002_clock_seconds (look_now l1) + max 0 (look_age l1) < stale"
  using assms by (rule later_look)

theorem deploy_token_goes_stale_witness:
  "fst (deploy_token_file_active True 90 (example_look 134) (snd (deploy_token_file_active True 90 (example_look 50) fresh_watch))) \<and>
   \<not> fst (deploy_token_file_active True 90 (example_look 136) (snd (deploy_token_file_active True 90 (example_look 50) fresh_watch)))"
proof -
  have same: "same_mtime (example_look 50) (example_look t)" for t
    by (simp add: same_mtime_def example_look_def)
  have unseen: "\<not> dw_seen fresh_watch" by (simp add: fresh_watch_def)
  have p45: "print_nat 10 45 = ''45''" by code_simp
  have "deploy_token_uptime (''deploy '' @ rat_text 45 [CHR ''5''] @ []) =
      Some (of_nat 45 + of_nat (digits_value 10 [CHR ''5'']) / 10 ^ length [CHR ''5''])"
    by (rule uptime_roundtrip) (simp_all add: is_digit_def digit_value_def p45)
  then have "deploy_token_uptime ''deploy 45.5'' = Some (91 / 2)"
    by (simp add: rat_text_def p45 digits_value_def digit_value_def)
  then have age: "look_age (example_look 50) = 9 / 2"
    by (simp add: look_age_def example_look_def deploy_token_age_def tc002_clock_seconds_def)
  have now: "tc002_clock_seconds (look_now (example_look t)) = of_int t" for t
    by (simp add: example_look_def tc002_clock_seconds_def)
  show ?thesis
    using deploy_token_goes_stale [OF example_look_valid [of 50 True] example_look_valid [of 134 True] same unseen, of 90]
      deploy_token_goes_stale [OF example_look_valid [of 50 True] example_look_valid [of 136 True] same unseen, of 90]
    by (simp add: now age)
qed

end
