(* ===== verification/Mtd_Open.thy ===== *)
theory Mtd_Open
  imports Mtd_Device Deploy_Token
begin

text \<open>
  Opening an MTD device (\<^verbatim>\<open>mtd_open\<close>, \<^verbatim>\<open>mtd_device_path\<close>, \<^verbatim>\<open>read_proc_mtd\<close> of
  \<^verbatim>\<open>flasher/mtd_device.c\<close>). What the kernel and the C library answer is a record \<open>host\<close>: an errno (0 for
  success) or a value for each call and path. The text of \<^verbatim>\<open>/proc/mtd\<close> arrives in the pieces that the
  reads return.
\<close>

section \<open>The host\<close>

record mtd_info =
  mi_type :: nat
  mi_flags :: "32 word"
  mi_size :: "32 word"
  mi_erasesize :: "32 word"
  mi_writesize :: "32 word"

abbreviation (input) MTD_CHAR_MAJOR_NUMBER :: nat where "MTD_CHAR_MAJOR_NUMBER \<equiv> 90"
abbreviation (input) MTD_NORFLASH :: nat where "MTD_NORFLASH \<equiv> 3"
abbreviation (input) MTD_WRITEABLE :: "32 word" where "MTD_WRITEABLE \<equiv> 0x400"

record host =
  h_stat :: stat_call
  h_lstat :: stat_call
  h_open :: "string \<Rightarrow> bool \<Rightarrow> int"
  h_fstat :: stat_call
  h_content :: "string \<Rightarrow> bytes"
  h_mtd_info :: "string \<Rightarrow> int + mtd_info"
  h_proc_open :: int
  h_proc_reads :: "(int + string) list"
  h_strerror :: "int \<Rightarrow> string"

text \<open>snprintf into a buffer of \<open>n\<close> bytes.\<close>

definition snprintf :: "nat \<Rightarrow> string \<Rightarrow> string" where
  "snprintf n s = take (n - 1) s"

section \<open>Code\<close>

text \<open>The read loop: until the buffer is full, a read fails or returns nothing; EINTR is tried again.\<close>

fun read_text :: "nat \<Rightarrow> string \<Rightarrow> (int + string) list \<Rightarrow> string" where
  "read_text sz buf [] = buf"
| "read_text sz buf (r # reads) =
     (if length buf + 1 < sz then
        case r of
          Inl e \<Rightarrow> if e = EINTR then read_text sz buf reads else buf
        | Inr s \<Rightarrow> let count = take (sz - 1 - length buf) s
                  in if count = [] then buf else read_text sz (buf @ count) reads
      else buf)"

definition read_proc_mtd :: "host \<Rightarrow> nat \<Rightarrow> int + string" where
  "read_proc_mtd h sz =
     (if h_proc_open h \<noteq> 0 then Inl (- h_proc_open h)
      else let buf = read_text sz [] (h_proc_reads h)
           in if length buf + 1 < sz then Inr buf else Inl (- EFBIG))"

record mtd_handle =
  mh_nor :: bool
  mh_writeable :: bool
  mh_write_size :: "32 word"
  mh_entry :: mtd_entry
  mh_size :: "32 word"
  mh_erase_size :: "32 word"

definition mh_device :: "mtd_handle \<Rightarrow> mtd_world flash_device" where
  "mh_device mtd = mtd_flash (mh_size mtd) (mh_erase_size mtd)"

text \<open>The message on failure, cut to the caller's buffer, or the handle.\<close>

definition mtd_open :: "host \<Rightarrow> string \<Rightarrow> bool \<Rightarrow> nat \<Rightarrow> string + mtd_handle" where
  "mtd_open h path for_write error_size =
     (let failed = (\<lambda>message. Inl (snprintf error_size message));
          not_device = path @ '' is not a '' @ (if for_write then ''read-write '' else '''') @ ''MTD character device''
      in if h_open h path for_write \<noteq> 0
         then failed (''cannot open '' @ path @ '': '' @ h_strerror h (h_open h path for_write))
         else case h_fstat h path of
           Inl _ \<Rightarrow> failed not_device
         | Inr info \<Rightarrow>
             if st_kind info \<noteq> Char_Device \<or> st_major info \<noteq> MTD_CHAR_MAJOR_NUMBER \<or> (for_write \<and> odd (st_minor info))
             then failed not_device
             else let index = st_minor info div 2 in
               case h_mtd_info h path of
                 Inl e \<Rightarrow> failed (''MEMGETINFO failed on '' @ path @ '': '' @ h_strerror h e)
               | Inr mtd \<Rightarrow>
                   case (case read_proc_mtd h 4096 of Inl e \<Rightarrow> Inl e | Inr table \<Rightarrow> mtd_table_find table index) of
                     Inl _ \<Rightarrow> failed (''/proc/mtd has no unique entry for mtd'' @ print_nat 10 index)
                   | Inr entry \<Rightarrow>
                       if entry_size entry \<noteq> unat (mi_size mtd) \<or> entry_erase_size entry \<noteq> unat (mi_erasesize mtd)
                       then failed (''MEMGETINFO geometry of mtd'' @ print_nat 10 index @ '' disagrees with /proc/mtd'')
                       else Inr \<lparr>mh_nor = (mi_type mtd = MTD_NORFLASH),
                                 mh_writeable = (mi_flags mtd AND MTD_WRITEABLE \<noteq> 0),
                                 mh_write_size = mi_writesize mtd, mh_entry = entry,
                                 mh_size = mi_size mtd, mh_erase_size = mi_erasesize mtd\<rparr>)"

definition mtd_device_path :: "host \<Rightarrow> string \<Rightarrow> string \<Rightarrow> bool \<Rightarrow> nat \<Rightarrow> int + string \<times> nat" where
  "mtd_device_path h dir name for_write sz =
     (case (case read_proc_mtd h 4096 of Inl e \<Rightarrow> Inl e | Inr table \<Rightarrow> mtd_table_find_name table name) of
        Inl e \<Rightarrow> Inl e
      | Inr entry \<Rightarrow>
          let path = dir @ ''/mtd'' @ print_nat 10 (entry_index entry) @ (if for_write then '''' else ''ro'')
          in if sz \<le> length path then Inl (- ENAMETOOLONG) else Inr (path, entry_index entry))"

section \<open>The text arrives whole\<close>

text \<open>The pieces of a read script, without the interruptions.\<close>

definition pieces :: "(int + string) list \<Rightarrow> string" where
  "pieces reads = concat (map (case_sum (\<lambda>_. []) id) reads)"

definition calm_reads :: "(int + string) list \<Rightarrow> bool" where
  "calm_reads reads = (\<forall>r\<in>set reads. case r of Inl e \<Rightarrow> e = EINTR | Inr s \<Rightarrow> s \<noteq> [])"

lemma read_text_pieces:
  "calm_reads reads \<Longrightarrow> length buf + length (pieces reads) + 1 < sz \<Longrightarrow> read_text sz buf reads = buf @ pieces reads"
proof (induction reads arbitrary: buf)
  case Nil
  then show ?case by (simp add: pieces_def)
next
  case (Cons r reads)
  then show ?case
    by (cases r) (auto simp: calm_reads_def pieces_def)
qed

lemma read_proc_mtd_pieces:
  "h_proc_open h = 0 \<Longrightarrow> calm_reads (h_proc_reads h) \<Longrightarrow> length (pieces (h_proc_reads h)) + 1 < sz \<Longrightarrow>
     read_proc_mtd h sz = Inr (pieces (h_proc_reads h))"
  by (simp add: read_proc_mtd_def read_text_pieces)

lemma mtd_open_find:
  assumes "mtd_open h path for_write n = Inr mtd"
  shows "\<exists>info table. h_fstat h path = Inr info \<and> st_kind info = Char_Device \<and> st_major info = MTD_CHAR_MAJOR_NUMBER \<and>
    (for_write \<longrightarrow> even (st_minor info)) \<and> read_proc_mtd h 4096 = Inr table \<and>
    mtd_table_find table (st_minor info div 2) = Inr (mh_entry mtd) \<and>
    entry_size (mh_entry mtd) = unat (mh_size mtd) \<and> entry_erase_size (mh_entry mtd) = unat (mh_erase_size mtd)"
  using assms by (auto simp: mtd_open_def Let_def split: if_splits sum.splits)

text \<open>On a host that serves the table of \<open>es\<close>, however cut up, the handle is for the entry of its node.\<close>

lemma mtd_open_entry:
  assumes "mtd_open h path for_write n = Inr mtd" and "calm_reads (h_proc_reads h)"
    and "pieces (h_proc_reads h) = proc_mtd es" and "length (proc_mtd es) < 4095"
    and "\<forall>e\<in>set es. entry_ok e" and "distinct (map entry_index es)"
  shows "\<exists>info. h_fstat h path = Inr info \<and> st_kind info = Char_Device \<and> st_major info = MTD_CHAR_MAJOR_NUMBER \<and>
    (for_write \<longrightarrow> even (st_minor info)) \<and> mh_entry mtd \<in> set es \<and> entry_index (mh_entry mtd) = st_minor info div 2 \<and>
    entry_size (mh_entry mtd) = unat (mh_size mtd) \<and> entry_erase_size (mh_entry mtd) = unat (mh_erase_size mtd)"
proof -
  obtain info table where i: "h_fstat h path = Inr info" "st_kind info = Char_Device" "st_major info = MTD_CHAR_MAJOR_NUMBER"
    "for_write \<longrightarrow> even (st_minor info)" "read_proc_mtd h 4096 = Inr table"
    "mtd_table_find table (st_minor info div 2) = Inr (mh_entry mtd)"
    "entry_size (mh_entry mtd) = unat (mh_size mtd)" "entry_erase_size (mh_entry mtd) = unat (mh_erase_size mtd)"
    using mtd_open_find [OF assms(1)] by blast
  have "h_proc_open h = 0" using i(5) by (auto simp: read_proc_mtd_def split: if_splits)
  then have "table = proc_mtd es"
    using read_proc_mtd_pieces [of h 4096] assms(2-4) i(5) by simp
  then show ?thesis using i mtd_find_proc [OF assms(5,6)] by auto
qed

section \<open>Property\<close>

text \<open>
  C33. Opening checks that the node and the partition table agree: on a host whose /proc/mtd is a table of
  distinct entries, in whatever pieces and with whatever interruptions the reads return it, a handle is
  only given for an MTD character device (for writing: not the read-only node), it carries the table's
  entry of that device, and its geometry is the one MEMGETINFO gave.
\<close>

theorem mtd_open_sound:
  assumes "mtd_open h path for_write n = Inr mtd" and "calm_reads (h_proc_reads h)"
    and "pieces (h_proc_reads h) = proc_mtd es" and "length (proc_mtd es) < 4095"
    and "\<forall>e\<in>set es. entry_ok e" and "distinct (map entry_index es)"
  shows "\<exists>info. h_fstat h path = Inr info \<and> st_kind info = Char_Device \<and> st_major info = MTD_CHAR_MAJOR_NUMBER \<and>
    (for_write \<longrightarrow> even (st_minor info)) \<and> mh_entry mtd \<in> set es \<and> entry_index (mh_entry mtd) = st_minor info div 2 \<and>
    entry_size (mh_entry mtd) = unat (mh_size mtd) \<and> entry_erase_size (mh_entry mtd) = unat (mh_erase_size mtd)"
  using assms by (rule mtd_open_entry)

text \<open>A host with one NOR partition of four blocks of 256 bytes, and files of 160 bytes.\<close>

definition example_entry :: mtd_entry where
  "example_entry = \<lparr>entry_index = 5, entry_size = 1024, entry_erase_size = 256, entry_name = ''res''\<rparr>"

definition example_node :: stat_info where
  "example_node = \<lparr>st_kind = Char_Device, st_dev = 1, st_major = 90, st_minor = 10, st_size = 0, st_mode = 384, st_uid = 0,
     st_gid = 0, st_mtime_sec = 0, st_mtime_nsec = 0\<rparr>"

definition example_file :: stat_info where
  "example_file = \<lparr>st_kind = Regular, st_dev = 1, st_major = 0, st_minor = 0, st_size = 160, st_mode = 384, st_uid = 0,
     st_gid = 0, st_mtime_sec = 0, st_mtime_nsec = 0\<rparr>"

definition example_stat :: stat_call where
  "example_stat path = (if path = ''/dev/mtd/mtd5'' then Inr example_node else Inr example_file)"

definition example_host :: "bytes \<Rightarrow> host" where
  "example_host content =
     (\<lparr>h_stat = example_stat, h_lstat = example_stat, h_open = (\<lambda>_ _. 0), h_fstat = example_stat, h_content = (\<lambda>_. content),
          h_mtd_info = (\<lambda>_. Inr \<lparr>mi_type = 3, mi_flags = 0xC00, mi_size = 1024, mi_erasesize = 256, mi_writesize = 1\<rparr>),
          h_proc_open = 0,
          h_proc_reads = [Inl EINTR, Inr (take 10 (proc_mtd [example_entry])), Inr (drop 10 (proc_mtd [example_entry]))],
          h_strerror = (\<lambda>_. ''error'')\<rparr>)"

lemma example_table: "proc_mtd [example_entry] = ''dev:    size   erasesize  name'' @ [CHR 0x0A] @ ''mtd5: 00000400 00000100 '' @
    [CHR 0x22] @ ''res'' @ [CHR 0x22, CHR 0x0A]"
  by code_simp

lemma example_reads: "calm_reads (h_proc_reads (example_host c))" "pieces (h_proc_reads (example_host c)) = proc_mtd [example_entry]"
  by (simp_all add: example_host_def calm_reads_def pieces_def example_table)

lemma example_entry_ok: "\<forall>e\<in>set [example_entry]. entry_ok e"
  by (simp add: entry_ok_def example_entry_def)

lemma example_open:
  "mtd_open (example_host c) ''/dev/mtd/mtd5'' for_write 160 =
     Inr \<lparr>mh_nor = True, mh_writeable = True, mh_write_size = 1, mh_entry = example_entry, mh_size = 1024, mh_erase_size = 256\<rparr>"
proof -
  have "read_proc_mtd (example_host c) 4096 = Inr (proc_mtd [example_entry])"
    using read_proc_mtd_pieces [of "example_host c" 4096] example_reads
    by (simp add: example_table) (simp add: example_host_def)
  moreover have "mtd_table_find (proc_mtd [example_entry]) 5 = Inr example_entry"
    using mtd_find_proc [OF example_entry_ok, of 5 example_entry] by (simp add: example_entry_def)
  ultimately show ?thesis
    by (simp add: mtd_open_def) (simp add: example_host_def example_stat_def example_node_def example_entry_def Let_def)
qed

theorem mtd_open_sound_witness:
  "\<exists>mtd. mtd_open (example_host []) ''/dev/mtd/mtd5'' True 160 = Inr mtd \<and> entry_index (mh_entry mtd) = 5"
proof -
  have len: "length (proc_mtd [example_entry]) < 4095" by (simp add: example_table)
  have "h_fstat (example_host []) ''/dev/mtd/mtd5'' = Inr example_node" by (simp add: example_host_def example_stat_def)
  then show ?thesis
    using mtd_open_sound [OF example_open example_reads len example_entry_ok, of "[]" True]
      example_open [of "[]" True]
    by (auto simp: example_node_def example_entry_def)
qed

end
