(* ===== verification/Release_Slot.thy ===== *)
theory Release_Slot
  imports Sha256 "HOL-Library.Sublist"
begin

text \<open>
  Release names (\<^verbatim>\<open>contract/release_name.h\<close>) and the release slot behind the res squashfs
  (\<^verbatim>\<open>contract/release_slot.h\<close>, \<^verbatim>\<open>contract/release_slot.c\<close>): where the slot lies in a partition
  of a given geometry, and the 154-byte header with its checksum. Header values are natural
  numbers below 2^64; the char array of the release name is kept whole, with its terminator.
\<close>

definition ascii :: "string \<Rightarrow> bytes" where
  "ascii s = map of_char s"

text \<open>The C string at the start of a char array.\<close>

definition cstr :: "bytes \<Rightarrow> bytes" where
  "cstr bs = takeWhile (\<lambda>c. c \<noteq> 0) bs"

section \<open>Release names\<close>

abbreviation (input) TC002_RELEASE_NAME_LIMIT :: nat where "TC002_RELEASE_NAME_LIMIT \<equiv> 64"

definition release_alnum :: "byte \<Rightarrow> bool" where
  "release_alnum c \<longleftrightarrow> (97 \<le> c \<and> c \<le> 122) \<or> (65 \<le> c \<and> c \<le> 90) \<or> (48 \<le> c \<and> c \<le> 57)"

definition tc002_release_component_valid :: "bytes \<Rightarrow> nat \<Rightarrow> bool" where
  "tc002_release_component_valid name sz =
     (if sz = 0 \<or> TC002_RELEASE_NAME_LIMIT < sz then False
      else list_all (\<lambda>i. release_alnum (name ! i) \<or>
             \<not> (i = 0 \<or> (name ! i \<noteq> 46 \<and> name ! i \<noteq> 95 \<and> name ! i \<noteq> 43 \<and> name ! i \<noteq> 45))) [0..<sz])"

definition release_partial :: bytes where
  "release_partial = [46, 112, 97, 114, 116, 105, 97, 108]"

lemma length_release_partial: "length release_partial = 8"
  by (simp add: release_partial_def)

lemma release_partial_text: "release_partial = ascii ''.partial''"
  by code_simp

definition tc002_release_name_valid :: "bytes \<Rightarrow> nat \<Rightarrow> bool" where
  "tc002_release_name_valid name sz =
     (if \<not> tc002_release_component_valid name sz then False
      else if sz < length release_partial then True
      else list_ex (\<lambda>i. name ! (sz - length release_partial + i) \<noteq> release_partial ! i)
             [0..<length release_partial])"

section \<open>Numbers in byte arrays\<close>

definition little_endian :: "bytes \<Rightarrow> nat" where
  "little_endian bs = foldr (\<lambda>b v. wrap64 (v * 256) + unat b) bs 0"

definition big_endian :: "bytes \<Rightarrow> nat" where
  "big_endian bs = foldl (\<lambda>v b. wrap64 (v * 256) + unat b) 0 bs"

fun put_big_endian :: "nat \<Rightarrow> nat \<Rightarrow> bytes" where
  "put_big_endian v 0 = []"
| "put_big_endian v (Suc n) = put_big_endian (v div 256) n @ [of_nat v]"

section \<open>The squashfs in front of the slot\<close>

abbreviation (input) SQUASHFS_MAGIC :: nat where "SQUASHFS_MAGIC \<equiv> 0x73717368"
abbreviation (input) SQUASHFS_PADDING :: nat where "SQUASHFS_PADDING \<equiv> 4096"
abbreviation (input) SUPERBLOCK_BYTES :: nat where "SUPERBLOCK_BYTES \<equiv> 96"
abbreviation (input) COUNTER_LIMIT :: nat where "COUNTER_LIMIT \<equiv> 0x7fffffffffffffff"
abbreviation (input) HEADER_BYTES :: nat where "HEADER_BYTES \<equiv> 154"
abbreviation (input) HEADER_SHA :: nat where "HEADER_SHA \<equiv> 122"

definition squashfs_bytes :: "bytes \<Rightarrow> nat" where
  "squashfs_bytes superblock =
     (if little_endian (take 4 superblock) \<noteq> SQUASHFS_MAGIC then 0
      else let used = little_endian (take 8 (drop 40 superblock))
           in if used < SUPERBLOCK_BYTES then 0 else used)"

definition release_slot_image_valid :: "bytes \<Rightarrow> nat \<Rightarrow> bool" where
  "release_slot_image_valid superblock image_bytes =
     (let used = squashfs_bytes superblock
      in used \<noteq> 0 \<and> used \<le> image_bytes \<and>
         image_bytes \<le> wrap64 (used + SQUASHFS_PADDING - 1) div SQUASHFS_PADDING * SQUASHFS_PADDING)"

record release_slot_layout =
  lay_header :: nat
  lay_image :: nat
  lay_capacity :: nat

definition release_slot_locate :: "bytes \<Rightarrow> nat \<Rightarrow> nat \<Rightarrow> int + release_slot_layout" where
  "release_slot_locate superblock partition_size erase_size =
     (if erase_size = 0 \<or> partition_size mod erase_size \<noteq> 0 \<or> partition_size < 2 * erase_size
      then Inl (- EINVAL)
      else let used = squashfs_bytes superblock
           in if used = 0 \<or> partition_size < used then Inl (- EINVAL)
              else let header = wrap64 (used + erase_size - 1) div erase_size * erase_size
                   in if partition_size - 2 * erase_size < header then Inl (- ENOSPC)
                      else Inr \<lparr>lay_header = header, lay_image = header + erase_size,
                                lay_capacity = partition_size - (header + erase_size)\<rparr>)"

section \<open>The slot header\<close>

record release_slot_header =
  hdr_image_bytes :: nat
  hdr_counter :: nat
  hdr_image_sha256 :: bytes
  hdr_release :: bytes

definition RELEASE_SLOT_MAGIC :: bytes where
  "RELEASE_SLOT_MAGIC = [65, 87, 83, 76, 79, 84, 48, 49]"

lemma RELEASE_SLOT_MAGIC_text: "RELEASE_SLOT_MAGIC = ascii ''AWSLOT01''"
  by code_simp

definition slot_checksum :: "bytes \<Rightarrow> bytes" where
  "slot_checksum header = fst (sha256_final (sha256_update (sha256_init (replicate 64 0)) (take HEADER_SHA header)))"

definition release_slot_encode :: "release_slot_header \<Rightarrow> int + bytes" where
  "release_slot_encode header =
     (let len = length (cstr (hdr_release header))
      in if hdr_image_bytes header = 0 \<or> hdr_counter header = 0 \<or> COUNTER_LIMIT < hdr_counter header \<or>
            \<not> tc002_release_name_valid (hdr_release header) len
         then Inl (- EINVAL)
         else let out = replicate HEADER_BYTES 0;
                  out = patch out 0 RELEASE_SLOT_MAGIC;
                  out = patch out 8 (put_big_endian (hdr_image_bytes header) 8);
                  out = patch out 16 (put_big_endian (hdr_counter header) 8);
                  out = patch out 24 (take 32 (hdr_image_sha256 header));
                  out = patch out 56 (put_big_endian len 2);
                  out = patch out 58 (take len (hdr_release header))
              in Inr (patch out HEADER_SHA (slot_checksum out)))"

definition release_slot_decode :: "bytes \<Rightarrow> nat \<Rightarrow> int + release_slot_header" where
  "release_slot_decode bs capacity =
     (if take 8 bs \<noteq> RELEASE_SLOT_MAGIC then Inl (- EINVAL)
      else if slot_checksum bs \<noteq> take 32 (drop HEADER_SHA bs) then Inl (- EINVAL)
      else let image_bytes = big_endian (take 8 (drop 8 bs));
               counter = big_endian (take 8 (drop 16 bs));
               len = big_endian (take 2 (drop 56 bs))
           in if image_bytes = 0 \<or> capacity < image_bytes \<or> counter = 0 \<or> COUNTER_LIMIT < counter \<or>
                 \<not> tc002_release_name_valid (drop 58 bs) len
              then Inl (- EINVAL)
              else if list_ex (\<lambda>i. bs ! (58 + i) \<noteq> 0) [len..<TC002_RELEASE_NAME_LIMIT] then Inl (- EINVAL)
              else Inr \<lparr>hdr_image_bytes = image_bytes, hdr_counter = counter,
                        hdr_image_sha256 = take 32 (drop 24 bs),
                        hdr_release = patch (replicate (TC002_RELEASE_NAME_LIMIT + 1) 0) 0 (take len (drop 58 bs))\<rparr>)"

section \<open>What a valid release name is\<close>

definition release_char :: "byte \<Rightarrow> bool" where
  "release_char c \<longleftrightarrow> release_alnum c \<or> c \<in> set (ascii ''._+-'')"

lemma ascii_punctuation: "set (ascii ''._+-'') = {46, 95, 43, 45}"
  by code_simp

lemma release_char_nonzero: "release_char c \<Longrightarrow> c \<noteq> 0"
  by (auto simp: release_char_def release_alnum_def ascii_punctuation)

lemma component_valid_iff:
  assumes "sz \<le> length name"
  shows "tc002_release_component_valid name sz \<longleftrightarrow>
    0 < sz \<and> sz \<le> 64 \<and> release_alnum (name ! 0) \<and> (\<forall>c \<in> set (take sz name). release_char c)"
proof (cases "sz = 0 \<or> 64 < sz")
  case True
  then show ?thesis by (auto simp: tc002_release_component_valid_def)
next
  case False
  have "list_all (\<lambda>i. release_alnum (name ! i) \<or>
        \<not> (i = 0 \<or> (name ! i \<noteq> 46 \<and> name ! i \<noteq> 95 \<and> name ! i \<noteq> 43 \<and> name ! i \<noteq> 45))) [0..<sz] \<longleftrightarrow>
      (\<forall>i < sz. release_char (name ! i) \<and> (i = 0 \<longrightarrow> release_alnum (name ! i)))"
    by (auto simp: list_all_iff release_char_def ascii_punctuation intro!: gr0I)
  also have "\<dots> \<longleftrightarrow> release_alnum (name ! 0) \<and> (\<forall>c \<in> set (take sz name). release_char c)"
    using False assms by (auto simp: set_conv_nth in_set_conv_nth)
  finally show ?thesis using False by (simp add: tc002_release_component_valid_def)
qed

lemma suffix_drop_iff: "length ys \<le> length xs \<Longrightarrow> suffix ys xs \<longleftrightarrow> drop (length xs - length ys) xs = ys"
  by (metis append_eq_conv_conj diff_add_inverse2 length_append suffix_def suffix_drop)

lemma partial_mismatch_iff:
  assumes "8 \<le> sz" and "sz \<le> length name"
  shows "list_ex (\<lambda>i. name ! (sz - 8 + i) \<noteq> release_partial ! i) [0..<8] \<longleftrightarrow>
    \<not> suffix release_partial (take sz name)"
proof -
  have "suffix release_partial (take sz name) \<longleftrightarrow> drop (sz - 8) (take sz name) = release_partial"
    using suffix_drop_iff [of release_partial "take sz name"] assms by (simp add: length_release_partial)
  also have "\<dots> \<longleftrightarrow> (\<forall>i < 8. name ! (sz - 8 + i) = release_partial ! i)"
    using assms by (auto simp: list_eq_iff_nth_eq release_partial_def)
  finally show ?thesis by (auto simp: list_ex_iff)
qed

lemma name_valid_iff:
  "sz \<le> length name \<Longrightarrow>
   tc002_release_name_valid name sz \<longleftrightarrow>
     0 < sz \<and> sz \<le> 64 \<and> release_alnum (name ! 0) \<and> (\<forall>c \<in> set (take sz name). release_char c) \<and>
     \<not> suffix (ascii ''.partial'') (take sz name)"
proof -
  assume le: "sz \<le> length name"
  have "sz < 8 \<Longrightarrow> \<not> suffix release_partial (take sz name)"
    using suffix_length_le [of release_partial "take sz name"] by (auto simp: length_release_partial)
  then show ?thesis
    using component_valid_iff [OF le] partial_mismatch_iff [OF _ le]
    by (simp add: tc002_release_name_valid_def length_release_partial flip: release_partial_text)
qed

text \<open>
  A release name is accepted exactly when it has 1 to 64 characters from [A-Za-z0-9._+-], starts
  with a letter or a digit and does not end in ".partial".
\<close>

theorem release_name_valid_iff:
  "sz \<le> length name \<Longrightarrow>
   tc002_release_name_valid name sz \<longleftrightarrow>
     0 < sz \<and> sz \<le> 64 \<and> release_alnum (name ! 0) \<and> (\<forall>c \<in> set (take sz name). release_char c) \<and>
     \<not> suffix (ascii ''.partial'') (take sz name)"
  by (rule name_valid_iff)

lemma release_name_valid_iff_witness:
  "tc002_release_name_valid (ascii ''1.2.0-beta'') 10 \<and> \<not> tc002_release_name_valid (ascii ''1.2.partial'') 11"
proof -
  have a: "(10::nat) \<le> length (ascii ''1.2.0-beta'')" and b: "(11::nat) \<le> length (ascii ''1.2.partial'')"
    by code_simp+
  have "0 < (10::nat) \<and> (10::nat) \<le> 64 \<and> release_alnum (ascii ''1.2.0-beta'' ! 0) \<and>
      (\<forall>c \<in> set (take 10 (ascii ''1.2.0-beta'')). release_char c) \<and>
      \<not> suffix (ascii ''.partial'') (take 10 (ascii ''1.2.0-beta''))"
    by code_simp
  moreover have "suffix (ascii ''.partial'') (take 11 (ascii ''1.2.partial''))" by code_simp
  ultimately show ?thesis
    using release_name_valid_iff [OF a] release_name_valid_iff [OF b] by blast
qed

section \<open>Endian round trips\<close>

lemma big_endian_snoc: "big_endian (bs @ [b]) = wrap64 (big_endian bs * 256) + unat b"
  by (simp add: big_endian_def)

lemma big_endian_bound: "length bs \<le> 8 \<Longrightarrow> big_endian bs < 256 ^ length bs"
proof (induction bs rule: rev_induct)
  case Nil
  then show ?case by (simp add: big_endian_def)
next
  case (snoc b bs)
  have "wrap64 (big_endian bs * 256) \<le> big_endian bs * 256" by (simp add: wrap64_def)
  with snoc unat_byte_less [of b] show ?case by (simp add: big_endian_snoc)
qed

lemma pow256_mono: "n \<le> 7 \<Longrightarrow> (256::nat) ^ n * 256 \<le> 2 ^ 64"
  using power_increasing [of n 7 "256::nat"] by simp

lemma big_endian_snoc_exact:
  assumes "length bs \<le> 7"
  shows "big_endian (bs @ [b]) = big_endian bs * 256 + unat b"
proof -
  have "big_endian bs * 256 < 256 ^ length bs * 256"
    using big_endian_bound [of bs] assms by simp
  also have "\<dots> \<le> 2 ^ 64" using assms by (rule pow256_mono)
  finally show ?thesis by (simp add: big_endian_snoc wrap_simps)
qed

lemma length_put_big_endian [simp]: "length (put_big_endian v n) = n"
  by (induction n arbitrary: v) simp_all

lemma big_endian_put: "v < 256 ^ n \<Longrightarrow> n \<le> 8 \<Longrightarrow> big_endian (put_big_endian v n) = v"
proof (induction n arbitrary: v)
  case 0
  then show ?case by (simp add: big_endian_def)
next
  case (Suc n)
  have "big_endian (put_big_endian (v div 256) n) = v div 256"
    using Suc.prems by (intro Suc.IH) (simp_all add: less_mult_imp_div_less mult.commute)
  then show ?case
    using Suc.prems by (simp add: big_endian_snoc_exact unat_of_nat)
qed

lemma put_big_endian: "length bs \<le> 8 \<Longrightarrow> put_big_endian (big_endian bs) (length bs) = bs"
proof (induction bs rule: rev_induct)
  case Nil
  then show ?case by simp
next
  case (snoc b bs)
  have "(of_nat 256 :: byte) = 0" by simp
  then have "of_nat (big_endian bs * 256 + unat b) = b"
    by (simp only: of_nat_add of_nat_mult) simp
  with snoc unat_byte_less [of b] show ?case by (simp add: big_endian_snoc_exact)
qed

section \<open>The header as its fields laid end to end\<close>

definition slot_body :: "nat \<Rightarrow> nat \<Rightarrow> bytes \<Rightarrow> bytes \<Rightarrow> bytes" where
  "slot_body image_bytes counter digest name =
     RELEASE_SLOT_MAGIC @ put_big_endian image_bytes 8 @ put_big_endian counter 8 @ digest @
     put_big_endian (length name) 2 @ name @ replicate (64 - length name) 0"

definition header_ok :: "release_slot_header \<Rightarrow> bool" where
  "header_ok h \<longleftrightarrow> hdr_image_bytes h < 2 ^ 64 \<and> hdr_counter h < 2 ^ 64 \<and>
     length (hdr_image_sha256 h) = 32 \<and> length (hdr_release h) = 65"

text \<open>The char array of a name, filled up with NULs.\<close>

definition name_array :: "bytes \<Rightarrow> bytes" where
  "name_array name = name @ replicate (65 - length name) 0"

lemma slot_checksum_eq: "slot_checksum h = sha256 (take 122 h)"
  using sha256_stream [of "replicate 64 0" "[take 122 h]"] by (simp add: slot_checksum_def)

lemma length_magic [simp]: "length RELEASE_SLOT_MAGIC = 8"
  by (simp add: RELEASE_SLOT_MAGIC_def)

lemma length_slot_body [simp]:
  "length digest = 32 \<Longrightarrow> length name \<le> 64 \<Longrightarrow> length (slot_body i c digest name) = 122"
  by (simp add: slot_body_def)

lemma name_valid_take: "sz \<le> length name \<Longrightarrow>
    tc002_release_name_valid (take sz name) sz = tc002_release_name_valid name sz"
  using name_valid_iff [of sz name] name_valid_iff [of sz "take sz name"]
  by (cases "sz = 0") auto

lemma name_valid_length: "tc002_release_name_valid name sz \<Longrightarrow> 0 < sz \<and> sz \<le> 64"
  by (auto simp: tc002_release_name_valid_def tc002_release_component_valid_def split: if_splits)

lemma name_valid_no_nul:
  assumes "tc002_release_name_valid name sz" and "sz \<le> length name"
  shows "0 \<notin> set (take sz name)"
  using assms name_valid_iff release_char_nonzero by blast

lemma cstr_take: "cstr bs = take (length (cstr bs)) bs"
  by (metis append_eq_conv_conj cstr_def takeWhile_dropWhile_id)

lemma length_cstr_le: "length (cstr bs) \<le> length bs"
  by (simp add: cstr_def length_takeWhile_le)

lemma cstr_append_nul: "0 \<notin> set name \<Longrightarrow> cstr (name @ 0 # rest) = name"
  by (induction name) (auto simp: cstr_def)

lemma name_array_nul: "length name \<le> 64 \<Longrightarrow> name_array name = name @ 0 # replicate (64 - length name) 0"
proof -
  assume "length name \<le> 64"
  then have "65 - length name = Suc (64 - length name)" by simp
  then show ?thesis by (simp add: name_array_def)
qed

lemma cstr_name_array: "0 \<notin> set name \<Longrightarrow> length name \<le> 64 \<Longrightarrow> cstr (name_array name) = name"
  by (simp add: name_array_nul cstr_append_nul)

section \<open>Encoding and decoding\<close>

lemma encode_ok_iff:
  "release_slot_encode h = Inr out \<longleftrightarrow>
     hdr_image_bytes h \<noteq> 0 \<and> hdr_counter h \<noteq> 0 \<and> hdr_counter h \<le> COUNTER_LIMIT \<and>
     tc002_release_name_valid (hdr_release h) (length (cstr (hdr_release h))) \<and>
     out = (let body = slot_body (hdr_image_bytes h) (hdr_counter h) (take 32 (hdr_image_sha256 h)) (cstr (hdr_release h))
            in body @ sha256 body)"
  if "header_ok h"
proof -
  let ?n = "length (cstr (hdr_release h))"
  let ?body = "slot_body (hdr_image_bytes h) (hdr_counter h) (take 32 (hdr_image_sha256 h)) (cstr (hdr_release h))"
  let ?raw = "patch (patch (patch (patch (patch (patch (replicate HEADER_BYTES 0) 0 RELEASE_SLOT_MAGIC) 8
      (put_big_endian (hdr_image_bytes h) 8)) 16 (put_big_endian (hdr_counter h) 8)) 24
      (take 32 (hdr_image_sha256 h))) 56 (put_big_endian ?n 2)) 58 (take ?n (hdr_release h))"
  have sha: "length (hdr_image_sha256 h) = 32" using that by (simp add: header_ok_def)
  have raw: "?raw = ?body @ replicate 32 0" if "?n \<le> 64"
    using that sha cstr_take [of "hdr_release h"]
    by (simp add: patch_def slot_body_def replicate_add [symmetric] drop_Cons')
  have "patch ?raw 122 (slot_checksum ?raw) = ?body @ sha256 ?body" if "?n \<le> 64"
    unfolding raw [OF that] slot_checksum_eq using sha that by (simp add: patch_def)
  then show ?thesis
    using name_valid_length [of "hdr_release h" ?n]
    by (auto simp: release_slot_encode_def Let_def not_less)
qed

text \<open>The 154 header bytes cut at the field boundaries.\<close>

lemma header_cut:
  assumes "length bs = 154" and "len \<le> 64"
  shows "bs = take 8 bs @ take 8 (drop 8 bs) @ take 8 (drop 16 bs) @ take 32 (drop 24 bs) @
     take 2 (drop 56 bs) @ take len (drop 58 bs) @ take (64 - len) (drop (58 + len) bs) @ take 32 (drop 122 bs)"
proof -
  have "drop a bs = take n (drop a bs) @ drop (a + n) bs" for a n
    by (metis add.commute append_take_drop_id drop_drop)
  from this [of 0 8] this [of 8 8] this [of 16 8] this [of 24 32] this [of 56 2] this [of 58 len]
    this [of "58 + len" "64 - len"] assms
  show ?thesis by simp
qed

lemma no_nonzero_iff:
  assumes "length bs = 154" and "len \<le> 64"
  shows "list_ex (\<lambda>i. bs ! (58 + i) \<noteq> 0) [len..<64] \<longleftrightarrow>
     take (64 - len) (drop (58 + len) bs) \<noteq> replicate (64 - len) 0"
proof -
  have "take (64 - len) (drop (58 + len) bs) = replicate (64 - len) 0 \<longleftrightarrow>
      (\<forall>i < 64 - len. bs ! (58 + len + i) = 0)"
    using assms by (simp add: list_eq_iff_nth_eq)
  also have "\<dots> \<longleftrightarrow> (\<forall>i \<in> {len..<64}. bs ! (58 + i) = 0)"
  proof safe
    fix i assume "\<forall>i<64 - len. bs ! (58 + len + i) = 0" and "i \<in> {len..<64}"
    then show "bs ! (58 + i) = 0"
      by (auto dest: spec [of _ "i - len"])
  next
    fix i assume all: "\<forall>i\<in>{len..<64}. bs ! (58 + i) = 0" and "i < 64 - len"
    then have "len + i \<in> {len..<64}" by simp
    with all have "bs ! (58 + (len + i)) = 0" by blast
    then show "bs ! (58 + len + i) = 0" by (simp add: add.assoc)
  qed
  finally show ?thesis by (auto simp: list_ex_iff)
qed

lemma decode_sound:
  assumes len: "length bs = 154" and dec: "release_slot_decode bs capacity = Inr h"
  shows "\<exists>name. tc002_release_name_valid name (length name) \<and> hdr_release h = name_array name \<and>
     bs = (let body = slot_body (hdr_image_bytes h) (hdr_counter h) (hdr_image_sha256 h) name in body @ sha256 body) \<and>
     hdr_image_bytes h \<noteq> 0 \<and> hdr_image_bytes h \<le> capacity \<and> hdr_counter h \<noteq> 0 \<and>
     hdr_counter h \<le> COUNTER_LIMIT \<and> header_ok h"
proof -
  let ?ib = "big_endian (take 8 (drop 8 bs))" and ?ct = "big_endian (take 8 (drop 16 bs))"
    and ?n = "big_endian (take 2 (drop 56 bs))"
  let ?name = "take ?n (drop 58 bs)" and ?sha = "take 32 (drop 24 bs)"
  have valid: "tc002_release_name_valid (drop 58 bs) ?n" and magic: "take 8 bs = RELEASE_SLOT_MAGIC"
    and sum: "take 32 (drop 122 bs) = slot_checksum bs" and ib: "?ib \<noteq> 0" "?ib \<le> capacity"
    and ct: "?ct \<noteq> 0" "?ct \<le> COUNTER_LIMIT"
    and nz: "\<not> list_ex (\<lambda>i. bs ! (58 + i) \<noteq> 0) [?n..<64]"
    and h: "h = \<lparr>hdr_image_bytes = ?ib, hdr_counter = ?ct, hdr_image_sha256 = ?sha,
        hdr_release = patch (replicate 65 0) 0 ?name\<rparr>"
    using dec by (auto simp: release_slot_decode_def Let_def split: if_splits)
  have n: "?n \<le> 64" using name_valid_length [OF valid] by simp
  have lname: "length ?name = ?n" using n len by simp
  have name: "tc002_release_name_valid ?name (length ?name)"
    using name_valid_take [of ?n "drop 58 bs"] valid n len by (simp add: lname)
  have be8: "put_big_endian (big_endian (take 8 (drop a bs))) 8 = take 8 (drop a bs)" if "a \<le> 16" for a
    using put_big_endian [of "take 8 (drop a bs)"] len that by simp
  have be2: "put_big_endian ?n 2 = take 2 (drop 56 bs)"
    using put_big_endian [of "take 2 (drop 56 bs)"] len by simp
  have "slot_body ?ib ?ct ?sha ?name = take 8 bs @ take 8 (drop 8 bs) @ take 8 (drop 16 bs) @ ?sha @
      take 2 (drop 56 bs) @ ?name @ take (64 - ?n) (drop (58 + ?n) bs)"
    using no_nonzero_iff [OF len n] nz by (simp only: slot_body_def lname be8 be2 magic) simp
  then have cut: "slot_body ?ib ?ct ?sha ?name @ take 32 (drop 122 bs) = bs"
    using header_cut [OF len n] by (simp only: append_assoc)
  have "length ?sha = 32" using len by simp
  then have "length (slot_body ?ib ?ct ?sha ?name) = 122"
    using lname n by (intro length_slot_body) simp_all
  then have body: "take 122 bs = slot_body ?ib ?ct ?sha ?name"
    using cut by (metis append_eq_conv_conj)
  have eq: "bs = (let body = slot_body ?ib ?ct ?sha ?name in body @ sha256 body)"
    using cut unfolding sum slot_checksum_eq body Let_def by (rule sym)
  have rel: "patch (replicate 65 0) 0 ?name = name_array ?name"
    using lname n by (simp add: patch_def name_array_def del: length_take)
  have bound: "?ib < 2 ^ 64" "?ct < 2 ^ 64"
    using big_endian_bound [of "take 8 (drop 8 bs)"] big_endian_bound [of "take 8 (drop 16 bs)"] len by simp_all
  have "length (name_array ?name) = 65" using lname n by (simp add: name_array_def del: length_take)
  then have "header_ok h" using bound \<open>length ?sha = 32\<close> by (simp only: h header_ok_def rel) simp
  then show ?thesis
    using name ib ct eq by (intro exI [of _ ?name] conjI) (simp_all only: h rel release_slot_header.simps not_False_eq_True)
qed

lemma decode_complete:
  assumes name: "tc002_release_name_valid name (length name)" and sha: "length digest = 32"
    and ib: "ib \<noteq> 0" "ib \<le> capacity" "ib < 2 ^ 64" and ct: "ct \<noteq> 0" "ct \<le> COUNTER_LIMIT"
  shows "release_slot_decode (slot_body ib ct digest name @ sha256 (slot_body ib ct digest name)) capacity =
     Inr \<lparr>hdr_image_bytes = ib, hdr_counter = ct, hdr_image_sha256 = digest, hdr_release = name_array name\<rparr>"
proof -
  let ?body = "slot_body ib ct digest name"
  let ?bs = "?body @ sha256 ?body"
  have n: "length name \<le> 64" using name_valid_length [OF name] by simp
  have len: "length ?body = 122" using sha n by simp
  have len': "length ?bs = 154" using sha n by simp
  have "take 122 ?bs = ?body" "take 32 (drop 122 ?bs) = sha256 ?body" using len by simp_all
  then have sum: "slot_checksum ?bs = take 32 (drop 122 ?bs)" by (simp add: slot_checksum_eq)
  have fields: "take 8 ?bs = RELEASE_SLOT_MAGIC" "take 8 (drop 8 ?bs) = put_big_endian ib 8"
    "take 8 (drop 16 ?bs) = put_big_endian ct 8" "take 32 (drop 24 ?bs) = digest"
    "take 2 (drop 56 ?bs) = put_big_endian (length name) 2"
    "take (length name) (drop 58 ?bs) = name"
    "take (64 - length name) (drop (58 + length name) ?bs) = replicate (64 - length name) 0"
    using sha by (simp_all add: slot_body_def)
  have be: "big_endian (put_big_endian ib 8) = ib" "big_endian (put_big_endian ct 8) = ct"
    "big_endian (put_big_endian (length name) 2) = length name"
    using ib ct n by (simp_all add: big_endian_put)
  have valid: "tc002_release_name_valid (drop 58 ?bs) (length name)"
    using name_valid_take [of "length name" "drop 58 ?bs"] name n len' unfolding fields by simp
  have nz: "\<not> list_ex (\<lambda>i. ?bs ! (58 + i) \<noteq> 0) [length name..<64]"
    using no_nonzero_iff [OF len' n] fields by simp
  have rel: "patch (replicate 65 0) 0 name = name_array name"
    using n by (simp add: patch_def name_array_def)
  show ?thesis
    unfolding release_slot_decode_def Let_def fields be sum
    using ib ct valid nz by (simp add: fields rel)
qed

lemma slot_roundtrip:
  assumes "header_ok h" and "release_slot_encode h = Inr out" and "hdr_image_bytes h \<le> capacity"
  shows "length out = 154 \<and>
    release_slot_decode out capacity = Inr (h\<lparr>hdr_release := name_array (cstr (hdr_release h))\<rparr>)"
proof -
  let ?name = "cstr (hdr_release h)"
  have valid: "tc002_release_name_valid (hdr_release h) (length ?name)"
    and out: "out = (let body = slot_body (hdr_image_bytes h) (hdr_counter h) (hdr_image_sha256 h) ?name in body @ sha256 body)"
    and fields: "hdr_image_bytes h \<noteq> 0" "hdr_counter h \<noteq> 0" "hdr_counter h \<le> COUNTER_LIMIT"
    and sha: "length (hdr_image_sha256 h) = 32" and ib: "hdr_image_bytes h < 2 ^ 64"
    using assms encode_ok_iff [OF assms(1)] by (auto simp: header_ok_def)
  have "tc002_release_name_valid ?name (length ?name)"
    using valid name_valid_take [OF length_cstr_le] cstr_take by metis
  with decode_complete [of ?name "hdr_image_sha256 h" "hdr_image_bytes h" capacity "hdr_counter h"]
  show ?thesis
    using fields sha ib assms(3) name_valid_length [OF valid] by (simp add: out Let_def)
qed

text \<open>
  C31. Round trip: a header that release_slot_encode accepts is read back by release_slot_decode with
  every field, the name array cleared behind its terminator, on every partition the image fits.
\<close>

theorem release_slot_roundtrip:
  assumes "header_ok h" and "release_slot_encode h = Inr out" and "hdr_image_bytes h \<le> capacity"
  shows "length out = 154 \<and>
    release_slot_decode out capacity = Inr (h\<lparr>hdr_release := name_array (cstr (hdr_release h))\<rparr>)"
  using assms by (rule slot_roundtrip)

definition example_header :: release_slot_header where
  "example_header = \<lparr>hdr_image_bytes = 4096, hdr_counter = 7, hdr_image_sha256 = replicate 32 0xab,
     hdr_release = name_array (ascii ''1.2.0'')\<rparr>"

lemma example_header_ok: "header_ok example_header"
  by (simp add: example_header_def header_ok_def name_array_def ascii_def)

lemma example_header_encodes: "\<exists>out. release_slot_encode example_header = Inr out"
proof -
  have "tc002_release_name_valid (hdr_release example_header) (length (cstr (hdr_release example_header)))"
    by code_simp
  then show ?thesis
    unfolding encode_ok_iff [OF example_header_ok] by (simp add: example_header_def)
qed

theorem release_slot_roundtrip_witness:
  "\<exists>out. release_slot_encode example_header = Inr out \<and> length out = 154 \<and>
     release_slot_decode out 65536 = Inr (example_header\<lparr>hdr_release := name_array (cstr (hdr_release example_header))\<rparr>)"
proof -
  obtain out where out: "release_slot_encode example_header = Inr out" using example_header_encodes by blast
  have fits: "hdr_image_bytes example_header \<le> 65536" by (simp add: example_header_def)
  from release_slot_roundtrip [OF example_header_ok out fits] out show ?thesis by blast
qed

lemma slot_canonical:
  assumes "length bs = 154" and "release_slot_decode bs capacity = Inr h"
  shows "release_slot_encode h = Inr bs \<and> header_ok h \<and>
    0 < hdr_image_bytes h \<and> hdr_image_bytes h \<le> capacity"
proof -
  from decode_sound [OF assms] obtain name where
    name: "tc002_release_name_valid name (length name)" "hdr_release h = name_array name"
    and bs: "bs = (let body = slot_body (hdr_image_bytes h) (hdr_counter h) (hdr_image_sha256 h) name in body @ sha256 body)"
    and h: "hdr_image_bytes h \<noteq> 0" "hdr_image_bytes h \<le> capacity" "hdr_counter h \<noteq> 0"
      "hdr_counter h \<le> COUNTER_LIMIT" "header_ok h"
    by blast
  have n: "length name \<le> 64" "0 \<notin> set name"
    using name_valid_length [OF name(1)] name_valid_no_nul [OF name(1)] by simp_all
  have cstr: "cstr (hdr_release h) = name"
    using cstr_name_array [OF n(2) n(1)] name(2) by simp
  have "tc002_release_name_valid (hdr_release h) (length name)"
    using name_valid_take [of "length name" "hdr_release h"] name n by (simp add: name_array_def)
  then have "release_slot_encode h = Inr bs"
    unfolding encode_ok_iff [OF h(5)] cstr using h bs by (simp add: header_ok_def)
  with h show ?thesis by simp
qed

text \<open>
  The encoding is canonical: whatever 154 bytes release_slot_decode accepts are exactly the bytes
  release_slot_encode writes for the header it returns; its image is not empty and fits the capacity.
\<close>

theorem release_slot_canonical:
  assumes "length bs = 154" and "release_slot_decode bs capacity = Inr h"
  shows "release_slot_encode h = Inr bs \<and> header_ok h \<and>
    0 < hdr_image_bytes h \<and> hdr_image_bytes h \<le> capacity"
  using assms by (rule slot_canonical)

theorem release_slot_canonical_witness:
  "\<exists>bs h. length bs = 154 \<and> release_slot_decode bs 65536 = Inr h \<and> release_slot_encode h = Inr bs"
proof -
  obtain out where out: "release_slot_encode example_header = Inr out" using example_header_encodes by blast
  have "tc002_release_name_valid (cstr (hdr_release example_header)) (length (cstr (hdr_release example_header)))"
    by code_simp
  with decode_complete [of "cstr (hdr_release example_header)" "hdr_image_sha256 example_header"
      "hdr_image_bytes example_header" 65536 "hdr_counter example_header"]
  obtain h where dec: "release_slot_decode out 65536 = Inr h"
    using out [unfolded encode_ok_iff [OF example_header_ok]] by (auto simp: example_header_def Let_def)
  have len: "length out = 154"
    using out [unfolded encode_ok_iff [OF example_header_ok]] name_valid_length
    by (fastforce simp: example_header_def Let_def)
  from release_slot_canonical [OF len dec] len dec show ?thesis by blast
qed

lemma slot_locate_iff:
  assumes "partition_size + erase_size \<le> 2 ^ 64"
  shows "release_slot_locate superblock partition_size erase_size = Inr lay \<longleftrightarrow>
     0 < erase_size \<and> erase_size dvd partition_size \<and>
     0 < squashfs_bytes superblock \<and> squashfs_bytes superblock \<le> lay_header lay \<and>
     lay_header lay < squashfs_bytes superblock + erase_size \<and> erase_size dvd lay_header lay \<and>
     lay_image lay = lay_header lay + erase_size \<and>
     lay_image lay + lay_capacity lay = partition_size \<and> erase_size \<le> lay_capacity lay"
    (is "?l \<longleftrightarrow> ?r")
proof
  let ?used = "squashfs_bytes superblock"
  let ?up = "(?used + erase_size - 1) div erase_size * erase_size"
  have wrap: "wrap64 (?used + erase_size - 1) = ?used + erase_size - 1" if "?used \<le> partition_size" "0 < erase_size"
    using that assms by (intro wrap64_id) linarith
  {
    assume ?l
    then have g: "0 < erase_size" "erase_size dvd partition_size" "2 * erase_size \<le> partition_size"
      "0 < ?used" "?used \<le> partition_size" "?up \<le> partition_size - 2 * erase_size"
      and lay: "lay = \<lparr>lay_header = ?up, lay_image = ?up + erase_size,
        lay_capacity = partition_size - (?up + erase_size)\<rparr>"
      using wrap by (auto simp: release_slot_locate_def Let_def not_less dvd_eq_mod_eq_0 split: if_splits)
    with round_up_ge [of erase_size ?used] round_up_less [of erase_size ?used] show ?r by simp
  next
    assume r: ?r
    then have used: "?used \<le> partition_size" "0 < erase_size" by simp_all
    have "?up = lay_header lay"
    proof -
      obtain k where k: "lay_header lay = k * erase_size" using r by (metis dvd_def mult.commute)
      have a: "?used \<le> erase_size * k" "erase_size * k < ?used + erase_size" "0 < ?used"
        using r k by (simp_all add: mult.commute)
      have "(?used + erase_size - 1) div erase_size = k"
      proof (rule div_nat_eqI)
        show "erase_size * k \<le> ?used + erase_size - 1" using a by linarith
        show "?used + erase_size - 1 < erase_size * Suc k" using a by simp
      qed
      then show ?thesis by (simp add: k)
    qed
    moreover have "lay = \<lparr>lay_header = lay_header lay, lay_image = lay_header lay + erase_size,
        lay_capacity = partition_size - (lay_header lay + erase_size)\<rparr>"
      using r by (cases lay) auto
    ultimately show ?l
      using r wrap [OF used] used by (auto simp: release_slot_locate_def Let_def dvd_eq_mod_eq_0)
  }
qed

text \<open>
  Slot geometry: on a partition whose size does not reach the end of the 64-bit range,
  release_slot_locate succeeds exactly when the erase blocks tile the partition, it starts with a
  squashfs inside it and two whole blocks are left behind that; then the header block starts on the
  first erase boundary behind the squashfs, the image on the next one, and the capacity runs to the
  end of the partition and is at least one block.
\<close>

theorem release_slot_locate_iff:
  assumes "partition_size + erase_size \<le> 2 ^ 64"
  shows "release_slot_locate superblock partition_size erase_size = Inr lay \<longleftrightarrow>
     0 < erase_size \<and> erase_size dvd partition_size \<and>
     0 < squashfs_bytes superblock \<and> squashfs_bytes superblock \<le> lay_header lay \<and>
     lay_header lay < squashfs_bytes superblock + erase_size \<and> erase_size dvd lay_header lay \<and>
     lay_image lay = lay_header lay + erase_size \<and>
     lay_image lay + lay_capacity lay = partition_size \<and> erase_size \<le> lay_capacity lay"
  using assms by (rule slot_locate_iff)

definition example_superblock :: bytes where
  "example_superblock = [0x68, 0x73, 0x71, 0x73] @ replicate 36 0 @ [0xa0, 0, 0, 0, 0, 0, 0, 0] @ replicate 48 0"

theorem release_slot_locate_iff_witness:
  "release_slot_locate example_superblock 1024 128 = Inr \<lparr>lay_header = 256, lay_image = 384, lay_capacity = 640\<rparr>"
proof -
  have size: "1024 + 128 \<le> (2::nat) ^ 64" by simp
  have used: "squashfs_bytes example_superblock = 160"
    by (simp add: squashfs_bytes_def little_endian_def wrap64_def example_superblock_def)
  show ?thesis unfolding release_slot_locate_iff [OF size] used by simp
qed

text \<open>
  C32. A header write that stops part way is never read as another release: 154 bytes that start with
  a prefix of a valid header and are erased (all ones) behind it decode only when they are the whole
  header, or when the SHA-256 of the torn fields is itself all ones.
\<close>

theorem torn_header_decodes:
  assumes "header_ok h" and "release_slot_encode h = Inr out"
    and "torn = take k out @ replicate (154 - k) 0xff" and "k \<le> 154"
    and "release_slot_decode torn capacity = Inr h'"
  shows "torn = out \<or> sha256 (take 122 torn) = replicate 32 0xff"
proof -
  have out: "length out = 154" "take 32 (drop 122 out) = sha256 (take 122 out)"
    using assms(1,2) name_valid_length [of "hdr_release h"]
    by (auto simp: encode_ok_iff Let_def header_ok_def)
  have len: "length torn = 154" using assms(3,4) out by simp
  have sum: "sha256 (take 122 torn) = drop 122 torn"
    using assms(5) len by (auto simp: release_slot_decode_def slot_checksum_eq split: if_splits)
  show ?thesis
  proof (cases "122 \<le> k")
    case True
    have "take 122 torn = take 122 out" using True assms(3,4) out by (simp add: min_def)
    moreover have "drop 122 out = sha256 (take 122 out)" using out by simp
    ultimately have "take 122 torn @ drop 122 torn = take 122 out @ drop 122 out" using sum by simp
    then show ?thesis by simp
  next
    case False
    have "drop 122 torn = replicate 32 0xff" using False assms(3) out by simp
    with sum show ?thesis by simp
  qed
qed

lemma erased_header_invalid: "release_slot_decode (replicate n 0xff) capacity = Inl (- EINVAL)"
proof -
  have "take 8 (replicate n (0xff :: byte)) \<noteq> RELEASE_SLOT_MAGIC"
    by (cases n) (simp_all add: RELEASE_SLOT_MAGIC_def)
  then show ?thesis by (simp add: release_slot_decode_def)
qed

theorem torn_header_decodes_witness:
  "\<exists>out h'. release_slot_encode example_header = Inr out \<and>
     release_slot_decode (take 154 out @ replicate (154 - 154) 0xff) 65536 = Inr h' \<and>
     (take 154 out @ replicate (154 - 154) 0xff = out \<or>
      sha256 (take 122 (take 154 out @ replicate (154 - 154) 0xff)) = replicate 32 0xff)"
proof -
  obtain out where out: "release_slot_encode example_header = Inr out" using example_header_encodes by blast
  have fits: "hdr_image_bytes example_header \<le> 65536" by (simp add: example_header_def)
  from slot_roundtrip [OF example_header_ok out fits] obtain h' where
    dec: "length out = 154" "release_slot_decode (take 154 out @ replicate (154 - 154) 0xff) 65536 = Inr h'"
    by auto
  from torn_header_decodes [OF example_header_ok out refl _ dec(2)] out dec show ?thesis by blast
qed

end
