(* ===== verification/Slot_IO.thy ===== *)
theory Slot_IO
  imports Release_Slot Mtd_Device
begin

text \<open>
  The release slot on a device (\<^verbatim>\<open>flasher/slot_io.c\<close>): reading and verifying the slot, and writing
  a release in the order that makes a cut at any point safe: check the source, erase the header block,
  write and verify the image, then write and verify the header. The lemmas are proved over the
  interface \<open>flash_job\<close>, so they hold of every device that keeps its laws; the last section puts
  them on the MTD device.
\<close>

section \<open>Code\<close>

definition slot_layout_of :: "'w flash_device \<Rightarrow> 'w \<Rightarrow> (int + release_slot_layout) \<times> 'w" where
  "slot_layout_of res w =
     (case dev_read res 0 SUPERBLOCK_BYTES w of (r, superblock, w) \<Rightarrow>
        (if r \<noteq> 0 then Inl r else release_slot_locate superblock (dev_size res) (dev_erase_size res), w))"

text \<open>The result, the layout and the header it stored, if it came that far.\<close>

definition slot_read ::
  "(nat \<Rightarrow> 'w \<Rightarrow> bool \<times> 'w) \<Rightarrow> 'w flash_device \<Rightarrow> bool \<Rightarrow> 'w \<Rightarrow>
   int \<times> release_slot_layout option \<times> release_slot_header option \<times> 'w" where
  "slot_read mal res verify w =
     (case slot_layout_of res w of (x, w) \<Rightarrow>
      case x of Inl e \<Rightarrow> (e, None, None, w)
      | Inr layout \<Rightarrow>
        case dev_read res (lay_header layout) HEADER_BYTES w of (r, bs, w) \<Rightarrow>
        if r \<noteq> 0 then (r, Some layout, None, w)
        else case release_slot_decode bs (lay_capacity layout) of
          Inl _ \<Rightarrow> (- ENOENT, Some layout, None, w)
        | Inr header \<Rightarrow>
          if \<not> verify then (0, Some layout, Some header, w)
          else case flash_hash_range mal res (lay_image layout) (hdr_image_bytes header) w of (r, digest, w) \<Rightarrow>
            (if r \<noteq> 0 then r else if digest \<noteq> hdr_image_sha256 header then - EBADMSG else 0,
             Some layout, Some header, w))"

definition memory_source :: "bytes \<Rightarrow> 'w flash_source" where
  "memory_source bs = \<lparr>src_length = length bs, src_read = (\<lambda>off n w. (0, take n (drop off bs), w))\<rparr>"

definition hash_source :: "(nat \<Rightarrow> 'w \<Rightarrow> bool \<times> 'w) \<Rightarrow> 'w flash_source \<Rightarrow> 'w \<Rightarrow> int \<times> bytes \<times> 'w" where
  "hash_source mal img w =
     (case mal HASH_CHUNK w of (ok, w) \<Rightarrow>
        if \<not> ok then (- ENOMEM, [], w)
        else case hash_chunks (src_read img) 0 (src_length img) 0 (sha256_init (replicate 64 0)) w of (r, state, w) \<Rightarrow>
          (r, if r = 0 then fst (sha256_final state) else [], w))"

text \<open>Everything slot_write checks before it touches the flash: the layout and the encoded header.\<close>

definition slot_write_checks ::
  "(nat \<Rightarrow> 'w \<Rightarrow> bool \<times> 'w) \<Rightarrow> 'w flash_device \<Rightarrow> 'w flash_source \<Rightarrow> release_slot_header \<Rightarrow> flash_report \<Rightarrow> 'w \<Rightarrow>
   (int + release_slot_layout \<times> bytes) \<times> flash_report \<times> 'w" where
  "slot_write_checks mal res img header rep w =
     (let failed = (\<lambda>rep stage off err w. case flash_fail rep stage off err of (r, rep) \<Rightarrow> (Inl r, rep, w))
      in case slot_layout_of res w of (x, w) \<Rightarrow>
         case x of Inl e \<Rightarrow> failed rep ''layout'' 0 (- e) w
         | Inr layout \<Rightarrow>
           let rep = rep\<lparr>rep_offset := lay_image layout\<rparr> in
           case release_slot_encode header of
             Inl _ \<Rightarrow> failed rep ''header'' (lay_header layout) EINVAL w
           | Inr encoded \<Rightarrow>
             if src_length img \<noteq> hdr_image_bytes header then failed rep ''source'' 0 EINVAL w
             else if lay_capacity layout < src_length img then failed rep ''capacity'' (lay_image layout) EFBIG w
             else if src_length img < SUPERBLOCK_BYTES then failed rep ''source'' 0 EINVAL w
             else case src_read img 0 SUPERBLOCK_BYTES w of (r, superblock, w) \<Rightarrow>
             if r \<noteq> 0 then failed rep ''source'' 0 (- r) w
             else if \<not> release_slot_image_valid superblock (src_length img) then failed rep ''source'' 0 EINVAL w
             else case hash_source mal img w of (r, digest, w) \<Rightarrow>
             if r \<noteq> 0 then failed rep ''source'' 0 (- r) w
             else if digest \<noteq> hdr_image_sha256 header then failed rep ''source'' 0 EBADMSG w
             else (Inr (layout, encoded), rep, w))"

text \<open>The header write and its check, the last step.\<close>

definition slot_write_header ::
  "(nat \<Rightarrow> 'w \<Rightarrow> bool \<times> 'w) \<Rightarrow> 'w flash_device \<Rightarrow> release_slot_layout \<Rightarrow> bytes \<Rightarrow> release_slot_header \<Rightarrow>
   flash_report \<Rightarrow> 'w \<Rightarrow> int \<times> flash_report \<times> 'w" where
  "slot_write_header mal res layout encoded header rep w =
     (case flash_write_image mal res (memory_source encoded) (lay_header layout) w of (r, written, w) \<Rightarrow>
      if r \<noteq> 0 then (case flash_fail rep ''write-header'' (rep_failed_offset written) (rep_error written) of
        (r, rep) \<Rightarrow> (r, rep, w))
      else case slot_read mal res False w of (r, _, check, w) \<Rightarrow>
      if r \<noteq> 0 \<or> (case check of None \<Rightarrow> True | Some c \<Rightarrow>
           hdr_image_bytes c \<noteq> hdr_image_bytes header \<or> hdr_counter c \<noteq> hdr_counter header \<or>
           hdr_image_sha256 c \<noteq> hdr_image_sha256 header \<or> cstr (hdr_release c) \<noteq> cstr (hdr_release header))
      then (case flash_fail rep ''verify-header'' (lay_header layout) (if r \<noteq> 0 then - r else EIO) of
        (r, rep) \<Rightarrow> (r, rep, w))
      else (0, rep\<lparr>rep_stage := ''done'', rep_offset := lay_image layout\<rparr>, w))"

definition slot_write ::
  "(nat \<Rightarrow> 'w \<Rightarrow> bool \<times> 'w) \<Rightarrow> 'w flash_device \<Rightarrow> 'w flash_source \<Rightarrow> release_slot_header \<Rightarrow> 'w \<Rightarrow>
   int \<times> flash_report \<times> 'w" where
  "slot_write mal res img header w =
     (let rep = zero_report\<lparr>rep_length := src_length img, rep_stage := ''done''\<rparr>
      in case slot_write_checks mal res img header rep w of (x, rep, w) \<Rightarrow>
         case x of Inl r \<Rightarrow> (r, rep, w)
         | Inr (layout, encoded) \<Rightarrow>
           let rep = rep\<lparr>rep_modified := True\<rparr> in
           case dev_erase res (lay_header layout) (dev_erase_size res) w of (r, w) \<Rightarrow>
           if r \<noteq> 0 then (case flash_fail rep ''erase-header'' (lay_header layout) (- r) of (r, rep) \<Rightarrow> (r, rep, w))
           else case flash_write_image mal res img (lay_image layout) w of (r, rep, w) \<Rightarrow>
           let rep = rep\<lparr>rep_modified := True\<rparr> in
           if r \<noteq> 0 then (r, rep, w)
           else if rep_sha256 rep \<noteq> hdr_image_sha256 header
             then (case flash_fail rep ''verify'' (lay_image layout) EBADMSG of (r, rep) \<Rightarrow> (r, rep, w))
           else slot_write_header mal res layout encoded header rep w)"

section \<open>Reading the slot\<close>

context flash_device_laws begin

lemma size_64': "dev_size d + dev_erase_size d \<le> 2 ^ 64"
  by (rule size_64)

lemma slot_layout_of_ok:
  assumes "slot_layout_of d w = (x, w')" and "ok w"
  shows "ok w' \<and> contents w' = contents w \<and>
    (\<forall>lay. x = Inr lay \<longrightarrow> release_slot_locate (take SUPERBLOCK_BYTES (contents w)) (dev_size d) (dev_erase_size d) = Inr lay)"
proof -
  obtain r sb w1 where rd: "dev_read d 0 SUPERBLOCK_BYTES w = (r, sb, w1)" by (metis prod_cases3)
  have law: "ok w1" "contents w1 = contents w" "r = 0 \<longrightarrow> take SUPERBLOCK_BYTES (contents w) = sb"
    using read_any [OF assms(2) rd] by simp_all
  show ?thesis using assms(1) law by (auto simp: slot_layout_of_def rd split: if_splits)
qed

lemma slot_read_ok:
  assumes "slot_read mal d verify w = (r, lay, hdr, w')" and "ok w"
  shows "ok w' \<and> contents w' = contents w \<and>
    (r = 0 \<longrightarrow> (\<exists>l h. lay = Some l \<and> hdr = Some h \<and>
       release_slot_locate (take SUPERBLOCK_BYTES (contents w)) (dev_size d) (dev_erase_size d) = Inr l \<and>
       release_slot_decode (take HEADER_BYTES (drop (lay_header l) (contents w))) (lay_capacity l) = Inr h \<and>
       length (take HEADER_BYTES (drop (lay_header l) (contents w))) = HEADER_BYTES \<and>
       (verify \<longrightarrow> sha256 (take (hdr_image_bytes h) (drop (lay_image l) (contents w))) = hdr_image_sha256 h)))"
proof -
  obtain x w1 where x: "slot_layout_of d w = (x, w1)" by fastforce
  note l1 = slot_layout_of_ok [OF x assms(2)]
  show ?thesis
  proof (cases x)
    case (Inl e)
    have "e = 0 \<Longrightarrow> False"
      using x Inl by (auto simp: slot_layout_of_def release_slot_locate_def Let_def split: prod.splits if_splits)
    then show ?thesis using assms(1) l1 Inl by (auto simp: slot_read_def x)
  next
    case (Inr l)
    obtain r2 bs w2 where rd: "dev_read d (lay_header l) HEADER_BYTES w1 = (r2, bs, w2)" by (metis prod_cases3)
    have law: "ok w2" "contents w2 = contents w"
        "r2 = 0 \<longrightarrow> take HEADER_BYTES (drop (lay_header l) (contents w)) = bs \<and> length bs = HEADER_BYTES"
      using read_any [OF _ rd] l1 by simp_all
    show ?thesis
    proof (cases "r2 = 0")
      case False
      then show ?thesis using assms(1) law by (auto simp: slot_read_def x Inr rd)
    next
      case True
      show ?thesis
      proof (cases "release_slot_decode bs (lay_capacity l)")
        case (Inl e)
        then show ?thesis using assms(1) law True by (auto simp: slot_read_def x Inr rd)
      next
        case hd: (Inr h)
        obtain r3 dg w3 where hr: "flash_hash_range mal d (lay_image l) (hdr_image_bytes h) w2 = (r3, dg, w3)"
          by (metis prod_cases3)
        have "ok w3 \<and> contents w3 = contents w \<and>
            (r3 = 0 \<longrightarrow> dg = sha256 (take (hdr_image_bytes h) (drop (lay_image l) (contents w))))"
          using flash_hash_range_ok [OF hr law(1)] law(2) by simp
        then show ?thesis using assms(1) law True l1 hd Inr
          by (auto simp: slot_read_def x rd hr split: if_splits)
      qed
    qed
  qed
qed

end

section \<open>Writing the slot\<close>

context flash_device_laws begin

lemma memory_job: "flash_job d mal contents ok (memory_source bs) bs"
  by unfold_locales (auto simp: memory_source_def)

end

lemma encode_length:
  assumes "header_ok h" and "release_slot_encode h = Inr enc"
  shows "length enc = HEADER_BYTES"
  using slot_roundtrip [OF assms, of "hdr_image_bytes h"] by simp

context flash_job begin

lemma hash_source_ok:
  assumes "hash_source mal img w = (r, digest, w')" and "ok w"
  shows "ok w' \<and> contents w' = contents w \<and> (r = 0 \<longrightarrow> digest = sha256 image)"
proof -
  obtain b w1 where m: "mal HASH_CHUNK w = (b, w1)" by fastforce
  have law: "ok w1" "contents w1 = contents w" using malloc_law [OF assms(2) m] by auto
  obtain r1 h w2 where hc: "hash_chunks (src_read img) 0 (length image) 0 (sha256_init (replicate 64 0)) w1 = (r1, h, w2)"
    by (metis prod_cases3)
  have "(ok w2 \<and> contents w2 = contents w) \<and>
      (r1 = 0 \<and> sha_abs (sha256_init (replicate 64 0)) (take 0 (drop 0 image)) \<longrightarrow>
         sha_abs h (take (length image) (drop 0 image)))"
  proof (rule hash_chunks_sound [OF hc])
    fix a n v r bs v'
    assume "ok v \<and> contents v = contents w" and "a + n \<le> 0 + length image" and "src_read img a n v = (r, bs, v')"
    then show "(ok v' \<and> contents v' = contents w) \<and> (r = 0 \<longrightarrow> bs = take n (drop a image))"
      using src_law [of v a n r bs v'] by auto
  qed (use law in simp_all)
  then have "ok w2 \<and> contents w2 = contents w \<and> (r1 = 0 \<longrightarrow> sha_abs h image)"
    using sha_abs_init [of "replicate 64 0"] by simp
  then show ?thesis using assms(1) law sha256_final_abs
    by (auto simp: hash_source_def m hc src_length split: if_splits)
qed

text \<open>What has been checked when the writing starts.\<close>

definition checked :: "release_slot_header \<Rightarrow> 'w \<Rightarrow> release_slot_layout \<Rightarrow> bytes \<Rightarrow> bool" where
  "checked h w lay enc \<longleftrightarrow>
     release_slot_locate (take SUPERBLOCK_BYTES (contents w)) (dev_size d) (dev_erase_size d) = Inr lay \<and>
     release_slot_encode h = Inr enc \<and> length image = hdr_image_bytes h \<and> length image \<le> lay_capacity lay \<and>
     release_slot_image_valid (take SUPERBLOCK_BYTES image) (length image) \<and> sha256 image = hdr_image_sha256 h"

lemma flash_fail_error: "fst (flash_fail rep stage off err) < 0"
  by (simp add: flash_fail_def Let_def)

lemma flash_fail_modified: "rep_modified (snd (flash_fail rep stage off err)) = rep_modified rep"
  by (simp add: flash_fail_def Let_def)

lemma slot_write_checks_ok:
  assumes "slot_write_checks mal d img h rep w = (x, rep', w')" and "ok w"
  shows "ok w' \<and> contents w' = contents w \<and> rep_modified rep' = rep_modified rep \<and>
    (case x of Inl r \<Rightarrow> r < 0 | Inr (lay, enc) \<Rightarrow> checked h w lay enc)"
proof -
  obtain y w1 where y: "slot_layout_of d w = (y, w1)" by fastforce
  note l1 = slot_layout_of_ok [OF y assms(2)]
  obtain r2 sb w2 where rd: "src_read img 0 SUPERBLOCK_BYTES w1 = (r2, sb, w2)" by (metis prod_cases3)
  obtain r3 dg w3 where hs: "hash_source mal img w2 = (r3, dg, w3)" by (metis prod_cases3)
  have l2: "SUPERBLOCK_BYTES \<le> length image \<Longrightarrow>
      ok w2 \<and> contents w2 = contents w \<and> (r2 = 0 \<longrightarrow> sb = take SUPERBLOCK_BYTES image)"
    using src_law [of w1 0 SUPERBLOCK_BYTES r2 sb w2] l1 rd by auto
  have l3: "SUPERBLOCK_BYTES \<le> length image \<Longrightarrow> ok w3 \<and> contents w3 = contents w \<and> (r3 = 0 \<longrightarrow> dg = sha256 image)"
    using l2 hash_source_ok [OF hs] by auto
  show ?thesis
  proof (cases y)
    case (Inl e)
    then show ?thesis using assms(1) l1
      by (auto simp: slot_write_checks_def y flash_fail_def Let_def)
  next
    case (Inr lay)
    note yy = y Inr
    show ?thesis
    proof (cases "release_slot_encode h")
      case (Inl e)
      then show ?thesis using assms(1) l1 by (auto simp: slot_write_checks_def yy flash_fail_def Let_def)
    next
      case enc: (Inr enc)
      show ?thesis
      proof (cases "length image = hdr_image_bytes h \<and> length image \<le> lay_capacity lay \<and> SUPERBLOCK_BYTES \<le> length image")
        case False
        then show ?thesis using assms(1) l1 enc
          by (auto simp: slot_write_checks_def yy flash_fail_def src_length Let_def split: if_splits)
      next
        case True
        then show ?thesis using assms(1) l1 l2 l3 enc yy
          by (auto simp: slot_write_checks_def flash_fail_def src_length rd hs checked_def Let_def split: if_splits)
      qed
    qed
  qed
qed

end

lemma one_block: "0 < n \<Longrightarrow> n \<le> m \<Longrightarrow> (n + m - 1) div m * m = m" for n m :: nat
  by (simp add: div_nat_eqI)

context flash_device_laws begin

lemma slot_write_header_ok:
  assumes run: "slot_write_header mal d lay enc h rep w = (r, rep', w')" and "ok w"
    and enc: "length enc = HEADER_BYTES" "HEADER_BYTES \<le> dev_erase_size d"
  shows "touched (lay_header lay) (dev_erase_size d) w w' \<and> rep_modified rep' = rep_modified rep \<and> r \<le> 0 \<and>
    (r = 0 \<longrightarrow> take HEADER_BYTES (drop (lay_header lay) (contents w')) = enc)"
proof -
  let ?E = "dev_erase_size d" and ?H = "lay_header lay"
  obtain r1 rep1 w1 where wr: "flash_write_image mal d (memory_source enc) ?H w = (r1, rep1, w1)" by (metis prod_cases3)
  obtain r2 l2 c2 w2 where rd: "slot_read mal d False w1 = (r2, l2, c2, w2)" by (metis prod_cases4)
  have span: "(length enc + ?E - 1) div ?E * ?E = ?E" using enc one_block [of HEADER_BYTES ?E] by simp
  have one: "touched ?H ?E w w1" "r1 = 0 \<longrightarrow> take ?E (drop ?H (contents w1)) = flash_job.padded enc 0 ?E"
    using flash_job.flash_write_image_result [OF memory_job wr assms(2)] unfolding span by simp_all
  have two: "ok w2" "contents w2 = contents w1"
    using slot_read_ok [OF rd touched_ok [OF one(1)]] by simp_all
  have t2: "touched ?H ?E w w2" using one(1) two by (simp add: touched_def)
  have "r1 = 0 \<Longrightarrow> take HEADER_BYTES (drop ?H (contents w1)) = take HEADER_BYTES (flash_job.padded enc 0 ?E)"
    using one(2) enc(2) by (metis min.absorb1 take_take)
  then have "r1 = 0 \<Longrightarrow> take HEADER_BYTES (drop ?H (contents w1)) = enc"
    using enc by (simp add: flash_job.padded_def [OF memory_job])
  then show ?thesis
    using run one(1) t2 two
    by (auto simp: slot_write_header_def wr rd flash_fail_def Let_def split: if_splits option.splits)
qed

end

text \<open>
  What a failed or finished slot_write left on the flash. \<open>v\<close> is the world the writing started in. Only
  the header block and the blocks of the image are touched; the header block is written last: before
  that it is erased, and after that the image is complete.
\<close>

context flash_job begin

definition slot_touched :: "release_slot_layout \<Rightarrow> 'w \<Rightarrow> 'w \<Rightarrow> bool" where
  "slot_touched lay v w \<longleftrightarrow> touched (lay_header lay) (dev_erase_size d + span) v w"

definition header_erased :: "release_slot_layout \<Rightarrow> 'w \<Rightarrow> bool" where
  "header_erased lay w \<longleftrightarrow>
     take (dev_erase_size d) (drop (lay_header lay) (contents w)) = replicate (dev_erase_size d) 0xff"

definition image_written :: "release_slot_layout \<Rightarrow> 'w \<Rightarrow> bool" where
  "image_written lay w \<longleftrightarrow> take (length image) (drop (lay_image lay) (contents w)) = image"

definition slot_safe :: "release_slot_layout \<Rightarrow> bytes \<Rightarrow> 'w \<Rightarrow> int \<Rightarrow> flash_report \<Rightarrow> 'w \<Rightarrow> bool" where
  "slot_safe lay enc v r rep w \<longleftrightarrow> slot_touched lay v w \<and> r \<le> 0 \<and>
     (r < 0 \<and> rep_stage rep = ''erase-header'' \<and> same_outside (lay_header lay) (dev_erase_size d) (contents v) (contents w) \<or>
      r < 0 \<and> header_erased lay w \<or>
      image_written lay w \<and> (r = 0 \<longrightarrow> take HEADER_BYTES (drop (lay_header lay) (contents w)) = enc))"

lemma padded_image: "length image \<le> n \<Longrightarrow> take (length image) (padded 0 n) = image"
  by (simp add: padded_def)

lemma flash_write_image_le: "flash_write_image mal d img off w = (r, rep, w') \<Longrightarrow> r \<le> 0"
proof -
  have blk: "write_block d img off pos rep w = (r, rep', w') \<Longrightarrow> r \<le> 0" for pos rep w r rep' w'
  proof -
    have pb: "program_block d at want k rep w = (r, rep', w') \<Longrightarrow> r \<le> 0" for at want k rep w r rep' w'
      by (induction d at want k rep w arbitrary: r rep' w' rule: program_block.induct)
        (subst (asm) program_block.simps, auto simp: flash_fail_def Let_def split: prod.splits if_splits)
    then show "write_block d img off pos rep w = (r, rep', w') \<Longrightarrow> r \<le> 0"
      by (auto simp: write_block_def flash_fail_def Let_def split: prod.splits if_splits)
  qed
  have "write_blocks n d img off pos rep w = (r, rep', w') \<Longrightarrow> r \<le> 0" for n pos rep w r rep' w'
    by (induction n arbitrary: pos rep w) (auto dest: blk split: prod.splits if_splits)
  moreover have "verify_blocks n d img off pos h rep w = (r, h', rep', w') \<Longrightarrow> r \<le> 0" for n pos h rep w r h' rep' w'
    by (induction n arbitrary: pos h w) (auto simp: flash_fail_def Let_def split: prod.splits if_splits)
  ultimately show "flash_write_image mal d img off w = (r, rep, w') \<Longrightarrow> r \<le> 0"
    by (auto simp: flash_write_image_def flash_write_span_def check_request_def flash_fail_def Let_def
        split: prod.splits if_splits)
qed

end

context flash_job begin

lemma slot_write_result:
  assumes run: "slot_write mal d img h w = (r, rep, w')" and "ok w" and h: "header_ok h"
    and blk: "HEADER_BYTES \<le> dev_erase_size d"
  shows "ok w' \<and> (\<not> rep_modified rep \<longrightarrow> contents w' = contents w \<and> r < 0) \<and>
    (rep_modified rep \<longrightarrow> (\<exists>lay enc. checked h w lay enc \<and> slot_safe lay enc w r rep w'))"
proof -
  let ?rep = "zero_report\<lparr>rep_length := src_length img, rep_stage := ''done''\<rparr>" and ?E = "dev_erase_size d"
  obtain x rep1 w1 where ck: "slot_write_checks mal d img h ?rep w = (x, rep1, w1)" by (metis prod_cases3)
  note c = slot_write_checks_ok [OF ck assms(2)]
  show ?thesis
  proof (cases x)
    case (Inl e)
    have "\<not> rep_modified ?rep" by (simp add: zero_report_def)
    then show ?thesis using run c Inl by (auto simp: slot_write_def ck Let_def)
  next
    case (Inr le)
    obtain lay enc where le: "le = (lay, enc)" by fastforce
    note x = Inr [unfolded le]
    have chk: "checked h w lay enc" using c x by simp
    have E: "0 < ?E" using blk by simp
    let ?H = "lay_header lay" and ?I = "lay_image lay"
    have geo: "?I = ?H + ?E" "?I + lay_capacity lay = dev_size d"
      using chk slot_locate_iff [OF size_64'] by (auto simp: checked_def)
    have len: "length enc = HEADER_BYTES" "length image \<le> span"
      using chk encode_length [OF h] round_up_ge [OF E] by (auto simp: checked_def)
    obtain r2 w2 where er: "dev_erase d ?H ?E w1 = (r2, w2)" by fastforce
    have fit: "?H + ?E \<le> dev_size d" using geo by simp
    have e2: "touched ?H ?E w w2" "r2 = 0 \<longrightarrow> header_erased lay w2"
      using erase_law [OF _ fit er] c by (auto simp: touched_def header_erased_def)
    obtain r3 rep3 w3 where im: "flash_write_image mal d img ?I w2 = (r3, rep3, w3)" by (metis prod_cases3)
    have i3: "touched ?I span w2 w3" "r3 = 0 \<longrightarrow> take span (drop ?I (contents w3)) = padded 0 span"
      using flash_write_image_result [OF im touched_ok [OF e2(1)]] by auto
    have r3: "r3 \<le> 0" using flash_write_image_le [OF im] .
    have t2: "slot_touched lay w w2" using e2(1) unfolding slot_touched_def by (rule touched_widen) auto
    have "touched ?H (?E + span) w2 w3" using i3(1) geo by (auto intro: touched_widen)
    then have t3: "slot_touched lay w w3" using t2 touched_trans unfolding slot_touched_def by blast
    have er3: "r2 = 0 \<Longrightarrow> header_erased lay w3"
      using e2(2) i3(1) geo same_outside_range [of ?I span "contents w2" "contents w3" ?H ?E]
      by (simp add: header_erased_def touched_def)
    have im3: "r3 = 0 \<Longrightarrow> image_written lay w3"
      using i3(2) padded_image [OF len(2)] take_take [of "length image" span "drop ?I (contents w3)"]
      by (simp only: image_written_def min.absorb1 [OF len(2)])
    let ?rep3 = "rep3\<lparr>rep_modified := True\<rparr>"
    obtain r4 rep4 w4 where hd: "slot_write_header mal d lay enc h ?rep3 w3 = (r4, rep4, w4)" by (metis prod_cases3)
    have h4: "touched ?H ?E w3 w4" "rep_modified rep4" "r4 \<le> 0"
        "r4 = 0 \<longrightarrow> take HEADER_BYTES (drop ?H (contents w4)) = enc"
      using slot_write_header_ok [OF hd _ len(1) blk] t3 touched_ok by (auto simp: slot_touched_def)
    have "touched ?H (?E + span) w3 w4" using h4(1) by (rule touched_widen) auto
    then have t4: "slot_touched lay w w4" using t3 touched_trans unfolding slot_touched_def by blast
    have im4: "r3 = 0 \<Longrightarrow> image_written lay w4"
      using im3 h4(1) geo same_outside_range [of ?H ?E "contents w3" "contents w4" ?I "length image"]
      by (simp add: image_written_def touched_def)
    note ok = touched_ok [OF t2 [unfolded slot_touched_def]] touched_ok [OF t3 [unfolded slot_touched_def]]
      touched_ok [OF t4 [unfolded slot_touched_def]]
    show ?thesis
    proof (cases "r2 = 0")
      case False
      then have "w' = w2" "r < 0" "rep_modified rep" "rep_stage rep = ''erase-header''"
        using run by (auto simp: slot_write_def ck x er flash_fail_def Let_def)
      then show ?thesis using chk t2 e2(1) ok by (auto simp: slot_safe_def touched_def)
    next
      case r2: True
      show ?thesis
      proof (cases "r3 = 0 \<and> rep_sha256 rep3 = hdr_image_sha256 h")
        case False
        then have "w' = w3" "r < 0" "rep_modified rep"
          using run r2 r3 by (auto simp: slot_write_def ck x er im flash_fail_def Let_def split: if_splits)
        then show ?thesis using chk t3 er3 r2 ok by (auto simp: slot_safe_def)
      next
        case True
        then have "r = r4" "rep = rep4" "w' = w4"
          using run r2 by (auto simp: slot_write_def ck x er im hd Let_def)
        then show ?thesis using chk t4 im4 h4 True ok by (auto simp: slot_safe_def)
      qed
    qed
  qed
qed

end

section \<open>On a device without faults\<close>

text \<open>What a read of the slot answers, as a function of the contents.\<close>

definition slot_answer :: "nat \<Rightarrow> nat \<Rightarrow> bool \<Rightarrow> bytes \<Rightarrow> int" where
  "slot_answer sz erase verify c =
     (case release_slot_locate (take SUPERBLOCK_BYTES c) sz erase of Inl e \<Rightarrow> e
      | Inr l \<Rightarrow> (case release_slot_decode (take HEADER_BYTES (drop (lay_header l) c)) (lay_capacity l) of
          Inl _ \<Rightarrow> - ENOENT
        | Inr h \<Rightarrow> if verify \<and> sha256 (take (hdr_image_bytes h) (drop (lay_image l) c)) \<noteq> hdr_image_sha256 h
                  then - EBADMSG else 0))"

context reliable_flash begin

lemma memory_reliable: "reliable_job d mal contents ok (memory_source bs) bs"
  by (intro reliable_job.intro memory_job reliable_job_axioms.intro reliable_flash_axioms)
    (simp add: memory_source_def)

lemma read_ok:
  assumes "ok w" and "off + n \<le> dev_size d"
  obtains w' where "dev_read d off n w = (0, take n (drop off (contents w)), w')" "ok w'" "contents w' = contents w"
  using read_law [OF assms] read_reliable [OF assms] by (metis prod.collapse)

lemma slot_read_reliable:
  assumes "ok w" and "SUPERBLOCK_BYTES \<le> dev_size d" and "HEADER_BYTES \<le> dev_erase_size d"
  shows "fst (slot_read mal d verify w) = slot_answer (dev_size d) (dev_erase_size d) verify (contents w)"
proof -
  obtain w1 where r1: "dev_read d 0 SUPERBLOCK_BYTES w = (0, take SUPERBLOCK_BYTES (drop 0 (contents w)), w1)"
    and w1: "ok w1" "contents w1 = contents w"
    using read_ok [OF assms(1), of 0 SUPERBLOCK_BYTES] assms(2) by auto
  show ?thesis
  proof (cases "release_slot_locate (take SUPERBLOCK_BYTES (contents w)) (dev_size d) (dev_erase_size d)")
    case (Inl e)
    then show ?thesis using r1 by (simp add: slot_read_def slot_layout_of_def slot_answer_def)
  next
    case (Inr l)
    note geo = iffD1 [OF slot_locate_iff [OF size_64] Inr]
    have fit: "lay_header l + HEADER_BYTES \<le> dev_size d" using geo assms(3) by linarith
    obtain w2 where r2: "dev_read d (lay_header l) HEADER_BYTES w1 =
        (0, take HEADER_BYTES (drop (lay_header l) (contents w1)), w2)" and w2: "ok w2" "contents w2 = contents w1"
      using w1(1) fit by (rule read_ok)
    show ?thesis
    proof (cases "release_slot_decode (take HEADER_BYTES (drop (lay_header l) (contents w))) (lay_capacity l)")
      case Inl': (Inl e)
      then show ?thesis using r1 r2 Inr w1 by (simp add: slot_read_def slot_layout_of_def slot_answer_def)
    next
      case hd: (Inr h)
      have "hdr_image_bytes h \<le> lay_capacity l" using hd by (auto simp: release_slot_decode_def Let_def split: if_splits)
      then have im: "lay_image l + hdr_image_bytes h \<le> dev_size d" using geo by linarith
      obtain r3 dg w3 where hr: "flash_hash_range mal d (lay_image l) (hdr_image_bytes h) w2 = (r3, dg, w3)"
        by (metis prod_cases3)
      have "r3 = 0" "dg = sha256 (take (hdr_image_bytes h) (drop (lay_image l) (contents w)))"
        using flash_hash_range_reliable [OF w2(1) im] flash_hash_range_ok [OF hr w2(1)] hr w1 w2 by auto
      then show ?thesis using r1 r2 Inr w1 hd hr by (simp add: slot_read_def slot_layout_of_def slot_answer_def)
    qed
  qed
qed

end

context reliable_job begin

lemma hash_source_reliable: "ok w \<Longrightarrow> fst (hash_source mal img w) = 0"
proof -
  assume "ok w"
  obtain b w1 where m: "mal HASH_CHUNK w = (b, w1)" by fastforce
  have "b" "ok w1" using malloc_law [OF \<open>ok w\<close> m] malloc_reliable [OF \<open>ok w\<close>, of HASH_CHUNK] m by auto
  moreover have "fst (hash_chunks (src_read img) 0 (length image) 0 (sha256_init (replicate 64 0)) w1) = 0"
  proof (rule hash_chunks_total [of ok])
    fix a n v assume "ok v" and "a + n \<le> 0 + length image"
    then show "fst (src_read img a n v) = 0 \<and> ok (snd (snd (src_read img a n v)))"
      using src_reliable [of v a n] src_law [of v a n] by (metis add_0 prod.collapse)
  qed (fact \<open>ok w1\<close>)
  ultimately show ?thesis by (simp add: hash_source_def m src_length split_beta)
qed

lemma slot_write_checks_reliable:
  assumes "ok w" and chk: "checked h w lay enc" and size: "SUPERBLOCK_BYTES \<le> dev_size d"
  shows "\<exists>rep' w'. slot_write_checks mal d img h rep w = (Inr (lay, enc), rep', w')"
proof -
  obtain w1 where r1: "dev_read d 0 SUPERBLOCK_BYTES w = (0, take SUPERBLOCK_BYTES (drop 0 (contents w)), w1)"
    and w1: "ok w1" "contents w1 = contents w"
    using read_ok [OF assms(1), of 0 SUPERBLOCK_BYTES] size by auto
  have c: "release_slot_locate (take SUPERBLOCK_BYTES (contents w)) (dev_size d) (dev_erase_size d) = Inr lay"
      "release_slot_encode h = Inr enc" "length image = hdr_image_bytes h" "length image \<le> lay_capacity lay"
      "release_slot_image_valid (take SUPERBLOCK_BYTES image) (length image)" "sha256 image = hdr_image_sha256 h"
    using chk unfolding checked_def by blast+
  have big: "SUPERBLOCK_BYTES \<le> length image"
    using c(5) by (auto simp: release_slot_image_valid_def squashfs_bytes_def Let_def split: if_splits)
  obtain r2 sb w2 where rd: "src_read img 0 SUPERBLOCK_BYTES w1 = (r2, sb, w2)" by (metis prod_cases3)
  have s: "r2 = 0" "ok w2" "sb = take SUPERBLOCK_BYTES image"
    using src_reliable [OF w1(1), of 0 SUPERBLOCK_BYTES] src_law [OF w1(1) _ rd] big rd by auto
  obtain r3 dg w3 where hs: "hash_source mal img w2 = (r3, dg, w3)" by (metis prod_cases3)
  have "r3 = 0" "dg = sha256 image"
    using hash_source_reliable [OF s(2)] hash_source_ok [OF hs s(2)] hs by auto
  then show ?thesis
    using c r1 rd s hs big by (simp add: slot_write_checks_def slot_layout_of_def src_length Let_def)
qed

lemma check_request_block:
  assumes "0 < dev_erase_size d" "dev_erase_size d \<le> FLASH_MAX_ERASE_SIZE" "dev_erase_size d dvd dev_size d"
    and "dev_erase_size d dvd off" "0 < n" "off + n \<le> dev_size d"
  shows "check_request d off n rep = (0, rep)"
  using assms by (auto simp: check_request_def dvd_eq_mod_eq_0)

lemma slot_write_header_reliable:
  assumes "ok w" and chk: "checked h v lay enc" and h: "header_ok h"
    and E: "HEADER_BYTES \<le> dev_erase_size d" "dev_erase_size d \<le> FLASH_MAX_ERASE_SIZE"
    and fixed: "take (lay_header lay) (contents w) = take (lay_header lay) (contents v)" and "ok v"
  shows "fst (slot_write_header mal d lay enc h rep w) = 0"
proof -
  let ?E = "dev_erase_size d" and ?H = "lay_header lay"
  have loc: "release_slot_locate (take SUPERBLOCK_BYTES (contents v)) (dev_size d) ?E = Inr lay"
    and enc: "release_slot_encode h = Inr enc" and cap: "hdr_image_bytes h \<le> lay_capacity lay"
    using chk by (auto simp: checked_def)
  note geo = iffD1 [OF slot_locate_iff [OF size_64] loc]
  have sup: "SUPERBLOCK_BYTES \<le> ?H"
    using geo by (auto simp: squashfs_bytes_def Let_def split: if_splits)
  have len: "length enc = HEADER_BYTES" using encode_length [OF h enc] .
  have req: "fst (check_request d ?H (length enc) zero_report) = 0"
    using geo E len by (subst check_request_block) (auto simp: algebra_simps)
  obtain r1 rep1 w1 where wr: "flash_write_image mal d (memory_source enc) ?H w = (r1, rep1, w1)" by (metis prod_cases3)
  have "r1 = 0" using reliable_job.flash_write_image_reliable [OF memory_reliable assms(1) req] wr by simp
  have span: "(length enc + ?E - 1) div ?E * ?E = ?E" using len E one_block [of HEADER_BYTES ?E] by simp
  have one: "touched ?H ?E w w1" "take ?E (drop ?H (contents w1)) = flash_job.padded enc 0 ?E"
    using flash_job.flash_write_image_result [OF memory_job wr assms(1)] \<open>r1 = 0\<close> unfolding span by simp_all
  have enc1: "take HEADER_BYTES (drop ?H (contents w1)) = enc"
    using arg_cong [OF one(2), of "take HEADER_BYTES"] E len
    by (simp add: flash_job.padded_def [OF memory_job])
  have "take SUPERBLOCK_BYTES (contents w1) = take SUPERBLOCK_BYTES (contents v)"
    using fixed one(1) sup by (simp add: touched_def same_outside_def) (metis take_eq_mono)
  moreover have dec: "release_slot_decode enc (lay_capacity lay) = Inr (h\<lparr>hdr_release := name_array (cstr (hdr_release h))\<rparr>)"
    using slot_roundtrip [OF h enc cap] by simp
  ultimately have "slot_answer (dev_size d) ?E False (contents w1) = 0" using loc enc1 by (simp add: slot_answer_def)
  moreover obtain r2 l2 c2 w2 where rd: "slot_read mal d False w1 = (r2, l2, c2, w2)" by (metis prod_cases4)
  ultimately have r2: "r2 = 0"
    using slot_read_reliable [OF touched_ok [OF one(1)], of False] geo sup E by simp
  have "c2 = Some (h\<lparr>hdr_release := name_array (cstr (hdr_release h))\<rparr>)"
    using slot_read_ok [OF rd touched_ok [OF one(1)]] r2 loc enc1 dec
      \<open>take SUPERBLOCK_BYTES (contents w1) = take SUPERBLOCK_BYTES (contents v)\<close> by auto
  moreover have "cstr (name_array (cstr (hdr_release h))) = cstr (hdr_release h)"
    using encode_ok_iff [OF h] enc name_valid_length [of "hdr_release h" "length (cstr (hdr_release h))"]
    by (intro cstr_name_array) (auto simp: cstr_def dest: set_takeWhileD)
  ultimately show ?thesis using \<open>r1 = 0\<close> wr rd r2 by (simp add: slot_write_header_def)
qed

end

context reliable_job begin

lemma slot_write_reliable:
  assumes "ok w" and chk: "checked h w lay enc" and h: "header_ok h"
    and E: "HEADER_BYTES \<le> dev_erase_size d" "dev_erase_size d \<le> FLASH_MAX_ERASE_SIZE"
  shows "fst (slot_write mal d img h w) = 0"
proof -
  let ?E = "dev_erase_size d" and ?H = "lay_header lay" and ?I = "lay_image lay"
  let ?rep = "zero_report\<lparr>rep_length := src_length img, rep_stage := ''done''\<rparr>"
  have c: "release_slot_locate (take SUPERBLOCK_BYTES (contents w)) (dev_size d) ?E = Inr lay"
      "length image \<le> lay_capacity lay" "sha256 image = hdr_image_sha256 h"
      "release_slot_image_valid (take SUPERBLOCK_BYTES image) (length image)"
    using chk unfolding checked_def by blast+
  note geo = iffD1 [OF slot_locate_iff [OF size_64] c(1)]
  have sup: "SUPERBLOCK_BYTES \<le> ?H"
    using geo by (auto simp: squashfs_bytes_def Let_def split: if_splits)
  have some: "image \<noteq> []"
    using c(4) by (auto simp: release_slot_image_valid_def squashfs_bytes_def Let_def)
  obtain rep1 w1 where ck: "slot_write_checks mal d img h ?rep w = (Inr (lay, enc), rep1, w1)"
    using slot_write_checks_reliable [OF assms(1) chk] sup geo by fastforce
  have w1: "ok w1" "contents w1 = contents w" using slot_write_checks_ok [OF ck assms(1)] by auto
  have fit: "?H + ?E \<le> dev_size d" using geo by linarith
  obtain r2 w2 where er: "dev_erase d ?H ?E w1 = (r2, w2)" by fastforce
  have w2: "r2 = 0" "touched ?H ?E w1 w2"
    using erase_reliable [OF w1(1) fit] er erase_touched [OF w1(1) fit er] by auto
  have off: "?E dvd ?I" using geo by (metis dvd_add dvd_refl)
  have req: "check_request d ?I (length image) zero_report = (0, zero_report)"
    using geo E off some c(2) by (intro check_request_block) auto
  obtain r3 rep3 w3 where im: "flash_write_image mal d img ?I w2 = (r3, rep3, w3)" by (metis prod_cases3)
  have w3: "r3 = 0" "touched ?I span w2 w3" "rep_sha256 rep3 = sha256 image"
    using flash_write_image_reliable [OF touched_ok [OF w2(2)], of ?I] req im
      flash_write_image_result [OF im touched_ok [OF w2(2)]] by auto
  have "take ?H (contents w3) = take ?H (contents w2)"
    using w3(2) geo by (simp add: touched_def same_outside_def) (metis le_add1 take_eq_mono)
  moreover have "take ?H (contents w2) = take ?H (contents w)"
    using w2(2) w1(2) by (simp add: touched_def same_outside_def)
  ultimately have fixed: "take ?H (contents w3) = take ?H (contents w)" by simp
  have "fst (slot_write_header mal d lay enc h (rep3\<lparr>rep_modified := True\<rparr>) w3) = 0"
    by (rule slot_write_header_reliable [OF touched_ok [OF w3(2)] chk h E fixed assms(1)])
  then show ?thesis using w2(1) w3 c(3) by (simp add: slot_write_def ck er im Let_def)
qed

end

section \<open>After the write\<close>

lemma slot_answer_erased:
  assumes "release_slot_locate (take SUPERBLOCK_BYTES c) sz erase = Inr lay"
    and "take erase (drop (lay_header lay) c) = replicate erase 0xff" and "HEADER_BYTES \<le> erase"
  shows "slot_answer sz erase verify c = - ENOENT"
proof -
  have "take HEADER_BYTES (drop (lay_header lay) c) = replicate HEADER_BYTES 0xff"
    using arg_cong [OF assms(2), of "take HEADER_BYTES"] assms(3) by simp
  then show ?thesis using assms(1) erased_header_invalid by (simp add: slot_answer_def)
qed

context flash_job begin

lemma layout_kept:
  assumes "slot_touched lay v w" and "checked h v lay enc"
  shows "release_slot_locate (take SUPERBLOCK_BYTES (contents w)) (dev_size d) (dev_erase_size d) = Inr lay"
proof -
  have loc: "release_slot_locate (take SUPERBLOCK_BYTES (contents v)) (dev_size d) (dev_erase_size d) = Inr lay"
    using assms(2) by (simp add: checked_def)
  note geo = iffD1 [OF slot_locate_iff [OF size_64] loc]
  have "SUPERBLOCK_BYTES \<le> lay_header lay"
    using geo by (auto simp: squashfs_bytes_def Let_def split: if_splits)
  then have "take SUPERBLOCK_BYTES (contents w) = take SUPERBLOCK_BYTES (contents v)"
    using assms(1) by (simp add: slot_touched_def touched_def same_outside_def) (metis take_eq_mono)
  with loc show ?thesis by simp
qed

lemma slot_write_post:
  assumes run: "slot_write mal d img h w = (r, rep, w')" and "ok w" and h: "header_ok h"
    and blk: "HEADER_BYTES \<le> dev_erase_size d"
  shows "(\<not> rep_modified rep \<longrightarrow> contents w' = contents w \<and> r < 0) \<and>
    (rep_modified rep \<longrightarrow> (\<exists>lay.
       release_slot_locate (take SUPERBLOCK_BYTES (contents w)) (dev_size d) (dev_erase_size d) = Inr lay \<and>
       same_outside (lay_header lay) (dev_erase_size d + span) (contents w) (contents w') \<and>
       (r < 0 \<and> rep_stage rep = ''erase-header'' \<and> same_outside (lay_header lay) (dev_erase_size d) (contents w) (contents w') \<or>
        r < 0 \<and> (\<forall>verify. slot_answer (dev_size d) (dev_erase_size d) verify (contents w') = - ENOENT) \<or>
        take (length image) (drop (lay_image lay) (contents w')) = image)))"
proof -
  note res = slot_write_result [OF assms]
  show ?thesis
  proof (cases "rep_modified rep")
    case False
    then show ?thesis using res by simp
  next
    case True
    then obtain lay enc where c: "checked h w lay enc" and s: "slot_safe lay enc w r rep w'" using res by blast
    have t: "slot_touched lay w w'" using s by (simp add: slot_safe_def)
    have "header_erased lay w' \<Longrightarrow> slot_answer (dev_size d) (dev_erase_size d) v (contents w') = - ENOENT" for v
      using slot_answer_erased [OF layout_kept [OF t c] _ blk] by (simp add: header_erased_def)
    then show ?thesis using True c s
      by (intro conjI impI exI [of _ lay]) (auto simp: slot_safe_def slot_touched_def touched_def checked_def image_written_def)
  qed
qed

lemma slot_write_readable:
  assumes run: "slot_write mal d img h w = (0, rep, w')" and "ok w" and h: "header_ok h"
    and blk: "HEADER_BYTES \<le> dev_erase_size d"
  shows "slot_answer (dev_size d) (dev_erase_size d) True (contents w') = 0 \<and>
    (\<exists>lay. release_slot_locate (take SUPERBLOCK_BYTES (contents w')) (dev_size d) (dev_erase_size d) = Inr lay \<and>
       release_slot_decode (take HEADER_BYTES (drop (lay_header lay) (contents w'))) (lay_capacity lay) =
         Inr (h\<lparr>hdr_release := name_array (cstr (hdr_release h))\<rparr>) \<and>
       take (length image) (drop (lay_image lay) (contents w')) = image)"
proof -
  have "rep_modified rep" using slot_write_result [OF assms] by auto
  then obtain lay enc where c: "checked h w lay enc" and s: "slot_safe lay enc w 0 rep w'"
    using slot_write_result [OF assms] by blast
  have loc: "release_slot_locate (take SUPERBLOCK_BYTES (contents w')) (dev_size d) (dev_erase_size d) = Inr lay"
    using layout_kept [OF _ c] s by (simp add: slot_safe_def)
  have en: "take HEADER_BYTES (drop (lay_header lay) (contents w')) = enc"
      "take (length image) (drop (lay_image lay) (contents w')) = image"
    using s by (auto simp: slot_safe_def image_written_def)
  have ck: "release_slot_encode h = Inr enc" "length image = hdr_image_bytes h" "hdr_image_bytes h \<le> lay_capacity lay"
      "sha256 image = hdr_image_sha256 h"
    using c unfolding checked_def by simp_all
  have "release_slot_decode enc (lay_capacity lay) = Inr (h\<lparr>hdr_release := name_array (cstr (hdr_release h))\<rparr>)"
    using slot_roundtrip [OF h ck(1,3)] by simp
  then show ?thesis using loc en ck by (simp add: slot_answer_def)
qed

end

section \<open>Properties on the MTD device\<close>

text \<open>A res partition of four blocks of 256 bytes, and a release of 160 bytes to write into its slot.\<close>

definition example_image :: bytes where
  "example_image = example_superblock @ replicate 64 0"

definition example_release :: release_slot_header where
  "example_release = \<lparr>hdr_image_bytes = 160, hdr_counter = 7, hdr_image_sha256 = sha256 example_image,
     hdr_release = name_array (ascii ''1.2.0'')\<rparr>"

definition example_res :: "outcome list \<Rightarrow> mtd_world" where
  "example_res cs = \<lparr>chip = example_superblock @ replicate 928 0xff, image_file = example_image, script = cs\<rparr>"

lemma example_superblock_used: "length example_superblock = 96" "squashfs_bytes example_superblock = 160"
  by (simp_all add: squashfs_bytes_def little_endian_def wrap64_def example_superblock_def)

lemma example_image_length: "length example_image = 160"
  by (simp add: example_image_def example_superblock_used)

lemma example_release_ok: "header_ok example_release"
  by (simp add: example_release_def header_ok_def name_array_def ascii_def length_sha256)

lemma example_release_encodes: "\<exists>enc. release_slot_encode example_release = Inr enc"
proof -
  have "tc002_release_name_valid (name_array (ascii ''1.2.0'')) (length (cstr (name_array (ascii ''1.2.0''))))"
    by code_simp
  then show ?thesis
    unfolding encode_ok_iff [OF example_release_ok] by (simp add: example_release_def)
qed

lemma example_res_ok: "script_ok (example_res cs) \<Longrightarrow> job_ok 1024 0 example_image (example_res cs)"
  by (simp add: job_ok_def chip_ok_def) (simp add: example_res_def example_superblock_used example_image_length)

lemma example_res_fine: "fine_ok 1024 0 example_image (example_res [])"
proof -
  have "script_ok (example_res [])" by (simp add: script_ok_def example_res_def)
  from example_res_ok [OF this] show ?thesis by (simp add: fine_ok_def) (simp add: example_res_def)
qed

lemma example_locate:
  "release_slot_locate (take SUPERBLOCK_BYTES (chip (example_res cs))) 1024 256 =
     Inr \<lparr>lay_header = 256, lay_image = 512, lay_capacity = 512\<rparr>"
proof -
  have "take SUPERBLOCK_BYTES (chip (example_res cs)) = example_superblock"
    by (simp add: example_res_def example_superblock_used)
  then show ?thesis
    by (simp add: release_slot_locate_def example_superblock_used wrap64_def)
qed

lemma example_checked:
  "\<exists>enc. mtd_fine.checked 1024 256 example_image example_release (example_res [])
     \<lparr>lay_header = 256, lay_image = 512, lay_capacity = 512\<rparr> enc"
proof -
  obtain enc where enc: "release_slot_encode example_release = Inr enc" using example_release_encodes by blast
  have "release_slot_image_valid (take SUPERBLOCK_BYTES example_image) (length example_image)"
    by (simp add: release_slot_image_valid_def example_image_def example_superblock_used wrap64_def)
  then have "mtd_fine.checked 1024 256 example_image example_release (example_res [])
     \<lparr>lay_header = 256, lay_image = 512, lay_capacity = 512\<rparr> enc"
    using enc example_locate
    by (simp add: mtd_fine.checked_def example_image_length) (simp add: example_release_def)
  then show ?thesis ..
qed

lemma slot_write_fine:
  assumes "fine_ok sz start img w" and "HEADER_BYTES \<le> unat erase_sz" and "unat erase_sz \<le> FLASH_MAX_ERASE_SIZE"
    and "header_ok h" and "release_slot_encode h = Inr enc"
    and "release_slot_locate (take SUPERBLOCK_BYTES (chip w)) (unat sz) (unat erase_sz) = Inr lay"
    and "length img = hdr_image_bytes h" and "sha256 img = hdr_image_sha256 h"
    and "hdr_image_bytes h \<le> lay_capacity lay" and "release_slot_image_valid (take SUPERBLOCK_BYTES img) (length img)"
  shows "fst (slot_write sys_malloc (mtd_flash sz erase_sz) (range_source start (length img)) h w) = 0"
  using assms mtd_fine.slot_write_reliable [OF assms(1), of erase_sz h lay enc]
  by (simp add: mtd_fine.checked_def)

lemma slot_read_fine:
  assumes "fine_ok sz start img w" and "SUPERBLOCK_BYTES \<le> unat sz" and "HEADER_BYTES \<le> unat erase_sz"
  shows "fst (slot_read sys_malloc (mtd_flash sz erase_sz) verify w) = slot_answer (unat sz) (unat erase_sz) verify (chip w)"
  using mtd_fine.slot_read_reliable [OF assms(1)] assms(2,3) by simp

text \<open>
  Reading the slot: on a device without faults slot_read answers exactly by the contents - the
  layout error, -ENOENT when the 154 bytes at the header offset are no header for this capacity,
  -EBADMSG when it is to verify and the image differs from its digest, else 0.
\<close>

theorem slot_read_answers:
  assumes "fine_ok sz start img w" and "SUPERBLOCK_BYTES \<le> unat sz" and "HEADER_BYTES \<le> unat erase_sz"
  shows "fst (slot_read sys_malloc (mtd_flash sz erase_sz) verify w) = slot_answer (unat sz) (unat erase_sz) verify (chip w)"
  using assms by (rule slot_read_fine)

lemma example_res_empty: "slot_answer 1024 256 v (chip (example_res cs)) = - ENOENT"
proof (rule slot_answer_erased)
  show "release_slot_locate (take SUPERBLOCK_BYTES (chip (example_res cs))) 1024 256 =
      Inr \<lparr>lay_header = 256, lay_image = 512, lay_capacity = 512\<rparr>"
    by (rule example_locate)
qed (simp_all add: example_res_def example_superblock_used)

theorem slot_read_answers_witness:
  "fst (slot_read sys_malloc (mtd_flash 1024 256) True (example_res [])) = - ENOENT"
  using slot_read_answers [OF example_res_fine, of 256 True] example_res_empty by simp

text \<open>
  C7. A verified slot is a whole release, whatever faults the device had: when slot_read with verify
  returns 0, the header it returns is the one whose canonical encoding is on the flash, and the bytes
  behind it, of the length the header names, have the SHA-256 the header names. Nothing is changed.
\<close>

theorem slot_read_verified:
  assumes "chip_ok sz w" and "slot_read sys_malloc (mtd_flash sz erase_sz) True w = (0, l, h, w')"
  shows "chip w' = chip w \<and> (\<exists>lay hdr. l = Some lay \<and> h = Some hdr \<and>
    release_slot_encode hdr = Inr (take HEADER_BYTES (drop (lay_header lay) (chip w))) \<and>
    0 < hdr_image_bytes hdr \<and> hdr_image_bytes hdr \<le> lay_capacity lay \<and>
    sha256 (take (hdr_image_bytes hdr) (drop (lay_image lay) (chip w))) = hdr_image_sha256 hdr)"
  using mtd.slot_read_ok [OF assms(2,1)] slot_canonical by fastforce

text \<open>
  C1. A crash at any point of an update is safe: whatever fault ends slot_write, with a report that
  says "not modified" the chip is as it was; otherwise only the header block and the blocks of the
  image have changed, and either the erase of the header block itself failed, or the slot reads as
  empty, or the image is there in full.
\<close>

theorem slot_write_crash_safe:
  assumes "job_ok sz start img w" and "header_ok h" and "HEADER_BYTES \<le> unat erase_sz"
    and "slot_write sys_malloc (mtd_flash sz erase_sz) (range_source start (length img)) h w = (r, rep, w')"
  shows "(\<not> rep_modified rep \<longrightarrow> chip w' = chip w \<and> r < 0) \<and>
    (rep_modified rep \<longrightarrow> (\<exists>lay.
       release_slot_locate (take SUPERBLOCK_BYTES (chip w)) (unat sz) (unat erase_sz) = Inr lay \<and>
       same_outside (lay_header lay)
         (unat erase_sz + (length img + unat erase_sz - 1) div unat erase_sz * unat erase_sz) (chip w) (chip w') \<and>
       (r < 0 \<and> rep_stage rep = ''erase-header'' \<and> same_outside (lay_header lay) (unat erase_sz) (chip w) (chip w') \<or>
        r < 0 \<and> (\<forall>verify. slot_answer (unat sz) (unat erase_sz) verify (chip w') = - ENOENT) \<or>
        take (length img) (drop (lay_image lay) (chip w')) = img)))"
  using mtd_job.slot_write_post [OF assms(4,1,2)] assms(3) by simp

theorem slot_write_crash_safe_witness:
  "\<exists>r rep w'. slot_write sys_malloc (mtd_flash 1024 256) (range_source 0 (length example_image)) example_release
       (example_res (replicate 12 Fine @ [Torn 5 [1, 2, 3]])) = (r, rep, w') \<and>
     (\<not> rep_modified rep \<longrightarrow> chip w' = chip (example_res []) \<and> r < 0)"
proof -
  let ?w = "example_res (replicate 12 Fine @ [Torn 5 [1, 2, 3]])"
  obtain r rep w' where run: "slot_write sys_malloc (mtd_flash 1024 256) (range_source 0 (length example_image))
      example_release ?w = (r, rep, w')" by (metis prod_cases3)
  have ok: "script_ok ?w" by (auto simp: script_ok_def example_res_def)
  have E: "HEADER_BYTES \<le> unat (256 :: 32 word)" by simp
  have "chip ?w = chip (example_res [])" by (simp add: example_res_def)
  then show ?thesis
    using slot_write_crash_safe [OF example_res_ok [OF ok] example_release_ok E run] run by auto
qed

text \<open>
  C2. An update that reports success is bootable: when slot_write returns 0, whatever faults it met,
  the slot verifies, its header reads back as the header given, and the image is in place.
\<close>

theorem slot_write_bootable:
  assumes "job_ok sz start img w" and "header_ok h" and "HEADER_BYTES \<le> unat erase_sz"
    and "slot_write sys_malloc (mtd_flash sz erase_sz) (range_source start (length img)) h w = (0, rep, w')"
  shows "slot_answer (unat sz) (unat erase_sz) True (chip w') = 0 \<and>
    (\<exists>lay. release_slot_locate (take SUPERBLOCK_BYTES (chip w')) (unat sz) (unat erase_sz) = Inr lay \<and>
       release_slot_decode (take HEADER_BYTES (drop (lay_header lay) (chip w'))) (lay_capacity lay) =
         Inr (h\<lparr>hdr_release := name_array (cstr (hdr_release h))\<rparr>) \<and>
       take (length img) (drop (lay_image lay) (chip w')) = img)"
  using mtd_job.slot_write_readable [OF assms(4,1,2)] assms(3) by simp

lemma example_slot_write:
  "\<exists>rep w'. slot_write sys_malloc (mtd_flash 1024 256) (range_source 0 (length example_image)) example_release
     (example_res []) = (0, rep, w') \<and> job_ok 1024 0 example_image w'"
proof -
  obtain enc where "mtd_fine.checked 1024 256 example_image example_release (example_res [])
     \<lparr>lay_header = 256, lay_image = 512, lay_capacity = 512\<rparr> enc"
    using example_checked by blast
  from mtd_fine.slot_write_reliable [OF example_res_fine this example_release_ok]
  have "fst (slot_write sys_malloc (mtd_flash 1024 256) (range_source 0 (length example_image)) example_release
      (example_res [])) = 0" by simp
  then obtain rep w' where run: "slot_write sys_malloc (mtd_flash 1024 256) (range_source 0 (length example_image))
      example_release (example_res []) = (0, rep, w')" by (metis prod.collapse)
  have "job_ok 1024 0 example_image w'"
    using mtd_job.slot_write_result [OF run fine_ok_job [OF example_res_fine] example_release_ok] by simp
  with run show ?thesis by blast
qed

theorem slot_write_bootable_witness:
  "\<exists>rep w'. slot_write sys_malloc (mtd_flash 1024 256) (range_source 0 (length example_image)) example_release
       (example_res []) = (0, rep, w') \<and> slot_answer 1024 256 True (chip w') = 0"
proof -
  obtain rep w' where run: "slot_write sys_malloc (mtd_flash 1024 256) (range_source 0 (length example_image))
      example_release (example_res []) = (0, rep, w')"
    using example_slot_write by blast
  have E: "HEADER_BYTES \<le> unat (256 :: 32 word)" by simp
  from slot_write_bootable [OF fine_ok_job [OF example_res_fine] example_release_ok E run] run
  show ?thesis by auto
qed

text \<open>
  C29. An update that ought to work does: on a device without faults, slot_write returns 0 for every
  header it can encode, every squashfs image with the header's length and digest, and every partition
  whose slot holds it.
\<close>

theorem slot_write_succeeds:
  assumes "fine_ok sz start img w" and "HEADER_BYTES \<le> unat erase_sz" and "unat erase_sz \<le> FLASH_MAX_ERASE_SIZE"
    and "header_ok h" and "release_slot_encode h = Inr enc"
    and "release_slot_locate (take SUPERBLOCK_BYTES (chip w)) (unat sz) (unat erase_sz) = Inr lay"
    and "length img = hdr_image_bytes h" and "sha256 img = hdr_image_sha256 h"
    and "hdr_image_bytes h \<le> lay_capacity lay" and "release_slot_image_valid (take SUPERBLOCK_BYTES img) (length img)"
  shows "fst (slot_write sys_malloc (mtd_flash sz erase_sz) (range_source start (length img)) h w) = 0"
  using assms by (rule slot_write_fine)

theorem slot_write_succeeds_witness:
  "fst (slot_write sys_malloc (mtd_flash 1024 256) (range_source 0 (length example_image)) example_release
     (example_res [])) = 0"
proof -
  obtain enc where enc: "release_slot_encode example_release = Inr enc" using example_release_encodes by blast
  have "release_slot_image_valid (take SUPERBLOCK_BYTES example_image) (length example_image)"
    by (simp add: release_slot_image_valid_def example_image_def example_superblock_used wrap64_def)
  then show ?thesis
    using example_locate [of "[]"]
    by (intro slot_write_succeeds [OF example_res_fine _ _ example_release_ok enc])
      (simp_all add: example_image_length, simp_all add: example_release_def)
qed

theorem slot_read_verified_witness:
  "\<exists>l h w v. chip_ok 1024 w \<and> slot_read sys_malloc (mtd_flash 1024 256) True w = (0, Some l, Some h, v) \<and>
     sha256 (take (hdr_image_bytes h) (drop (lay_image l) (chip w))) = hdr_image_sha256 h"
proof -
  obtain rep w where run: "slot_write sys_malloc (mtd_flash 1024 256) (range_source 0 (length example_image))
      example_release (example_res []) = (0, rep, w)" and ok: "job_ok 1024 0 example_image w"
    using example_slot_write by blast
  have "slot_answer 1024 256 True (chip w) = 0"
    using mtd_job.slot_write_readable [OF run fine_ok_job [OF example_res_fine] example_release_ok] by simp
  moreover define w0 where "w0 = w\<lparr>script := []\<rparr>"
  have fine: "fine_ok 1024 0 example_image w0"
    using ok by (simp add: fine_ok_def job_ok_def chip_ok_def script_ok_def w0_def)
  ultimately have "fst (slot_read sys_malloc (mtd_flash 1024 256) True w0) = 0"
    using slot_read_fine [OF fine, of 256 True] by (simp add: w0_def)
  then obtain l h v where rd: "slot_read sys_malloc (mtd_flash 1024 256) True w0 = (0, l, h, v)"
    by (metis prod.collapse)
  from slot_read_verified [OF job_ok_chip [OF fine_ok_job [OF fine]] rd] rd job_ok_chip [OF fine_ok_job [OF fine]]
  show ?thesis by blast
qed

end
