(* ===== verification/Flasher.thy ===== *)
theory Flasher
  imports Mtd_Open Slot_IO
begin

text \<open>
  The flasher's command line (\<^verbatim>\<open>flasher/main.c\<close>): JSON output, argument parsing, the commands, and
  the order of their checks and effects. A command takes the host and the world of the flash and
  returns a \<open>reply\<close>: standard output, standard error, the exit status and the effects outside the
  flash. The fd of a file is the world with that file's content.
\<close>

section \<open>Output\<close>

datatype effect =
    Record_Result string string
  | Umounted string
  | Drop_Caches
  | Reboot
  | Unlink string
  | Make_Link string string
  | Rename string string
  | Holder nat

record reply =
  r_out :: string
  r_err :: string
  r_status :: nat
  r_effects :: "effect list"

abbreviation (input) kExitOk :: nat where "kExitOk \<equiv> 0"
abbreviation (input) kExitUnchanged :: nat where "kExitUnchanged \<equiv> 1"
abbreviation (input) kExitModified :: nat where "kExitModified \<equiv> 2"
abbreviation (input) kExitUsage :: nat where "kExitUsage \<equiv> 64"

definition json_char :: "char \<Rightarrow> string" where
  "json_char c =
     (if c = CHR 0x22 \<or> c = CHR 0x5C then [CHR 0x5C, c]
      else if (of_char c :: nat) < 32 then [CHR 0x5C, CHR ''u''] @ print_padded 4 16 (of_char c)
      else [c])"

definition json_string :: "string \<Rightarrow> string" where
  "json_string s = [CHR 0x22] @ concat (map json_char s) @ [CHR 0x22]"

definition begin_reply :: "string \<Rightarrow> string \<Rightarrow> string" where
  "begin_reply command result = ''{\"command\":\"'' @ command @ ''\",\"result\":\"'' @ result @ ''\"''"

definition newline :: string where
  "newline = [CHR 0x0A]"

definition json_bool :: "bool \<Rightarrow> string" where
  "json_bool b = (if b then ''true'' else ''false'')"

definition report_error :: "string \<Rightarrow> string \<Rightarrow> int \<Rightarrow> string \<Rightarrow> bool \<Rightarrow> reply" where
  "report_error command stage err message modified =
     \<lparr>r_out = begin_reply command ''error'' @ '',\"stage\":\"'' @ stage @ ''\",\"errno\":'' @ print_int err @
        '',\"modified\":'' @ json_bool modified @ '',\"message\":'' @ json_string message @ ''}'' @ newline,
      r_err = ''awtrix-tc002-flash '' @ command @ '': '' @ message @ newline,
      r_status = (if modified then kExitModified else kExitUnchanged), r_effects = []\<rparr>"

definition usage_text :: string where
  "usage_text =
     ''usage: awtrix-tc002-flash version'' @ newline @
     ''       awtrix-tc002-flash hash PATH [LENGTH]'' @ newline @
     ''       awtrix-tc002-flash sha256 FILE...'' @ newline @
     ''       awtrix-tc002-flash write DEVICE IMAGE [--offset BYTES] [--name NAME]'' @ newline @
     ''       awtrix-tc002-flash slot-info [--device DEVICE] [--verify]'' @ newline @
     ''       awtrix-tc002-flash write-slot SOURCE --length BYTES --sha256 HEX --release NAME'' @ newline @
     ''                          --counter N [--offset BYTES] [--device DEVICE] [--mount DIR]'' @ newline @
     ''                          [--result FILE] [--reboot]'' @ newline @
     ''       awtrix-tc002-flash statfs PATH'' @ newline @
     ''       awtrix-tc002-flash symlink TARGET LINK'' @ newline @
     ''       awtrix-tc002-flash lock DIRECTORY TOKEN SECONDS STALE_SECONDS'' @ newline"

definition usage :: reply where
  "usage = \<lparr>r_out = [], r_err = usage_text, r_status = kExitUsage, r_effects = []\<rparr>"

definition ok_reply :: "string \<Rightarrow> string \<Rightarrow> reply" where
  "ok_reply command body =
     \<lparr>r_out = begin_reply command ''ok'' @ body @ ''}'' @ newline, r_err = [], r_status = kExitOk, r_effects = []\<rparr>"

section \<open>Parsing arguments\<close>

definition parse_size :: "string \<Rightarrow> nat option" where
  "parse_size s =
     (if s = [] \<or> hd s = CHR ''-'' then None
      else let hex = length s \<ge> 2 \<and> s ! 0 = CHR ''0'' \<and> (s ! 1 = CHR ''x'' \<or> s ! 1 = CHR ''X'')
           in case strtoul UINT64_MAX (if hex then 16 else 10) s of (v, n, erange) \<Rightarrow>
             if erange \<or> n \<noteq> length s then None else Some v)"

definition nibble :: "char \<Rightarrow> nat option" where
  "nibble c = (let n = (of_char c :: nat) in
     if 48 \<le> n \<and> n \<le> 57 then Some (n - 48) else if 97 \<le> n \<and> n \<le> 102 then Some (n - 97 + 10) else None)"

fun hex_pairs :: "string \<Rightarrow> bytes option" where
  "hex_pairs [] = Some []"
| "hex_pairs [c] = None"
| "hex_pairs (a # b # rest) =
     (case nibble a of None \<Rightarrow> None
      | Some x \<Rightarrow> (case nibble b of None \<Rightarrow> None
        | Some y \<Rightarrow> (case hex_pairs rest of None \<Rightarrow> None | Some bs \<Rightarrow> Some (of_nat (x * 16 + y) # bs))))"

definition parse_hex :: "string option \<Rightarrow> bytes option" where
  "parse_hex s = (case s of None \<Rightarrow> None | Some t \<Rightarrow> if length t \<noteq> 64 then None else hex_pairs t)"

section \<open>hash and sha256\<close>

text \<open>The world of an open file.\<close>

definition with_file :: "host \<Rightarrow> string \<Rightarrow> mtd_world \<Rightarrow> mtd_world" where
  "with_file h path w = w\<lparr>image_file := h_content h path\<rparr>"

definition u64 :: "int \<Rightarrow> nat" where
  "u64 i = nat (i mod 2 ^ 64)"

text \<open>Only size and read are set in this device; erase and write are null and never called.\<close>

definition file_device :: "nat \<Rightarrow> mtd_world flash_device" where
  "file_device n = \<lparr>dev_size = n, dev_erase_size = 0, dev_erase = (\<lambda>_ _ w. (- EINVAL, w)),
     dev_read = (\<lambda>off k w. fd_read_exact image_file off k w), dev_write = (\<lambda>_ _ w. (- EINVAL, w))\<rparr>"

definition hash_fd :: "nat \<Rightarrow> mtd_world \<Rightarrow> int \<times> bytes \<times> mtd_world" where
  "hash_fd n w = flash_hash_range sys_malloc (file_device n) 0 n w"

definition command_hash :: "host \<Rightarrow> string list \<Rightarrow> mtd_world \<Rightarrow> reply \<times> mtd_world" where
  "command_hash h args w =
     (if args = [] \<or> 2 < length args then (usage, w)
      else let path = args ! 0; requested = (if length args = 2 then parse_size (args ! 1) else Some 0);
               error = (\<lambda>stage e. report_error ''hash'' stage e (h_strerror h e) False) in
      case requested of None \<Rightarrow> (usage, w)
      | Some requested \<Rightarrow>
        case h_stat h path of Inl e \<Rightarrow> (error ''open'' e, w)
        | Inr info \<Rightarrow>
          if st_kind info = Char_Device
          then case mtd_open h path False 160 of
              Inl message \<Rightarrow> (report_error ''hash'' ''open'' EINVAL message False, w)
            | Inr mtd \<Rightarrow>
                let len = (if length args = 2 then requested else unat (mh_size mtd)) in
                case flash_hash_range sys_malloc (mh_device mtd) 0 len w of (r, digest, w) \<Rightarrow>
                if r \<noteq> 0 then (error ''read'' (- r), w)
                else (ok_reply ''hash'' ('',\"path\":'' @ json_string path @ '',\"name\":'' @
                       json_string (entry_name (mh_entry mtd)) @ '',\"size\":'' @ print_nat 10 (unat (mh_size mtd)) @
                       '',\"erase_size\":'' @ print_nat 10 (unat (mh_erase_size mtd)) @ '',\"length\":'' @ print_nat 10 len @
                       '',\"sha256\":\"'' @ sha256_hex digest @ ''\"''), w)
          else if st_kind info \<noteq> Regular then (report_error ''hash'' ''open'' EINVAL ''not a file'' False, w)
          else let len = (if length args = 2 then requested else u64 (st_size info)) in
            if u64 (st_size info) < len
            then (report_error ''hash'' ''length'' EFBIG ''length exceeds the file'' False, w)
            else if h_open h path False \<noteq> 0 then (error ''open'' (h_open h path False), w)
            else case hash_fd len (with_file h path w) of (r, digest, w) \<Rightarrow>
              if r \<noteq> 0 then (error ''read'' (- r), w)
              else (ok_reply ''hash'' ('',\"path\":'' @ json_string path @ '',\"size\":'' @ print_nat 10 (u64 (st_size info)) @
                     '',\"length\":'' @ print_nat 10 len @ '',\"sha256\":\"'' @ sha256_hex digest @ ''\"''), w))"

text \<open>The hash of one file of the sha256 command: its result code, stat and digest.\<close>

definition sha256_file :: "host \<Rightarrow> string \<Rightarrow> mtd_world \<Rightarrow> (int + stat_info \<times> bytes) \<times> mtd_world" where
  "sha256_file h path w =
     (if h_open h path False \<noteq> 0 then (Inl (- h_open h path False), w)
      else case h_fstat h path of Inl _ \<Rightarrow> (Inl (- EINVAL), w)
        | Inr info \<Rightarrow>
          if st_kind info \<noteq> Regular then (Inl (- EINVAL), w)
          else case hash_fd (u64 (st_size info)) (with_file h path w) of (r, digest, w) \<Rightarrow>
            (if r \<noteq> 0 then Inl r else Inr (info, digest), w))"

definition sha256_line :: "string \<Rightarrow> int + stat_info \<times> bytes \<Rightarrow> string" where
  "sha256_line path x =
     (case x of
        Inl r \<Rightarrow> begin_reply ''sha256'' ''error'' @ '',\"path\":'' @ json_string path @ '',\"errno\":'' @ print_int (- r) @ ''}'' @ newline
      | Inr (info, digest) \<Rightarrow> begin_reply ''sha256'' ''ok'' @ '',\"path\":'' @ json_string path @
          '',\"size\":'' @ print_nat 10 (u64 (st_size info)) @ '',\"mode\":\"'' @ print_padded 4 8 (st_mode info mod 4096) @
          ''\",\"uid\":'' @ print_nat 10 (st_uid info) @ '',\"gid\":'' @ print_nat 10 (st_gid info) @
          '',\"sha256\":\"'' @ sha256_hex digest @ ''\"}'' @ newline)"

fun sha256_files :: "host \<Rightarrow> string list \<Rightarrow> reply \<Rightarrow> mtd_world \<Rightarrow> reply \<times> mtd_world" where
  "sha256_files h [] rep w = (rep, w)"
| "sha256_files h (path # paths) rep w =
     (case sha256_file h path w of (x, w) \<Rightarrow>
        sha256_files h paths (rep\<lparr>r_out := r_out rep @ sha256_line path x,
          r_status := (if isl x then kExitUnchanged else r_status rep)\<rparr>) w)"

definition command_sha256 :: "host \<Rightarrow> string list \<Rightarrow> mtd_world \<Rightarrow> reply \<times> mtd_world" where
  "command_sha256 h args w =
     (if args = [] then (usage, w)
      else sha256_files h args \<lparr>r_out = [], r_err = [], r_status = kExitOk, r_effects = []\<rparr> w)"

section \<open>write\<close>

text \<open>The options after DEVICE and IMAGE: the offset and the expected partition name.\<close>

fun write_options :: "string list \<Rightarrow> nat \<times> string \<Rightarrow> (nat \<times> string) option" where
  "write_options [] x = Some x"
| "write_options [_] x = None"
| "write_options (option # val # rest) (off, name) =
     (if option = ''--offset''
      then (case parse_size val of None \<Rightarrow> None | Some off \<Rightarrow> write_options rest (off, name))
      else if option = ''--name'' then write_options rest (off, val) else None)"

text \<open>Why a partition is not written: checks of write, and of open_res for writing.\<close>

definition write_refusal :: "mtd_handle \<Rightarrow> string \<Rightarrow> string option" where
  "write_refusal mtd expected_name =
     (if entry_name (mh_entry mtd) \<noteq> expected_name then Some ''partition name does not match --name''
      else if \<not> mh_nor mtd then Some ''partition is not NOR flash''
      else if \<not> mh_writeable mtd then Some ''partition is not writeable''
      else if mh_erase_size mtd < mh_write_size mtd then Some ''unsupported write size'' else None)"

definition failed_at :: "host \<Rightarrow> flash_report \<Rightarrow> string" where
  "failed_at h rep = snprintf 160 (rep_stage rep @ '' failed at offset '' @ print_nat 10 (rep_failed_offset rep) @ '': '' @
     h_strerror h (rep_error rep))"

definition write_body :: "string \<Rightarrow> mtd_handle \<Rightarrow> flash_report \<Rightarrow> string" where
  "write_body device_path mtd rep =
     '',\"device\":'' @ json_string device_path @ '',\"name\":'' @ json_string (entry_name (mh_entry mtd)) @
     '',\"offset\":'' @ print_nat 10 (rep_offset rep) @ '',\"length\":'' @ print_nat 10 (rep_length rep) @
     '',\"span\":'' @ print_nat 10 (rep_span rep) @ '',\"blocks\":'' @ print_nat 10 (rep_blocks rep) @
     '',\"skipped\":'' @ print_nat 10 (rep_skipped rep) @ '',\"written\":'' @ print_nat 10 (rep_written rep) @
     '',\"retries\":'' @ print_nat 10 (rep_retries rep) @ '',\"modified\":'' @ json_bool (rep_modified rep) @
     '',\"sha256\":\"'' @ sha256_hex (rep_sha256 rep) @ ''\"''"

text \<open>Everything the command checks before it touches the flash: a refusal, or what it then writes.\<close>

definition write_checks :: "host \<Rightarrow> string list \<Rightarrow> reply + nat \<times> mtd_handle \<times> stat_info" where
  "write_checks h args =
     (if length args < 2 then Inl usage
      else let device_path = args ! 0; image_path = args ! 1 in
      case write_options (drop 2 args) (0, ''res'') of None \<Rightarrow> Inl usage
      | Some (off, expected_name) \<Rightarrow>
        if h_open h image_path False \<noteq> 0
        then Inl (report_error ''write'' ''image'' (h_open h image_path False) (h_strerror h (h_open h image_path False)) False)
        else case h_fstat h image_path of
          Inl _ \<Rightarrow> Inl (report_error ''write'' ''image'' EINVAL ''image is not a non-empty regular file'' False)
        | Inr info \<Rightarrow>
          if st_kind info \<noteq> Regular \<or> st_size info \<le> 0
          then Inl (report_error ''write'' ''image'' EINVAL ''image is not a non-empty regular file'' False)
          else case mtd_open h device_path True 160 of
            Inl message \<Rightarrow> Inl (report_error ''write'' ''open'' EINVAL message False)
          | Inr mtd \<Rightarrow>
            case write_refusal mtd expected_name of
              Some refusal \<Rightarrow> Inl (report_error ''write'' ''geometry'' EINVAL refusal False)
            | None \<Rightarrow> Inr (off, mtd, info))"

definition command_write :: "host \<Rightarrow> string list \<Rightarrow> mtd_world \<Rightarrow> reply \<times> mtd_world" where
  "command_write h args w =
     (case write_checks h args of Inl rep \<Rightarrow> (rep, w)
      | Inr (off, mtd, info) \<Rightarrow>
        case flash_write_image sys_malloc (mh_device mtd) (range_source 0 (u64 (st_size info))) off
            (with_file h (args ! 1) w) of (r, rep, w) \<Rightarrow>
        if r \<noteq> 0
        then (report_error ''write'' (rep_stage rep) (rep_error rep) (failed_at h rep) (rep_modified rep), w)
        else (ok_reply ''write'' (write_body (args ! 0) mtd rep), w))"

section \<open>slot-info\<close>

abbreviation (input) TC002_RES_PARTITION :: string where "TC002_RES_PARTITION \<equiv> ''res''"
abbreviation (input) TC002_MTD_DIR :: string where "TC002_MTD_DIR \<equiv> ''/dev/mtd''"

definition res_refusal :: "mtd_handle \<Rightarrow> bool \<Rightarrow> string option" where
  "res_refusal mtd for_write =
     (if entry_name (mh_entry mtd) \<noteq> TC002_RES_PARTITION then Some ''the device is not the res partition''
      else if for_write \<and> \<not> mh_nor mtd then Some ''res is not NOR flash''
      else if for_write \<and> \<not> mh_writeable mtd then Some ''res is not writeable''
      else if for_write \<and> mh_erase_size mtd < mh_write_size mtd then Some ''unsupported write size'' else None)"

text \<open>The res partition, by name unless a device is given.\<close>

definition open_res :: "host \<Rightarrow> string option \<Rightarrow> bool \<Rightarrow> nat \<Rightarrow> string + mtd_handle" where
  "open_res h device for_write sz =
     (case (case device of Some d \<Rightarrow> Inr d
            | None \<Rightarrow> (case mtd_device_path h TC002_MTD_DIR TC002_RES_PARTITION for_write 64 of
                Inl found \<Rightarrow> Inl (snprintf sz (''no '' @ TC002_RES_PARTITION @ '' partition: '' @ h_strerror h (- found)))
              | Inr (path, _) \<Rightarrow> Inr path)) of
        Inl message \<Rightarrow> Inl message
      | Inr path \<Rightarrow>
          (case mtd_open h path for_write sz of Inl message \<Rightarrow> Inl message
           | Inr mtd \<Rightarrow> (case res_refusal mtd for_write of Some refusal \<Rightarrow> Inl (snprintf sz refusal) | None \<Rightarrow> Inr mtd)))"

definition slot_layout_error :: "int \<Rightarrow> string" where
  "slot_layout_error r =
     (if r = - ENOSPC then ''res leaves no room for a release slot'' else ''res does not start with a squashfs'')"

text \<open>The text of a char array of a header.\<close>

definition bytes_text :: "bytes \<Rightarrow> string" where
  "bytes_text bs = map (\<lambda>b. char_of (unat b)) (cstr bs)"

definition print_header :: "release_slot_header \<Rightarrow> string" where
  "print_header header =
     '',\"release\":'' @ json_string (bytes_text (hdr_release header)) @ '',\"counter\":'' @ print_nat 10 (hdr_counter header) @
     '',\"imageBytes\":'' @ print_nat 10 (hdr_image_bytes header) @
     '',\"sha256\":\"'' @ sha256_hex (hdr_image_sha256 header) @ ''\"''"

fun info_options :: "string list \<Rightarrow> string option \<times> bool \<Rightarrow> (string option \<times> bool) option" where
  "info_options [] x = Some x"
| "info_options (a # rest) (device, verify) =
     (if a = ''--verify'' then info_options rest (device, True)
      else if a = ''--device'' then (case rest of [] \<Rightarrow> None | d # rest \<Rightarrow> info_options rest (Some d, verify))
      else None)"

definition slot_state :: "int \<Rightarrow> bool \<Rightarrow> string" where
  "slot_state r verify = (if r = - ENOENT then ''empty'' else if r = - EBADMSG then ''corrupt''
     else if verify then ''verified'' else ''valid'')"

text \<open>
  \<open>stack\<close> is what the locals layout and header hold before the call: the code prints them when a read
  fails with -EBADMSG or -ENOENT, before slot_read has stored anything there.
\<close>

definition command_slot_info ::
  "host \<Rightarrow> release_slot_layout \<times> release_slot_header \<Rightarrow> string list \<Rightarrow> mtd_world \<Rightarrow> reply \<times> mtd_world" where
  "command_slot_info h stack args w =
     (case info_options args (None, False) of None \<Rightarrow> (usage, w)
      | Some (device, verify) \<Rightarrow>
        case open_res h device False 160 of
          Inl message \<Rightarrow> (report_error ''slot-info'' ''open'' EINVAL message False, w)
        | Inr mtd \<Rightarrow>
          case slot_read sys_malloc (mh_device mtd) verify w of (r, lay, hdr, w) \<Rightarrow>
          let layout = (case lay of Some l \<Rightarrow> l | None \<Rightarrow> fst stack);
              header = (case hdr of Some x \<Rightarrow> x | None \<Rightarrow> snd stack) in
          if r = - EINVAL \<or> r = - ENOSPC
          then (report_error ''slot-info'' ''layout'' (- r) (slot_layout_error r) False, w)
          else if r \<noteq> 0 \<and> r \<noteq> - ENOENT \<and> r \<noteq> - EBADMSG
          then (report_error ''slot-info'' ''read'' (- r) (h_strerror h (- r)) False, w)
          else (ok_reply ''slot-info'' ('',\"header\":'' @ print_nat 10 (lay_header layout) @
                 '',\"image\":'' @ print_nat 10 (lay_image layout) @ '',\"capacity\":'' @ print_nat 10 (lay_capacity layout) @
                 '',\"slot\":\"'' @ slot_state r verify @ ''\"'' @
                 (if r = - ENOENT then [] else print_header header)), w))"

section \<open>write-slot\<close>

record slot_args =
  sa_device :: "string option"
  sa_mount :: string
  sa_result :: "string option"
  sa_release :: "string option"
  sa_sha256 :: "string option"
  sa_offset :: nat
  sa_length :: nat
  sa_counter :: nat
  sa_reboot :: bool

definition default_slot_args :: slot_args where
  "default_slot_args = \<lparr>sa_device = None, sa_mount = ''/tmp/awtrix-release'', sa_result = None, sa_release = None,
     sa_sha256 = None, sa_offset = 0, sa_length = 0, sa_counter = 0, sa_reboot = False\<rparr>"

definition slot_option :: "string \<Rightarrow> string \<Rightarrow> slot_args \<Rightarrow> slot_args option" where
  "slot_option option val a =
     (if option = ''--length'' then (case parse_size val of None \<Rightarrow> None | Some n \<Rightarrow> if n = 0 then None else Some (a\<lparr>sa_length := n\<rparr>))
      else if option = ''--offset'' then (case parse_size val of None \<Rightarrow> None | Some n \<Rightarrow> Some (a\<lparr>sa_offset := n\<rparr>))
      else if option = ''--counter'' then (case parse_size val of None \<Rightarrow> None | Some n \<Rightarrow> Some (a\<lparr>sa_counter := n\<rparr>))
      else if option = ''--sha256'' then Some (a\<lparr>sa_sha256 := Some val\<rparr>)
      else if option = ''--release'' then Some (a\<lparr>sa_release := Some val\<rparr>)
      else if option = ''--device'' then Some (a\<lparr>sa_device := Some val\<rparr>)
      else if option = ''--mount'' then Some (a\<lparr>sa_mount := val\<rparr>)
      else if option = ''--result'' then Some (a\<lparr>sa_result := Some val\<rparr>)
      else None)"

fun slot_options :: "string list \<Rightarrow> slot_args \<Rightarrow> slot_args option" where
  "slot_options [] a = Some a"
| "slot_options (option # rest) a =
     (if option = ''--reboot'' then slot_options rest (a\<lparr>sa_reboot := True\<rparr>)
      else case rest of [] \<Rightarrow> None
        | val # rest \<Rightarrow> (case slot_option option val a of None \<Rightarrow> None | Some a \<Rightarrow> slot_options rest a))"

definition slot_header_of :: "slot_args \<Rightarrow> release_slot_header option" where
  "slot_header_of a =
     (if sa_length a = 0 then None
      else case sa_release a of None \<Rightarrow> None
        | Some release \<Rightarrow>
          if TC002_RELEASE_NAME_LIMIT + 1 \<le> length release then None
          else case parse_hex (sa_sha256 a) of None \<Rightarrow> None
            | Some digest \<Rightarrow> Some \<lparr>hdr_image_bytes = sa_length a, hdr_counter = sa_counter a, hdr_image_sha256 = digest,
                hdr_release = ascii release @ replicate (65 - length release) 0\<rparr>)"

text \<open>The result file is best effort: only its open is checked. \<open>open_result\<close> is that errno.\<close>

definition record_result :: "(string \<Rightarrow> int) \<Rightarrow> string option \<Rightarrow> string \<Rightarrow> effect list" where
  "record_result open_result path line =
     (case path of None \<Rightarrow> [] | Some p \<Rightarrow> if open_result p \<noteq> 0 then [] else [Record_Result p line])"

definition finish_write_slot :: "(string \<Rightarrow> int) \<Rightarrow> slot_args \<Rightarrow> bool \<Rightarrow> string \<Rightarrow> effect list" where
  "finish_write_slot open_result a modified line =
     record_result open_result (sa_result a) line @ (if \<not> sa_reboot a \<or> \<not> modified then [] else [Reboot])"

text \<open>The calls of write-slot outside the flash: umount, the write to drop_caches, the open of the result.\<close>

record slot_host =
  sh_umount :: "string \<Rightarrow> int"
  sh_drop_caches :: int
  sh_open_result :: "string \<Rightarrow> int"

definition source_holds :: "host \<Rightarrow> string \<Rightarrow> nat \<Rightarrow> nat \<Rightarrow> bool" where
  "source_holds h path off len \<longleftrightarrow>
     h_open h path False = 0 \<and>
     (case h_fstat h path of Inl _ \<Rightarrow> False
      | Inr info \<Rightarrow> st_kind info = Regular \<and> off \<le> u64 (st_size info) \<and> len \<le> u64 (st_size info) - off)"

definition slot_failed :: "slot_host \<Rightarrow> slot_args \<Rightarrow> string \<Rightarrow> int \<Rightarrow> string \<Rightarrow> bool \<Rightarrow> effect list \<Rightarrow> reply" where
  "slot_failed sh a stage err message modified effects =
     (report_error ''write-slot'' stage err message modified)
       \<lparr>r_effects := effects @ finish_write_slot (sh_open_result sh) a modified
          (snprintf 512 (stage @ '': '' @ message @ newline))\<rparr>"

definition slot_written :: "host \<Rightarrow> slot_host \<Rightarrow> slot_args \<Rightarrow> release_slot_header \<Rightarrow> flash_report \<Rightarrow> effect list \<Rightarrow> reply" where
  "slot_written h sh a header rep effects =
     (ok_reply ''write-slot'' ('',\"image\":'' @ print_nat 10 (rep_offset rep) @ '',\"blocks\":'' @ print_nat 10 (rep_blocks rep) @
        '',\"skipped\":'' @ print_nat 10 (rep_skipped rep) @ '',\"written\":'' @ print_nat 10 (rep_written rep) @
        '',\"blockCache\":'' @ json_string (if rep_modified rep \<and> sh_drop_caches sh \<noteq> 0 then h_strerror h (sh_drop_caches sh) else ''dropped'') @
        print_header header))
       \<lparr>r_effects := effects @ finish_write_slot (sh_open_result sh) a True
          (snprintf 512 (''done: '' @ bytes_text (hdr_release header) @ newline))\<rparr>"

text \<open>The checks of write-slot; what is left is the unmount's effect and the write.\<close>

definition write_slot_checks ::
  "host \<Rightarrow> slot_host \<Rightarrow> string list \<Rightarrow> reply + slot_args \<times> release_slot_header \<times> mtd_handle \<times> effect list" where
  "write_slot_checks h sh args =
     (case args of [] \<Rightarrow> Inl usage
      | source_path # options \<Rightarrow>
        case slot_options options default_slot_args of None \<Rightarrow> Inl usage
        | Some a \<Rightarrow>
        case slot_header_of a of None \<Rightarrow> Inl usage
        | Some header \<Rightarrow>
          if \<not> source_holds h source_path (sa_offset a) (sa_length a)
          then Inl (slot_failed sh a ''source'' EINVAL (snprintf 160 (source_path @ '' does not hold '' @
                  print_nat 10 (sa_length a) @ '' bytes at '' @ print_nat 10 (sa_offset a))) False [])
          else case open_res h (sa_device a) True 160 of
            Inl message \<Rightarrow> Inl (slot_failed sh a ''open'' EINVAL message False [])
          | Inr mtd \<Rightarrow>
            let mounted = tc002_mounted (h_stat h) (sa_mount a); busy = sh_umount sh (sa_mount a) in
            if mounted \<and> busy \<noteq> 0
            then Inl (slot_failed sh a ''unmount'' busy (snprintf 160 (''cannot unmount the installed release at '' @
                    sa_mount a @ '': '' @ h_strerror h busy)) False [])
            else Inr (a, header, mtd, if mounted then [Umounted (sa_mount a)] else []))"

definition command_write_slot :: "host \<Rightarrow> slot_host \<Rightarrow> string list \<Rightarrow> mtd_world \<Rightarrow> reply \<times> mtd_world" where
  "command_write_slot h sh args w =
     (case write_slot_checks h sh args of Inl rep \<Rightarrow> (rep, w)
      | Inr (a, header, mtd, unmounted) \<Rightarrow>
        case slot_write sys_malloc (mh_device mtd) (range_source (sa_offset a) (sa_length a)) header
            (with_file h (hd args) w) of (r, rep, w) \<Rightarrow>
        let effects = unmounted @ (if rep_modified rep \<and> sh_drop_caches sh = 0 then [Drop_Caches] else []) in
        if r \<noteq> 0
        then (slot_failed sh a (rep_stage rep) (rep_error rep) (failed_at h rep) (rep_modified rep) effects, w)
        else (slot_written h sh a header rep effects, w))"

section \<open>statfs and symlink\<close>

text \<open>f_frsize, f_bavail and f_blocks.\<close>

definition command_statfs :: "host \<Rightarrow> (string \<Rightarrow> int + nat \<times> nat \<times> nat) \<Rightarrow> string list \<Rightarrow> reply" where
  "command_statfs h statvfs args =
     (if length args \<noteq> 1 then usage
      else case statvfs (args ! 0) of
          Inl e \<Rightarrow> report_error ''statfs'' ''statfs'' e (h_strerror h e) False
        | Inr (frsize, bavail, blocks) \<Rightarrow>
            ok_reply ''statfs'' ('',\"path\":'' @ json_string (args ! 0) @ '',\"block_size\":'' @ print_nat 10 frsize @
              '',\"free_bytes\":'' @ print_nat 10 (wrap64 (bavail * frsize)) @
              '',\"total_bytes\":'' @ print_nat 10 (wrap64 (blocks * frsize))))"

text \<open>The calls of symlink: the process id, the errno of symlink and rename, and the sync's result.\<close>

record link_host =
  lh_pid :: nat
  lh_symlink :: int
  lh_rename :: int
  lh_sync :: int

definition command_symlink :: "host \<Rightarrow> link_host \<Rightarrow> string list \<Rightarrow> reply" where
  "command_symlink h lh args =
     (if length args \<noteq> 2 then usage
      else let target = args ! 0; link = args ! 1; temporary = link @ ''.new-'' @ print_nat 10 (lh_pid lh);
               error = (\<lambda>stage e modified effects. (report_error ''symlink'' stage e (h_strerror h e) modified)\<lparr>r_effects := effects\<rparr>) in
      if (case h_lstat h link of Inl _ \<Rightarrow> False | Inr info \<Rightarrow> st_kind info \<noteq> Symlink)
      then report_error ''symlink'' ''check'' EEXIST ''link path exists and is not a symlink'' False
      else if PATH_MAX \<le> length temporary
      then report_error ''symlink'' ''check'' ENAMETOOLONG ''link path too long'' False
      else if lh_symlink lh \<noteq> 0 then error ''create'' (lh_symlink lh) False [Unlink temporary]
      else if lh_rename lh \<noteq> 0
      then error ''rename'' (lh_rename lh) False [Unlink temporary, Make_Link target temporary, Unlink temporary]
      else if lh_sync lh \<noteq> 0
      then error ''sync'' (- lh_sync lh) True [Unlink temporary, Make_Link target temporary, Rename temporary link]
      else (ok_reply ''symlink'' ('',\"link\":'' @ json_string link @ '',\"target\":'' @ json_string target))
             \<lparr>r_effects := [Unlink temporary, Make_Link target temporary, Rename temporary link]\<rparr>)"

section \<open>lock\<close>

text \<open>
  The process that holds the lock, on the looks it takes every 200 ms: the clock of the loop's test and
  the look at the token. It answers how many looks it held the lock for, or None when it still does.
\<close>

fun hold_lock :: "rat \<Rightarrow> rat \<Rightarrow> (rat \<times> token_look) list \<Rightarrow> deploy_token_watch \<Rightarrow> nat option" where
  "hold_lock end_time stale [] watch = None"
| "hold_lock end_time stale ((now, look) # looks) watch =
     (if now < end_time
      then case deploy_token_file_active False stale look watch of (active, watch) \<Rightarrow>
             if active then map_option Suc (hold_lock end_time stale looks watch) else Some 0
      else Some 0)"

record lock_host =
  kh_look :: token_look
  kh_mkdir :: int
  kh_open_dir :: int
  kh_open_lock :: int
  kh_flock :: int
  kh_fork :: "int + nat"

abbreviation (input) ESTALE :: int where "ESTALE \<equiv> 116"
abbreviation (input) EWOULDBLOCK :: int where "EWOULDBLOCK \<equiv> 11"

text \<open>The reply of the parent; the holder is the effect, with the watch it starts from.\<close>

definition command_lock :: "host \<Rightarrow> lock_host \<Rightarrow> string list \<Rightarrow> reply \<times> deploy_token_watch option" where
  "command_lock h kh args =
     (if length args \<noteq> 4 then (usage, None)
      else let directory = args ! 0; token = args ! 1;
               error = (\<lambda>stage e. (report_error ''lock'' stage e (h_strerror h e) False, None)) in
      case parse_size (args ! 2) of None \<Rightarrow> (usage, None)
      | Some seconds \<Rightarrow>
        if seconds = 0 \<or> 86400 < seconds then (usage, None)
        else case parse_size (args ! 3) of None \<Rightarrow> (usage, None)
        | Some stale \<Rightarrow>
          if stale = 0 \<or> 86400 < stale then (usage, None)
          else case h_stat h token of Inl e \<Rightarrow> error ''token'' e
          | Inr _ \<Rightarrow>
            case deploy_token_file_active False (of_nat stale) (kh_look kh) fresh_watch of (active, watch) \<Rightarrow>
            if \<not> active
            then (report_error ''lock'' ''token'' ESTALE ''the token is older than the staleness window'' False, None)
            else if kh_mkdir kh \<noteq> 0 \<and> kh_mkdir kh \<noteq> EEXIST then error ''directory'' (kh_mkdir kh)
            else if kh_open_dir kh \<noteq> 0 then error ''directory'' (kh_open_dir kh)
            else if kh_open_lock kh \<noteq> 0 then error ''open'' (kh_open_lock kh)
            else if kh_flock kh = EWOULDBLOCK
            then (report_error ''lock'' ''busy'' EWOULDBLOCK ''an update holds the lock'' False, None)
            else if kh_flock kh \<noteq> 0 then error ''flock'' (kh_flock kh)
            else case kh_fork kh of Inl e \<Rightarrow> error ''fork'' e
            | Inr pid \<Rightarrow>
              ((ok_reply ''lock'' ('',\"path\":'' @ json_string directory @ '',\"pid\":'' @ print_nat 10 pid @
                  '',\"seconds\":'' @ print_nat 10 seconds @ '',\"stale\":'' @ print_nat 10 stale))\<lparr>r_effects := [Holder pid]\<rparr>,
               Some watch))"

section \<open>main\<close>

definition flasher_main ::
  "string \<Rightarrow> host \<Rightarrow> slot_host \<Rightarrow> link_host \<Rightarrow> lock_host \<Rightarrow> (string \<Rightarrow> int + nat \<times> nat \<times> nat) \<Rightarrow>
   release_slot_layout \<times> release_slot_header \<Rightarrow> string list \<Rightarrow> mtd_world \<Rightarrow> reply \<times> mtd_world" where
  "flasher_main version h sh lh kh statvfs stack args w =
     (case args of [] \<Rightarrow> (usage, w)
      | command # rest \<Rightarrow>
        if command = ''version'' \<and> rest = [] then (ok_reply ''version'' ('',\"version\":\"'' @ version @ ''\"''), w)
        else if command = ''hash'' then command_hash h rest w
        else if command = ''sha256'' then command_sha256 h rest w
        else if command = ''write'' then command_write h rest w
        else if command = ''slot-info'' then command_slot_info h stack rest w
        else if command = ''write-slot'' then command_write_slot h sh rest w
        else if command = ''statfs'' then (command_statfs h statvfs rest, w)
        else if command = ''symlink'' then (command_symlink h lh rest, w)
        else if command = ''lock'' then (fst (command_lock h kh rest), w)
        else (usage, w))"

end
