(* ===== verification/Flasher_Properties.thy ===== *)
theory Flasher_Properties
  imports Flasher
begin

text \<open>
  What the flasher's commands guarantee: its JSON strings and hex digests read back, the exit status
  tells whether the flash was touched, and an exit of 0 means that the image is on the flash.
\<close>

section \<open>JSON strings\<close>

text \<open>A reader of JSON strings: the text up to the closing quote and what follows it.\<close>

fun json_read :: "string \<Rightarrow> (string \<times> string) option" where
  "json_read [] = None"
| "json_read (c # s) =
     (if c = CHR 0x22 then Some ([], s)
      else if c = CHR 0x5C then
        (case s of
           d # s' \<Rightarrow>
             if d = CHR 0x22 \<or> d = CHR 0x5C then map_option (apfst ((#) d)) (json_read s')
             else (case s' of
                 h1 # h2 # h3 # h4 # rest \<Rightarrow>
                   if d = CHR ''u'' \<and> list_all (is_digit 16) [h1, h2, h3, h4]
                   then map_option (apfst ((#) (char_of (digits_value 16 [h1, h2, h3, h4])))) (json_read rest) else None
               | _ \<Rightarrow> None)
         | [] \<Rightarrow> None)
      else if (of_char c :: nat) < 32 then None
      else map_option (apfst ((#) c)) (json_read s))"

lemma print4:
  assumes "n < 32"
  shows "\<exists>h1 h2 h3 h4. print_padded 4 16 n = [h1, h2, h3, h4] \<and> list_all (is_digit 16) [h1, h2, h3, h4] \<and>
    digits_value 16 [h1, h2, h3, h4] = n"
proof -
  have "length (print_padded 4 16 n) = 4"
  proof (cases "n < 16")
    case True
    then show ?thesis by (simp add: print_padded_def print_nat.simps [of 16 n])
  next
    case False
    then have "n div 16 < 16" using assms by simp
    then show ?thesis using False
      by (simp add: print_padded_def print_nat.simps [of 16 n] print_nat.simps [of 16 "n div 16"] Let_def)
  qed
  then obtain h1 h2 h3 h4 where p: "print_padded 4 16 n = [h1, h2, h3, h4]"
    by (auto simp: length_Suc_conv eval_nat_numeral)
  have "\<forall>c\<in>set (print_padded 4 16 n). is_digit 16 c"
    using print_nat_digits [of 16 _ n] by (auto simp: print_padded_def Let_def is_digit_def digit_value_zero)
  moreover have "digits_value 16 (print_padded 4 16 n) = n"
    by (simp add: print_padded_def Let_def digits_value_zeros digits_value_print)
  ultimately show ?thesis unfolding p by auto
qed

lemma json_read_char: "json_read (json_char c @ s) = map_option (apfst ((#) c)) (json_read s)"
proof (cases "c = CHR 0x22 \<or> c = CHR 0x5C \<or> 32 \<le> (of_char c :: nat)")
  case True
  then show ?thesis by (auto simp: json_char_def)
next
  case False
  then have n: "(of_char c :: nat) < 32" by simp
  obtain h1 h2 h3 h4 where h: "print_padded 4 16 (of_char c) = [h1, h2, h3, h4]"
    "list_all (is_digit 16) [h1, h2, h3, h4]" "digits_value 16 [h1, h2, h3, h4] = (of_char c :: nat)"
    using print4 [OF n] by blast
  have "json_char c @ s = CHR 0x5C # CHR ''u'' # h1 # h2 # h3 # h4 # s"
    using False n h(1) by (simp add: json_char_def)
  then show ?thesis using h(2,3) by simp
qed

lemma json_read_string: "json_read (tl (json_string s) @ rest) = Some (s, rest)"
proof -
  have "json_read (concat (map json_char s) @ CHR 0x22 # rest) = Some (s, rest)"
    by (induction s) (simp_all add: json_read_char)
  then show ?thesis by (simp add: json_string_def)
qed

section \<open>Hex digests\<close>

lemma nibble_hex: "k < 16 \<Longrightarrow> nibble (hex_digits ! k) = Some k"
proof -
  assume "k < 16"
  moreover have "\<forall>k<16. nibble (hex_digits ! k) = Some k" by code_simp
  ultimately show ?thesis by blast
qed

lemma byte_nibbles:
  fixes b :: byte
  shows "unat (drop_bit 4 b) = unat b div 16 \<and> unat (b AND 15) = unat b mod 16"
proof -
  have "b AND 15 = take_bit 4 b" by (simp add: take_bit_eq_mask mask_eq_exp_minus_1)
  then have "unat (b AND 15) = take_bit 4 (unat b)" by (simp only: unsigned_take_bit_eq)
  then have "unat (b AND 15) = unat b mod 16" by (simp add: take_bit_eq_mod)
  moreover have "unat (drop_bit 4 b) = unat b div 16" using unat_byte_less [of b]
    by (simp only: unsigned_drop_bit_eq) (simp add: drop_bit_eq_div take_bit_nat_eq_self)
  ultimately show ?thesis by simp
qed

lemma byte_halves:
  fixes b :: byte
  shows "unat (drop_bit 4 b) < 16 \<and> unat (b AND 15) < 16 \<and> of_nat (unat (drop_bit 4 b) * 16 + unat (b AND 15)) = b"
proof -
  have "unat (drop_bit 4 b) * 16 + unat (b AND 15) = unat b" using byte_nibbles [of b] by presburger
  then have "of_nat (unat (drop_bit 4 b) * 16 + unat (b AND 15)) = (of_nat (unat b) :: byte)" by (simp only:)
  then have "of_nat (unat (drop_bit 4 b) * 16 + unat (b AND 15)) = b" by simp
  moreover have "unat b div 16 < 16" using unat_byte_less [of b] by simp
  ultimately show ?thesis using byte_nibbles [of b] by simp
qed

lemma hex_pairs_hex: "hex_pairs (sha256_hex bs) = Some bs"
proof (induction bs)
  case Nil
  then show ?case by (simp add: sha256_hex_def)
next
  case (Cons b bs)
  have "sha256_hex (b # bs) = hex_digits ! unat (drop_bit 4 b) # hex_digits ! unat (b AND 15) # sha256_hex bs"
    by (simp add: sha256_hex_def)
  then show ?case using Cons byte_halves [of b] by (simp add: nibble_hex del: of_nat_add of_nat_mult)
qed

lemma length_sha256_hex: "length (sha256_hex bs) = 2 * length bs"
  by (induction bs) (simp_all add: sha256_hex_def)

lemma parse_hex_roundtrip: "length bs = 32 \<Longrightarrow> parse_hex (Some (sha256_hex bs)) = Some bs"
  by (simp add: parse_hex_def length_sha256_hex hex_pairs_hex)

lemma hex_pairs_length: "hex_pairs s = Some bs \<Longrightarrow> length s = 2 * length bs"
  by (induction s arbitrary: bs rule: hex_pairs.induct) (auto split: option.splits)

lemma parse_hex_length: "parse_hex s = Some bs \<Longrightarrow> length bs = 32"
  by (auto simp: parse_hex_def dest: hex_pairs_length split: option.splits if_splits)

lemma nibble_inverse: "nibble c = Some k \<Longrightarrow> k < 16 \<and> hex_digits ! k = c"
proof -
  assume k: "nibble c = Some k"
  let ?n = "of_char c :: nat"
  have d: "\<forall>j<10. (of_char (hex_digits ! j) :: nat) = 48 + j" "\<forall>j<6. (of_char (hex_digits ! (10 + j)) :: nat) = 97 + j"
    by code_simp+
  consider "48 \<le> ?n" "?n \<le> 57" "k = ?n - 48" | "97 \<le> ?n" "?n \<le> 102" "k = 10 + (?n - 97)"
    using k by (auto simp: nibble_def Let_def split: if_splits)
  then have "k < 16 \<and> (of_char (hex_digits ! k) :: nat) = ?n"
  proof cases
    case 1
    then show ?thesis using d(1) [rule_format, of "?n - 48"] by simp
  next
    case 2
    then show ?thesis using d(2) [rule_format, of "?n - 97"] by simp
  qed
  then show ?thesis by (metis char_of_char)
qed

lemma split_byte:
  assumes "x < 16" and "y < 16"
  shows "unat (drop_bit 4 (of_nat (x * 16 + y) :: byte)) = x \<and> unat ((of_nat (x * 16 + y) :: byte) AND 15) = y"
proof -
  let ?b = "of_nat (x * 16 + y) :: byte"
  have "x * 16 + y < 2 ^ 8" using assms by simp
  then have v: "unat ?b = x * 16 + y" by (simp add: unat_of_nat del: of_nat_add of_nat_mult)
  have "unat (drop_bit 4 ?b) = unat ?b div 16" "unat (?b AND 15) = unat ?b mod 16" using byte_nibbles [of ?b] by simp_all
  then show ?thesis using assms unfolding v by simp
qed

lemma hex_pairs_inverse: "hex_pairs s = Some bs \<Longrightarrow> s = sha256_hex bs"
proof (induction s arbitrary: bs rule: hex_pairs.induct)
  case (3 a b rest)
  then obtain x y cs where e: "nibble a = Some x" "nibble b = Some y" "hex_pairs rest = Some cs"
    "bs = of_nat (x * 16 + y) # cs" by (auto split: option.splits)
  have n: "x < 16" "hex_digits ! x = a" "y < 16" "hex_digits ! y = b" using nibble_inverse e(1,2) by blast+
  have "rest = sha256_hex cs" using "3.IH" e(1-3) by blast
  moreover have "sha256_hex (d # cs) = hex_digits ! unat (drop_bit 4 d) # hex_digits ! unat (d AND 15) # sha256_hex cs" for d
    by (simp add: sha256_hex_def)
  ultimately show ?case using split_byte [OF n(1,3)] n(2,4) unfolding e(4) by (simp del: of_nat_add of_nat_mult)
qed (simp_all add: sha256_hex_def)

lemma parse_hex_inverse: "parse_hex (Some s) = Some bs \<longleftrightarrow> length bs = 32 \<and> s = sha256_hex bs"
  using parse_hex_roundtrip [of bs] parse_hex_length [of "Some s" bs] hex_pairs_inverse [of s bs]
  by (auto simp: parse_hex_def split: if_splits)

section \<open>Numbers\<close>

lemma strtoul_le: "strtoul limit base s = (v, n, e) \<Longrightarrow> v \<le> limit"
  by (auto simp: strtoul_def Let_def less_Suc_eq_le split: if_splits)

lemma parse_size_less: "parse_size s = Some v \<Longrightarrow> v < 2 ^ 64"
proof -
  assume "parse_size s = Some v"
  then obtain base n e where "strtoul UINT64_MAX base s = (v, n, e)"
    by (auto simp: parse_size_def Let_def split: if_splits prod.splits)
  then have "v \<le> UINT64_MAX" by (rule strtoul_le)
  then show ?thesis by simp
qed

lemma parse_size_print: "n < 2 ^ 64 \<Longrightarrow> parse_size (print_nat 10 n) = Some n"
proof -
  assume n: "n < 2 ^ 64"
  let ?s = "print_nat 10 n"
  have dig: "\<And>c. c \<in> set ?s \<Longrightarrow> is_digit 10 c" using print_nat_digits [of 10] by simp
  have "\<not> is_digit 10 CHR ''x''" "\<not> is_digit 10 CHR ''X''" "\<not> is_digit 10 CHR ''-''"
    by (simp_all add: is_digit_def digit_value_def Let_def)
  then have "CHR ''x'' \<notin> set ?s" "CHR ''X'' \<notin> set ?s" "CHR ''-'' \<notin> set ?s" using dig by blast+
  then have no: "\<not> (2 \<le> length ?s \<and> ?s ! 0 = CHR ''0'' \<and> (?s ! 1 = CHR ''x'' \<or> ?s ! 1 = CHR ''X''))" "hd ?s \<noteq> CHR ''-''"
    by (metis less_le_trans nth_mem one_less_numeral_iff semiring_norm(76)) (metis list.set_sel(1) print_nat_nonempty \<open>CHR ''-'' \<notin> set ?s\<close>)
  have "strtoul UINT64_MAX 10 ?s = (n, length ?s, False)"
    using strtoul_print [of 10 "[]" "[]" n UINT64_MAX 0] n by (simp add: print_padded_0)
  then show ?thesis using no by (auto simp: parse_size_def Let_def)
qed

section \<open>The write command\<close>

text \<open>A regular file holds as many bytes as fstat says.\<close>

definition true_size :: "host \<Rightarrow> string \<Rightarrow> bool" where
  "true_size h path = (\<forall>info. h_fstat h path = Inr info \<and> st_kind info = Regular \<longrightarrow> length (h_content h path) = u64 (st_size info))"

text \<open>The chip is as large as MEMGETINFO says, and a header fits in a block.\<close>

definition flash_fits :: "host \<Rightarrow> mtd_world \<Rightarrow> bool" where
  "flash_fits h w = (\<forall>path b n mtd. mtd_open h path b n = Inr mtd \<longrightarrow>
     chip_ok (mh_size mtd) w \<and> HEADER_BYTES \<le> unat (mh_erase_size mtd))"

lemma flash_fitsD:
  "flash_fits h w \<Longrightarrow> mtd_open h path b n = Inr mtd \<Longrightarrow> chip_ok (mh_size mtd) w \<and> HEADER_BYTES \<le> unat (mh_erase_size mtd)"
  unfolding flash_fits_def by blast

lemma u64_less: "u64 i < 2 ^ 64"
proof -
  have "i mod 2 ^ 64 < 2 ^ 64" "0 \<le> i mod 2 ^ 64" by simp_all
  then show ?thesis unfolding u64_def by (subst nat_less_iff) simp_all
qed

lemma with_file_same [simp]: "chip (with_file h path w) = chip w" "image_file (with_file h path w) = h_content h path"
  by (simp_all add: with_file_def)

lemma with_file_chip_ok: "chip_ok sz (with_file h path w) = chip_ok sz w"
  by (simp add: chip_ok_def script_ok_def with_file_def)

lemma report_error_status [simp]: "r_status (report_error c st e m modified) = (if modified then 2 else 1)"
  by (simp add: report_error_def)

lemma ok_reply_status [simp]: "r_status (ok_reply c b) = 0"
  by (simp add: ok_reply_def)

lemma usage_status [simp]: "r_status usage = 64"
  by (simp add: usage_def)

lemma write_checks_Inr:
  assumes "write_checks h args = Inr (off, mtd, info)"
  shows "\<exists>name. write_options (drop 2 args) (0, ''res'') = Some (off, name) \<and> h_fstat h (args ! 1) = Inr info \<and>
    st_kind info = Regular \<and> mtd_open h (args ! 0) True 160 = Inr mtd \<and> write_refusal mtd name = None"
  using assms by (auto simp: write_checks_def Let_def split: if_splits option.splits sum.splits)

lemma write_checks_Inl: "write_checks h args = Inl rep \<Longrightarrow> r_status rep = 1 \<or> r_status rep = 64"
  by (auto simp: write_checks_def Let_def split: if_splits option.splits sum.splits)

lemma take_prefix: "take n xs = ys @ zs \<Longrightarrow> take (length ys) xs = ys"
proof -
  assume eq: "take n xs = ys @ zs"
  have "length (take n xs) = length ys + length zs" using eq by simp
  then have "length ys \<le> n" by simp
  then show ?thesis using arg_cong [OF eq, of "take (length ys)"] by simp
qed

lemma command_write_result:
  assumes run: "command_write h args w = (rep, w')" and dev: "flash_fits h w"
    and size: "true_size h (args ! 1)"
  shows "(r_status rep = 1 \<or> r_status rep = 64 \<longrightarrow> chip w' = chip w) \<and>
    (r_status rep = 0 \<or> chip w' \<noteq> chip w \<longrightarrow> (\<exists>off name mtd. write_options (drop 2 args) (0, ''res'') = Some (off, name) \<and>
       mtd_open h (args ! 0) True 160 = Inr mtd \<and> entry_name (mh_entry mtd) = name \<and> mh_nor mtd \<and> mh_writeable mtd \<and>
       mh_write_size mtd \<le> mh_erase_size mtd \<and>
       (r_status rep = 0 \<longrightarrow> take (length (h_content h (args ! 1))) (drop off (chip w')) = h_content h (args ! 1))))"
proof (cases "write_checks h args")
  case (Inl x)
  then show ?thesis using run write_checks_Inl [OF Inl] by (auto simp: command_write_def)
next
  case (Inr x)
  obtain off mtd info where x: "x = (off, mtd, info)" by (cases x) auto
  let ?img = "h_content h (args ! 1)" and ?w = "with_file h (args ! 1) w"
  obtain name where c: "write_options (drop 2 args) (0, ''res'') = Some (off, name)" "h_fstat h (args ! 1) = Inr info"
    "st_kind info = Regular" "mtd_open h (args ! 0) True 160 = Inr mtd" "write_refusal mtd name = None"
    using write_checks_Inr [OF Inr [unfolded x]] by blast
  have len: "length ?img = u64 (st_size info)" using size c(2,3) by (simp add: true_size_def)
  obtain r frep w2 where fw: "flash_write_image sys_malloc (mtd_flash (mh_size mtd) (mh_erase_size mtd))
      (range_source 0 (u64 (st_size info))) off ?w = (r, frep, w2)" by (metis prod_cases3)
  have job: "job_ok (mh_size mtd) 0 ?img ?w"
    using flash_fitsD [OF dev c(4)] u64_less [of "st_size info"] len by (simp add: job_ok_def with_file_chip_ok)
  have out: "w' = w2" "r_status rep = (if r = 0 then 0 else if rep_modified frep then 2 else 1)"
    using run Inr x fw by (auto simp: command_write_def mh_device_def split: if_splits)
  have post: "\<not> rep_modified frep \<longrightarrow> chip w2 = chip w"
    "r = 0 \<longrightarrow> take (length ?img) (drop off (chip w2)) = ?img"
    using mtd_job.flash_write_image_post [OF fw [folded len] job] take_prefix by auto
  moreover have "entry_name (mh_entry mtd) = name" "mh_nor mtd" "mh_writeable mtd" "mh_write_size mtd \<le> mh_erase_size mtd"
    using c(5) by (simp_all add: write_refusal_def not_less split: if_splits)
  ultimately show ?thesis using out c by auto
qed

section \<open>The write-slot command\<close>

lemma open_res_open: "open_res h device for_write n = Inr mtd \<Longrightarrow>
    \<exists>path. mtd_open h path for_write n = Inr mtd \<and> res_refusal mtd for_write = None"
  by (auto simp: open_res_def split: option.splits sum.splits prod.splits)

definition args_64 :: "slot_args \<Rightarrow> bool" where
  "args_64 a \<longleftrightarrow> sa_length a < 2 ^ 64 \<and> sa_counter a < 2 ^ 64"

lemma slot_option_64: "slot_option option val a = Some a' \<Longrightarrow> args_64 a \<Longrightarrow> args_64 a'"
  by (auto simp: slot_option_def args_64_def dest: parse_size_less split: if_splits option.splits)

lemma slot_options_64: "slot_options args a = Some a' \<Longrightarrow> args_64 a \<Longrightarrow> args_64 a'"
proof (induction args a arbitrary: a' rule: slot_options.induct)
  case (2 option rest a)
  show ?case
  proof (cases "option = ''--reboot''")
    case True
    then show ?thesis using "2.IH"(1) "2.prems" by (simp add: args_64_def)
  next
    case False
    then show ?thesis using "2.IH"(2) "2.prems" slot_option_64
      by (fastforce split: list.splits option.splits)
  qed
qed simp

lemma slot_header_of_ok:
  assumes "slot_header_of a = Some header" and "sa_length a < 2 ^ 64" and "sa_counter a < 2 ^ 64"
  shows "header_ok header \<and> hdr_image_bytes header = sa_length a"
  using assms by (auto simp: slot_header_of_def header_ok_def ascii_def dest: parse_hex_length split: if_splits option.splits)

lemma slot_failed_status [simp]: "r_status (slot_failed sh a st e m modified eff) = (if modified then 2 else 1)"
  by (simp add: slot_failed_def)

lemma slot_written_status [simp]: "r_status (slot_written h sh a hdr rep eff) = 0"
  by (simp add: slot_written_def)

lemma write_slot_checks_Inl:
  "write_slot_checks h sh args = Inl rep \<Longrightarrow> (r_status rep = 1 \<or> r_status rep = 64) \<and> Reboot \<notin> set (r_effects rep)"
  by (auto simp: write_slot_checks_def slot_failed_def finish_write_slot_def record_result_def usage_def Let_def
      split: if_splits option.splits sum.splits list.splits)

lemma write_slot_checks_Inr:
  assumes "write_slot_checks h sh args = Inr (a, header, mtd, eff)"
  shows "slot_options (tl args) default_slot_args = Some a \<and> slot_header_of a = Some header \<and>
    source_holds h (hd args) (sa_offset a) (sa_length a) \<and>
    open_res h (sa_device a) True 160 = Inr mtd \<and> Reboot \<notin> set eff"
  using assms by (auto simp: write_slot_checks_def Let_def split: if_splits option.splits sum.splits list.splits)

lemma source_holds_image:
  assumes "source_holds h path off len" and "true_size h path"
  shows "off + len < 2 ^ 64 \<and> length (take len (drop off (h_content h path))) = len"
proof -
  obtain info where i: "h_fstat h path = Inr info \<and> st_kind info = Regular" "off \<le> u64 (st_size info)" "len \<le> u64 (st_size info) - off"
    using assms(1) by (auto simp: source_holds_def split: sum.splits)
  have "length (h_content h path) = u64 (st_size info)" using assms(2) i(1) by (simp add: true_size_def)
  then show ?thesis using i u64_less [of "st_size info"] by simp
qed

lemma command_write_slot_result:
  assumes run: "command_write_slot h sh args w = (rep, w')" and dev: "flash_fits h w" and size: "true_size h (hd args)"
  shows "(r_status rep = 1 \<or> r_status rep = 64 \<longrightarrow> chip w' = chip w \<and> Reboot \<notin> set (r_effects rep)) \<and>
    (r_status rep \<in> {0, 1, 2, 64}) \<and>
    (chip w' \<noteq> chip w \<longrightarrow> (\<exists>device mtd. open_res h device True 160 = Inr mtd)) \<and>
    (r_status rep = 0 \<longrightarrow> (\<exists>a header mtd lay. slot_options (tl args) default_slot_args = Some a \<and>
       slot_header_of a = Some header \<and> open_res h (sa_device a) True 160 = Inr mtd \<and>
       slot_answer (unat (mh_size mtd)) (unat (mh_erase_size mtd)) True (chip w') = 0 \<and>
       release_slot_locate (take SUPERBLOCK_BYTES (chip w')) (unat (mh_size mtd)) (unat (mh_erase_size mtd)) = Inr lay \<and>
       take (sa_length a) (drop (lay_image lay) (chip w')) = take (sa_length a) (drop (sa_offset a) (h_content h (hd args)))))"
proof (cases "write_slot_checks h sh args")
  case (Inl x)
  then show ?thesis using run write_slot_checks_Inl [OF Inl] by (auto simp: command_write_slot_def)
next
  case (Inr x)
  obtain a header mtd eff where x: "x = (a, header, mtd, eff)" by (cases x) auto
  note c = write_slot_checks_Inr [OF Inr [unfolded x]]
  let ?img = "take (sa_length a) (drop (sa_offset a) (h_content h (hd args)))" and ?w = "with_file h (hd args) w"
  let ?flash = "mtd_flash (mh_size mtd) (mh_erase_size mtd)"
  have "sa_length a < 2 ^ 64 \<and> sa_counter a < 2 ^ 64"
    using slot_options_64 [of "tl args" default_slot_args a] c by (simp add: default_slot_args_def args_64_def)
  then have hdr: "header_ok header" "hdr_image_bytes header = sa_length a" using slot_header_of_ok c by blast+
  have src: "sa_offset a + sa_length a < 2 ^ 64" and len: "length ?img = sa_length a"
    using source_holds_image [OF _ size, of "sa_offset a" "sa_length a"] c by blast+
  obtain path where "mtd_open h path True 160 = Inr mtd" using c open_res_open by blast
  then have fit: "chip_ok (mh_size mtd) w" "HEADER_BYTES \<le> unat (mh_erase_size mtd)" using flash_fitsD [OF dev] by blast+
  have job: "job_ok (mh_size mtd) (sa_offset a) ?img ?w"
    using fit(1) src len by (simp add: job_ok_def with_file_chip_ok)
  obtain r frep w2 where fw: "slot_write sys_malloc ?flash (range_source (sa_offset a) (length ?img)) header ?w = (r, frep, w2)"
    by (metis prod_cases3)
  have post: "\<not> rep_modified frep \<longrightarrow> chip w2 = chip w \<and> r < 0" using mtd_job.slot_write_post [OF fw job hdr(1)] fit(2) by simp
  have fw': "slot_write sys_malloc (mh_device mtd) (range_source (sa_offset a) (sa_length a)) header ?w = (r, frep, w2)"
    using fw by (simp only: len mh_device_def)
  define eff' where "eff' = eff @ (if rep_modified frep \<and> sh_drop_caches sh = 0 then [Drop_Caches] else [])"
  have rep: "w' = w2" "rep = (if r \<noteq> 0 then slot_failed sh a (rep_stage frep) (rep_error frep) (failed_at h frep) (rep_modified frep) eff'
      else slot_written h sh a header frep eff')"
    using run by (auto simp: command_write_slot_def Inr x fw' Let_def eff'_def split: if_splits)
  have boot: "Reboot \<notin> set (r_effects rep)" if "r \<noteq> 0" "\<not> rep_modified frep"
    using c that by (auto simp: rep(2) eff'_def slot_failed_def finish_write_slot_def record_result_def split: option.splits)
  have done0: "\<exists>lay. slot_answer (unat (mh_size mtd)) (unat (mh_erase_size mtd)) True (chip w') = 0 \<and>
       release_slot_locate (take SUPERBLOCK_BYTES (chip w')) (unat (mh_size mtd)) (unat (mh_erase_size mtd)) = Inr lay \<and>
       take (sa_length a) (drop (lay_image lay) (chip w')) = ?img" if "r = 0"
    using mtd_job.slot_write_readable [OF fw [unfolded that] job hdr(1)] fit(2) by (auto simp: rep(1) len simp del: length_take)
  show ?thesis
  proof (cases "r = 0")
    case True
    then show ?thesis using rep done0 c by auto
  next
    case False
    then show ?thesis using rep post boot c by auto
  qed
qed

section \<open>The other commands and the exit status\<close>

text \<open>What a command that only reads leaves alone.\<close>

definition kept :: "mtd_world \<Rightarrow> mtd_world \<Rightarrow> bool" where
  "kept w w' \<longleftrightarrow> script_ok w' \<and> chip w' = chip w"

lemma hash_range_keeps:
  assumes run: "flash_hash_range sys_malloc d off len w = (r, digest, w')" and ok: "script_ok w"
    and data: "plain_data data" and rd: "dev_read d = (\<lambda>off k w. fd_read_exact data off k w)"
  shows "kept w w' \<and> image_file w' = image_file w \<and> (r = 0 \<longrightarrow> digest = sha256 (take len (drop off (data w))))"
proof -
  obtain m w1 where m: "sys_malloc HASH_CHUNK w = (m, w1)" by fastforce
  have w1: "script_ok w1" "chip w1 = chip w" "image_file w1 = image_file w" using malloc_ok [OF m ok] by simp_all
  obtain r1 h w2 where hc: "hash_chunks (dev_read d) off len 0 (sha256_init (replicate 64 0)) w1 = (r1, h, w2)"
    by (metis prod_cases3)
  have "(script_ok w2 \<and> chip w2 = chip w \<and> image_file w2 = image_file w) \<and>
      (r1 = 0 \<and> sha_abs (sha256_init (replicate 64 0)) (take 0 (drop off (data w))) \<longrightarrow> sha_abs h (take len (drop off (data w))))"
  proof (rule hash_chunks_sound [OF hc])
    fix a n v r bs v'
    assume v: "script_ok v \<and> chip v = chip w \<and> image_file v = image_file w" and "dev_read d a n v = (r, bs, v')"
    then have run: "fd_read_exact data a n v = (r, bs, v')" by (simp add: rd)
    show "(script_ok v' \<and> chip v' = chip w \<and> image_file v' = image_file w) \<and> (r = 0 \<longrightarrow> bs = take n (drop a (data w)))"
      using fd_read_exact_ok [OF run _ data] v plain_dataD [OF data, of v w] by simp
  qed (use w1 in simp_all)
  then have "script_ok w2 \<and> chip w2 = chip w \<and> image_file w2 = image_file w \<and> (r1 = 0 \<longrightarrow> sha_abs h (take len (drop off (data w))))"
    using sha_abs_init [of "replicate 64 0"] by simp
  then show ?thesis using run w1 ok sha256_final_abs by (auto simp: kept_def flash_hash_range_def m hc split: if_splits)
qed

lemma hash_fd_ok:
  assumes "hash_fd n w = (r, digest, w')" and "script_ok w"
  shows "kept w w' \<and> (r = 0 \<longrightarrow> digest = sha256 (take n (image_file w)))"
  using hash_range_keeps [OF assms(1) [unfolded hash_fd_def] assms(2), of image_file] by (simp add: file_device_def)

lemma kept_refl [simp]: "kept w w = script_ok w"
  by (simp add: kept_def)

lemma kept_with_file [simp]: "kept (with_file h path w) w' = kept w w'"
  by (simp add: kept_def)

lemma script_ok_with_file [simp]: "script_ok (with_file h path w) = script_ok w"
  by (simp add: script_ok_def with_file_def)

lemma hash_device_keeps: "flash_hash_range sys_malloc (mh_device mtd) off len w = (r, digest, w') \<Longrightarrow> script_ok w \<Longrightarrow> kept w w'"
  using hash_range_keeps [of "mh_device mtd" off len w r digest w' chip]
  by (simp add: mh_device_def mtd_flash_def mtd_read_def [abs_def])

lemma command_hash_keeps: "command_hash h args w = (rep, w') \<Longrightarrow> script_ok w \<Longrightarrow> kept w w'"
  by (auto simp: command_hash_def Let_def split: if_splits option.splits sum.splits prod.splits
      dest: hash_device_keeps hash_fd_ok)

lemma sha256_file_ok:
  assumes "sha256_file h path w = (x, w')" and "script_ok w"
  shows "kept w w' \<and> (\<forall>info digest. x = Inr (info, digest) \<and> true_size h path \<longrightarrow>
    h_fstat h path = Inr info \<and> st_kind info = Regular \<and> digest = sha256 (h_content h path))"
  using assms
  by (auto simp: sha256_file_def true_size_def split: if_splits option.splits sum.splits prod.splits dest: hash_fd_ok)

lemma sha256_files_keeps:
  "sha256_files h paths rep w = (rep', w') \<Longrightarrow> script_ok w \<Longrightarrow> kept w w' \<and> (r_status rep' = r_status rep \<or> r_status rep' = 1)"
proof (induction h paths rep w arbitrary: rep' w' rule: sha256_files.induct)
  case (2 h path paths rep w)
  obtain x w1 where x: "sha256_file h path w = (x, w1)" by fastforce
  have k: "kept w w1" using sha256_file_ok [OF x "2.prems"(2)] by blast
  show ?case using "2.IH" [OF x [symmetric], of rep' w'] "2.prems"(1) k by (auto simp: x kept_def split: if_splits)
qed simp

lemma command_sha256_keeps: "command_sha256 h args w = (rep, w') \<Longrightarrow> script_ok w \<Longrightarrow> kept w w' \<and> r_status rep \<in> {0, 1, 64}"
  by (auto simp: command_sha256_def split: if_splits dest: sha256_files_keeps)

lemma command_slot_info_keeps:
  assumes "command_slot_info h stack args w = (rep, w')" and "flash_fits h w" and "script_ok w"
  shows "kept w w' \<and> r_status rep \<in> {0, 1, 64}"
proof -
  have "kept w v" if "open_res h device False 160 = Inr mtd" "slot_read sys_malloc (mh_device mtd) verify w = (r, l, hd, v)"
    for device mtd verify r l hd v
    using mtd.slot_read_ok [OF that(2) [unfolded mh_device_def]] open_res_open [OF that(1)] flash_fitsD [OF assms(2)]
    by (auto simp: kept_def chip_ok_def)
  then show ?thesis using assms(1,3)
    by (auto simp: command_slot_info_def Let_def split: if_splits option.splits sum.splits prod.splits)
qed

lemma command_hash_status: "r_status (fst (command_hash h args w)) \<in> {0, 1, 64}"
  by (auto simp: command_hash_def Let_def split: option.splits sum.splits prod.splits)

lemma command_write_status: "r_status (fst (command_write h args w)) \<in> {0, 1, 2, 64}"
  by (auto simp: command_write_def dest: write_checks_Inl split: option.splits sum.splits prod.splits)

lemma command_statfs_status: "r_status (command_statfs h statvfs args) \<in> {0, 1, 64}"
  by (auto simp: command_statfs_def split: sum.splits)

lemma command_symlink_status: "r_status (command_symlink h lh args) \<in> {0, 1, 2, 64}"
  by (auto simp: command_symlink_def Let_def split: sum.splits)

lemma command_lock_status: "r_status (fst (command_lock h kh args)) \<in> {0, 1, 64}"
  by (auto simp: command_lock_def Let_def split: sum.splits option.splits prod.splits)

lemma flasher_main_status:
  assumes "flasher_main version h sh lh kh statvfs stack args w = (rep, w')"
    and "flash_fits h w" and "script_ok w" and "\<And>path. true_size h path"
  shows "r_status rep \<in> {0, 1, 2, 64} \<and> (r_status rep = 1 \<or> r_status rep = 64 \<longrightarrow> chip w' = chip w) \<and>
    (chip w' \<noteq> chip w \<longrightarrow> hd args \<in> {''write'', ''write-slot''})"
proof (cases args)
  case Nil
  then show ?thesis using assms(1) by (auto simp: flasher_main_def)
next
  case (Cons c rest)
  note run = assms(1) [unfolded flasher_main_def Cons]
  consider "c = ''write''" | "c = ''write-slot''" | "c \<notin> {''write'', ''write-slot''}" by blast
  then show ?thesis
  proof cases
    case 1
    then have r: "command_write h rest w = (rep, w')" using run by simp
    show ?thesis using command_write_result [OF r assms(2,4)] command_write_status [of h rest w] r Cons 1 by auto
  next
    case 2
    then have "command_write_slot h sh rest w = (rep, w')" using run by simp
    from command_write_slot_result [OF this assms(2,4)] show ?thesis using Cons 2 by auto
  next
    case 3
    then have "kept w w' \<and> r_status rep \<in> {0, 1, 2, 64}"
      using run assms(3) command_hash_status [of h rest w] command_statfs_status [of h statvfs rest]
        command_symlink_status [of h lh rest] command_lock_status [of h kh rest]
      by (auto split: if_splits dest: command_hash_keeps command_sha256_keeps command_slot_info_keeps [OF _ assms(2)])
    then show ?thesis by (auto simp: kept_def)
  qed
qed

section \<open>The lock\<close>

lemma hold_lock_ends:
  assumes "looks ! k = (now, look)" and "k < length looks" and "end_time \<le> now \<or> isl (look_stat look)"
  shows "\<exists>m\<le>k. hold_lock end_time stale looks watch = Some m"
  using assms
proof (induction looks arbitrary: k watch)
  case (Cons l looks)
  obtain n lk where l: "l = (n, lk)" by (cases l) auto
  obtain a v where a: "deploy_token_file_active False stale lk watch = (a, v)" by fastforce
  show ?case
  proof (cases k)
    case 0
    then have "\<not> n < end_time \<or> \<not> a" using Cons.prems l a by (auto simp: deploy_token_file_active_def isl_def)
    then show ?thesis using l a by auto
  next
    case (Suc j)
    then obtain m where "m \<le> j" "hold_lock end_time stale looks v = Some m" using Cons.IH [of j v] Cons.prems by auto
    then show ?thesis using l a Suc by auto
  qed
qed simp

lemma hold_lock_before:
  "hold_lock end_time stale looks watch = Some m \<Longrightarrow> m < length looks \<and> (\<forall>i<m. fst (looks ! i) < end_time)"
proof (induction looks arbitrary: watch m)
  case (Cons l looks)
  obtain n lk where l: "l = (n, lk)" by (cases l) auto
  obtain a v where a: "deploy_token_file_active False stale lk watch = (a, v)" by fastforce
  show ?case
  proof (cases "n < end_time \<and> a")
    case True
    then obtain j where j: "hold_lock end_time stale looks v = Some j" "m = Suc j" using Cons.prems l a by auto
    then show ?thesis using Cons.IH [OF j(1)] True l by (auto simp: less_Suc_eq_0_disj)
  next
    case False
    then show ?thesis using Cons.prems l a by (auto split: if_splits)
  qed
qed simp

section \<open>Properties\<close>

text \<open>
  C12. The exit status of the whole program tells the truth about the flash: it is 0, 1, 2 or 64, with 1
  (failed, unchanged) and 64 (usage) the chip is byte for byte as it was, and only the commands write and
  write-slot ever change it - whatever the arguments, the files, and the faults of the device.
\<close>

theorem exit_status_sound:
  assumes "flasher_main version h sh lh kh statvfs stack args w = (rep, w')"
    and "flash_fits h w" and "script_ok w" and "\<And>path. true_size h path"
  shows "r_status rep \<in> {0, 1, 2, 64} \<and> (r_status rep = 1 \<or> r_status rep = 64 \<longrightarrow> chip w' = chip w) \<and>
    (chip w' \<noteq> chip w \<longrightarrow> hd args \<in> {''write'', ''write-slot''})"
  using assms by (rule flasher_main_status)

lemma parse_size_text: "n < 2 ^ 64 \<Longrightarrow> print_nat 10 n = s \<Longrightarrow> parse_size s = Some n"
  using parse_size_print [of n] by simp

lemma example_fits: "chip_ok 1024 w \<Longrightarrow> flash_fits (example_host c) w"
proof -
  have "mtd_open (example_host c) path b n = Inr mtd \<Longrightarrow> mh_size mtd = 1024 \<and> mh_erase_size mtd = 256" for path b n mtd
    by (auto simp: mtd_open_def example_host_def Let_def split: if_splits sum.splits)
  then show "chip_ok 1024 w \<Longrightarrow> ?thesis" by (auto simp: flash_fits_def)
qed

lemma example_sizes: "length c = 160 \<Longrightarrow> true_size (example_host c) path"
  by (simp add: true_size_def example_host_def example_stat_def example_file_def example_node_def u64_def)

lemma example_chip: "chip_ok 1024 (example_res [])" "script_ok (example_res [])"
  using example_res_fine by (auto simp: fine_ok_def job_ok_def chip_ok_def)

theorem exit_status_sound_witness:
  "\<forall>sh lh kh statvfs stack. \<exists>rep w'. flasher_main ''1'' (example_host example_image) sh lh kh statvfs stack
       [''write'', ''/dev/mtd/mtd5'', ''/tmp/image'', ''--offset''] (example_res []) = (rep, w') \<and>
     r_status rep = 64 \<and> chip w' = chip (example_res [])"
proof (intro allI)
  fix sh lh kh statvfs stack
  let ?args = "[''write'', ''/dev/mtd/mtd5'', ''/tmp/image'', ''--offset'']"
  obtain rep w' where run: "flasher_main ''1'' (example_host example_image) sh lh kh statvfs stack ?args (example_res []) = (rep, w')"
    by fastforce
  have "r_status rep = 64" using run by (simp add: flasher_main_def command_write_def write_checks_def)
  then show "\<exists>rep w'. flasher_main ''1'' (example_host example_image) sh lh kh statvfs stack ?args (example_res []) = (rep, w') \<and>
      r_status rep = 64 \<and> chip w' = chip (example_res [])"
    using exit_status_sound [OF run example_fits [OF example_chip(1)] example_chip(2) example_sizes] run example_image_length
    by blast
qed

text \<open>
  C28. What an exit of 0 from write means: the options parsed, the device given was opened for writing, its
  partition has the name that the options give (res without one) and is writeable NOR, and from the offset
  of the options on it holds the file's bytes - whether they were written or already there. The flash
  never changes unless all of these checks have passed, and not at all with exit 1 or 64.
\<close>

theorem command_write_sound:
  assumes "command_write h args w = (rep, w')" and "flash_fits h w" and "true_size h (args ! 1)"
  shows "(r_status rep = 1 \<or> r_status rep = 64 \<longrightarrow> chip w' = chip w) \<and>
    (r_status rep = 0 \<or> chip w' \<noteq> chip w \<longrightarrow> (\<exists>off name mtd. write_options (drop 2 args) (0, ''res'') = Some (off, name) \<and>
       mtd_open h (args ! 0) True 160 = Inr mtd \<and> entry_name (mh_entry mtd) = name \<and> mh_nor mtd \<and> mh_writeable mtd \<and>
       mh_write_size mtd \<le> mh_erase_size mtd \<and>
       (r_status rep = 0 \<longrightarrow> take (length (h_content h (args ! 1))) (drop off (chip w')) = h_content h (args ! 1))))"
  using assms by (rule command_write_result)

lemma example_same_file: "with_file (example_host example_image) path (example_res cs) = example_res cs"
  by (simp add: with_file_def example_host_def example_res_def)

theorem command_write_sound_witness:
  "\<exists>rep w'. command_write (example_host example_image) [''/dev/mtd/mtd5'', ''/tmp/image'', ''--offset'', ''512''] (example_res []) = (rep, w') \<and>
     r_status rep = 0 \<and> take 160 (drop 512 (chip w')) = example_image"
proof -
  let ?h = "example_host example_image" and ?args = "[''/dev/mtd/mtd5'', ''/tmp/image'', ''--offset'', ''512'']"
  have p: "parse_size ''512'' = Some 512" by (rule parse_size_text) (simp, code_simp)
  obtain rep w' where run: "command_write ?h ?args (example_res []) = (rep, w')" by fastforce
  have "h_open ?h ''/tmp/image'' False = 0" "h_fstat ?h ''/tmp/image'' = Inr example_file"
    by (simp_all add: example_host_def example_stat_def)
  then have ck: "write_checks ?h ?args = Inr (512, \<lparr>mh_nor = True, mh_writeable = True, mh_write_size = 1,
      mh_entry = example_entry, mh_size = 1024, mh_erase_size = 256\<rparr>, example_file)"
    by (simp add: write_checks_def p example_open Let_def) (simp add: example_file_def write_refusal_def example_entry_def)
  have "fst (flash_write_image sys_malloc (mtd_flash 1024 256) (range_source 0 (length example_image)) 512 (example_res [])) = 0"
    by (rule flash_write_fine [OF example_res_fine]) (simp_all add: example_image_length, auto simp: example_image_def)
  then have "r_status rep = 0" using run ck
    by (auto simp: command_write_def mh_device_def example_same_file example_image_length example_file_def u64_def
        split: prod.splits if_splits)
  moreover have "h_content ?h path = example_image" for path by (simp add: example_host_def)
  ultimately show ?thesis
    using command_write_sound [OF run example_fits [OF example_chip(1)] example_sizes [OF example_image_length]] run
    by (auto simp add: p example_image_length)
qed

text \<open>
  C13. What an exit of 0 from write-slot means: the partition passed the checks for res, its slot now
  verifies, and the image behind the header is the range of the source that the options name. With exit
  1 or 64 the flash is unchanged and the clock is not rebooted, whatever --reboot says.
\<close>

theorem command_write_slot_sound:
  assumes "command_write_slot h sh args w = (rep, w')" and "flash_fits h w" and "true_size h (hd args)"
  shows "(r_status rep = 1 \<or> r_status rep = 64 \<longrightarrow> chip w' = chip w \<and> Reboot \<notin> set (r_effects rep)) \<and>
    (r_status rep \<in> {0, 1, 2, 64}) \<and>
    (chip w' \<noteq> chip w \<longrightarrow> (\<exists>device mtd. open_res h device True 160 = Inr mtd)) \<and>
    (r_status rep = 0 \<longrightarrow> (\<exists>a header mtd lay. slot_options (tl args) default_slot_args = Some a \<and>
       slot_header_of a = Some header \<and> open_res h (sa_device a) True 160 = Inr mtd \<and>
       slot_answer (unat (mh_size mtd)) (unat (mh_erase_size mtd)) True (chip w') = 0 \<and>
       release_slot_locate (take SUPERBLOCK_BYTES (chip w')) (unat (mh_size mtd)) (unat (mh_erase_size mtd)) = Inr lay \<and>
       take (sa_length a) (drop (lay_image lay) (chip w')) = take (sa_length a) (drop (sa_offset a) (h_content h (hd args)))))"
  using assms by (rule command_write_slot_result)

definition example_slot_args :: "string list" where
  "example_slot_args = [''/tmp/image'', ''--length'', ''160'', ''--sha256'', sha256_hex (sha256 example_image), ''--release'', ''1.2.0'',
     ''--counter'', ''7'', ''--device'', ''/dev/mtd/mtd5'', ''--reboot'']"

definition example_slot_host :: slot_host where
  "example_slot_host = \<lparr>sh_umount = (\<lambda>_. 0), sh_drop_caches = 0, sh_open_result = (\<lambda>_. 0)\<rparr>"

lemma example_slot_parsed:
  "slot_options (tl example_slot_args) default_slot_args = Some \<lparr>sa_device = Some ''/dev/mtd/mtd5'', sa_mount = ''/tmp/awtrix-release'',
     sa_result = None, sa_release = Some ''1.2.0'', sa_sha256 = Some (sha256_hex (sha256 example_image)), sa_offset = 0,
     sa_length = 160, sa_counter = 7, sa_reboot = True\<rparr>"
proof -
  have "parse_size ''160'' = Some 160" by (rule parse_size_text) (simp, code_simp)
  moreover have "parse_size ''7'' = Some 7" by (rule parse_size_text) (simp, code_simp)
  ultimately show ?thesis by (simp add: example_slot_args_def slot_option_def default_slot_args_def)
qed

lemma example_slot_checks:
  "write_slot_checks (example_host example_image) example_slot_host example_slot_args =
     Inr (\<lparr>sa_device = Some ''/dev/mtd/mtd5'', sa_mount = ''/tmp/awtrix-release'', sa_result = None, sa_release = Some ''1.2.0'',
       sa_sha256 = Some (sha256_hex (sha256 example_image)), sa_offset = 0, sa_length = 160, sa_counter = 7, sa_reboot = True\<rparr>,
       example_release, \<lparr>mh_nor = True, mh_writeable = True, mh_write_size = 1, mh_entry = example_entry, mh_size = 1024,
       mh_erase_size = 256\<rparr>, [])"
proof -
  let ?h = "example_host example_image"
  have hx: "parse_hex (Some (sha256_hex (sha256 example_image))) = Some (sha256 example_image)"
    by (rule parse_hex_roundtrip) simp
  have src: "source_holds ?h ''/tmp/image'' 0 160"
    by (simp add: source_holds_def example_host_def example_stat_def example_file_def u64_def)
  have res: "open_res ?h (Some ''/dev/mtd/mtd5'') True 160 = Inr \<lparr>mh_nor = True, mh_writeable = True, mh_write_size = 1,
      mh_entry = example_entry, mh_size = 1024, mh_erase_size = 256\<rparr>"
    by (simp add: open_res_def example_open res_refusal_def example_entry_def)
  have mt: "\<not> tc002_mounted (h_stat ?h) ''/tmp/awtrix-release''"
    by (simp add: tc002_mounted_def example_host_def example_stat_def example_file_def)
  have args: "example_slot_args = ''/tmp/image'' # tl example_slot_args" by (simp add: example_slot_args_def)
  show ?thesis
    by (subst args) (simp add: write_slot_checks_def example_slot_parsed slot_header_of_def hx src res mt
      example_release_def name_array_def Let_def ascii_def)
qed

theorem command_write_slot_sound_witness:
  "\<exists>rep w' (lay :: release_slot_layout). command_write_slot (example_host example_image) example_slot_host example_slot_args (example_res []) = (rep, w') \<and>
     r_status rep = 0 \<and> slot_answer 1024 256 True (chip w') = 0 \<and> take 160 (drop (lay_image lay) (chip w')) = example_image"
proof -
  let ?h = "example_host example_image"
  obtain frep w1 where fw: "slot_write sys_malloc (mtd_flash 1024 256) (range_source 0 (length example_image)) example_release
      (example_res []) = (0, frep, w1)" using example_slot_write by blast
  obtain rep w' where run: "command_write_slot ?h example_slot_host example_slot_args (example_res []) = (rep, w')" by fastforce
  have st: "r_status rep = 0" using run fw
    by (auto simp: command_write_slot_def example_slot_checks mh_device_def example_same_file example_image_length Let_def)
  have sz: "true_size ?h (hd example_slot_args)" using example_sizes [OF example_image_length] .
  note sound = command_write_slot_sound [OF run example_fits [OF example_chip(1)] sz]
  obtain a mtd and lay :: release_slot_layout where r: "slot_options (tl example_slot_args) default_slot_args = Some a"
    "open_res ?h (sa_device a) True 160 = Inr mtd"
    "slot_answer (unat (mh_size mtd)) (unat (mh_erase_size mtd)) True (chip w') = 0"
    "take (sa_length a) (drop (lay_image lay) (chip w')) = take (sa_length a) (drop (sa_offset a) (h_content ?h (hd example_slot_args)))"
    using sound [THEN conjunct2, THEN conjunct2, THEN conjunct2, rule_format, OF st] by (elim exE conjE) (rule that)
  have "h_content ?h path = example_image" for path by (simp add: example_host_def)
  moreover have "sa_device a = Some ''/dev/mtd/mtd5''" "sa_length a = 160" "sa_offset a = 0"
    using r(1) example_slot_parsed by auto
  moreover have "mh_size mtd = 1024 \<and> mh_erase_size mtd = 256"
    using r(2) calculation(2) by (auto simp: open_res_def example_open split: option.splits)
  ultimately show ?thesis using run st r(3,4) by (auto simp: example_image_length)
qed

text \<open>
  C34. The lock of an update never outlives its reason: the process that holds it lets go at the first look
  that comes after the time asked for or finds no token, at the latest, and never holds on past that time.
\<close>

theorem lock_is_released:
  assumes "k < length looks" and "looks ! k = (now, look)" and "end_time \<le> now \<or> isl (look_stat look)"
  shows "\<exists>m\<le>k. hold_lock end_time stale looks watch = Some m \<and> (\<forall>i<m. fst (looks ! i) < end_time)"
  using hold_lock_ends [OF assms(2,1,3)] hold_lock_before by blast

theorem lock_is_released_witness:
  "\<exists>m\<le>2. hold_lock 60 90 [(50, example_look 50), (55, example_look 55), (60, example_look 60)] fresh_watch = Some m"
  using lock_is_released [of 2 "[(50, example_look 50), (55, example_look 55), (60, example_look 60)]" 60 "example_look 60" 60 90
      fresh_watch] by auto

text \<open>
  Every string in the program's JSON output reads back: after the opening quote, a JSON reader finds
  exactly the string, whatever quotes, backslashes and control characters it holds, and what follows it.
\<close>

theorem json_string_reads_back: "json_read (tl (json_string s) @ rest) = Some (s, rest)"
  by (rule json_read_string)

text \<open>
  The digest argument and the digest output are inverse: parse_hex accepts exactly the 64 lower-case hex
  digits that sha256_hex prints for some 32 bytes, and gives these bytes.
\<close>

theorem parse_hex_iff: "parse_hex (Some s) = Some bs \<longleftrightarrow> length bs = 32 \<and> s = sha256_hex bs"
  using parse_hex_inverse .

text \<open>
  parse_size means to refuse negative numbers, but looks at the first character only: strtoull skips
  white space before the sign, so a space and -1 is the size 2 ^ 64 - 1.
\<close>

lemma parse_size_negative: "parse_size '' -1'' = Some 18446744073709551615 \<and> parse_size ''-1'' = None"
proof -
  have "is_space CHR '' ''" "\<not> is_space CHR ''-''" "is_digit 10 CHR ''1''" "digits_value 10 ''1'' = 1"
    by (simp_all add: is_space_def is_digit_def digits_value_def digit_value_def)
  then have "strtoul UINT64_MAX 10 '' -1'' = (UINT64_MAX, 3, False)"
    by (simp add: strtoul_def hex_prefix_def)
  then show ?thesis by (simp add: parse_size_def)
qed

end
