(* ===== verification/Boot_Files.thy ===== *)
theory Boot_Files
  imports C_Strings Deploy_Token
begin

text \<open>
  The loader's state files (\<^verbatim>\<open>loader/loader_state.c\<close>) on a file system that can fail and lose power:
  reading, storing and clearing the counter of boot attempts, appending to a log, making a directory.
  Each system call takes its end from a script; an empty script lets every call succeed. Beside the
  files that the running system sees, the world keeps for each path what may be found there after a
  power cut.
\<close>

section \<open>The file system\<close>

text \<open>How a system call ends: in full, after \<open>n\<close> bytes, or with an errno.\<close>

datatype call_end = Whole | Part nat | Error int

text \<open>After a power cut: anything, or one of the listed contents (None: no such file).\<close>

datatype survivor = Anything | One_Of "string option list"

record boot_fs =
  bf_files :: "string \<Rightarrow> string option"
  bf_disk :: "string \<Rightarrow> survivor"
  bf_dirs :: "string list"
  bf_script :: "call_end list"

type_synonym 'z fs = "'z boot_fs_scheme"

definition next_call :: "'z fs \<Rightarrow> call_end \<times> 'z fs" where
  "next_call w = (case bf_script w of [] \<Rightarrow> (Whole, w) | c # cs \<Rightarrow> (c, w\<lparr>bf_script := cs\<rparr>))"

text \<open>A call that only succeeds or fails: 0 or its errno.\<close>

definition sys_call :: "'z fs \<Rightarrow> int \<times> 'z fs" where
  "sys_call w = (case next_call w of (c, w) \<Rightarrow> (case c of Error e \<Rightarrow> e | _ \<Rightarrow> 0, w))"

text \<open>A call that is repeated on EINTR.\<close>

definition retried_call :: "'z fs \<Rightarrow> call_end \<times> 'z fs" where
  "retried_call w = next_call (w\<lparr>bf_script := dropWhile (\<lambda>c. c = Error EINTR) (bf_script w)\<rparr>)"

fun either_of :: "survivor \<Rightarrow> survivor \<Rightarrow> survivor" where
  "either_of (One_Of xs) (One_Of ys) = One_Of (xs @ ys)"
| "either_of _ _ = Anything"

fun if_present :: "survivor \<Rightarrow> survivor" where
  "if_present Anything = Anything"
| "if_present (One_Of xs) = One_Of (filter (\<lambda>x. x \<noteq> None) xs)"

definition sys_create :: "string \<Rightarrow> 'z fs \<Rightarrow> int \<times> 'z fs" where
  "sys_create p w = (case sys_call w of (e, w) \<Rightarrow>
     if e \<noteq> 0 then (e, w)
     else (0, w\<lparr>bf_files := (bf_files w)(p := Some []), bf_disk := (bf_disk w)(p := Anything)\<rparr>))"

definition sys_open_append :: "string \<Rightarrow> 'z fs \<Rightarrow> int \<times> 'z fs" where
  "sys_open_append p w = (case sys_call w of (e, w) \<Rightarrow>
     if e \<noteq> 0 then (e, w)
     else if bf_files w p \<noteq> None then (0, w)
     else (0, w\<lparr>bf_files := (bf_files w)(p := Some []), bf_disk := (bf_disk w)(p := Anything)\<rparr>))"

definition append_bytes :: "string \<Rightarrow> string \<Rightarrow> 'z fs \<Rightarrow> 'z fs" where
  "append_bytes p s w =
     w\<lparr>bf_files := (bf_files w)(p := Some (case bf_files w p of None \<Rightarrow> s | Some old \<Rightarrow> old @ s)),
       bf_disk := (bf_disk w)(p := Anything)\<rparr>"

lemma append_bytes_script [simp]: "bf_script (append_bytes p s w) = bf_script w"
  by (simp add: append_bytes_def)

definition sys_fsync :: "string \<Rightarrow> 'z fs \<Rightarrow> int \<times> 'z fs" where
  "sys_fsync p w = (case sys_call w of (e, w) \<Rightarrow>
     if e \<noteq> 0 then (e, w) else (0, w\<lparr>bf_disk := (bf_disk w)(p := One_Of [None, bf_files w p])\<rparr>))"

definition sys_rename :: "string \<Rightarrow> string \<Rightarrow> 'z fs \<Rightarrow> int \<times> 'z fs" where
  "sys_rename p q w = (case sys_call w of (e, w) \<Rightarrow>
     if e \<noteq> 0 then (e, w)
     else if bf_files w p = None then (ENOENT, w)
     else (0, w\<lparr>bf_files := (bf_files w)(q := bf_files w p, p := None),
            bf_disk := (bf_disk w)(q := either_of (bf_disk w q) (if_present (bf_disk w p)), p := Anything)\<rparr>))"

definition sys_unlink :: "string \<Rightarrow> 'z fs \<Rightarrow> int \<times> 'z fs" where
  "sys_unlink p w = (case sys_call w of (e, w) \<Rightarrow>
     if e \<noteq> 0 then (e, w)
     else if bf_files w p = None then (ENOENT, w)
     else (0, w\<lparr>bf_files := (bf_files w)(p := None), bf_disk := (bf_disk w)(p := either_of (bf_disk w p) (One_Of [None]))\<rparr>))"

text \<open>The size, or None for a directory.\<close>

definition sys_stat :: "string \<Rightarrow> 'z fs \<Rightarrow> (int + nat option) \<times> 'z fs" where
  "sys_stat p w = (case sys_call w of (e, w) \<Rightarrow>
     (if e \<noteq> 0 then Inl e
      else if p \<in> set (bf_dirs w) then Inr None
      else case bf_files w p of None \<Rightarrow> Inl ENOENT | Some s \<Rightarrow> Inr (Some (length s)), w))"

text \<open>The open and the fsync of the parent directory: its entries are on the disk after it.\<close>

definition sync_parent :: "string \<Rightarrow> 'z fs \<Rightarrow> int \<times> 'z fs" where
  "sync_parent p w = (case sys_call w of (e1, w) \<Rightarrow> case sys_call w of (e2, w) \<Rightarrow>
     let r = tc002_sync_parent (\<lambda>_. e1) (\<lambda>_. e2) p in
     if r \<noteq> 0 then (r, w)
     else (0, w\<lparr>bf_disk := (\<lambda>q. if dirname q = dirname p \<and> bf_disk w q \<noteq> Anything then One_Of [bf_files w q] else bf_disk w q)\<rparr>))"

section \<open>loader_state.c\<close>

function write_all :: "string \<Rightarrow> string \<Rightarrow> 'z fs \<Rightarrow> int \<times> 'z fs" where
  "write_all p s w =
     (if s = [] then (0, w)
      else case next_call w of (c, w') \<Rightarrow>
        case c of
          Error e \<Rightarrow> if e = EINTR then write_all p s w' else (- e, w')
        | Whole \<Rightarrow> (0, append_bytes p s w')
        | Part n \<Rightarrow> if n = 0 then (- EIO, w') else write_all p (drop n s) (append_bytes p (take n s) w'))"
  by pat_completeness auto
termination
proof (relation "measure (\<lambda>(p, s, w). length s + length (bf_script w))", goal_cases)
  case (2 p s w c w' e)
  then show ?case by (auto simp: next_call_def split: list.splits)
next
  case (3 p s w c w' n)
  then show ?case by (cases s) (auto simp: next_call_def split: list.splits)
qed simp

declare write_all.simps [simp del]

fun attempt_digits :: "string \<Rightarrow> int \<Rightarrow> nat \<Rightarrow> (int \<times> nat) option" where
  "attempt_digits [] val i = Some (val, i)"
| "attempt_digits (c # s) val i =
     (case digit_value 10 c of
        Some d \<Rightarrow> if 1000 < val then None else attempt_digits s (val * 10 + int d) (i + 1)
      | None \<Rightarrow> Some (val, i))"

definition loader_parse_attempts :: "string \<Rightarrow> int" where
  "loader_parse_attempts s =
     (if s = [] then - 1
      else case attempt_digits s 0 0 of None \<Rightarrow> - 1
        | Some (val, i) \<Rightarrow>
          if i = 0 \<or> 1000 < val then - 1
          else let i = (if i < length s \<and> s ! i = CHR 0x0A then i + 1 else i)
               in if i = length s then val else - 1)"

text \<open>The read takes at most 16 bytes; a short read is what the file then seems to hold.\<close>

definition loader_read_attempts :: "string \<Rightarrow> 'z fs \<Rightarrow> int \<times> 'z fs" where
  "loader_read_attempts p w = (case sys_call w of (e, w) \<Rightarrow>
     if e \<noteq> 0 then (if e = ENOENT then 0 else - 1, w)
     else case bf_files w p of None \<Rightarrow> (0, w)
       | Some content \<Rightarrow>
         case retried_call w of (c, w) \<Rightarrow>
           (case c of Error _ \<Rightarrow> - 1 | Whole \<Rightarrow> loader_parse_attempts (take 16 content)
             | Part n \<Rightarrow> loader_parse_attempts (take (min n 16) content), w))"

definition attempts_text :: "int \<Rightarrow> string" where
  "attempts_text n = print_int n @ [CHR 0x0A]"

definition loader_store_attempts :: "string \<Rightarrow> int \<Rightarrow> 'z fs \<Rightarrow> int \<times> 'z fs" where
  "loader_store_attempts p attempts w =
     (let temporary = p @ ''.new'' in
      if PATH_MAX \<le> length temporary then (- ENAMETOOLONG, w)
      else case sys_create temporary w of (e, w) \<Rightarrow>
      if e \<noteq> 0 then (- e, w)
      else case write_all temporary (attempts_text attempts) w of (result, w) \<Rightarrow>
      case (if result = 0 then apfst uminus (sys_fsync temporary w) else (result, w)) of (result, w) \<Rightarrow>
      case (if result = 0 then apfst uminus (sys_rename temporary p w) else (result, w)) of (result, w) \<Rightarrow>
      if result \<noteq> 0 then (result, snd (sys_unlink temporary w))
      else sync_parent p w)"

definition loader_clear_attempts :: "string \<Rightarrow> 'z fs \<Rightarrow> int \<times> 'z fs" where
  "loader_clear_attempts p w = (case sys_unlink p w of (e, w) \<Rightarrow>
     if e \<noteq> 0 then (if e = ENOENT then 0 else - e, w) else sync_parent p w)"

definition loader_append_log :: "string \<Rightarrow> string \<Rightarrow> nat \<Rightarrow> bool \<Rightarrow> 'z fs \<Rightarrow> int \<times> 'z fs" where
  "loader_append_log p s limit durable w =
     (case sys_stat p w of (info, w) \<Rightarrow>
      let existed = \<not> isl info;
          full = (case info of Inr sz \<Rightarrow> limit < (case sz of None \<Rightarrow> 4096 | Some n \<Rightarrow> n) + length s | Inl _ \<Rightarrow> False);
          previous = p @ ''.1'' in
      if full \<and> PATH_MAX \<le> length previous then (- ENAMETOOLONG, w)
      else case (if full then sys_rename p previous w else (0, w)) of (e, w) \<Rightarrow>
      if e \<noteq> 0 then (- e, w)
      else case sys_open_append p w of (e, w) \<Rightarrow>
      if e \<noteq> 0 then (- e, w)
      else case write_all p s w of (result, w) \<Rightarrow>
      case (if result = 0 \<and> durable then apfst uminus (sys_fsync p w) else (result, w)) of (result, w) \<Rightarrow>
      if result = 0 \<and> durable \<and> (full \<or> \<not> existed) then sync_parent p w else (result, w))"

definition loader_ensure_directory :: "string \<Rightarrow> 'z fs \<Rightarrow> int \<times> 'z fs" where
  "loader_ensure_directory p w = (case sys_call w of (e, w) \<Rightarrow>
     let e = (if e = 0 \<and> (p \<in> set (bf_dirs w) \<or> bf_files w p \<noteq> None) then EEXIST else e) in
     if e = 0 then sync_parent p (w\<lparr>bf_dirs := p # bf_dirs w\<rparr>)
     else if e \<noteq> EEXIST then (- e, w)
     else case sys_stat p w of (info, w) \<Rightarrow>
       (case info of Inl e \<Rightarrow> - e | Inr None \<Rightarrow> 0 | Inr (Some _) \<Rightarrow> - EEXIST, w))"

section \<open>What the calls leave alone\<close>

definition fs_ok :: "'z fs \<Rightarrow> bool" where
  "fs_ok w = (\<forall>c\<in>set (bf_script w). \<forall>e. c = Error e \<longrightarrow> 0 < e)"

text \<open>No file but those in \<open>P\<close> has changed, nor anything that extends the file system.\<close>

definition only_files :: "string set \<Rightarrow> 'z fs \<Rightarrow> 'z fs \<Rightarrow> bool" where
  "only_files P w w' \<longleftrightarrow> (\<forall>q. q \<notin> P \<longrightarrow> bf_files w' q = bf_files w q) \<and> boot_fs.more w' = boot_fs.more w \<and>
     (fs_ok w \<longrightarrow> fs_ok w') \<and> set (bf_script w') \<subseteq> set (bf_script w)"

text \<open>Nor the directories, nor what a power cut leaves of the other files.\<close>

definition only_paths :: "string set \<Rightarrow> 'z fs \<Rightarrow> 'z fs \<Rightarrow> bool" where
  "only_paths P w w' \<longleftrightarrow> only_files P w w' \<and> (\<forall>q. q \<notin> P \<longrightarrow> bf_disk w' q = bf_disk w q) \<and> bf_dirs w' = bf_dirs w"

lemmas only_defs = only_paths_def only_files_def

lemma only_paths_refl [simp]: "only_paths P w w"
  by (simp add: only_defs)

lemma only_paths_trans: "only_paths P w w' \<Longrightarrow> only_paths P w' w'' \<Longrightarrow> only_paths P w w''"
  unfolding only_defs by (intro conjI; elim conjE) (simp | blast)+

lemma only_paths_mono: "only_paths P w w' \<Longrightarrow> P \<subseteq> Q \<Longrightarrow> only_paths Q w w'"
  unfolding only_defs by blast

lemma next_call_same: "next_call w = (c, w') \<Longrightarrow> only_paths {} w w' \<and> (fs_ok w \<longrightarrow> (\<forall>e. c = Error e \<longrightarrow> 0 < e))"
  by (auto simp: next_call_def only_defs fs_ok_def split: list.splits)

lemma retried_call_same:
  assumes "retried_call w = (c, w')"
  shows "only_paths {} w w'"
proof -
  let ?w = "w\<lparr>bf_script := dropWhile (\<lambda>c. c = Error EINTR) (bf_script w)\<rparr>"
  have "only_paths {} w ?w" unfolding only_defs fs_ok_def by (auto dest!: set_dropWhileD)
  then show ?thesis using next_call_same assms only_paths_trans unfolding retried_call_def by blast
qed

lemma sys_call_same: "sys_call w = (e, w') \<Longrightarrow> only_paths {} w w' \<and> (fs_ok w \<longrightarrow> 0 \<le> e)"
  by (auto simp: sys_call_def dest: next_call_same split: prod.splits call_end.splits)

lemma append_bytes_same: "only_paths {p} w (append_bytes p s w)"
  by (simp add: append_bytes_def only_defs fs_ok_def)

lemma append_bytes_files: "bf_files w p = Some old \<Longrightarrow> bf_files (append_bytes p s w) p = Some (old @ s)"
  by (simp add: append_bytes_def)

lemma write_all_step:
  assumes "only_paths {} w w1" and "only_paths {p} (append_bytes p t w1) w'"
  shows "only_paths {p} w w'"
proof -
  have "only_paths {p} w w1" by (rule only_paths_mono [OF assms(1)]) simp
  then show ?thesis using append_bytes_same assms(2) only_paths_trans by blast
qed

lemma write_all_ok:
  assumes "write_all p s w = (r, w')"
  shows "only_paths {p} w w' \<and>
    (r = 0 \<and> fs_ok w \<longrightarrow> (\<forall>old. bf_files w p = Some old \<longrightarrow> bf_files w' p = Some (old @ s)))"
  using assms
proof (induction p s w arbitrary: r w' rule: write_all.induct)
  case (1 p s w)
  obtain c w1 where c: "next_call w = (c, w1)" by fastforce
  note same = next_call_same [OF c]
  have w1: "bf_files w1 p = bf_files w p" "fs_ok w \<longrightarrow> fs_ok w1" "only_paths {p} w w1"
    using same only_paths_mono [of "{}" w w1 "{p}"] by (auto simp: only_defs)
  show ?case
  proof (cases "s = []")
    case True
    then show ?thesis using "1.prems" by (simp add: write_all.simps)
  next
    case False
    show ?thesis
    proof (cases c)
      case Whole
      then have "w' = append_bytes p s w1" using "1.prems" False c by (simp add: write_all.simps)
      then show ?thesis using write_all_step [of w w1 p s w'] same append_bytes_files [of w1 p _ s] w1 by simp
    next
      case (Part n)
      show ?thesis
      proof (cases "n = 0")
        case True
        then show ?thesis using "1.prems" False c Part w1 by (auto simp: write_all.simps)
      next
        case n: False
        then have run: "write_all p (drop n s) (append_bytes p (take n s) w1) = (r, w')"
          using "1.prems" False c Part by (simp add: write_all.simps [of p s])
        note ih = "1.IH"(1) [OF False c [symmetric] Part n run]
        have "fs_ok w \<longrightarrow> fs_ok (append_bytes p (take n s) w1)" using w1(2) append_bytes_same [of p w1 "take n s"] unfolding only_defs by blast
        then show ?thesis
          using ih write_all_step [of w w1 p "take n s" w'] same append_bytes_files [of w1 p _ "take n s"] w1(1) by auto
      qed
    next
      case (Error e)
      show ?thesis
      proof (cases "e = EINTR")
        case True
        then have "write_all p s w1 = (r, w')" using "1.prems" False c Error by (simp add: write_all.simps [of p s w])
        from "1.IH"(2) [OF False c [symmetric] Error True this] show ?thesis
          using w1 only_paths_trans [of "{p}" w w1 w'] by auto
      next
        case n: False
        then have "(- e, w1) = (r, w')" using "1.prems" False c Error by (simp add: write_all.simps [of p s w])
        then show ?thesis using same w1 Error by auto
      qed
    qed
  qed
qed

section \<open>Storing the counter\<close>

lemma temporary_path [simp]: "p @ ''.new'' \<noteq> p" "p \<noteq> p @ ''.new''"
  by (metis append_self_conv list.distinct(1)) (metis append_self_conv list.distinct(1))

lemma only_pathsD: "only_paths P w w' \<Longrightarrow> q \<notin> P \<Longrightarrow> bf_files w' q = bf_files w q \<and> bf_disk w' q = bf_disk w q"
  unfolding only_defs by blast

lemma only_paths_fs_ok: "only_paths P w w' \<Longrightarrow> fs_ok w \<Longrightarrow> fs_ok w'"
  unfolding only_defs by blast

lemma sys_create_ok:
  assumes "sys_create p w = (e, w')"
  shows "only_paths {p} w w' \<and> (fs_ok w \<longrightarrow> 0 \<le> e) \<and> (e = 0 \<longrightarrow> bf_files w' p = Some [])"
proof -
  obtain e1 w1 where c: "sys_call w = (e1, w1)" by fastforce
  have "only_paths {p} w w1" "fs_ok w \<longrightarrow> 0 \<le> e1"
    using sys_call_same [OF c] only_paths_mono [of "{}" w w1 "{p}"] by auto
  then show ?thesis using assms c by (auto simp: sys_create_def only_defs fs_ok_def split: if_splits)
qed

lemma sys_fsync_ok:
  assumes "sys_fsync p w = (e, w')"
  shows "only_paths {p} w w' \<and> bf_files w' = bf_files w \<and> (fs_ok w \<longrightarrow> 0 \<le> e) \<and>
    (e = 0 \<longrightarrow> bf_disk w' p = One_Of [None, bf_files w p])"
proof -
  obtain e1 w1 where c: "sys_call w = (e1, w1)" by fastforce
  have "only_paths {p} w w1" "fs_ok w \<longrightarrow> 0 \<le> e1" "bf_files w1 = bf_files w"
    using sys_call_same [OF c] only_paths_mono [of "{}" w w1 "{p}"] by (auto simp: only_defs)
  then show ?thesis using assms c by (auto simp: sys_fsync_def only_defs fs_ok_def split: if_splits)
qed

lemma sys_unlink_ok:
  assumes "sys_unlink p w = (e, w')"
  shows "only_paths {p} w w' \<and> (fs_ok w \<longrightarrow> 0 \<le> e) \<and> (e = 0 \<longrightarrow> bf_files w' p = None)"
proof -
  obtain e1 w1 where c: "sys_call w = (e1, w1)" by fastforce
  have "only_paths {p} w w1" "fs_ok w \<longrightarrow> 0 \<le> e1"
    using sys_call_same [OF c] only_paths_mono [of "{}" w w1 "{p}"] by auto
  then show ?thesis using assms c by (auto simp: sys_unlink_def only_defs fs_ok_def split: if_splits)
qed

lemma sys_rename_ok:
  assumes "sys_rename p q w = (e, w')"
  shows "only_paths {p, q} w w' \<and> (fs_ok w \<longrightarrow> 0 \<le> e) \<and> (e \<noteq> 0 \<longrightarrow> only_paths {} w w') \<and>
    (e = 0 \<and> p \<noteq> q \<longrightarrow> bf_files w' q = bf_files w p \<and> bf_disk w' q = either_of (bf_disk w q) (if_present (bf_disk w p)))"
proof -
  obtain e1 w1 where c: "sys_call w = (e1, w1)" by fastforce
  have "only_paths {p, q} w w1" "fs_ok w \<longrightarrow> 0 \<le> e1" "bf_files w1 = bf_files w" "bf_disk w1 = bf_disk w" "only_paths {} w w1"
    using sys_call_same [OF c] only_paths_mono [of "{}" w w1 "{p, q}"] by (auto simp: only_defs)
  then show ?thesis using assms c by (auto simp: sys_rename_def only_defs fs_ok_def split: if_splits)
qed

lemma sync_parent_ok:
  assumes "sync_parent p w = (r, w')"
  shows "only_files {} w w' \<and> bf_files w' = bf_files w \<and> bf_dirs w' = bf_dirs w \<and> (fs_ok w \<longrightarrow> fs_ok w') \<and>
    (r \<noteq> 0 \<longrightarrow> bf_disk w' = bf_disk w) \<and> (r = 0 \<longrightarrow> bf_disk w p \<noteq> Anything \<longrightarrow> bf_disk w' p = One_Of [bf_files w p])"
proof -
  obtain e1 w1 where c: "sys_call w = (e1, w1)" by fastforce
  obtain e2 w2 where d: "sys_call w1 = (e2, w2)" by fastforce
  have "only_paths {} w w2" using sys_call_same [OF c] sys_call_same [OF d] only_paths_trans by blast
  then have "only_files {} w w2 \<and> bf_files w2 = bf_files w \<and> bf_disk w2 = bf_disk w \<and> bf_dirs w2 = bf_dirs w \<and> (fs_ok w \<longrightarrow> fs_ok w2)"
    by (auto simp: only_defs)
  then show ?thesis using assms c d by (auto simp: sync_parent_def Let_def fs_ok_def only_files_def split: if_splits)
qed

lemma apfst_uminus_eq: "apfst uminus (x :: int \<times> 'z) = (r, w) \<longleftrightarrow> x = (- r, w)"
  by (cases x) auto

text \<open>What store leaves at the path: for the running system, and after a power cut.\<close>

definition store_outcome :: "string \<Rightarrow> string \<Rightarrow> 'z fs \<Rightarrow> int \<Rightarrow> 'z fs \<Rightarrow> bool" where
  "store_outcome p text w r w' \<longleftrightarrow>
     only_files {p, p @ ''.new''} w w' \<and> bf_dirs w' = bf_dirs w \<and> fs_ok w' \<and>
     (bf_files w' p = bf_files w p \<or> bf_files w' p = Some text) \<and>
     (\<forall>cs. bf_disk w p = One_Of cs \<longrightarrow>
        (\<exists>cs'. bf_disk w' p = One_Of cs' \<and> set cs' \<subseteq> insert (Some text) (set cs))) \<and>
     (r = 0 \<longrightarrow> bf_files w' p = Some text \<and> (bf_disk w p \<noteq> Anything \<longrightarrow> bf_disk w' p = One_Of [Some text]))"

lemma store_outcome_failed:
  assumes "only_paths {p @ ''.new''} w w'" and "fs_ok w" and "r \<noteq> 0"
  shows "store_outcome p text w r w'"
  using only_pathsD [OF assms(1), of p] assms by (auto simp: store_outcome_def only_defs)

lemma store_outcome_synced:
  assumes sy: "sync_parent p v = (r, w')" and ok: "fs_ok v"
    and new: "bf_files v p = Some text" "bf_disk v p = either_of (bf_disk w p) (One_Of [Some text])"
    and other: "only_files {p, p @ ''.new''} w v" "bf_dirs v = bf_dirs w"
  shows "store_outcome p text w r w'"
proof -
  have files: "only_files {p, p @ ''.new''} w w'"
    using sync_parent_ok [OF sy] other(1) unfolding only_files_def by auto
  show ?thesis
proof (cases "bf_disk w p")
  case Anything
  then show ?thesis using sync_parent_ok [OF sy] ok new other(2) files by (simp add: store_outcome_def)
next
  case (One_Of cs)
  then have d: "bf_disk v p = One_Of (cs @ [Some text])" using new by simp
  have "bf_disk w' p = One_Of (cs @ [Some text]) \<or> bf_disk w' p = One_Of [Some text]"
    using sync_parent_ok [OF sy] d new(1) by (cases "r = 0") auto
  then have "\<exists>cs'. bf_disk w' p = One_Of cs' \<and> set cs' \<subseteq> insert (Some text) (set cs)" by auto
  then show ?thesis using sync_parent_ok [OF sy] ok new other(2) files One_Of d by (simp add: store_outcome_def)
qed
qed

lemma loader_store_attempts_outcome:
  assumes run: "loader_store_attempts p n w = (r, w')" and ok: "fs_ok w"
  shows "store_outcome p (attempts_text n) w r w'"
proof (cases "PATH_MAX \<le> length (p @ ''.new'')")
  case True
  then show ?thesis using run ok by (intro store_outcome_failed) (auto simp: loader_store_attempts_def Let_def)
next
  case short: False
  let ?t = "p @ ''.new''" and ?text = "attempts_text n"
  obtain e1 w1 where c: "sys_create ?t w = (e1, w1)" by fastforce
  note cr = sys_create_ok [OF c]
  have ok1: "fs_ok w1" using cr ok only_paths_fs_ok by blast
  show ?thesis
  proof (cases "e1 = 0")
    case False
    then show ?thesis using run ok cr short c by (intro store_outcome_failed) (auto simp: loader_store_attempts_def Let_def)
  next
    case e1: True
    obtain r2 w2 where wr: "write_all ?t ?text w1 = (r2, w2)" by fastforce
    note wo = write_all_ok [OF wr]
    have ok2: "fs_ok w2" using wo ok1 only_paths_fs_ok by blast
    have p2: "only_paths {?t} w w2" using cr wo only_paths_trans by blast
    obtain r3 w3 where fs: "(if r2 = 0 then apfst uminus (sys_fsync ?t w2) else (r2, w2)) = (r3, w3)" by fastforce
    have f3: "only_paths {?t} w w3" "fs_ok w3" "r3 = 0 \<longrightarrow> bf_files w3 ?t = Some ?text \<and> bf_disk w3 ?t = One_Of [None, Some ?text]"
      using fs sys_fsync_ok [of ?t w2 "- r3" w3] wo cr e1 ok1 p2 ok2 only_paths_trans [of "{?t}" w w2 w3]
        only_paths_fs_ok [of "{?t}" w2 w3]
      by (auto simp: apfst_uminus_eq split: if_splits)
    obtain r4 w4 where rn: "(if r3 = 0 then apfst uminus (sys_rename ?t p w3) else (r3, w3)) = (r4, w4)" by fastforce
    show ?thesis
    proof (cases "r4 = 0")
      case False
      have "only_paths {?t} w w4"
      proof (cases "r3 = 0")
        case True
        then have "sys_rename ?t p w3 = (- r4, w4)" using rn by (simp add: apfst_uminus_eq)
        then have "only_paths {} w3 w4" using sys_rename_ok False by fastforce
        then show ?thesis using f3(1) only_paths_trans only_paths_mono by blast
      next
        case False
        then show ?thesis using rn f3(1) by simp
      qed
      moreover have "w' = snd (sys_unlink ?t w4)" "r = r4"
        using run short c e1 wr fs rn False by (auto simp: loader_store_attempts_def Let_def)
      moreover have "only_paths {?t} w4 (snd (sys_unlink ?t w4))" using sys_unlink_ok [of ?t w4] by (metis prod.collapse)
      ultimately show ?thesis using ok False only_paths_trans by (intro store_outcome_failed) blast+
    next
      case r4: True
      then have "r3 = 0" using rn by (auto split: if_splits)
      then have "sys_rename ?t p w3 = (0, w4)" using rn r4 by (simp add: apfst_uminus_eq)
      note ro = sys_rename_ok [OF this]
      have sy: "sync_parent p w4 = (r, w')"
        using run short c e1 wr fs rn r4 by (simp add: loader_store_attempts_def Let_def)
      note so = sync_parent_ok [OF sy]
      have ok4: "fs_ok w4" using ro f3(2) only_paths_fs_ok by blast
      show ?thesis
      proof (rule store_outcome_synced [OF sy ok4])
        show "bf_files w4 p = Some ?text" using ro f3(3) \<open>r3 = 0\<close> by simp
        show "bf_disk w4 p = either_of (bf_disk w p) (One_Of [Some ?text])"
          using ro f3(3) \<open>r3 = 0\<close> only_pathsD [OF f3(1), of p] by simp
        show "only_files {p, ?t} w w4" "bf_dirs w4 = bf_dirs w"
          using ro f3(1) by (auto simp: only_defs)
      qed
    qed
  qed
qed

section \<open>Reading the counter\<close>

lemma attempt_digits_print:
  assumes "\<forall>c\<in>set ds. is_digit 10 c" and "val * 10 ^ length ds + int (digits_value 10 ds) \<le> 1000" and "0 \<le> val"
    and "rest = [] \<or> \<not> is_digit 10 (hd rest)"
  shows "attempt_digits (ds @ rest) val i = Some (val * 10 ^ length ds + int (digits_value 10 ds), i + length ds)"
  using assms
proof (induction ds arbitrary: val i)
  case Nil
  then show ?case by (cases rest) (auto simp: digits_value_def is_digit_def split: option.splits)
next
  case (Cons c ds)
  obtain d where d: "digit_value 10 c = Some d" using Cons.prems(1) by (auto simp: is_digit_def)
  have eq: "val * 10 ^ length (c # ds) + int (digits_value 10 (c # ds)) =
      (val * 10 + int d) * 10 ^ length ds + int (digits_value 10 ds)"
    using d by (simp add: digits_value_cons algebra_simps)
  have "val \<le> val * 10 ^ length (c # ds)" using Cons.prems(3) mult_left_mono [of 1 "10 ^ length (c # ds)" val] one_le_power [of "10 :: int" "length (c # ds)"]
    by (simp del: power_Suc length_Cons)
  then have "val \<le> 1000" using Cons.prems(2) by linarith
  then show ?case using Cons.IH [of "val * 10 + int d" "i + 1"] Cons.prems d eq by simp
qed

lemma attempts_roundtrip:
  assumes "0 \<le> n" and "n \<le> 1000"
  shows "loader_parse_attempts (attempts_text n) = n"
proof -
  let ?ds = "print_nat 10 (nat n)"
  have dig: "\<forall>c\<in>set ?ds. is_digit 10 c" using print_nat_digits [of 10] by simp
  have nl: "\<not> is_digit 10 CHR 0x0A" by (simp add: is_digit_def digit_value_def)
  have val: "int (digits_value 10 ?ds) = n" using assms by (simp add: digits_value_print)
  have "attempt_digits (?ds @ [CHR 0x0A]) 0 0 = Some (n, length ?ds)"
    using attempt_digits_print [OF dig, of 0 "[CHR 0x0A]" 0] nl val assms by simp
  moreover have "attempts_text n = ?ds @ [CHR 0x0A]" using assms by (simp add: attempts_text_def print_int_def)
  ultimately show ?thesis using assms by (simp add: loader_parse_attempts_def Let_def)
qed

lemma attempt_digits_range: "attempt_digits s val i = Some (v, j) \<Longrightarrow> 0 \<le> val \<Longrightarrow> 0 \<le> v"
  by (induction s val i rule: attempt_digits.induct) (auto split: option.splits if_splits)

lemma loader_parse_attempts_range: "loader_parse_attempts s \<in> {- 1 .. 1000}"
  using attempt_digits_range [of s 0 0] by (auto simp: loader_parse_attempts_def Let_def split: option.splits)

end
