(* ===== verification/Loader_Policy.thy ===== *)
theory Loader_Policy
  imports Prelude
begin

text \<open>
  What the loader starts (\<^verbatim>\<open>loader/loader_policy.c\<close>): the choice from the facts it found, and what the
  choice entails.
\<close>

abbreviation (input) LOADER_ATTEMPT_LIMIT :: int where "LOADER_ATTEMPT_LIMIT \<equiv> 3"

datatype loader_choice =
    LOADER_START_DAEMON
  | LOADER_VENDOR_UPGRADE
  | LOADER_VENDOR_KNOB
  | LOADER_VENDOR_THIS_BOOT
  | LOADER_HOLD_DEPLOY
  | LOADER_RESCUE_NO_RELEASE
  | LOADER_RESCUE_DAMAGED_RELEASE
  | LOADER_RESCUE_UNHEALTHY

datatype loader_release = LOADER_RELEASE_MISSING | LOADER_RELEASE_DAMAGED | LOADER_RELEASE_VALID

record loader_facts =
  lf_upgrade_pending :: bool
  lf_knob_held :: bool
  lf_vendor_this_boot :: bool
  lf_deploy_active :: bool
  lf_release :: loader_release
  lf_boot_attempts :: int

definition attempts_left :: "int \<Rightarrow> bool" where
  "attempts_left attempts \<longleftrightarrow> attempts \<ge> 0 \<and> attempts < LOADER_ATTEMPT_LIMIT"

definition loader_decide :: "loader_facts \<Rightarrow> loader_choice" where
  "loader_decide facts =
     (if lf_upgrade_pending facts then LOADER_VENDOR_UPGRADE
      else if lf_knob_held facts then LOADER_VENDOR_KNOB
      else if lf_vendor_this_boot facts then LOADER_VENDOR_THIS_BOOT
      else if lf_deploy_active facts then LOADER_HOLD_DEPLOY
      else if lf_release facts = LOADER_RELEASE_MISSING then LOADER_RESCUE_NO_RELEASE
      else if lf_release facts = LOADER_RELEASE_DAMAGED then LOADER_RESCUE_DAMAGED_RELEASE
      else if \<not> attempts_left (lf_boot_attempts facts) then LOADER_RESCUE_UNHEALTHY
      else LOADER_START_DAEMON)"

fun loader_choice_reason :: "loader_choice \<Rightarrow> string" where
  "loader_choice_reason LOADER_START_DAEMON = ''starting awtrix-tc002d''"
| "loader_choice_reason LOADER_VENDOR_UPGRADE = ''vendor update pending: vendor app runs the flasher''"
| "loader_choice_reason LOADER_VENDOR_KNOB = ''knob held at power-on: vendor app''"
| "loader_choice_reason LOADER_VENDOR_THIS_BOOT = ''vendor app already chosen in this boot''"
| "loader_choice_reason LOADER_HOLD_DEPLOY = ''USB deploy in progress: waiting for the installer''"
| "loader_choice_reason LOADER_RESCUE_NO_RELEASE = ''no AWTRIX release in res: rescue''"
| "loader_choice_reason LOADER_RESCUE_DAMAGED_RELEASE = ''the AWTRIX release in res is damaged: rescue''"
| "loader_choice_reason LOADER_RESCUE_UNHEALTHY = ''the last starts never became healthy: rescue''"

fun loader_release_name :: "loader_release \<Rightarrow> string" where
  "loader_release_name LOADER_RELEASE_MISSING = ''missing''"
| "loader_release_name LOADER_RELEASE_DAMAGED = ''damaged''"
| "loader_release_name LOADER_RELEASE_VALID = ''valid''"

definition loader_choice_resets_attempts :: "loader_choice \<Rightarrow> bool" where
  "loader_choice_resets_attempts choice \<longleftrightarrow> choice = LOADER_VENDOR_KNOB \<or> choice = LOADER_RESCUE_UNHEALTHY"

definition loader_choice_sticks_this_boot :: "loader_choice \<Rightarrow> bool" where
  "loader_choice_sticks_this_boot choice \<longleftrightarrow> choice = LOADER_VENDOR_KNOB"

definition loader_choice_rescues :: "loader_choice \<Rightarrow> bool" where
  "loader_choice_rescues choice \<longleftrightarrow> choice = LOADER_RESCUE_NO_RELEASE \<or>
     choice = LOADER_RESCUE_DAMAGED_RELEASE \<or> choice = LOADER_RESCUE_UNHEALTHY"

definition loader_combine_attempts :: "int \<Rightarrow> int \<Rightarrow> int" where
  "loader_combine_attempts durable this_boot =
     (if durable < 0 \<or> this_boot < 0 then - 1 else if durable > this_boot then durable else this_boot)"

text \<open>A string that may be null.\<close>

definition loader_upgrade_requested :: "string option \<Rightarrow> bool" where
  "loader_upgrade_requested flag = (case flag of None \<Rightarrow> False | Some s \<Rightarrow> s \<noteq> [] \<and> s \<noteq> ''0'')"

definition loader_upgrade_dir :: "string option \<Rightarrow> string option \<Rightarrow> string \<Rightarrow> string" where
  "loader_upgrade_dir sys_dir persist_dir default_dir =
     (case sys_dir of Some (c # s) \<Rightarrow> c # s
      | _ \<Rightarrow> (case persist_dir of Some (c # s) \<Rightarrow> c # s | _ \<Rightarrow> default_dir))"

section \<open>Facts\<close>

lemma loader_decide_start:
  "loader_decide f = LOADER_START_DAEMON \<longleftrightarrow>
     \<not> lf_upgrade_pending f \<and> \<not> lf_knob_held f \<and> \<not> lf_vendor_this_boot f \<and> \<not> lf_deploy_active f \<and>
     lf_release f = LOADER_RELEASE_VALID \<and> 0 \<le> lf_boot_attempts f \<and> lf_boot_attempts f < LOADER_ATTEMPT_LIMIT"
  by (cases "lf_release f") (auto simp: loader_decide_def attempts_left_def)

lemma loader_decide_hold:
  "loader_decide f = LOADER_HOLD_DEPLOY \<longleftrightarrow>
     \<not> lf_upgrade_pending f \<and> \<not> lf_knob_held f \<and> \<not> lf_vendor_this_boot f \<and> lf_deploy_active f"
  by (simp add: loader_decide_def)

lemma loader_decide_unhealthy:
  "loader_decide f = LOADER_RESCUE_UNHEALTHY \<longleftrightarrow>
     \<not> lf_upgrade_pending f \<and> \<not> lf_knob_held f \<and> \<not> lf_vendor_this_boot f \<and> \<not> lf_deploy_active f \<and>
     lf_release f = LOADER_RELEASE_VALID \<and> (lf_boot_attempts f < 0 \<or> LOADER_ATTEMPT_LIMIT \<le> lf_boot_attempts f)"
  by (cases "lf_release f") (auto simp: loader_decide_def attempts_left_def)

end
