(* ===== verification/Loader_System.thy ===== *)
theory Loader_System
  imports Boot_Files Loader_Policy Mtd_Open Slot_IO
begin

text \<open>
  What the loader does to the system around it (\<^verbatim>\<open>loader/loader.c\<close>, first half): its log and journal,
  the USB role, the knob, the Android properties, the marker files, the descriptors and signals that an
  exec leaves to the next program. The world \<open>loader_world\<close> extends the file system with what these
  operations change, the device nodes and loop devices among it; \<open>loader_host\<close> is what the kernel and the vendor's libraries answer. Every call that
  can fail takes its end from the script of the file system.
\<close>

section \<open>World and host\<close>

datatype loader_event =
    L_Latch bool
  | L_Frame bytes
  | L_Drop_Caches
  | L_Fork_Ticks
  | L_Kill_Ticks
  | L_Vendor_Init

text \<open>
  A device node with its major and minor number, and a bound loop device: the mtdblock behind it, where
  what it shows starts and how much that is (0: up to the end).
\<close>

datatype device_node = Char_Device nat nat | Block_Device nat nat

record loop_device =
  lo_backing :: nat
  lo_offset :: nat
  lo_sizelimit :: nat

record loader_world = boot_fs +
  lw_journal :: string
  lw_notes :: nat
  lw_props :: "string \<Rightarrow> string"
  lw_role :: string
  lw_last :: string
  lw_hold :: nat
  lw_lines :: nat
  lw_fds :: "nat \<Rightarrow> bool option"
  lw_ignored :: "nat list"
  lw_blocked :: "nat list"
  lw_flash :: mtd_world
  lw_nodes :: "string \<Rightarrow> device_node option"
  lw_loops :: "nat \<Rightarrow> loop_device option"
  lw_mounted :: "bytes option"
  lw_events :: "loader_event list"

record input_device =
  id_opens :: bool
  id_name :: "string option"
  id_supported :: "bytes option"
  id_pressed :: "bytes option"

text \<open>
  \<open>lh_stamp\<close> is the printed uptime and boot tag of each log line, \<open>lh_uptime\<close> the uptime of a line of the
  rescue marker, \<open>lh_ms\<close> the printf of a double,
  \<open>lh_runnable\<close> whether a mounted image holds an executable daemon, \<open>lh_workspace\<close> the descriptor of the
  Android property area, \<open>lh_gpio\<close> whether the latch is exported, \<open>lh_pipe\<close> the two descriptors that
  pipe() returns, \<open>lh_loop_number\<close> the free loop device that the kernel names and \<open>lh_mtdblock\<close> what the
  block devices of the other flash partitions hold.
\<close>

record loader_host =
  lh_stamp :: "nat \<Rightarrow> string"
  lh_uptime :: "nat \<Rightarrow> string"
  lh_strerror :: "int \<Rightarrow> string"
  lh_ms :: "rat \<Rightarrow> string"
  lh_age :: rat
  lh_input :: "(string \<times> input_device) list option"
  lh_get :: bool
  lh_get_fails :: "string \<Rightarrow> bool"
  lh_set :: bool
  lh_setprop_status :: nat
  lh_proc_open :: int
  lh_proc_mtd :: "(int + string) list"
  lh_loop_number :: nat
  lh_mtdblock :: "nat \<Rightarrow> bytes"
  lh_pipe :: "nat \<times> nat"
  lh_runnable :: "bytes \<Rightarrow> bool"
  lh_workspace :: int
  lh_gpio :: bool
  lh_token_left :: bool
  lh_vendor_init :: bool

abbreviation (input) LOADER_DATA_DIR :: string where "LOADER_DATA_DIR \<equiv> ''/data/awtrix-ng''"
abbreviation (input) LOADER_STATE_DIR :: string where "LOADER_STATE_DIR \<equiv> ''/data/awtrix-ng/state''"
abbreviation (input) LOADER_ATTEMPTS_FILE :: string where "LOADER_ATTEMPTS_FILE \<equiv> ''/data/awtrix-ng/state/boot-attempts''"
abbreviation (input) LOADER_DURABLE_LOG :: string where "LOADER_DURABLE_LOG \<equiv> ''/data/awtrix-ng/state/loader.log''"
abbreviation (input) LOADER_RUNTIME_ATTEMPTS_FILE :: string where "LOADER_RUNTIME_ATTEMPTS_FILE \<equiv> ''/tmp/awtrix-loader.attempts''"
abbreviation (input) LOADER_RUNTIME_LOG :: string where "LOADER_RUNTIME_LOG \<equiv> ''/tmp/awtrix-loader.log''"
abbreviation (input) LOADER_VENDOR_MARKER :: string where "LOADER_VENDOR_MARKER \<equiv> ''/tmp/awtrix-loader.vendor''"
abbreviation (input) LOADER_RESCUE_MARKER :: string where "LOADER_RESCUE_MARKER \<equiv> ''/tmp/awtrix-loader.rescue''"
abbreviation (input) LOADER_RELEASE_MOUNT :: string where "LOADER_RELEASE_MOUNT \<equiv> ''/tmp/awtrix-release''"
abbreviation (input) LOADER_RELEASE_DAEMON :: string where "LOADER_RELEASE_DAEMON \<equiv> ''/tmp/awtrix-release/bin/awtrix-tc002d''"
abbreviation (input) LOADER_USB_ROLE :: string where "LOADER_USB_ROLE \<equiv> ''/sys/bus/platform/devices/soc:usbotg/otg_role''"
abbreviation (input) LOADER_USB_DEVICE_ROLE :: string where "LOADER_USB_DEVICE_ROLE \<equiv> ''usb_device''"
abbreviation (input) ECHILD :: int where "ECHILD \<equiv> 10"
abbreviation (input) line_feed :: string where "line_feed \<equiv> [CHR 0x0A]"

definition log_event :: "loader_event \<Rightarrow> loader_world \<Rightarrow> loader_world" where
  "log_event e w = w\<lparr>lw_events := lw_events w @ [e]\<rparr>"

section \<open>Log and journal\<close>

definition log_note :: "loader_host \<Rightarrow> string \<Rightarrow> loader_world \<Rightarrow> loader_world" where
  "log_note h s w =
     (let stamp = lh_stamp h (lw_notes w);
          line = stamp @ take (510 - length stamp) s @ line_feed;
          w = snd (loader_append_log LOADER_RUNTIME_LOG line 16384 False (w\<lparr>lw_notes := lw_notes w + 1\<rparr>))
      in if length (lw_journal w) + length line < 2048 then w\<lparr>lw_journal := lw_journal w @ line\<rparr> else w)"

definition flush_journal :: "loader_world \<Rightarrow> loader_world" where
  "flush_journal w =
     (if lw_journal w = [] then w
      else case sys_stat LOADER_DATA_DIR w of (info, w) \<Rightarrow>
        if info \<noteq> Inr None then w
        else case loader_ensure_directory LOADER_STATE_DIR w of (e, w) \<Rightarrow>
          let w = (if e = 0 then snd (loader_append_log LOADER_DURABLE_LOG (lw_journal w) 8192 True w) else w)
          in w\<lparr>lw_journal := []\<rparr>)"

section \<open>The USB role\<close>

definition trim_end :: "string \<Rightarrow> string" where
  "trim_end s = rev (dropWhile is_space (rev s))"

definition read_usb_role :: "nat \<Rightarrow> loader_world \<Rightarrow> (int + string) \<times> loader_world" where
  "read_usb_role sz w = (case sys_call w of (e, w) \<Rightarrow>
     if e \<noteq> 0 then (Inl (- e), w)
     else case retried_call w of (c, w) \<Rightarrow>
       (case c of Error e \<Rightarrow> Inl (- e) | Whole \<Rightarrow> Inr (trim_end (take (sz - 1) (lw_role w)))
         | Part n \<Rightarrow> Inr (trim_end (take (min n (sz - 1)) (lw_role w))), w))"

definition write_usb_role :: "string \<Rightarrow> loader_world \<Rightarrow> int \<times> loader_world" where
  "write_usb_role role w = (case sys_call w of (e, w) \<Rightarrow>
     if e \<noteq> 0 then (- e, w)
     else case retried_call w of (c, w) \<Rightarrow>
       (case c of Error e \<Rightarrow> (- e, w) | Whole \<Rightarrow> (0, w\<lparr>lw_role := role\<rparr>)
         | Part n \<Rightarrow> if length role \<le> n then (0, w\<lparr>lw_role := role\<rparr>) else (- EIO, w)))"

definition usb_role_is_definite_other :: "string \<Rightarrow> bool" where
  "usb_role_is_definite_other role \<longleftrightarrow> role = ''usb_host'' \<or> role = ''usb_null''"

definition select_usb_device :: "loader_host \<Rightarrow> loader_world \<Rightarrow> loader_world" where
  "select_usb_device h w =
     (case read_usb_role 32 w of (x, w) \<Rightarrow>
        case x of
          Inl unread \<Rightarrow> log_note h (''cannot read '' @ LOADER_USB_ROLE @ '': '' @ lh_strerror h (- unread)) w
        | Inr role \<Rightarrow>
          if \<not> usb_role_is_definite_other role then log_note h (''USB role '' @ role @ '': left as it is'') w
          else case write_usb_role LOADER_USB_DEVICE_ROLE w of (unwritten, w) \<Rightarrow>
            case read_usb_role 32 w of (y, w) \<Rightarrow>
              log_note h (''USB role '' @ role @ '': '' @ (if unwritten \<noteq> 0 then ''cannot select'' else ''selected'') @ '' '' @
                LOADER_USB_DEVICE_ROLE @ (if unwritten \<noteq> 0 then '': '' @ lh_strerror h (- unwritten) else []) @ '', now '' @
                (case y of Inl _ \<Rightarrow> ''unreadable'' | Inr role \<Rightarrow> role)) w)"

definition append_rescue_marker :: "loader_host \<Rightarrow> string \<Rightarrow> loader_world \<Rightarrow> loader_world" where
  "append_rescue_marker h line w = (case sys_open_append LOADER_RESCUE_MARKER w of (e, w) \<Rightarrow>
     if e \<noteq> 0 then w
     else case next_call w of (c, w) \<Rightarrow>
       case c of
         Error e \<Rightarrow> log_note h (''cannot append to '' @ LOADER_RESCUE_MARKER @ '': '' @ lh_strerror h e) w
       | Whole \<Rightarrow> append_bytes LOADER_RESCUE_MARKER line w
       | Part n \<Rightarrow> append_bytes LOADER_RESCUE_MARKER (take n line) w)"

definition keep_usb_device :: "loader_host \<Rightarrow> bool \<Rightarrow> loader_world \<Rightarrow> loader_world" where
  "keep_usb_device h into_rescue_marker w =
     (case read_usb_role 32 w of (x, w) \<Rightarrow>
      let role = (case x of Inl _ \<Rightarrow> [] | Inr role \<Rightarrow> role);
          hold = lw_hold w - 1;
          other = usb_role_is_definite_other role \<and> hold = 0;
          w = w\<lparr>lw_hold := (if other then 5 else hold)\<rparr> in
      case (if other then write_usb_role LOADER_USB_DEVICE_ROLE w else (0, w)) of (e, w) \<Rightarrow>
      let did = (if \<not> other then [] else if e \<noteq> 0 then '', cannot select '' @ LOADER_USB_DEVICE_ROLE
                 else '', selected '' @ LOADER_USB_DEVICE_ROLE) in
      if \<not> into_rescue_marker
      then (if did \<noteq> [] then log_note h (''otg_role '' @ role @ did) w else w)
      else if role = lw_last w \<and> did = [] then w
      else let w = w\<lparr>lw_last := take 31 role, lw_lines := lw_lines w + 1\<rparr> in
        if 64 < lw_lines w then w
        else append_rescue_marker h (take 127 (lh_uptime h (lw_notes w) @ ''otg_role '' @
               (if role \<noteq> [] then role else ''unreadable'') @ did @ line_feed)) w)"

section \<open>The knob\<close>

definition has_bit :: "bytes \<Rightarrow> nat \<Rightarrow> bool" where
  "has_bit bits i \<longleftrightarrow> i div 8 < length bits \<and> bit (bits ! (i div 8)) (i mod 8)"

abbreviation (input) KNOB_PUSH_KEY :: nat where "KNOB_PUSH_KEY \<equiv> 103"

fun knob_scan :: "(string \<times> input_device) list \<Rightarrow> int" where
  "knob_scan [] = - 1"
| "knob_scan ((name, dev) # entries) =
     (if take 5 name \<noteq> ''event'' \<or> \<not> id_opens dev then knob_scan entries
      else case id_name dev of None \<Rightarrow> knob_scan entries
        | Some dev_name \<Rightarrow>
          if take 63 dev_name \<noteq> ''soc:gpio_keys_1'' then knob_scan entries
          else case id_supported dev of None \<Rightarrow> knob_scan entries
            | Some supported \<Rightarrow>
              if \<not> has_bit supported KNOB_PUSH_KEY then knob_scan entries
              else case id_pressed dev of None \<Rightarrow> knob_scan entries
                | Some pressed \<Rightarrow> if has_bit pressed KNOB_PUSH_KEY then 1 else 0)"

definition knob_state :: "loader_host \<Rightarrow> int" where
  "knob_state h = (case lh_input h of None \<Rightarrow> - 1 | Some entries \<Rightarrow> knob_scan entries)"

section \<open>Properties\<close>

text \<open>The result, and the value, which is stored whatever the result.\<close>

definition property_get :: "loader_host \<Rightarrow> string \<Rightarrow> loader_world \<Rightarrow> int \<times> string" where
  "property_get h name w =
     (if \<not> lh_get h then (- 1, [])
      else (if lh_get_fails h name then - 1 else 0, take 91 (lw_props w name)))"

text \<open>The child process: fork, then waitpid repeated on EINTR; ECHILD when the parent ignores SIGCHLD.\<close>

definition run_setprop :: "loader_host \<Rightarrow> string \<Rightarrow> string \<Rightarrow> loader_world \<Rightarrow> int \<times> loader_world" where
  "run_setprop h name val w = (case sys_call w of (e, w) \<Rightarrow>
     if e \<noteq> 0 then (- 1, w)
     else case retried_call w of (c, w) \<Rightarrow>
       let w = (if lh_setprop_status h = 0 then w\<lparr>lw_props := (lw_props w)(name := val)\<rparr> else w) in
       (case c of Error e \<Rightarrow> if e = ECHILD then 1 else - 1 | _ \<Rightarrow> if lh_setprop_status h = 0 then 0 else - 1, w))"

definition property_set :: "loader_host \<Rightarrow> string \<Rightarrow> string \<Rightarrow> loader_world \<Rightarrow> int \<times> loader_world" where
  "property_set h name val w =
     (case (if lh_set h
            then case sys_call w of (e, w) \<Rightarrow>
              if e = 0 then (0, w\<lparr>lw_props := (lw_props w)(name := val)\<rparr>) else (- 1, w)
            else run_setprop h name val w) of (result, w) \<Rightarrow>
      case property_get h name w of (unread, check) \<Rightarrow>
        (if unread = 0 then (if check \<noteq> val then - 1 else 0) else result, w))"

definition announce_running :: "loader_host \<Rightarrow> loader_world \<Rightarrow> loader_world" where
  "announce_running h w = (case property_set h ''sys.zkapp.state'' ''running'' w of (e, w) \<Rightarrow>
     if e \<noteq> 0 then log_note h ''could not set sys.zkapp.state=running'' w else w)"

definition regular_file :: "string \<Rightarrow> loader_world \<Rightarrow> bool \<times> loader_world" where
  "regular_file p w = (case sys_stat p w of (info, w) \<Rightarrow> (case info of Inr (Some _) \<Rightarrow> True | _ \<Rightarrow> False, w))"

text \<open>The path of the update, or None.\<close>

definition upgrade_pending :: "loader_host \<Rightarrow> loader_world \<Rightarrow> string option \<times> loader_world" where
  "upgrade_pending h w =
     (case property_get h ''sys.zkupgrade.flag'' w of (e, flag) \<Rightarrow>
      if e \<noteq> 0 \<or> \<not> loader_upgrade_requested (Some flag) then (None, w)
      else let directory = loader_upgrade_dir (Some (snd (property_get h ''sys.zkupgrade.dir'' w)))
                 (Some (snd (property_get h ''persist.zkupgrade.dir'' w))) ''/mnt/storage'';
               first = directory @ ''/update.img''; second = directory @ ''/zkimg/update.img'' in
        case regular_file first w of (found, w) \<Rightarrow>
        if found then (Some first, w)
        else case regular_file second w of (found, w) \<Rightarrow> (if found then Some second else None, w))"

section \<open>Markers, descriptors, signals\<close>

definition write_marker :: "loader_host \<Rightarrow> string \<Rightarrow> string \<Rightarrow> loader_world \<Rightarrow> loader_world" where
  "write_marker h p reason w = (case sys_create p w of (e, w) \<Rightarrow>
     if e \<noteq> 0 then log_note h (''cannot create '' @ p @ '': '' @ lh_strerror h e) w
     else let line = take 383 (reason @ line_feed) in
       case next_call w of (c, w) \<Rightarrow>
         case c of
           Error e \<Rightarrow> log_note h (''cannot write '' @ p @ '': '' @ lh_strerror h e) w
         | Whole \<Rightarrow> append_bytes p line w
         | Part n \<Rightarrow> append_bytes p (take n line) w)"

text \<open>A closed standard descriptor becomes /dev/null.\<close>

definition fill_descriptor :: "nat \<Rightarrow> loader_world \<Rightarrow> loader_world" where
  "fill_descriptor fd w =
     (if lw_fds w fd \<noteq> None then w
      else case sys_call w of (e, w) \<Rightarrow> if e \<noteq> 0 then w else w\<lparr>lw_fds := (lw_fds w)(fd := Some False)\<rparr>)"

definition mark_descriptors :: "(nat \<Rightarrow> bool) \<Rightarrow> int \<Rightarrow> loader_world \<Rightarrow> loader_world" where
  "mark_descriptors listed inherit w =
     w\<lparr>lw_fds := (\<lambda>fd. case lw_fds w fd of None \<Rightarrow> None
         | Some cloexec \<Rightarrow> Some (if listed fd then int fd \<noteq> inherit else cloexec))\<rparr>"

definition prepare_descriptors :: "int \<Rightarrow> loader_world \<Rightarrow> loader_world" where
  "prepare_descriptors inherit w =
     (case sys_call (fill_descriptor 2 (fill_descriptor 1 (fill_descriptor 0 w))) of (e, w) \<Rightarrow>
      mark_descriptors (\<lambda>fd. 3 \<le> fd \<and> (e = 0 \<or> fd < 1024)) inherit w)"

abbreviation (input) NSIG :: nat where "NSIG \<equiv> 65"

text \<open>The signals that were ignored and those that were blocked.\<close>

definition default_signals :: "loader_world \<Rightarrow> (nat list \<times> nat list) \<times> loader_world" where
  "default_signals w =
     (let ignored = filter (\<lambda>s. s \<in> set (lw_ignored w)) [1..<NSIG]
      in ((ignored, lw_blocked w), w\<lparr>lw_ignored := filter (\<lambda>s. s \<notin> set ignored) (lw_ignored w), lw_blocked := []\<rparr>))"

definition reinstate_signals :: "nat list \<times> nat list \<Rightarrow> loader_world \<Rightarrow> loader_world" where
  "reinstate_signals saved w =
     w\<lparr>lw_ignored := filter (\<lambda>s. s \<in> set (fst saved)) [1..<NSIG] @ lw_ignored w, lw_blocked := snd saved\<rparr>"

definition let_vendor_startup_settle :: "loader_host \<Rightarrow> loader_world \<Rightarrow> loader_world" where
  "let_vendor_startup_settle h w =
     (if lh_age h < 0 \<or> 1 / 2 \<le> lh_age h then w
      else log_note h (''waiting '' @ lh_ms h ((1 / 2 - lh_age h) * 1000) @ '' ms for zkgui'' @ [CHR 0x27] @ ''s watchdog-stop thread'') w)"

end
