(* ===== verification/Rescue_Panel.thy ===== *)
theory Rescue_Panel
  imports Loader_System
begin

text \<open>
  The rescue message on the LED panel (\<^verbatim>\<open>loader/rescue_panel.c\<close>, \<^verbatim>\<open>contract/terminal_glyphs.h\<close>): the 3x5
  font, the frame buffer, and the transfer between two edges of the latch.
\<close>

abbreviation (input) PANEL_WIDTH :: int where "PANEL_WIDTH \<equiv> 52"
abbreviation (input) PANEL_ROW_BYTES :: int where "PANEL_ROW_BYTES \<equiv> 192"
abbreviation (input) PANEL_FRAME_BYTES :: nat where "PANEL_FRAME_BYTES \<equiv> 3072"

definition tc002_terminal_glyphs :: "(char \<times> nat list) list" where
  "tc002_terminal_glyphs =
    [(CHR ''0'', [7, 5, 5, 5, 7]), (CHR ''1'', [2, 6, 2, 2, 7]), (CHR ''2'', [6, 1, 2, 4, 7]),
     (CHR ''3'', [6, 1, 2, 1, 6]), (CHR ''4'', [5, 5, 7, 1, 1]), (CHR ''5'', [7, 4, 6, 1, 6]),
     (CHR ''6'', [3, 4, 7, 5, 7]), (CHR ''7'', [7, 1, 2, 2, 2]), (CHR ''8'', [7, 5, 7, 5, 7]),
     (CHR ''9'', [7, 5, 7, 1, 6]), (CHR ''A'', [2, 5, 7, 5, 5]), (CHR ''B'', [6, 5, 6, 5, 6]),
     (CHR ''C'', [3, 4, 4, 4, 3]), (CHR ''D'', [6, 5, 5, 5, 6]), (CHR ''E'', [7, 4, 6, 4, 7]),
     (CHR ''F'', [7, 4, 6, 4, 4]), (CHR ''G'', [3, 4, 5, 5, 3]), (CHR ''H'', [5, 5, 7, 5, 5]),
     (CHR ''I'', [7, 2, 2, 2, 7]), (CHR ''K'', [5, 5, 6, 5, 5]), (CHR ''L'', [4, 4, 4, 4, 7]),
     (CHR ''M'', [5, 7, 7, 5, 5]), (CHR ''N'', [6, 5, 5, 5, 5]), (CHR ''O'', [2, 5, 5, 5, 2]),
     (CHR ''P'', [6, 5, 6, 4, 4]), (CHR ''R'', [6, 5, 6, 5, 5]), (CHR ''S'', [3, 4, 2, 1, 6]),
     (CHR ''T'', [7, 2, 2, 2, 2]), (CHR ''U'', [5, 5, 5, 5, 7]), (CHR ''V'', [5, 5, 5, 5, 2]),
     (CHR ''W'', [5, 5, 5, 7, 5]), (CHR ''X'', [5, 5, 2, 5, 5]), (CHR ''Y'', [5, 5, 2, 2, 2]),
     (CHR ''Z'', [7, 1, 2, 4, 7]), (CHR ''%'', [5, 1, 2, 4, 5]), (CHR ''.'', [0, 0, 0, 0, 2]),
     (CHR ''>'', [4, 2, 1, 2, 4]), (CHR '':'', [0, 2, 0, 2, 0]), (CHR ''-'', [0, 0, 7, 0, 0]),
     (CHR ''/'', [1, 1, 2, 4, 4]), (CHR 0x7C, [2, 2, 2, 2, 2]), (CHR 0x5C, [4, 4, 2, 1, 1])]"

definition tc002_glyph_rows :: "char \<Rightarrow> nat list option" where
  "tc002_glyph_rows ch =
     (let n = (of_char ch :: nat); ch = (if 97 \<le> n \<and> n \<le> 122 then char_of (n - 97 + 65) else ch)
      in map_of tc002_terminal_glyphs ch)"

definition amber :: bytes where
  "amber = [180, 100, 0]"

text \<open>The address that memcpy is given; an address outside the frame would be out of bounds.\<close>

definition pixel_address :: "int \<Rightarrow> int \<Rightarrow> int" where
  "pixel_address x y = y * PANEL_ROW_BYTES + x * 3"

definition put_pixel :: "int \<Rightarrow> int \<Rightarrow> bytes \<Rightarrow> bytes option" where
  "put_pixel x y frame =
     (let a = pixel_address x y
      in if 0 \<le> a \<and> nat a + 3 \<le> length frame then Some (patch frame (nat a) amber) else None)"

text \<open>The pixels of a glyph, row by row.\<close>

definition glyph_pixels :: "nat list \<Rightarrow> int \<Rightarrow> int \<Rightarrow> (int \<times> int) list" where
  "glyph_pixels rows x y =
     concat (map (\<lambda>row. map (\<lambda>column. (x + int column, y + int row))
       (filter (\<lambda>column. bit (rows ! row) (2 - column)) [0..<3])) [0..<5])"

fun put_pixels :: "(int \<times> int) list \<Rightarrow> bytes \<Rightarrow> bytes option" where
  "put_pixels [] frame = Some frame"
| "put_pixels ((x, y) # ps) frame = (case put_pixel x y frame of None \<Rightarrow> None | Some frame \<Rightarrow> put_pixels ps frame)"

fun draw_chars :: "string \<Rightarrow> int \<Rightarrow> int \<Rightarrow> bytes \<Rightarrow> bytes option" where
  "draw_chars [] x y frame = Some frame"
| "draw_chars (c # s) x y frame =
     (case tc002_glyph_rows c of
        None \<Rightarrow> draw_chars s (x + 4) y frame
      | Some rows \<Rightarrow>
          (case put_pixels (glyph_pixels rows x y) frame of None \<Rightarrow> None | Some frame \<Rightarrow> draw_chars s (x + 4) y frame))"

text \<open>C divides towards zero. None: a write outside the frame.\<close>

definition draw_line :: "string \<Rightarrow> int \<Rightarrow> bytes \<Rightarrow> bytes option" where
  "draw_line s y frame =
     (let space = PANEL_WIDTH - (int (length s) * 4 - 1); x = (if 0 \<le> space then space div 2 else - ((- space) div 2))
      in draw_chars s x y frame)"

text \<open>The text to write to a sysfs file; 0 or the errno (EIO stands for a short write).\<close>

definition write_sysfs :: "loader_world \<Rightarrow> int \<times> loader_world" where
  "write_sysfs w = (case sys_call w of (e, w) \<Rightarrow>
     if e \<noteq> 0 then (e, w)
     else case next_call w of (c, w) \<Rightarrow> (case c of Whole \<Rightarrow> 0 | Part _ \<Rightarrow> EIO | Error e \<Rightarrow> e, w))"

definition latch :: "bool \<Rightarrow> loader_world \<Rightarrow> int \<times> loader_world" where
  "latch high w = (case write_sysfs w of (e, w) \<Rightarrow> (e, if e = 0 then log_event (L_Latch high) w else w))"

definition panel_fail :: "loader_host \<Rightarrow> string \<Rightarrow> int \<Rightarrow> string" where
  "panel_fail h what e = snprintf 160 (what @ '': '' @ lh_strerror h e)"

definition transfer_frame :: "loader_host \<Rightarrow> bytes \<Rightarrow> loader_world \<Rightarrow> string option \<times> loader_world" where
  "transfer_frame h frame w = (case latch False w of (e, w) \<Rightarrow>
     if e \<noteq> 0 then (Some (panel_fail h ''cannot lower the panel latch'' e), w)
     else case next_call w of (c, w) \<Rightarrow>
       let w = (case c of Whole \<Rightarrow> log_event (L_Frame frame) w | Part n \<Rightarrow> log_event (L_Frame (take n frame)) w | Error _ \<Rightarrow> w) in
       case latch True w of (e, w) \<Rightarrow>
         (if e \<noteq> 0 \<or> c \<noteq> Whole
          then Some (panel_fail h ''cannot send the rescue frame'' (case c of Error e \<Rightarrow> e | _ \<Rightarrow> EIO)) else None, w))"

definition rescue_frame :: "bytes option" where
  "rescue_frame = (case draw_line ''USB'' 3 (replicate PANEL_FRAME_BYTES 0) of None \<Rightarrow> None
     | Some frame \<Rightarrow> draw_line ''RECOVERY'' 9 frame)"

definition sys_calls :: "nat \<Rightarrow> loader_world \<Rightarrow> int \<times> loader_world" where
  "sys_calls n w = ((\<lambda>(e, w). if e \<noteq> 0 then (e, w) else sys_call w) ^^ n) (0, w)"

text \<open>None: shown; else the step that failed.\<close>

definition rescue_panel_show :: "loader_host \<Rightarrow> loader_world \<Rightarrow> string option \<times> loader_world" where
  "rescue_panel_show h w =
     (case (if lh_gpio h then (0, w) else write_sysfs w) of (e, w) \<Rightarrow>
      if e \<noteq> 0 \<and> e \<noteq> EBUSY then (Some (panel_fail h ''cannot export the panel latch'' e), w)
      else case latch True w of (e, w) \<Rightarrow>
      if e \<noteq> 0 then (Some (panel_fail h ''cannot raise the panel latch'' e), w)
      else case sys_call w of (e, w) \<Rightarrow>
      if e \<noteq> 0 then (Some (panel_fail h ''cannot open the panel SPI'' e), w)
      else case sys_calls 4 w of (e, w) \<Rightarrow>
      if e \<noteq> 0 then (Some (panel_fail h ''cannot configure the panel SPI'' e), w)
      else case rescue_frame of None \<Rightarrow> (Some ''out of bounds'', w)
      | Some frame \<Rightarrow>
        case transfer_frame h frame w of (why, w) \<Rightarrow>
        if why \<noteq> None then (why, w) else transfer_frame h frame w)"

section \<open>The message fits the panel\<close>

lemma put_pixel_inside:
  assumes "0 \<le> x" and "x < PANEL_WIDTH" and "0 \<le> y" and "y < 16" and "length frame = PANEL_FRAME_BYTES"
  shows "\<exists>f. put_pixel x y frame = Some f \<and> length f = PANEL_FRAME_BYTES"
proof -
  have "0 \<le> pixel_address x y" "pixel_address x y + 3 \<le> 3072" using assms by (auto simp: pixel_address_def)
  then show ?thesis using assms(5) by (auto simp: put_pixel_def Let_def amber_def patch_def)
qed

lemma put_pixels_inside:
  assumes "\<forall>(x, y)\<in>set ps. 0 \<le> x \<and> x < PANEL_WIDTH \<and> 0 \<le> y \<and> y < 16" and "length frame = PANEL_FRAME_BYTES"
  shows "\<exists>f. put_pixels ps frame = Some f \<and> length f = PANEL_FRAME_BYTES"
  using assms
proof (induction ps arbitrary: frame)
  case (Cons p ps)
  obtain x y where p: "p = (x, y)" by (cases p) auto
  then obtain f where "put_pixel x y frame = Some f" "length f = PANEL_FRAME_BYTES"
    using put_pixel_inside [of x y frame] Cons.prems by auto
  then show ?case using Cons.IH [of f] Cons.prems p by auto
qed simp

lemma glyph_pixels_box: "(a, b) \<in> set (glyph_pixels rows x y) \<Longrightarrow> x \<le> a \<and> a < x + 3 \<and> y \<le> b \<and> b < y + 5"
  by (auto simp: glyph_pixels_def)

lemma draw_chars_inside:
  assumes "0 \<le> x" and "x + int (length s) * 4 \<le> PANEL_WIDTH + 1" and "0 \<le> y" and "y + 5 \<le> 16"
    and "length frame = PANEL_FRAME_BYTES"
  shows "\<exists>f. draw_chars s x y frame = Some f \<and> length f = PANEL_FRAME_BYTES"
  using assms
proof (induction s arbitrary: x frame)
  case (Cons c s)
  show ?case
  proof (cases "tc002_glyph_rows c")
    case None
    then show ?thesis using Cons.IH [of "x + 4" frame] Cons.prems by simp
  next
    case (Some rows)
    have "\<forall>(a, b)\<in>set (glyph_pixels rows x y). 0 \<le> a \<and> a < PANEL_WIDTH \<and> 0 \<le> b \<and> b < 16"
      using glyph_pixels_box [of _ _ rows x y] Cons.prems by fastforce
    then obtain f where "put_pixels (glyph_pixels rows x y) frame = Some f" "length f = PANEL_FRAME_BYTES"
      using put_pixels_inside Cons.prems(5) by blast
    then show ?thesis using Cons.IH [of "x + 4" f] Cons.prems Some by simp
  qed
qed simp

lemma draw_line_inside:
  assumes "length s \<le> 13" and "0 \<le> y" and "y + 5 \<le> 16" and "length frame = PANEL_FRAME_BYTES"
  shows "\<exists>f. draw_line s y frame = Some f \<and> length f = PANEL_FRAME_BYTES"
proof -
  let ?space = "PANEL_WIDTH - (int (length s) * 4 - 1)"
  have "0 \<le> ?space" "0 \<le> ?space div 2" "?space div 2 + int (length s) * 4 \<le> PANEL_WIDTH + 1"
    using assms(1) by linarith+
  then show ?thesis unfolding draw_line_def Let_def using draw_chars_inside [of "?space div 2" s y frame] assms by simp
qed

lemma rescue_frame_drawn: "\<exists>f. rescue_frame = Some f \<and> length f = PANEL_FRAME_BYTES"
proof -
  obtain f where "draw_line ''USB'' 3 (replicate PANEL_FRAME_BYTES 0) = Some f" "length f = PANEL_FRAME_BYTES"
    using draw_line_inside [of "''USB''" 3 "replicate PANEL_FRAME_BYTES 0"] by auto
  then show ?thesis using draw_line_inside [of "''RECOVERY''" 9 f] by (auto simp: rescue_frame_def)
qed

end
