(* ===== verification/Loader.thy ===== *)
theory Loader
  imports Rescue_Panel
begin

text \<open>
  The loader (\<^verbatim>\<open>loader/loader.c\<close>, second half): it inspects the release slot, decides, counts the start,
  mounts the release and executes its daemon - or goes to the vendor's app, waits for a deploy, or shows
  the rescue message. What does not return is the \<open>loader_end\<close> it ends in.
\<close>

section \<open>The release\<close>

record release =
  rl_state :: loader_release
  rl_index :: nat
  rl_layout :: release_slot_layout
  rl_header :: release_slot_header
  rl_problem :: string

definition zero_release :: release where
  "zero_release = \<lparr>rl_state = LOADER_RELEASE_MISSING, rl_index = 0,
     rl_layout = \<lparr>lay_header = 0, lay_image = 0, lay_capacity = 0\<rparr>,
     rl_header = \<lparr>hdr_image_bytes = 0, hdr_counter = 0, hdr_image_sha256 = replicate 32 0, hdr_release = replicate 65 0\<rparr>,
     rl_problem = []\<rparr>"

text \<open>As much of the file as the buffer and the reads give.\<close>

definition read_small_file :: "int \<Rightarrow> (int + string) list \<Rightarrow> nat \<Rightarrow> int + string" where
  "read_small_file open_error reads sz = (if open_error \<noteq> 0 then Inl (- open_error) else Inr (read_text sz [] reads))"

text \<open>The device of inspect_release: erase and write are null and never called.\<close>

definition read_descriptor :: "nat \<Rightarrow> nat \<Rightarrow> mtd_world \<Rightarrow> int \<times> bytes \<times> mtd_world" where
  "read_descriptor off n w = fd_read_exact chip off n w"

definition res_device :: "mtd_entry \<Rightarrow> mtd_world flash_device" where
  "res_device entry = \<lparr>dev_size = entry_size entry, dev_erase_size = entry_erase_size entry,
     dev_erase = (\<lambda>_ _ w. (- EINVAL, w)), dev_read = read_descriptor, dev_write = (\<lambda>_ _ w. (- EINVAL, w))\<rparr>"

definition slot_problem :: "loader_host \<Rightarrow> int \<Rightarrow> string" where
  "slot_problem h result = snprintf 128
     (if result = - EBADMSG then ''the image differs from its header''
      else if result = - ENOENT then ''no release header''
      else if result = - ENOSPC then ''res leaves no release slot''
      else if result = - EINVAL then ''res does not start with a squashfs''
      else lh_strerror h (- result))"

definition res_partition :: "loader_host \<Rightarrow> int + mtd_entry" where
  "res_partition h = (case read_small_file (lh_proc_open h) (lh_proc_mtd h) 4096 of Inl e \<Rightarrow> Inl e
     | Inr table \<Rightarrow> mtd_table_find_name table ''res'')"

definition inspect_release :: "loader_host \<Rightarrow> loader_world \<Rightarrow> release \<times> loader_world" where
  "inspect_release h w =
     (case res_partition h of
        Inl _ \<Rightarrow> (zero_release\<lparr>rl_problem := ''no res partition in /proc/mtd''\<rparr>, w)
      | Inr entry \<Rightarrow>
        let found = zero_release\<lparr>rl_index := entry_index entry\<rparr> in
        case sys_call w of (e, w) \<Rightarrow>
        if e \<noteq> 0
        then (found\<lparr>rl_problem := snprintf 128 (''cannot open mtd'' @ print_nat 10 (entry_index entry) @ ''ro: '' @ lh_strerror h e)\<rparr>, w)
        else case slot_read sys_malloc (res_device entry) True (lw_flash w) of (result, lay, hdr, flash) \<Rightarrow>
          (found\<lparr>rl_layout := (case lay of Some l \<Rightarrow> l | None \<Rightarrow> rl_layout found),
             rl_header := (case hdr of Some x \<Rightarrow> x | None \<Rightarrow> rl_header found),
             rl_state := (if result = 0 then LOADER_RELEASE_VALID
                else if result = - EBADMSG then LOADER_RELEASE_DAMAGED else LOADER_RELEASE_MISSING),
             rl_problem := (if result = 0 then [] else slot_problem h result)\<rparr>,
           w\<lparr>lw_flash := flash\<rparr>))"

section \<open>The counter of starts\<close>

definition read_attempts :: "loader_world \<Rightarrow> int \<times> loader_world" where
  "read_attempts w = (case loader_read_attempts LOADER_ATTEMPTS_FILE w of (durable, w) \<Rightarrow>
     case loader_read_attempts LOADER_RUNTIME_ATTEMPTS_FILE w of (this_boot, w) \<Rightarrow>
       (loader_combine_attempts durable this_boot, w))"

definition clear_attempts :: "loader_world \<Rightarrow> loader_world" where
  "clear_attempts w = snd (loader_clear_attempts LOADER_RUNTIME_ATTEMPTS_FILE (snd (loader_clear_attempts LOADER_ATTEMPTS_FILE w)))"

definition record_attempt :: "loader_host \<Rightarrow> int \<Rightarrow> loader_world \<Rightarrow> int \<times> loader_world" where
  "record_attempt h attempt w =
     (case loader_ensure_directory LOADER_STATE_DIR w of (ensured, w) \<Rightarrow>
      case (if ensured \<noteq> 0 then (ensured, w) else loader_store_attempts LOADER_ATTEMPTS_FILE attempt w) of (stored, w) \<Rightarrow>
      if stored = 0 then (0, snd (loader_clear_attempts LOADER_RUNTIME_ATTEMPTS_FILE w))
      else let w = log_note h (''cannot record the start attempt in '' @ LOADER_ATTEMPTS_FILE @ '': '' @ lh_strerror h (- stored)) w in
      case loader_store_attempts LOADER_RUNTIME_ATTEMPTS_FILE attempt w of (kept, w) \<Rightarrow>
      if kept \<noteq> 0
      then (kept, log_note h (''cannot count the start attempt in '' @ LOADER_RUNTIME_ATTEMPTS_FILE @ '' either: '' @
             lh_strerror h (- kept)) w)
      else (0, log_note h (''counting starts until the next boot in '' @ LOADER_RUNTIME_ATTEMPTS_FILE) w))"

section \<open>Where the loader ends\<close>

datatype loader_end =
    Exec_Daemon "string list"
  | Exec_Idle_Shell
  | Idle_In_Process
  | Vendor_App
  | Still_Holding

definition opened_pipe :: "nat \<times> nat \<Rightarrow> loader_world \<Rightarrow> loader_world" where
  "opened_pipe channel w = w\<lparr>lw_fds := (lw_fds w)(fst channel \<mapsto> False, snd channel \<mapsto> False)\<rparr>"

text \<open>The pipe, its read end as standard input, the timer process and the exec of the idle shell; else the loader idles itself.\<close>

definition idle_offline :: "loader_host \<Rightarrow> loader_world \<Rightarrow> loader_end \<times> loader_world" where
  "idle_offline h w =
     (case sys_call w of (e, w) \<Rightarrow>
      let w = (if e \<noteq> 0 then w else opened_pipe (lh_pipe h) w) in
      case (if e \<noteq> 0 then (e, w) else sys_call w) of (e, w) \<Rightarrow>
      if e \<noteq> 0
      then (Idle_In_Process, flush_journal (log_note h (''cannot exec /bin/sh without a pipe: '' @ lh_strerror h e @ ''; idling inside zkgui'') w))
      else case sys_call (w\<lparr>lw_fds := (lw_fds w)(0 \<mapsto> False)\<rparr>) of (no_ticks, w) \<Rightarrow>
      let w = (if no_ticks \<noteq> 0 then log_note h (''cannot fork the USB check timer: '' @ lh_strerror h no_ticks) w
               else log_event L_Fork_Ticks w) in
      case default_signals (prepare_descriptors (int (snd (lh_pipe h))) w) of (saved, w) \<Rightarrow>
      case sys_call w of (e, w) \<Rightarrow>
      if e = 0 then (Exec_Idle_Shell, w)
      else let w = reinstate_signals saved w;
               w = (if no_ticks = 0 then log_event L_Kill_Ticks w else w);
               w = log_note h (''cannot exec /bin/sh: '' @ lh_strerror h e @ ''; idling inside zkgui'') w
           in (Idle_In_Process, flush_journal w))"

definition enter_rescue :: "loader_host \<Rightarrow> string \<Rightarrow> loader_world \<Rightarrow> loader_end \<times> loader_world" where
  "enter_rescue h reason w =
     (let w = let_vendor_startup_settle h (write_marker h LOADER_RESCUE_MARKER reason (announce_running h w)) in
      case rescue_panel_show h w of (why, w) \<Rightarrow>
      let w = (case why of Some why \<Rightarrow> log_note h (''cannot show the rescue message: '' @ why) w
                | None \<Rightarrow> log_note h ''the panel shows USB RECOVERY'' w);
          w = log_note h ''rescue: zkgui idles without the vendor app or its network; repair over USB ADB'' w
      in idle_offline h (flush_journal w))"

section \<open>Mounting the release\<close>

definition load_loop_module :: "loader_host \<Rightarrow> loader_world \<Rightarrow> string option \<times> loader_world" where
  "load_loop_module h w = (case sys_call w of (e, w) \<Rightarrow>
     if e \<noteq> 0 then (Some (''cannot open /res/awtrix-ng/loop.ko: '' @ lh_strerror h e), w)
     else case sys_call w of (e, w) \<Rightarrow>
       (if e \<noteq> 0 \<and> e \<noteq> EEXIST then Some (''cannot load /res/awtrix-ng/loop.ko: '' @ lh_strerror h e) else None, w))"

definition loader_drop_page_cache :: "loader_host \<Rightarrow> loader_world \<Rightarrow> loader_world" where
  "loader_drop_page_cache h w = (case write_sysfs w of (e, w) \<Rightarrow>
     if e \<noteq> 0 then log_note h (''cannot drop the page cache: '' @ lh_strerror h e) w else log_event L_Drop_Caches w)"

text \<open>unlink, mknod, open: the device that the node leads to.\<close>

definition unlink_node :: "string \<Rightarrow> loader_world \<Rightarrow> loader_world" where
  "unlink_node p w = (case sys_call w of (e, w) \<Rightarrow> if e \<noteq> 0 then w else w\<lparr>lw_nodes := (lw_nodes w)(p := None)\<rparr>)"

definition open_node :: "string \<Rightarrow> device_node \<Rightarrow> loader_world \<Rightarrow> (int + device_node) \<times> loader_world" where
  "open_node p device w =
     (case sys_call (unlink_node p w) of (e, w) \<Rightarrow>
      let e = (if e = 0 \<and> lw_nodes w p \<noteq> None then EEXIST else e) in
      if e \<noteq> 0 then (Inl e, w)
      else let w = w\<lparr>lw_nodes := (lw_nodes w)(p \<mapsto> device)\<rparr> in
      case sys_call w of (e, w) \<Rightarrow> (if e \<noteq> 0 then Inl e else Inr device, w))"

text \<open>The loop device that a node stands for, and the ioctls on it.\<close>

abbreviation (input) LOOP_MAJOR :: nat where "LOOP_MAJOR \<equiv> 7"
abbreviation (input) ENOTTY :: int where "ENOTTY \<equiv> 25"
abbreviation (input) ENXIO :: int where "ENXIO \<equiv> 6"

definition loop_number :: "device_node \<Rightarrow> nat option" where
  "loop_number device = (case device of Char_Device _ _ \<Rightarrow> None
     | Block_Device major minor \<Rightarrow> if major = LOOP_MAJOR then Some minor else None)"

definition loop_set_fd :: "device_node \<Rightarrow> nat \<Rightarrow> loader_world \<Rightarrow> int \<times> loader_world" where
  "loop_set_fd device backing w = (case sys_call w of (e, w) \<Rightarrow>
     if e \<noteq> 0 then (e, w)
     else case loop_number device of None \<Rightarrow> (ENOTTY, w)
       | Some n \<Rightarrow> (0, w\<lparr>lw_loops := (lw_loops w)(n \<mapsto> \<lparr>lo_backing = backing, lo_offset = 0, lo_sizelimit = 0\<rparr>)\<rparr>))"

definition loop_set_status :: "device_node \<Rightarrow> nat \<Rightarrow> nat \<Rightarrow> loader_world \<Rightarrow> int \<times> loader_world" where
  "loop_set_status device offset limit w = (case sys_call w of (e, w) \<Rightarrow>
     if e \<noteq> 0 then (e, w)
     else case loop_number device of None \<Rightarrow> (ENOTTY, w)
       | Some n \<Rightarrow> (case lw_loops w n of None \<Rightarrow> (ENXIO, w)
         | Some lo \<Rightarrow> (0, w\<lparr>lw_loops := (lw_loops w)(n \<mapsto> lo\<lparr>lo_offset := offset, lo_sizelimit := limit\<rparr>)\<rparr>)))"

definition loop_clr_fd :: "device_node \<Rightarrow> loader_world \<Rightarrow> loader_world" where
  "loop_clr_fd device w = (case sys_call w of (e, w) \<Rightarrow>
     if e \<noteq> 0 then w
     else case loop_number device of None \<Rightarrow> w | Some n \<Rightarrow> w\<lparr>lw_loops := (lw_loops w)(n := None)\<rparr>)"

definition loop_node :: "nat \<Rightarrow> string" where
  "loop_node number = ''/tmp/awtrix-loop'' @ print_nat 10 number"

text \<open>The node and the open loop device.\<close>

definition attach_loop :: "loader_host \<Rightarrow> release \<Rightarrow> loader_world \<Rightarrow> (string + string \<times> device_node) \<times> loader_world" where
  "attach_loop h rel w =
     (let control_path = ''/tmp/awtrix-loop-control'' in
      case sys_call w of (e, w) \<Rightarrow>
      case (if e \<noteq> 0 then open_node control_path (Char_Device 10 237) w else (Inr (Char_Device 10 237), w)) of (control, w) \<Rightarrow>
      let w = unlink_node control_path w in
      case control of Inl e \<Rightarrow> (Inl (''no loop control device: '' @ lh_strerror h e), w)
      | Inr _ \<Rightarrow>
      case sys_call w of (e, w) \<Rightarrow>
      if e \<noteq> 0 then (Inl (''no free loop device: '' @ lh_strerror h e), w)
      else let number = lh_loop_number h; node = loop_node number in
      case open_node node (Block_Device LOOP_MAJOR number) w of (opened, w) \<Rightarrow>
      case opened of Inl e \<Rightarrow> (Inl (''cannot open loop device '' @ print_nat 10 number @ '': '' @ lh_strerror h e), w)
      | Inr device \<Rightarrow>
      case sys_call w of (e, w) \<Rightarrow>
      if e \<noteq> 0 then (Inl (''cannot open mtdblock'' @ print_nat 10 (rl_index rel) @ '': '' @ lh_strerror h e), w)
      else case loop_set_fd device (rl_index rel) w of (attached, w) \<Rightarrow>
      if attached \<noteq> 0 then (Inl (''cannot attach the release image: '' @ lh_strerror h attached), w)
      else case loop_set_status device (lay_image (rl_layout rel)) (hdr_image_bytes (rl_header rel)) w of (status, w) \<Rightarrow>
      if status \<noteq> 0
      then (Inl (''cannot attach the release image: '' @ lh_strerror h status), loop_clr_fd device w)
      else case sys_call w of (direct, w) \<Rightarrow>
        (Inr (node, device), if direct \<noteq> 0
           then loader_drop_page_cache h (log_note h (''no direct I/O for the release image ('' @ lh_strerror h direct @
                  ''): dropping the page cache'') w) else w))"

text \<open>What a block device shows: a flash partition, and the loop device that a node stands for.\<close>

definition mtd_block :: "loader_host \<Rightarrow> loader_world \<Rightarrow> nat \<Rightarrow> bytes" where
  "mtd_block h w n = (case res_partition h of Inl _ \<Rightarrow> lh_mtdblock h n
     | Inr entry \<Rightarrow> if n = entry_index entry then chip (lw_flash w) else lh_mtdblock h n)"

definition loop_shows :: "loader_host \<Rightarrow> string \<Rightarrow> loader_world \<Rightarrow> bytes option" where
  "loop_shows h node w =
     (case lw_nodes w node of None \<Rightarrow> None
      | Some device \<Rightarrow> case loop_number device of None \<Rightarrow> None
      | Some n \<Rightarrow> case lw_loops w n of None \<Rightarrow> None
      | Some lo \<Rightarrow> let from_offset = drop (lo_offset lo) (mtd_block h w (lo_backing lo))
                  in Some (if lo_sizelimit lo = 0 then from_offset else take (lo_sizelimit lo) from_offset))"

definition sys_mount :: "loader_host \<Rightarrow> string \<Rightarrow> loader_world \<Rightarrow> int \<times> loader_world" where
  "sys_mount h node w = (case sys_call w of (e, w) \<Rightarrow>
     if e \<noteq> 0 then (e, w)
     else case loop_shows h node w of None \<Rightarrow> (ENXIO, w) | Some shown \<Rightarrow> (0, w\<lparr>lw_mounted := Some shown\<rparr>))"

definition mount_release :: "loader_host \<Rightarrow> release \<Rightarrow> loader_world \<Rightarrow> string option \<times> loader_world" where
  "mount_release h rel w =
     (case load_loop_module h w of (why, w) \<Rightarrow>
      if why \<noteq> None then (why, w)
      else case sys_call w of (_, w) \<Rightarrow>
      case (if lw_mounted w \<noteq> None then sys_call w else (0, w)) of (e, w) \<Rightarrow>
      let w = (if lw_mounted w = None then w
               else if e \<noteq> 0 then log_note h (''cannot detach the release mounted before: '' @ lh_strerror h e) w
               else w\<lparr>lw_mounted := None\<rparr>) in
      case attach_loop h rel w of (loop, w) \<Rightarrow>
      case loop of Inl why \<Rightarrow> (Some why, w)
      | Inr (node, device) \<Rightarrow>
        case sys_mount h node w of (result, w) \<Rightarrow>
        let w = unlink_node node (if result \<noteq> 0 then loop_clr_fd device w else w)
        in (if result \<noteq> 0 then Some (''cannot mount the release image: '' @ lh_strerror h result) else None, w))"

section \<open>Starting the daemon\<close>

definition daemon_arguments :: "string list" where
  "daemon_arguments = [LOADER_RELEASE_DAEMON, ''--root'', LOADER_RELEASE_MOUNT, ''--data'', LOADER_DATA_DIR, ''--boot'']"

definition daemon_runnable :: "loader_host \<Rightarrow> loader_world \<Rightarrow> bool" where
  "daemon_runnable h w = (case lw_mounted w of None \<Rightarrow> False | Some mounted \<Rightarrow> lh_runnable h mounted)"

definition exec_daemon :: "loader_host \<Rightarrow> release \<Rightarrow> int \<Rightarrow> loader_world \<Rightarrow> loader_end \<times> loader_world" where
  "exec_daemon h rel attempt w =
     (let w = let_vendor_startup_settle h w;
          w = log_note h (''exec '' @ LOADER_RELEASE_DAEMON @ '' of release '' @
                map (\<lambda>b. char_of (unat b)) (cstr (hdr_release (rl_header rel))) @ '' (start '' @ print_int attempt @ '' of 3)'') w in
      case default_signals (prepare_descriptors (lh_workspace h) (flush_journal w)) of (saved, w) \<Rightarrow>
      case sys_call w of (e, w) \<Rightarrow>
      if e = 0 then (Exec_Daemon daemon_arguments, w)
      else let reason = snprintf 320 (''exec failed ('' @ lh_strerror h e @ ''): rescue'')
           in enter_rescue h reason (log_note h reason (reinstate_signals saved w)))"

definition start_daemon :: "loader_host \<Rightarrow> release \<Rightarrow> int \<Rightarrow> loader_world \<Rightarrow> loader_end \<times> loader_world" where
  "start_daemon h rel attempts w =
     (let attempt = attempts + 1 in
      case record_attempt h attempt (announce_running h w) of (uncounted, w) \<Rightarrow>
      if uncounted \<noteq> 0 then enter_rescue h ''cannot count the start attempt: rescue'' w
      else case mount_release h rel w of (why, w) \<Rightarrow>
      case why of
        Some why \<Rightarrow> let reason = snprintf 320 (snprintf 256 why @ '': the AWTRIX release cannot be mounted: rescue'')
                    in enter_rescue h reason (log_note h reason w)
      | None \<Rightarrow>
        if \<not> daemon_runnable h w
        then let problem = LOADER_RELEASE_DAEMON @ '' is missing or not executable: the AWTRIX release is not runnable: rescue''
             in enter_rescue h problem (log_note h problem w)
        else exec_daemon h rel attempt w)"

section \<open>Waiting for a deploy\<close>

text \<open>Each turn: the look at the token and the two readings of the monotonic clock.\<close>

fun hold_loop ::
  "loader_host \<Rightarrow> rat \<Rightarrow> rat \<Rightarrow> (token_look \<times> rat \<times> rat) list \<Rightarrow> deploy_token_watch \<Rightarrow> loader_world \<Rightarrow>
   (bool \<times> deploy_token_watch \<times> loader_world) option" where
  "hold_loop h end_time usb_at [] watch w = None"
| "hold_loop h end_time usb_at ((look, t1, t2) # looks) watch w =
     (case deploy_token_file_active True (of_nat AWTRIX_DEPLOY_TOKEN_STALE_SECONDS) look watch of (active, watch) \<Rightarrow>
      if active \<and> t1 < end_time
      then if usb_at \<le> t2 then hold_loop h end_time (t2 + 2) looks watch (keep_usb_device h False w)
           else hold_loop h end_time usb_at looks watch w
      else Some (active, watch, w))"

definition hold_for_deploy ::
  "loader_host \<Rightarrow> rat \<Rightarrow> (token_look \<times> rat \<times> rat) list \<Rightarrow> deploy_token_watch \<Rightarrow> loader_world \<Rightarrow>
   (deploy_token_watch \<times> loader_world) option" where
  "hold_for_deploy h start looks watch w =
     (case hold_loop h (start + of_nat AWTRIX_DEPLOY_HOLD_SECONDS) 0 looks watch (flush_journal (announce_running h w)) of
        None \<Rightarrow> None
      | Some (active, watch, w) \<Rightarrow>
          Some (watch, log_note h ((if active then ''USB deploy hold reached its time limit''
            else if lh_token_left h then ''deploy token went stale'' else ''deploy token removed'') @ '': deciding again'') w))"

section \<open>The vendor's app\<close>

definition start_vendor :: "loader_host \<Rightarrow> loader_world \<Rightarrow> loader_end \<times> loader_world" where
  "start_vendor h w = (case sys_call w of (e, w) \<Rightarrow>
     if e \<noteq> 0
     then enter_rescue h ''vendor app cannot be loaded: rescue''
       (log_note h (''cannot load /res/lib/libzkgui.so: '' @ lh_strerror h e @ ''; vendor app cannot be loaded: rescue'') w)
     else let w = flush_journal (log_note h ''vendor app loaded from /res/lib/libzkgui.so'' (announce_running h w))
          in (Vendor_App, if lh_vendor_init h then log_event L_Vendor_Init w else w))"

section \<open>Deciding\<close>

definition inspect :: "loader_host \<Rightarrow> loader_facts \<Rightarrow> release \<Rightarrow> loader_world \<Rightarrow>
    loader_facts \<times> release \<times> string \<times> loader_world" where
  "inspect h facts rel w =
     (case upgrade_pending h w of (update, w) \<Rightarrow>
      case sys_call w of (e, w) \<Rightarrow>
      let facts = facts\<lparr>lf_upgrade_pending := update \<noteq> None,
            lf_vendor_this_boot := (e = 0 \<and> bf_files w LOADER_VENDOR_MARKER \<noteq> None),
            lf_release := LOADER_RELEASE_MISSING, lf_boot_attempts := 0\<rparr>;
          path = (case update of Some p \<Rightarrow> p | None \<Rightarrow> []) in
      if lf_upgrade_pending facts \<or> lf_knob_held facts \<or> lf_vendor_this_boot facts \<or> lf_deploy_active facts
      then (facts, rel, path, w)
      else case inspect_release h w of (rel, w) \<Rightarrow>
        case read_attempts w of (attempts, w) \<Rightarrow>
          (facts\<lparr>lf_release := rl_state rel, lf_boot_attempts := attempts\<rparr>, rel, path, w))"

text \<open>The choice and why.\<close>

definition decide :: "loader_host \<Rightarrow> int \<Rightarrow> loader_facts \<Rightarrow> release \<Rightarrow> string \<Rightarrow> loader_world \<Rightarrow>
    loader_choice \<times> string \<times> loader_world" where
  "decide h knob facts rel update w =
     (let choice = loader_decide facts;
          why = snprintf 320 (if loader_choice_rescues choice \<and> rl_problem rel \<noteq> []
            then rl_problem rel @ ''; '' @ loader_choice_reason choice else loader_choice_reason choice);
          valid = lf_release facts = LOADER_RELEASE_VALID
      in (choice, why, log_note h
           (''knob='' @ (if knob < 0 then ''no-device'' else if knob = 0 then ''released'' else ''held'') @
            '' update='' @ (if lf_upgrade_pending facts then update else ''none'') @
            '' release='' @ loader_release_name (lf_release facts) @
            (if valid then '' '' @ map (\<lambda>b. char_of (unat b)) (cstr (hdr_release (rl_header rel))) else []) @
            '' attempts='' @ print_int (lf_boot_attempts facts) @ '': '' @ why) w))"

text \<open>What the choice leads to.\<close>

definition act :: "loader_host \<Rightarrow> loader_choice \<Rightarrow> string \<Rightarrow> loader_facts \<Rightarrow> release \<Rightarrow> loader_world \<Rightarrow>
    loader_end \<times> loader_world" where
  "act h choice why facts rel w =
     (let w = (if loader_choice_resets_attempts choice then clear_attempts w else w) in
      if loader_choice_rescues choice then enter_rescue h why w
      else let w = snd (sys_unlink LOADER_RESCUE_MARKER w) in
      if choice = LOADER_START_DAEMON then start_daemon h rel (lf_boot_attempts facts) w
      else let w = (if loader_choice_sticks_this_boot choice
                    then write_marker h LOADER_VENDOR_MARKER (loader_choice_reason choice) w else w)
           in start_vendor h w)"

text \<open>The clock and the token of one boot: the first look, the start of the hold and its turns.\<close>

record boot_input =
  bi_first :: token_look
  bi_start :: rat
  bi_looks :: "(token_look \<times> rat \<times> rat) list"

definition fresh_facts :: "bool \<Rightarrow> bool \<Rightarrow> loader_facts" where
  "fresh_facts knob deploy = \<lparr>lf_upgrade_pending = False, lf_knob_held = knob, lf_vendor_this_boot = False,
     lf_deploy_active = deploy, lf_release = LOADER_RELEASE_MISSING, lf_boot_attempts = 0\<rparr>"

definition onEasyUIInit :: "loader_host \<Rightarrow> boot_input \<Rightarrow> loader_world \<Rightarrow> loader_end \<times> loader_world" where
  "onEasyUIInit h inp w =
     (let w = select_usb_device h w; knob = knob_state h in
      case deploy_token_file_active True (of_nat AWTRIX_DEPLOY_TOKEN_STALE_SECONDS) (bi_first inp) fresh_watch of (active, watch) \<Rightarrow>
      case inspect h (fresh_facts (knob = 1) active) zero_release w of (facts, rel, update, w) \<Rightarrow>
      case decide h knob facts rel update w of (choice, why, w) \<Rightarrow>
      if choice = LOADER_HOLD_DEPLOY
      then case hold_for_deploy h (bi_start inp) (bi_looks inp) watch w of
          None \<Rightarrow> (Still_Holding, w)
        | Some (watch, w) \<Rightarrow>
          case inspect h (facts\<lparr>lf_deploy_active := False\<rparr>) rel w of (facts, rel, update, w) \<Rightarrow>
          case decide h knob facts rel update w of (choice, why, w) \<Rightarrow> act h choice why facts rel w
      else act h choice why facts rel w)"

text \<open>The hooks that the vendor's app exports; None when it does not.\<close>

definition onEasyUIDeinit :: "('c \<Rightarrow> 'w \<Rightarrow> 'w) option \<Rightarrow> 'c \<Rightarrow> 'w \<Rightarrow> 'w" where
  "onEasyUIDeinit deinit context w = (case deinit of Some f \<Rightarrow> f context w | None \<Rightarrow> w)"

definition onStartupApp :: "('c \<Rightarrow> string) option \<Rightarrow> 'c \<Rightarrow> string" where
  "onStartupApp startup context = (case startup of Some f \<Rightarrow> f context | None \<Rightarrow> ''mainActivity'')"

end
