(* ===== verification/Loader_Properties.thy ===== *)
theory Loader_Properties
  imports Loader
begin

text \<open>
  What the loader guarantees. The frame of its operations: everything that only logs, announces or
  prepares leaves the counters of starts, the flash and the mount alone. From it: what an executed
  daemon means, how the counter runs through unhealthy boots, and the bounds of the waits.
\<close>

section \<open>Frames\<close>

abbreviation counter_files :: "string set" where
  "counter_files \<equiv> {LOADER_ATTEMPTS_FILE, LOADER_RUNTIME_ATTEMPTS_FILE, LOADER_VENDOR_MARKER}"

definition quiet :: "loader_world \<Rightarrow> loader_world \<Rightarrow> bool" where
  "quiet w w' \<longleftrightarrow> (\<forall>q\<in>counter_files. bf_files w' q = bf_files w q) \<and> lw_flash w' = lw_flash w \<and>
     lw_mounted w' = lw_mounted w \<and> lw_nodes w' = lw_nodes w \<and> lw_loops w' = lw_loops w \<and>
     lw_props w' ''sys.zkupgrade.flag'' = lw_props w ''sys.zkupgrade.flag'' \<and> (fs_ok w \<longrightarrow> fs_ok w') \<and>
     set (bf_script w') \<subseteq> set (bf_script w)"

named_theorems quiets \<open>operations that leave the counters, the flash and the mount alone\<close>

lemma fs_ok_flash [simp]: "fs_ok (w\<lparr>lw_flash := f\<rparr>) = fs_ok w"
  by (simp add: fs_ok_def)

lemma quiet_refl [simp]: "quiet w w"
  by (simp add: quiet_def)

lemma quiet_trans [trans]: "quiet w w' \<Longrightarrow> quiet w' w'' \<Longrightarrow> quiet w w''"
  unfolding quiet_def by (intro conjI; elim conjE) (simp | blast)+

lemma more_same:
  fixes w w' :: loader_world
  assumes "boot_fs.more w' = boot_fs.more w"
  shows "lw_flash w' = lw_flash w \<and> lw_mounted w' = lw_mounted w \<and> lw_nodes w' = lw_nodes w \<and> lw_loops w' = lw_loops w \<and>
    lw_props w' = lw_props w"
  using assms by (cases w; cases w') simp

lemma only_files_quiet:
  fixes w w' :: loader_world
  assumes "only_files P w w'" and "P \<inter> counter_files = {}"
  shows "quiet w w'"
proof -
  have "boot_fs.more w' = boot_fs.more w" using assms(1) by (simp add: only_files_def)
  note m = more_same [OF this]
  have "\<forall>q\<in>counter_files. q \<notin> P" using assms(2) by blast
  then have "\<forall>q\<in>counter_files. bf_files w' q = bf_files w q" using assms(1) unfolding only_files_def by blast
  then show ?thesis using m assms(1) unfolding quiet_def only_files_def by simp
qed

lemma only_paths_files: "only_paths P w w' \<Longrightarrow> only_files P w w'"
  by (simp add: only_paths_def)

lemma only_files_trans: "only_files P w w' \<Longrightarrow> only_files Q w' w'' \<Longrightarrow> only_files (P \<union> Q) w w''"
  unfolding only_files_def by auto

lemma only_files_mono: "only_files P w w' \<Longrightarrow> P \<subseteq> Q \<Longrightarrow> only_files Q w w'"
  unfolding only_files_def by blast

text \<open>The rules run backwards: an operation keeps what has been quiet so far.\<close>

lemma quiet_only: "quiet w v \<Longrightarrow> only_files P v v' \<Longrightarrow> P \<inter> counter_files = {} \<Longrightarrow> quiet w v'"
  by (rule quiet_trans [OF _ only_files_quiet])

lemma sys_call_quiet [quiets]: "quiet w v \<Longrightarrow> quiet w (snd (sys_call v))"
  by (rule quiet_only [of _ v "{}"]) (use sys_call_same [OF prod.collapse [symmetric]] in \<open>auto simp: only_paths_def\<close>)

lemma next_call_quiet [quiets]: "quiet w v \<Longrightarrow> quiet w (snd (next_call v))"
  by (rule quiet_only [of _ v "{}"]) (use next_call_same [OF prod.collapse [symmetric]] in \<open>auto simp: only_paths_def\<close>)

lemma retried_call_quiet [quiets]: "quiet w v \<Longrightarrow> quiet w (snd (retried_call v))"
  by (rule quiet_only [of _ v "{}"]) (use retried_call_same [OF prod.collapse [symmetric]] in \<open>auto simp: only_paths_def\<close>)

lemma sys_stat_same: "sys_stat p w = (e, w') \<Longrightarrow> only_paths {} w w'"
  using sys_call_same by (fastforce simp: sys_stat_def split: prod.splits)

lemma sys_open_append_same: "sys_open_append p w = (e, w') \<Longrightarrow> only_paths {p} w w'"
  using sys_call_same [of w]
  by (auto simp: sys_open_append_def only_defs fs_ok_def split: prod.splits if_splits)

lemma sys_create_same: "sys_create p w = (e, w') \<Longrightarrow> only_paths {p} w w'"
  using sys_create_ok by blast

lemma append_log_files:
  assumes "loader_append_log p s limit durable w = (r, w')"
  shows "only_files {p, p @ ''.1''} w w'"
proof -
  let ?P = "{p, p @ ''.1''}"
  obtain info w1 where a: "sys_stat p w = (info, w1)" by fastforce
  have 1: "only_files ?P w w1" using sys_stat_same [OF a] only_paths_files only_files_mono by blast
  define full where "full = (case info of Inr sz \<Rightarrow> limit < (case sz of None \<Rightarrow> 4096 | Some n \<Rightarrow> n) + length s | Inl _ \<Rightarrow> False)"
  obtain e2 w2 where b: "(if full then sys_rename p (p @ ''.1'') w1 else (0, w1)) = (e2, w2)" by fastforce
  have 2: "only_files ?P w w2"
    using b 1 sys_rename_ok [of p "p @ ''.1''" w1 e2 w2] only_paths_files only_files_trans [OF 1] by (fastforce split: if_splits)
  obtain e3 w3 where c: "sys_open_append p w2 = (e3, w3)" by fastforce
  have 3: "only_files ?P w w3"
    using only_files_trans [OF 2 only_paths_files [OF sys_open_append_same [OF c]]] by (rule only_files_mono) auto
  obtain r4 w4 where d: "write_all p s w3 = (r4, w4)" by fastforce
  have 4: "only_files ?P w w4"
    using only_files_trans [OF 3, of "{p}" w4] write_all_ok [OF d] only_paths_files only_files_mono by blast
  obtain r5 w5 where e: "(if r4 = 0 \<and> durable then apfst uminus (sys_fsync p w4) else (r4, w4)) = (r5, w5)" by fastforce
  have 5: "only_files ?P w w5"
    using e 4 sys_fsync_ok [of p w4 "- r5" w5] only_files_trans [OF 4, of "{p}" w5] only_paths_files only_files_mono [of _ w w5 ?P]
    by (auto simp: apfst_uminus_eq split: if_splits)
  have "w' = w1 \<or> w' = w2 \<or> w' = w3 \<or> w' = w5 \<or> sync_parent p w5 = (r, w')"
    using assms by (auto simp: loader_append_log_def Let_def a full_def [symmetric] b c d e split: if_splits)
  moreover have "only_files ?P w w'" if "sync_parent p w5 = (r, w')"
    using only_files_trans [OF 5, of "{}" w'] sync_parent_ok [OF that] by simp
  ultimately show ?thesis using 1 2 3 5 by blast
qed

lemma ensure_directory_files: "loader_ensure_directory p w = (r, w') \<Longrightarrow> only_files {} w w'"
proof -
  assume run: "loader_ensure_directory p w = (r, w')"
  obtain e w1 where a: "sys_call w = (e, w1)" by fastforce
  have 1: "only_files {} w w1" using sys_call_same [OF a] only_paths_files by blast
  let ?w = "w1\<lparr>bf_dirs := p # bf_dirs w1\<rparr>"
  have "only_files {} w ?w" using 1 by (simp add: only_files_def fs_ok_def)
  moreover have "only_files {} ?w w'" if "sync_parent p ?w = (r, w')" using sync_parent_ok [OF that] by simp
  moreover have "only_files {} w1 w'" if "sys_stat p w1 = (x, w')" for x
    using sys_stat_same [OF that] only_paths_files by blast
  ultimately show ?thesis using run 1 a only_files_trans [of "{}" w _ "{}" w']
    by (auto simp: loader_ensure_directory_def Let_def split: if_splits prod.splits)
qed

lemma sys_stat_quiet [quiets]: "quiet w v \<Longrightarrow> quiet w (snd (sys_stat p v))"
  by (rule quiet_only [of _ v "{}"]) (use sys_stat_same [OF prod.collapse [symmetric]] in \<open>auto simp: only_paths_def\<close>)

lemma sys_open_append_quiet: "quiet w v \<Longrightarrow> p \<notin> counter_files \<Longrightarrow> quiet w (snd (sys_open_append p v))"
  by (rule quiet_only [of _ v "{p}"]) (use sys_open_append_same [OF prod.collapse [symmetric]] in \<open>auto simp: only_paths_def\<close>)

lemma sys_create_quiet: "quiet w v \<Longrightarrow> p \<notin> counter_files \<Longrightarrow> quiet w (snd (sys_create p v))"
  by (rule quiet_only [of _ v "{p}"]) (use sys_create_same [OF prod.collapse [symmetric]] in \<open>auto simp: only_paths_def\<close>)

lemma sys_unlink_quiet: "quiet w v \<Longrightarrow> p \<notin> counter_files \<Longrightarrow> quiet w (snd (sys_unlink p v))"
  by (rule quiet_only [of _ v "{p}"]) (use sys_unlink_ok [OF prod.collapse [symmetric]] in \<open>auto simp: only_paths_def\<close>)

lemma append_bytes_quiet: "quiet w v \<Longrightarrow> p \<notin> counter_files \<Longrightarrow> quiet w (append_bytes p s v)"
  by (rule quiet_only [of _ v "{p}"]) (use append_bytes_same [of p v s] in \<open>auto simp: only_paths_def\<close>)

lemma append_log_quiet:
  "quiet w v \<Longrightarrow> {p, p @ ''.1''} \<inter> counter_files = {} \<Longrightarrow> quiet w (snd (loader_append_log p s n d v))"
  by (rule quiet_only [of _ v "{p, p @ ''.1''}"]) (use append_log_files [OF prod.collapse [symmetric]] in \<open>auto simp: only_paths_def\<close>)

lemma ensure_directory_quiet [quiets]: "quiet w v \<Longrightarrow> quiet w (snd (loader_ensure_directory p v))"
  by (rule quiet_only [of _ v "{}"]) (use ensure_directory_files [OF prod.collapse [symmetric]] in \<open>auto simp: only_paths_def\<close>)

lemma quiet_update [quiets]:
  assumes "quiet w v"
  shows "quiet w (v\<lparr>lw_journal := j\<rparr>)" "quiet w (v\<lparr>lw_role := r\<rparr>)" "quiet w (v\<lparr>lw_hold := n\<rparr>)"
    "quiet w (v\<lparr>lw_last := r, lw_lines := n\<rparr>)" "quiet w (v\<lparr>lw_fds := f\<rparr>)" "quiet w (v\<lparr>lw_ignored := is, lw_blocked := bs\<rparr>)"
    "quiet w (v\<lparr>lw_notes := n\<rparr>)" "quiet w (log_event e v)"
  using assms by (simp_all add: quiet_def fs_ok_def log_event_def)

lemma log_note_quiet [quiets]: "quiet w v \<Longrightarrow> quiet w (log_note h s v)"
  by (simp add: log_note_def Let_def quiets append_log_quiet)

lemma flush_journal_quiet [quiets]: "quiet w v \<Longrightarrow> quiet w (flush_journal v)"
  by (simp add: flush_journal_def Let_def split_def quiets append_log_quiet)

lemma read_usb_role_quiet [quiets]: "quiet w v \<Longrightarrow> quiet w (snd (read_usb_role n v))"
  by (simp add: read_usb_role_def split_def quiets)

lemma write_usb_role_quiet [quiets]: "quiet w v \<Longrightarrow> quiet w (snd (write_usb_role r v))"
  by (simp add: write_usb_role_def split_def quiets split: call_end.split)

lemma select_usb_device_quiet [quiets]: "quiet w v \<Longrightarrow> quiet w (select_usb_device h v)"
  by (simp add: select_usb_device_def split_def quiets split: sum.split)

lemma append_rescue_marker_quiet [quiets]: "quiet w v \<Longrightarrow> quiet w (append_rescue_marker h line v)"
  by (simp add: append_rescue_marker_def split_def quiets sys_open_append_quiet append_bytes_quiet split: call_end.split)

lemma keep_usb_device_quiet [quiets]: "quiet w v \<Longrightarrow> quiet w (keep_usb_device h m v)"
  by (simp add: keep_usb_device_def split_def Let_def quiets)

lemma property_set_quiet: "quiet w v \<Longrightarrow> n \<noteq> ''sys.zkupgrade.flag'' \<Longrightarrow> quiet w (snd (property_set h n x v))"
proof -
  assume "quiet w v" and n: "n \<noteq> ''sys.zkupgrade.flag''"
  moreover have "quiet w (u\<lparr>lw_props := (lw_props u)(n := x)\<rparr>)" if "quiet w u" for u
    using that n by (simp add: quiet_def fs_ok_def)
  ultimately show ?thesis by (simp add: property_set_def run_setprop_def Let_def split_def quiets)
qed

lemma announce_running_quiet [quiets]: "quiet w v \<Longrightarrow> quiet w (announce_running h v)"
  by (simp add: announce_running_def split_def quiets property_set_quiet)

lemma regular_file_quiet [quiets]: "quiet w v \<Longrightarrow> quiet w (snd (regular_file p v))"
  by (simp add: regular_file_def split_def quiets)

lemma upgrade_pending_quiet [quiets]: "quiet w v \<Longrightarrow> quiet w (snd (upgrade_pending h v))"
  by (simp add: upgrade_pending_def Let_def split_def quiets)

lemma write_marker_quiet: "quiet w v \<Longrightarrow> p \<notin> counter_files \<Longrightarrow> quiet w (write_marker h p reason v)"
  by (simp add: write_marker_def Let_def split_def quiets sys_create_quiet append_bytes_quiet split: call_end.split)

lemma settle_quiet [quiets]: "quiet w v \<Longrightarrow> quiet w (let_vendor_startup_settle h v)"
  by (simp add: let_vendor_startup_settle_def quiets)

lemma fill_descriptor_quiet [quiets]: "quiet w v \<Longrightarrow> quiet w (fill_descriptor fd v)"
  by (simp add: fill_descriptor_def split_def quiets)

lemma mark_descriptors_quiet [quiets]: "quiet w v \<Longrightarrow> quiet w (mark_descriptors f i v)"
  by (simp add: mark_descriptors_def quiets)

lemma prepare_descriptors_quiet [quiets]: "quiet w v \<Longrightarrow> quiet w (prepare_descriptors i v)"
  by (simp add: prepare_descriptors_def split_def quiets)

lemma default_signals_quiet [quiets]: "quiet w v \<Longrightarrow> quiet w (snd (default_signals v))"
  by (simp add: default_signals_def Let_def quiets)

lemma reinstate_signals_quiet [quiets]: "quiet w v \<Longrightarrow> quiet w (reinstate_signals x v)"
  by (simp add: reinstate_signals_def quiets)

lemma write_sysfs_quiet [quiets]: "quiet w v \<Longrightarrow> quiet w (snd (write_sysfs v))"
  by (simp add: write_sysfs_def split_def quiets)

lemma sys_calls_quiet [quiets]: "quiet w v \<Longrightarrow> quiet w (snd (sys_calls n v))"
  by (induction n) (simp_all add: sys_calls_def split_def quiets)

lemma latch_quiet [quiets]: "quiet w v \<Longrightarrow> quiet w (snd (latch b v))"
  by (simp add: latch_def split_def quiets)

lemma transfer_frame_quiet [quiets]: "quiet w v \<Longrightarrow> quiet w (snd (transfer_frame h fr v))"
  by (simp add: transfer_frame_def Let_def split_def quiets split: call_end.split)

lemma rescue_panel_quiet [quiets]: "quiet w v \<Longrightarrow> quiet w (snd (rescue_panel_show h v))"
  by (simp add: rescue_panel_show_def split_def quiets split: option.split)

lemma idle_offline_quiet [quiets]: "quiet w v \<Longrightarrow> quiet w (snd (idle_offline h v))"
  by (simp add: idle_offline_def opened_pipe_def Let_def split_def quiets)

lemma enter_rescue_quiet [quiets]: "quiet w v \<Longrightarrow> quiet w (snd (enter_rescue h why v))"
  by (simp add: enter_rescue_def Let_def split_def quiets write_marker_quiet split: option.split)

lemma idle_offline_end: "fst (idle_offline h v) \<in> {Exec_Idle_Shell, Idle_In_Process}"
  by (simp add: idle_offline_def Let_def split_def)

lemma enter_rescue_end: "fst (enter_rescue h why v) \<in> {Exec_Idle_Shell, Idle_In_Process}"
  using idle_offline_end by (simp add: enter_rescue_def Let_def split_def)

lemma loader_read_attempts_quiet [quiets]: "quiet w v \<Longrightarrow> quiet w (snd (loader_read_attempts p v))"
  by (simp add: loader_read_attempts_def split_def quiets split: option.split)

lemma read_attempts_quiet [quiets]: "quiet w v \<Longrightarrow> quiet w (snd (read_attempts v))"
  by (simp add: read_attempts_def split_def quiets)

lemma hold_loop_quiet:
  "hold_loop h end_time usb_at looks watch v = Some (a, watch', v') \<Longrightarrow> quiet w v \<Longrightarrow> quiet w v'"
  by (induction h end_time usb_at looks watch v rule: hold_loop.induct)
    (auto simp: quiets split: prod.splits if_splits)

lemma hold_for_deploy_quiet:
  assumes "hold_for_deploy h start looks watch v = Some (watch', v')" and "quiet w v"
  shows "quiet w v'"
proof -
  have v: "quiet w (flush_journal (announce_running h v))" using assms(2) by (simp add: quiets)
  obtain a v1 s where "hold_loop h (start + of_nat AWTRIX_DEPLOY_HOLD_SECONDS) 0 looks watch
      (flush_journal (announce_running h v)) = Some (a, watch', v1)" and v': "v' = log_note h s v1"
    using assms(1) by (auto simp: hold_for_deploy_def split: option.splits)
  from hold_loop_quiet [OF this(1) v] show ?thesis unfolding v' by (rule log_note_quiet)
qed

lemma decide_quiet [quiets]: "quiet w v \<Longrightarrow> quiet w (snd (snd (decide h knob f rel u v)))"
  by (simp add: decide_def Let_def quiets)

lemma decide_choice [simp]: "fst (decide h knob f rel u v) = loader_decide f"
  by (simp add: decide_def Let_def)

section \<open>Inspecting the release\<close>

lemma slot_read_cong:
  assumes "dev_size d = dev_size d'" and "dev_erase_size d = dev_erase_size d'" and "dev_read d = dev_read d'"
  shows "slot_read mal d verify w = slot_read mal d' verify w"
  unfolding slot_read_def slot_layout_of_def flash_hash_range_def assms by (rule refl)

text \<open>The chip is the one that /proc/mtd describes, with 32-bit sizes.\<close>

definition res_fits :: "loader_host \<Rightarrow> mtd_world \<Rightarrow> bool" where
  "res_fits h fl \<longleftrightarrow> (\<forall>table entry. read_small_file (lh_proc_open h) (lh_proc_mtd h) 4096 = Inr table \<and>
     mtd_table_find_name table ''res'' = Inr entry \<longrightarrow>
       entry_size entry < 2 ^ 32 \<and> entry_erase_size entry < 2 ^ 32 \<and> script_ok fl \<and> length (chip fl) = entry_size entry)"

text \<open>A release as its own header describes it.\<close>

definition genuine :: "release \<Rightarrow> bytes \<Rightarrow> bool" where
  "genuine rel c \<longleftrightarrow>
     release_slot_encode (rl_header rel) = Inr (take HEADER_BYTES (drop (lay_header (rl_layout rel)) c)) \<and>
     0 < hdr_image_bytes (rl_header rel) \<and> hdr_image_bytes (rl_header rel) \<le> lay_capacity (rl_layout rel) \<and>
     sha256 (take (hdr_image_bytes (rl_header rel)) (drop (lay_image (rl_layout rel)) c)) = hdr_image_sha256 (rl_header rel)"

text \<open>It was found on the partition that /proc/mtd calls res.\<close>

definition on_res :: "loader_host \<Rightarrow> release \<Rightarrow> bool" where
  "on_res h rel \<longleftrightarrow> (case res_partition h of Inl _ \<Rightarrow> False | Inr entry \<Rightarrow> rl_index rel = entry_index entry)"

lemma res_slot_read:
  assumes run: "slot_read sys_malloc (res_device entry) True fl = (r, lay, hdr, fl')"
    and fits: "entry_size entry < 2 ^ 32" "entry_erase_size entry < 2 ^ 32" "script_ok fl" "length (chip fl) = entry_size entry"
  shows "chip fl' = chip fl \<and> (r = 0 \<longrightarrow> (\<exists>l x. lay = Some l \<and> hdr = Some x \<and>
    release_slot_encode x = Inr (take HEADER_BYTES (drop (lay_header l) (chip fl))) \<and>
    0 < hdr_image_bytes x \<and> hdr_image_bytes x \<le> lay_capacity l \<and>
    sha256 (take (hdr_image_bytes x) (drop (lay_image l) (chip fl))) = hdr_image_sha256 x))"
proof -
  let ?sz = "of_nat (entry_size entry) :: 32 word" and ?er = "of_nat (entry_erase_size entry) :: 32 word"
  have sz: "unat ?sz = entry_size entry" "unat ?er = entry_erase_size entry" using fits(1,2) by (simp_all add: unat_of_nat)
  have "slot_read sys_malloc (mtd_flash ?sz ?er) True fl = (r, lay, hdr, fl')"
    using run by (subst slot_read_cong [of _ "res_device entry"])
      (simp_all add: mtd_flash_def res_device_def sz mtd_read_def [abs_def] read_descriptor_def [abs_def])
  moreover have "chip_ok ?sz fl" using fits(3,4) by (simp add: chip_ok_def sz)
  ultimately show ?thesis using mtd.slot_read_ok [of ?sz ?er True fl r lay hdr fl'] slot_canonical by fastforce
qed

text \<open>The image in the slot, as the header of the release gives its length.\<close>

definition release_bytes :: "release \<Rightarrow> loader_world \<Rightarrow> bytes" where
  "release_bytes rel w = take (hdr_image_bytes (rl_header rel)) (drop (lay_image (rl_layout rel)) (chip (lw_flash w)))"

text \<open>The inspection reads the flash; nothing else happens to the tracked state.\<close>

lemma inspect_release_ok:
  assumes run: "inspect_release h w = (rel, w')" and fits: "res_fits h (lw_flash w)"
  shows "chip (lw_flash w') = chip (lw_flash w) \<and> quiet w (w'\<lparr>lw_flash := lw_flash w\<rparr>) \<and>
    (rl_state rel = LOADER_RELEASE_VALID \<longrightarrow> genuine rel (chip (lw_flash w)) \<and> on_res h rel)"
proof (cases "res_partition h")
  case (Inl e)
  then show ?thesis using run by (auto simp: inspect_release_def zero_release_def)
next
  case (Inr entry)
  then obtain table where t: "read_small_file (lh_proc_open h) (lh_proc_mtd h) 4096 = Inr table"
    "mtd_table_find_name table ''res'' = Inr entry" by (auto simp: res_partition_def split: sum.splits)
  have f: "entry_size entry < 2 ^ 32" "entry_erase_size entry < 2 ^ 32" "script_ok (lw_flash w)"
    "length (chip (lw_flash w)) = entry_size entry" using fits t unfolding res_fits_def by blast+
  obtain e w1 where c: "sys_call w = (e, w1)" by fastforce
  have q: "quiet w w1" using sys_call_quiet [OF quiet_refl, of w] c by simp
  then have same: "lw_flash w1 = lw_flash w" by (simp add: quiet_def)
  obtain r lay hdr fl where sr: "slot_read sys_malloc (res_device entry) True (lw_flash w1) = (r, lay, hdr, fl)"
    by (metis prod_cases4)
  note ok = res_slot_read [OF sr [unfolded same] f]
  have q2: "quiet w (w1\<lparr>lw_flash := lw_flash w\<rparr>)" using q same by (simp add: quiet_def fs_ok_def)
  show ?thesis
  proof (cases "e = 0")
    case True
    then have "w' = w1\<lparr>lw_flash := fl\<rparr>" and "rl_state rel = LOADER_RELEASE_VALID \<longrightarrow> r = 0"
      and "\<forall>l x. lay = Some l \<and> hdr = Some x \<longrightarrow> rl_layout rel = l \<and> rl_header rel = x"
      and "rl_index rel = entry_index entry"
      using run Inr c sr by (auto simp: inspect_release_def Let_def zero_release_def split: if_splits)
    then show ?thesis using ok q2 Inr by (auto simp: genuine_def on_res_def)
  next
    case False
    then have "w' = w1" "rl_state rel \<noteq> LOADER_RELEASE_VALID"
      using run Inr c by (auto simp: inspect_release_def Let_def zero_release_def)
    then show ?thesis using q2 same by simp
  qed
qed

section \<open>Mounting and starting\<close>

definition steady :: "loader_world \<Rightarrow> loader_world \<Rightarrow> bool" where
  "steady w w' \<longleftrightarrow> (\<forall>q\<in>counter_files. bf_files w' q = bf_files w q) \<and> lw_flash w' = lw_flash w \<and>
     (fs_ok w \<longrightarrow> fs_ok w') \<and> set (bf_script w') \<subseteq> set (bf_script w)"

lemma quiet_steady: "quiet w w' \<Longrightarrow> steady w w'"
  by (simp add: quiet_def steady_def)

lemma steady_trans: "steady w w' \<Longrightarrow> steady w' w'' \<Longrightarrow> steady w w''"
  unfolding steady_def by (intro conjI; elim conjE) (simp | blast)+

lemma steady_update:
  assumes "steady w v"
  shows "steady w (v\<lparr>lw_mounted := m\<rparr>)" "steady w (v\<lparr>lw_nodes := ns\<rparr>)" "steady w (v\<lparr>lw_loops := ls\<rparr>)"
  using assms by (simp_all add: steady_def fs_ok_def)

named_theorems steadies \<open>operations that leave the counters and the flash alone\<close>

lemma steady_refl [simp]: "steady w w"
  by (simp add: steady_def)

lemma quiet_then: "steady w v \<Longrightarrow> quiet v v' \<Longrightarrow> steady w v'"
  by (blast intro: steady_trans quiet_steady)

lemma sys_call_steady [steadies]: "steady w v \<Longrightarrow> steady w (snd (sys_call v))"
  by (rule quiet_then [OF _ sys_call_quiet [OF quiet_refl]])

lemma log_note_steady [steadies]: "steady w v \<Longrightarrow> steady w (log_note h s v)"
  by (rule quiet_then [OF _ log_note_quiet [OF quiet_refl]])

lemma loader_drop_page_cache_quiet [quiets]: "quiet w v \<Longrightarrow> quiet w (loader_drop_page_cache h v)"
  by (simp add: loader_drop_page_cache_def split_def quiets)

lemma load_loop_module_quiet [quiets]: "quiet w v \<Longrightarrow> quiet w (snd (load_loop_module h v))"
  by (simp add: load_loop_module_def split_def quiets)

lemma unlink_node_steady [steadies]: "steady w v \<Longrightarrow> steady w (unlink_node p v)"
  by (simp add: unlink_node_def split_def steadies steady_update)

lemma open_node_steady [steadies]: "steady w v \<Longrightarrow> steady w (snd (open_node p d v))"
  by (simp add: open_node_def Let_def split_def steadies steady_update)

lemma loop_ioctls_steady [steadies]:
  assumes "steady w v"
  shows "steady w (snd (loop_set_fd d n v))" "steady w (snd (loop_set_status d i j v))" "steady w (loop_clr_fd d v)"
  using assms by (simp_all add: loop_set_fd_def loop_set_status_def loop_clr_fd_def split_def steadies steady_update split: option.split)

lemma sys_mount_steady [steadies]: "steady w v \<Longrightarrow> steady w (snd (sys_mount h node v))"
  by (simp add: sys_mount_def split_def steadies steady_update split: option.split)

lemma drop_page_cache_steady [steadies]: "steady w v \<Longrightarrow> steady w (loader_drop_page_cache h v)"
  by (rule quiet_then [OF _ loader_drop_page_cache_quiet [OF quiet_refl]])

lemma attach_loop_steady [steadies]: "steady w v \<Longrightarrow> steady w (snd (attach_loop h rel v))"
  by (simp add: attach_loop_def Let_def split_def steadies split: sum.split)

lemma open_node_opens:
  assumes "open_node p d w = (Inr d', w')"
  shows "d' = d \<and> lw_nodes w' p = Some d"
proof -
  define u where "u = (snd (sys_call (unlink_node p w)))\<lparr>lw_nodes := (lw_nodes (snd (sys_call (unlink_node p w))))(p \<mapsto> d)\<rparr>"
  have "quiet u (snd (sys_call u))" by (rule sys_call_quiet [OF quiet_refl])
  then have "lw_nodes (snd (sys_call u)) p = Some d" by (simp add: quiet_def) (simp add: u_def)
  then show ?thesis using assms by (auto simp: open_node_def Let_def split_def u_def [symmetric] split: if_splits)
qed

text \<open>What the ioctls bind the device to, and that they leave its node.\<close>

lemma loop_set_fd_binds:
  assumes "loop_set_fd d n w = (0, w')"
  shows "lw_nodes w' = lw_nodes w \<and> (\<exists>k. loop_number d = Some k)"
  using assms sys_call_quiet [OF quiet_refl, of w] by (auto simp: loop_set_fd_def split_def quiet_def split: option.splits if_splits)

lemma loop_binds:
  assumes "loop_set_fd d n w = (0, u)" and "loop_set_status d i j u = (0, w')"
  shows "lw_nodes w' = lw_nodes w \<and>
    (\<exists>k. loop_number d = Some k \<and> lw_loops w' k = Some \<lparr>lo_backing = n, lo_offset = i, lo_sizelimit = j\<rparr>)"
  using assms sys_call_quiet [OF quiet_refl, of w] sys_call_quiet [OF quiet_refl, of u]
  by (auto simp: loop_set_fd_def loop_set_status_def split_def quiet_def split: option.splits if_splits)

text \<open>An attached loop device shows the image that the slot of the release holds.\<close>

lemma attach_loop_shows:
  assumes run: "attach_loop h rel w = (Inr (node, d), w')"
  shows "\<exists>k. lw_nodes w' node = Some d \<and> loop_number d = Some k \<and> lw_loops w' k =
    Some \<lparr>lo_backing = rl_index rel, lo_offset = lay_image (rl_layout rel), lo_sizelimit = hdr_image_bytes (rl_header rel)\<rparr>"
proof -
  obtain u w1 where a: "open_node node (Block_Device LOOP_MAJOR (lh_loop_number h)) u = (Inr d, w1)"
    and rest: "(case sys_call w1 of (e, w) \<Rightarrow>
      if e \<noteq> 0 then (Inl (''cannot open mtdblock'' @ print_nat 10 (rl_index rel) @ '': '' @ lh_strerror h e), w)
      else case loop_set_fd d (rl_index rel) w of (attached, w) \<Rightarrow>
      if attached \<noteq> 0 then (Inl (''cannot attach the release image: '' @ lh_strerror h attached), w)
      else case loop_set_status d (lay_image (rl_layout rel)) (hdr_image_bytes (rl_header rel)) w of (status, w) \<Rightarrow>
      if status \<noteq> 0
      then (Inl (''cannot attach the release image: '' @ lh_strerror h status), loop_clr_fd d w)
      else case sys_call w of (direct, w) \<Rightarrow>
        (Inr (node, d), if direct \<noteq> 0
           then loader_drop_page_cache h (log_note h (''no direct I/O for the release image ('' @ lh_strerror h direct @
                  ''): dropping the page cache'') w) else w)) = (Inr (node, d), w')"
    using run unfolding attach_loop_def Let_def by (auto split: prod.splits sum.splits if_splits)
  obtain w2 where b: "sys_call w1 = (0, w2)" using rest by (cases "sys_call w1") (auto split: if_splits)
  obtain w3 where c: "loop_set_fd d (rl_index rel) w2 = (0, w3)"
    using rest b by (cases "loop_set_fd d (rl_index rel) w2") (auto split: if_splits)
  obtain w4 where e: "loop_set_status d (lay_image (rl_layout rel)) (hdr_image_bytes (rl_header rel)) w3 = (0, w4)"
    using rest b c by (cases "loop_set_status d (lay_image (rl_layout rel)) (hdr_image_bytes (rl_header rel)) w3") (auto split: if_splits)
  obtain direct w5 where g: "sys_call w4 = (direct, w5)" by fastforce
  have "quiet w4 w5" using sys_call_quiet [OF quiet_refl, of w4] g by simp
  then have "quiet w4 w'" using rest b c e g by (auto split: if_splits intro: quiets)
  moreover have "quiet w1 w2" using sys_call_quiet [OF quiet_refl, of w1] b by simp
  ultimately show ?thesis using open_node_opens [OF a] loop_binds [OF c e] by (auto simp: quiet_def)
qed

lemma mount_release_steady: "steady w (snd (mount_release h rel w))"
proof -
  have "steady w (snd (load_loop_module h w))" by (rule quiet_steady) (intro quiets quiet_refl)
  then show ?thesis by (simp add: mount_release_def Let_def split_def steadies steady_update split: sum.split)
qed

lemma mount_release_attached:
  assumes run: "mount_release h rel w = (None, w')"
  shows "\<exists>v node d w1 w2. steady w v \<and> attach_loop h rel v = (Inr (node, d), w1) \<and>
    sys_mount h node w1 = (0, w2) \<and> w' = unlink_node node w2"
proof -
  obtain why1 u1 where a: "load_loop_module h w = (why1, u1)" by fastforce
  obtain e2 u2 where b: "sys_call u1 = (e2, u2)" by fastforce
  obtain e3 u3 where c: "(if lw_mounted u2 \<noteq> None then sys_call u2 else (0, u2)) = (e3, u3)" by fastforce
  define v where "v = (if lw_mounted u3 = None then u3
      else if e3 \<noteq> 0 then log_note h (''cannot detach the release mounted before: '' @ lh_strerror h e3) u3
      else u3\<lparr>lw_mounted := None\<rparr>)"
  obtain loop w1 where d: "attach_loop h rel v = (loop, w1)" by fastforce
  have "quiet w u1" using load_loop_module_quiet [OF quiet_refl, of w h] a by simp
  then have "quiet w u2" using sys_call_quiet [of w u1] b by simp
  then have "quiet w u3" using sys_call_quiet [of w u2] c by (auto split: if_splits)
  then have v: "steady w v" unfolding v_def by (simp add: quiet_steady steadies steady_update)
  have why1: "why1 = None" using run by (auto simp: mount_release_def a split: if_splits)
  note run' = run [unfolded mount_release_def a prod.case why1 Let_def b c v_def [symmetric] d]
  obtain node device where loop: "loop = Inr (node, device)" using run' by (auto split: sum.splits)
  obtain r w2 where m: "sys_mount h node w1 = (r, w2)" by fastforce
  have "r = 0" "w' = unlink_node node w2" using run' by (auto simp: loop m split: if_splits)
  then show ?thesis using v d loop m by blast
qed

text \<open>The mounted image is what the verified slot holds: the one that inspect_release hashed.\<close>

lemma mount_release_ok:
  assumes run: "mount_release h rel w = (why, w')" and on: "on_res h rel" and some: "0 < hdr_image_bytes (rl_header rel)"
  shows "steady w w' \<and> (why = None \<longrightarrow> lw_mounted w' = Some (release_bytes rel w))"
proof (intro conjI impI)
  show "steady w w'" using mount_release_steady [of w h rel] run by simp
  assume "why = None"
  then obtain v node d w1 w2 where pre: "steady w v"
    and a: "attach_loop h rel v = (Inr (node, d), w1)" and m: "sys_mount h node w1 = (0, w2)" and w': "w' = unlink_node node w2"
    using mount_release_attached [OF run [unfolded \<open>why = None\<close>]] by metis
  obtain k where k: "lw_nodes w1 node = Some d" "loop_number d = Some k"
    "lw_loops w1 k = Some \<lparr>lo_backing = rl_index rel, lo_offset = lay_image (rl_layout rel), lo_sizelimit = hdr_image_bytes (rl_header rel)\<rparr>"
    using attach_loop_shows [OF a] by blast
  obtain w3 where c: "sys_call w1 = (0, w3)" using m by (cases "sys_call w1") (auto simp: sys_mount_def split: if_splits)
  have q: "quiet w1 w3" using sys_call_quiet [OF quiet_refl, of w1] c by simp
  have "steady w w1" using attach_loop_steady [OF pre, of h rel] a by simp
  then have fl: "lw_flash w3 = lw_flash w" using q by (simp add: steady_def quiet_def)
  then have "loop_shows h node w3 = Some (release_bytes rel w)"
    using q k on some by (auto simp: loop_shows_def quiet_def Let_def mtd_block_def on_res_def release_bytes_def split: sum.splits)
  then have "lw_mounted w2 = Some (release_bytes rel w)" using m c by (auto simp: sys_mount_def)
  moreover have "lw_mounted w' = lw_mounted w2"
    using sys_call_quiet [OF quiet_refl, of w2] by (simp add: w' unlink_node_def split_def quiet_def)
  ultimately show "lw_mounted w' = Some (release_bytes rel w)" by simp
qed

text \<open>The number of starts that a counter file shows.\<close>

definition file_attempts :: "string option \<Rightarrow> int" where
  "file_attempts content = (case content of None \<Rightarrow> 0 | Some s \<Rightarrow> loader_parse_attempts (take 16 s))"

definition counted :: "loader_world \<Rightarrow> int" where
  "counted w = loader_combine_attempts (file_attempts (bf_files w LOADER_ATTEMPTS_FILE))
     (file_attempts (bf_files w LOADER_RUNTIME_ATTEMPTS_FILE))"

definition recorded :: "int \<Rightarrow> loader_world \<Rightarrow> bool" where
  "recorded n w \<longleftrightarrow> bf_files w LOADER_ATTEMPTS_FILE = Some (attempts_text n) \<or>
     bf_files w LOADER_RUNTIME_ATTEMPTS_FILE = Some (attempts_text n)"

text \<open>No call of the script cuts a read short or hides a file that is there.\<close>

definition undisturbed :: "loader_world \<Rightarrow> bool" where
  "undisturbed w \<longleftrightarrow> (\<forall>c\<in>set (bf_script w). case c of Part _ \<Rightarrow> False | Error e \<Rightarrow> e \<noteq> ENOENT | Whole \<Rightarrow> True)"

lemma undisturbedD: "undisturbed w \<Longrightarrow> c \<in> set (bf_script w) \<Longrightarrow> c \<noteq> Error ENOENT \<and> c \<noteq> Part k"
  by (auto simp: undisturbed_def split: call_end.splits)

lemma undisturbed_quiet: "quiet w w' \<Longrightarrow> undisturbed w \<Longrightarrow> undisturbed w'"
  by (auto simp: undisturbed_def quiet_def)

lemma next_call_script: "next_call w = (c, w') \<Longrightarrow> c \<noteq> Whole \<Longrightarrow> c \<in> set (bf_script w)"
  by (auto simp: next_call_def split: list.splits)

lemma retried_call_script: "retried_call w = (c, w') \<Longrightarrow> c \<noteq> Whole \<Longrightarrow> c \<in> set (bf_script w)"
  by (auto simp: retried_call_def dest!: next_call_script set_dropWhileD)

lemma loader_read_attempts_reads:
  assumes "loader_read_attempts p w = (n, w')" and "0 \<le> n" and "undisturbed w"
  shows "n = file_attempts (bf_files w p)"
proof -
  obtain c w1 where a: "next_call w = (c, w1)" by fastforce
  obtain d w2 where b: "retried_call w1 = (d, w2)" by fastforce
  have q: "quiet w w1" using next_call_quiet [OF quiet_refl, of w] a by simp
  have "c \<noteq> Error ENOENT" using next_call_script [OF a] undisturbedD [OF assms(3)] by blast
  moreover have "d \<noteq> Part k" for k
    using retried_call_script [OF b] undisturbedD [OF undisturbed_quiet [OF q assms(3)]] by blast
  moreover have "bf_files w1 = bf_files w" using next_call_same [OF a] by (auto simp: only_defs)
  ultimately show ?thesis using assms(1,2) a b
    by (auto simp: loader_read_attempts_def sys_call_def file_attempts_def split: call_end.splits option.splits if_splits)
qed

lemma combine_parts: "0 \<le> loader_combine_attempts d r \<Longrightarrow> 0 \<le> d \<and> 0 \<le> r"
  by (simp add: loader_combine_attempts_def split: if_splits)

lemma read_attempts_reads:
  assumes "read_attempts w = (n, w')" and "0 \<le> n" and "undisturbed w"
  shows "n = counted w"
proof -
  obtain d w1 where a: "loader_read_attempts LOADER_ATTEMPTS_FILE w = (d, w1)" by fastforce
  obtain r w2 where b: "loader_read_attempts LOADER_RUNTIME_ATTEMPTS_FILE w1 = (r, w2)" by fastforce
  have n: "n = loader_combine_attempts d r" using assms(1) a b by (simp add: read_attempts_def)
  have p: "0 \<le> d" "0 \<le> r" using combine_parts assms(2) n by blast+
  have q: "quiet w w1" using loader_read_attempts_quiet [OF quiet_refl, of w LOADER_ATTEMPTS_FILE] a by simp
  have "r = file_attempts (bf_files w1 LOADER_RUNTIME_ATTEMPTS_FILE)"
    by (rule loader_read_attempts_reads [OF b p(2) undisturbed_quiet [OF q assms(3)]])
  then show ?thesis using n loader_read_attempts_reads [OF a p(1) assms(3)] q by (simp add: counted_def quiet_def)
qed

lemma counted_quiet: "quiet w w' \<Longrightarrow> counted w' = counted w"
  by (simp add: counted_def quiet_def)

lemma recorded_steady: "steady w w' \<Longrightarrow> recorded n w' = recorded n w"
  by (simp add: recorded_def steady_def)

lemma attempts_paths [simp]:
  "LOADER_RUNTIME_ATTEMPTS_FILE \<noteq> LOADER_ATTEMPTS_FILE @ ''.new''" "LOADER_ATTEMPTS_FILE \<noteq> LOADER_RUNTIME_ATTEMPTS_FILE @ ''.new''"
  by simp_all

lemma only_files_flash:
  fixes w w' :: loader_world
  assumes "only_files P w w'"
  shows "lw_flash w' = lw_flash w \<and> (fs_ok w \<longrightarrow> fs_ok w') \<and> set (bf_script w') \<subseteq> set (bf_script w)"
  using assms more_same [of w' w] unfolding only_files_def by blast

lemma clear_files: "loader_clear_attempts p w = (r, w') \<Longrightarrow> only_files {p} w w'"
proof -
  assume run: "loader_clear_attempts p w = (r, w')"
  obtain e w1 where a: "sys_unlink p w = (e, w1)" by fastforce
  have 1: "only_files {p} w w1" using sys_unlink_ok [OF a] only_paths_files by blast
  have "only_files {p} w w'" if "sync_parent p w1 = (r, w')"
    using only_files_trans [OF 1, of "{}" w'] sync_parent_ok [OF that] by simp
  then show ?thesis using run 1 a by (auto simp: loader_clear_attempts_def split: if_splits)
qed

lemma record_attempt_ok:
  assumes run: "record_attempt h n w = (r, w')" and ok: "fs_ok w"
  shows "lw_flash w' = lw_flash w \<and> fs_ok w' \<and> (r = 0 \<longrightarrow> recorded n w')"
proof -
  obtain e1 w1 where a: "loader_ensure_directory LOADER_STATE_DIR w = (e1, w1)" by fastforce
  note f1 = only_files_flash [OF ensure_directory_files [OF a]]
  obtain e2 w2 where b: "(if e1 \<noteq> 0 then (e1, w1) else loader_store_attempts LOADER_ATTEMPTS_FILE n w1) = (e2, w2)"
    by fastforce
  have out: "store_outcome LOADER_ATTEMPTS_FILE (attempts_text n) w1 e2 w2" if "e1 = 0"
    using loader_store_attempts_outcome [of LOADER_ATTEMPTS_FILE n w1 e2 w2] b that f1 ok by simp
  have f2: "lw_flash w2 = lw_flash w" "fs_ok w2"
  proof -
    have "lw_flash w2 = lw_flash w1 \<and> fs_ok w2"
      using out b f1 ok only_files_flash by (cases "e1 = 0") (auto simp: store_outcome_def)
    then show "lw_flash w2 = lw_flash w" "fs_ok w2" using f1 by simp_all
  qed
  note run' = run [unfolded record_attempt_def a prod.case b Let_def]
  show ?thesis
  proof (cases "e2 = 0")
    case True
    then have e1: "e1 = 0" using b by (auto split: if_splits)
    obtain e3 w3 where c: "loader_clear_attempts LOADER_RUNTIME_ATTEMPTS_FILE w2 = (e3, w3)" by fastforce
    have f3: "only_files {LOADER_RUNTIME_ATTEMPTS_FILE} w2 w3" by (rule clear_files [OF c])
    then have "bf_files w3 LOADER_ATTEMPTS_FILE = bf_files w2 LOADER_ATTEMPTS_FILE" unfolding only_files_def by simp
    then have "recorded n w3" using out [OF e1] True by (simp add: recorded_def store_outcome_def)
    then show ?thesis using run' True c f2 only_files_flash [OF f3] by simp
  next
    case False
    define w3 where "w3 = log_note h (''cannot record the start attempt in '' @ LOADER_ATTEMPTS_FILE @ '': '' @ lh_strerror h (- e2)) w2"
    have q3: "quiet w2 w3" unfolding w3_def by (rule log_note_quiet) simp
    obtain e4 w4 where d: "loader_store_attempts LOADER_RUNTIME_ATTEMPTS_FILE n w3 = (e4, w4)" by fastforce
    have f3: "lw_flash w3 = lw_flash w" "fs_ok w3" using q3 f2 by (simp_all add: quiet_def)
    have out4: "store_outcome LOADER_RUNTIME_ATTEMPTS_FILE (attempts_text n) w3 e4 w4"
      using loader_store_attempts_outcome [OF d f3(2)] .
    then have f4: "lw_flash w4 = lw_flash w" "fs_ok w4" "e4 = 0 \<longrightarrow> recorded n w4"
      using f3 only_files_flash [of _ w3 w4] by (auto simp: store_outcome_def recorded_def)
    have q5: "quiet w4 (log_note h s w4)" for s by (rule log_note_quiet) simp
    obtain s where w': "w' = log_note h s w4" "r = e4"
      using run' False unfolding w3_def [symmetric] d by (auto split: if_splits)
    have st: "steady w4 w'" unfolding w' using q5 quiet_steady by blast
    show ?thesis using f4 w'(2) recorded_steady [OF st] st by (auto simp: steady_def)
  qed
qed

text \<open>What the next program inherits: the standard descriptors, the property area, no signal state.\<close>

definition clean_exec :: "loader_host \<Rightarrow> loader_world \<Rightarrow> bool" where
  "clean_exec h w \<longleftrightarrow>
     (\<forall>fd. 3 \<le> fd \<and> fd < 1024 \<and> lw_fds w fd = Some False \<longrightarrow> int fd = lh_workspace h) \<and>
     (\<forall>s\<in>set (lw_ignored w). s = 0 \<or> NSIG \<le> s) \<and> lw_blocked w = []"

lemma more_fields:
  fixes w w' :: loader_world
  assumes "boot_fs.more w' = boot_fs.more w"
  shows "lw_fds w' = lw_fds w \<and> lw_ignored w' = lw_ignored w \<and> lw_blocked w' = lw_blocked w"
  using assms by (cases w; cases w') simp

lemma clean_prepared:
  assumes "default_signals (prepare_descriptors (lh_workspace h) v) = (saved, v1)" and "sys_call v1 = (e, v2)"
  shows "clean_exec h v2"
proof -
  have "boot_fs.more v2 = boot_fs.more v1" using sys_call_same [OF assms(2)] by (simp add: only_defs)
  note same = more_fields [OF this]
  have "lw_fds v1 = lw_fds (prepare_descriptors (lh_workspace h) v)" using assms(1) by (auto simp: default_signals_def Let_def)
  moreover have "\<forall>fd. 3 \<le> fd \<and> fd < 1024 \<and> lw_fds (prepare_descriptors (lh_workspace h) v) fd = Some False \<longrightarrow> int fd = lh_workspace h"
    by (auto simp: prepare_descriptors_def mark_descriptors_def split_def split: option.splits if_splits)
  moreover have "\<forall>s\<in>set (lw_ignored v1). s = 0 \<or> NSIG \<le> s" "lw_blocked v1 = []"
    using assms(1) by (auto simp: default_signals_def Let_def not_le)
  ultimately show ?thesis using same by (simp add: clean_exec_def)
qed

lemma exec_daemon_ok:
  assumes "exec_daemon h rel n w = (Exec_Daemon args, w')"
  shows "args = daemon_arguments \<and> quiet w w' \<and> clean_exec h w'"
proof -
  define v where "v = flush_journal (log_note h (''exec '' @ LOADER_RELEASE_DAEMON @ '' of release '' @
      map (\<lambda>b. char_of (unat b)) (cstr (hdr_release (rl_header rel))) @ '' (start '' @ print_int n @ '' of 3)'')
      (let_vendor_startup_settle h w))"
  obtain saved v1 where a: "default_signals (prepare_descriptors (lh_workspace h) v) = (saved, v1)" by fastforce
  obtain e v2 where b: "sys_call v1 = (e, v2)" by fastforce
  have "quiet w v" unfolding v_def by (intro quiets quiet_refl)
  then have "quiet w v1" using default_signals_quiet [OF prepare_descriptors_quiet, of w v "lh_workspace h"] a by simp
  then have q2: "quiet w v2" using sys_call_quiet [of w v1] b by simp
  have "fst (enter_rescue h r x) \<noteq> Exec_Daemon args" for r x using enter_rescue_end [of h r x] by auto
  then have "e = 0 \<and> args = daemon_arguments \<and> w' = v2"
    using assms unfolding exec_daemon_def Let_def v_def [symmetric] a prod.case b by (auto split: if_splits) (metis fst_conv)+
  with q2 show ?thesis using clean_prepared [OF a b] by simp
qed

lemma start_daemon_ok:
  assumes run: "start_daemon h rel n w = (Exec_Daemon args, w')" and ok: "fs_ok w"
    and on: "on_res h rel" and some: "0 < hdr_image_bytes (rl_header rel)"
  shows "args = daemon_arguments \<and> lw_flash w' = lw_flash w \<and> lw_mounted w' = Some (release_bytes rel w) \<and>
    lh_runnable h (release_bytes rel w) \<and> recorded (n + 1) w' \<and> clean_exec h w'"
proof -
  have no: "fst (enter_rescue h r x) \<noteq> Exec_Daemon args" for r x using enter_rescue_end [of h r x] by auto
  have q0: "quiet w (announce_running h w)" by (intro quiets quiet_refl)
  obtain e1 w1 where a: "record_attempt h (n + 1) (announce_running h w) = (e1, w1)" by fastforce
  have ok0: "fs_ok (announce_running h w)" using q0 ok by (simp add: quiet_def)
  note r1 = record_attempt_ok [OF a ok0]
  obtain why w2 where b: "mount_release h rel w1 = (why, w2)" by fastforce
  note m = mount_release_ok [OF b on some]
  note run' = run [unfolded start_daemon_def Let_def a prod.case b]
  have e1: "e1 = 0" using run' no by (auto split: if_splits) (metis fst_conv)+
  have why: "why = None" using run' no e1 by (auto split: option.splits) (metis fst_conv)+
  have rn: "daemon_runnable h w2" using run' no e1 why by (auto split: if_splits) (metis fst_conv)+
  have ex: "exec_daemon h rel (n + 1) w2 = (Exec_Daemon args, w')" using run' e1 why rn by simp
  note x = exec_daemon_ok [OF ex]
  have same: "lw_flash w1 = lw_flash w" using r1 q0 by (simp add: quiet_def)
  then have "release_bytes rel w1 = release_bytes rel w" by (simp add: release_bytes_def)
  moreover have "recorded (n + 1) w'"
    using r1 e1 recorded_steady m recorded_steady [OF quiet_steady] x by blast
  ultimately show ?thesis using x m why rn same by (auto simp: quiet_def steady_def daemon_runnable_def)
qed

section \<open>A boot that ends in the daemon\<close>

lemma quiet_flash: "quiet w w' \<Longrightarrow> lw_flash w' = lw_flash w"
  by (simp add: quiet_def)

lemma inspect_ok:
  assumes run: "inspect h f r w = (f', r', p, w')" and fits: "res_fits h (lw_flash w)"
  shows "chip (lw_flash w') = chip (lw_flash w) \<and> quiet w (w'\<lparr>lw_flash := lw_flash w\<rparr>) \<and>
    lf_knob_held f' = lf_knob_held f \<and> lf_deploy_active f' = lf_deploy_active f \<and>
    (loader_decide f' = LOADER_START_DAEMON \<longrightarrow> genuine r' (chip (lw_flash w)) \<and> on_res h r' \<and>
      (undisturbed w \<longrightarrow> lf_boot_attempts f' = counted w)) \<and> (lf_deploy_active f \<longrightarrow> quiet w w')"
proof -
  obtain u w1 where a: "upgrade_pending h w = (u, w1)" by fastforce
  obtain e w2 where b: "sys_call w1 = (e, w2)" by fastforce
  have q2: "quiet w w2" using sys_call_quiet [OF upgrade_pending_quiet [OF quiet_refl], of w h] a b by simp
  have q2': "quiet w (w2\<lparr>lw_flash := lw_flash w\<rparr>)" using q2 by (simp add: quiet_def fs_ok_def)
  define g where "g = f\<lparr>lf_upgrade_pending := u \<noteq> None,
      lf_vendor_this_boot := (e = 0 \<and> bf_files w2 LOADER_VENDOR_MARKER \<noteq> None),
      lf_release := LOADER_RELEASE_MISSING, lf_boot_attempts := 0\<rparr>"
  have g: "lf_knob_held g = lf_knob_held f" "lf_deploy_active g = lf_deploy_active f" by (simp_all add: g_def)
  note run' = run [unfolded inspect_def a prod.case b Let_def g_def [symmetric]]
  show ?thesis
  proof (cases "lf_upgrade_pending g \<or> lf_knob_held g \<or> lf_vendor_this_boot g \<or> lf_deploy_active g")
    case True
    then have "f' = g" "w' = w2" using run' by auto
    then show ?thesis using q2 q2' g True loader_decide_start [of g] by (auto dest: quiet_flash)
  next
    case False
    obtain rel w3 where c: "inspect_release h w2 = (rel, w3)" by fastforce
    obtain n w4 where d: "read_attempts w3 = (n, w4)" by fastforce
    have fl: "lw_flash w2 = lw_flash w" using q2 by (rule quiet_flash)
    note i = inspect_release_ok [OF c, unfolded fl, OF fits]
    have q4: "quiet w3 w4" using read_attempts_quiet [OF quiet_refl, of w3] d by simp
    have q: "quiet w (w4\<lparr>lw_flash := lw_flash w\<rparr>)"
    proof -
      have "quiet (w3\<lparr>lw_flash := lw_flash w\<rparr>) (w4\<lparr>lw_flash := lw_flash w\<rparr>)" using q4 by (simp add: quiet_def fs_ok_def)
      then show ?thesis using i q2 quiet_trans by blast
    qed
    have eqs: "f' = g\<lparr>lf_release := rl_state rel, lf_boot_attempts := n\<rparr>" "r' = rel" "w' = w4"
      using run' False c d by auto
    have q3: "quiet w (w3\<lparr>lw_flash := lw_flash w\<rparr>)" using i q2 quiet_trans by blast
    have "loader_decide f' = LOADER_START_DAEMON \<longrightarrow> undisturbed w \<longrightarrow> n = counted w"
    proof (intro impI)
      assume "loader_decide f' = LOADER_START_DAEMON" and u: "undisturbed w"
      then have "0 \<le> n" using loader_decide_start [of f'] eqs by simp
      moreover have "undisturbed w3" using undisturbed_quiet [OF q3 u] by (simp add: undisturbed_def)
      ultimately have "n = counted w3" using read_attempts_reads d by blast
      then show "n = counted w" using q3 by (simp add: counted_def quiet_def)
    qed
    moreover have "loader_decide f' = LOADER_START_DAEMON \<longrightarrow> genuine r' (chip (lw_flash w)) \<and> on_res h r'"
      using i loader_decide_start [of f'] eqs by simp
    moreover have "chip (lw_flash w4) = chip (lw_flash w)" using i quiet_flash [OF q4] by simp
    moreover have "\<not> lf_deploy_active f" using False g by simp
    ultimately show ?thesis using q eqs g by simp
  qed
qed

lemma act_exec:
  assumes "act h choice why f rel w = (Exec_Daemon args, w')"
  shows "choice = LOADER_START_DAEMON \<and>
    start_daemon h rel (lf_boot_attempts f) (snd (sys_unlink LOADER_RESCUE_MARKER w)) = (Exec_Daemon args, w')"
proof -
  have no: "fst (enter_rescue h r x) \<noteq> Exec_Daemon args" for r x using enter_rescue_end [of h r x] by auto
  have nv: "fst (start_vendor h x) \<noteq> Exec_Daemon args" for x using no by (simp add: start_vendor_def Let_def split_def)
  have c: "choice = LOADER_START_DAEMON"
  proof (rule ccontr)
    assume "choice \<noteq> LOADER_START_DAEMON"
    then have "fst (act h choice why f rel w) \<noteq> Exec_Daemon args" using no nv by (simp add: act_def Let_def)
    then show False using assms by simp
  qed
  then show ?thesis using assms by (simp add: act_def Let_def loader_choice_resets_attempts_def loader_choice_rescues_def)
qed

definition started :: "loader_host \<Rightarrow> loader_world \<Rightarrow> string list \<Rightarrow> loader_world \<Rightarrow> bool" where
  "started h w args w' \<longleftrightarrow> args = daemon_arguments \<and> knob_state h \<noteq> 1 \<and> chip (lw_flash w') = chip (lw_flash w) \<and> clean_exec h w' \<and>
    (\<exists>rel n. 0 \<le> n \<and> n < LOADER_ATTEMPT_LIMIT \<and> genuine rel (chip (lw_flash w)) \<and>
       lw_mounted w' = Some (release_bytes rel w) \<and> lh_runnable h (release_bytes rel w) \<and> recorded (n + 1) w' \<and>
       (undisturbed w \<longrightarrow> n = counted w))"

lemma inspected_start:
  assumes run: "act h (loader_decide f') why f' r' (snd (snd (decide h k f' r' p v))) = (Exec_Daemon args, w')"
    and ins: "inspect h f r u = (f', r', p, v)" and q: "quiet w u" and fits: "res_fits h (lw_flash w)" and ok: "fs_ok w"
    and knob: "lf_knob_held f = (knob_state h = 1)"
  shows "started h w args w'"
proof -
  have fl: "lw_flash u = lw_flash w" using q by (rule quiet_flash)
  note i = inspect_ok [OF ins, unfolded fl, OF fits]
  define x where "x = snd (sys_unlink LOADER_RESCUE_MARKER (snd (snd (decide h k f' r' p v))))"
  have choice: "loader_decide f' = LOADER_START_DAEMON" and
    st: "start_daemon h r' (lf_boot_attempts f') x = (Exec_Daemon args, w')"
    using act_exec [OF run] by (simp_all add: x_def)
  have qx: "quiet v x" unfolding x_def by (intro sys_unlink_quiet quiets quiet_refl) simp
  have "fs_ok (v\<lparr>lw_flash := lw_flash w\<rparr>)" using i q ok unfolding quiet_def by blast
  then have "fs_ok x" using qx unfolding quiet_def by simp
  have gen: "genuine r' (chip (lw_flash w))" "on_res h r'" using i choice by blast+
  then have some: "0 < hdr_image_bytes (rl_header r')" by (simp add: genuine_def)
  note s = start_daemon_ok [OF st \<open>fs_ok x\<close> gen(2) some]
  have chips: "chip (lw_flash x) = chip (lw_flash w)" using quiet_flash [OF qx] i by simp
  then have bytes: "release_bytes r' x = release_bytes r' w" by (simp add: release_bytes_def)
  have "\<not> lf_knob_held f'" "0 \<le> lf_boot_attempts f'" "lf_boot_attempts f' < LOADER_ATTEMPT_LIMIT"
    using loader_decide_start choice by simp_all
  then show ?thesis unfolding started_def
  proof (intro conjI exI)
    show "args = daemon_arguments" "clean_exec h w'" "recorded (lf_boot_attempts f' + 1) w'" using s by blast+
    show "knob_state h \<noteq> 1" using i knob \<open>\<not> lf_knob_held f'\<close> by blast
    show "chip (lw_flash w') = chip (lw_flash w)" using s chips by simp
    show "genuine r' (chip (lw_flash w))" by (rule gen(1))
    show "undisturbed w \<longrightarrow> lf_boot_attempts f' = counted w"
      using i choice undisturbed_quiet [OF q] counted_quiet [OF q] by simp
    show "lw_mounted w' = Some (release_bytes r' w)" "lh_runnable h (release_bytes r' w)" using s bytes by simp_all
  qed
qed

lemma boot_started:
  assumes run: "onEasyUIInit h inp w = (Exec_Daemon args, w')" and ok: "fs_ok w" and fits: "res_fits h (lw_flash w)"
  shows "started h w args w'"
proof -
  let ?u = "select_usb_device h w"
  have q: "quiet w ?u" by (intro quiets quiet_refl)
  obtain a watch where t: "deploy_token_file_active True (of_nat AWTRIX_DEPLOY_TOKEN_STALE_SECONDS) (bi_first inp) fresh_watch = (a, watch)"
    by (metis surj_pair)
  obtain f r p v where i: "inspect h (fresh_facts (knob_state h = 1) a) zero_release ?u = (f, r, p, v)" by (metis prod_cases4)
  obtain c why v1 where d: "decide h (knob_state h) f r p v = (c, why, v1)" by (metis prod_cases3)
  have c: "c = loader_decide f" "v1 = snd (snd (decide h (knob_state h) f r p v))" using decide_choice d by (metis fst_conv) (simp add: d)
  have kf: "lf_knob_held (fresh_facts (knob_state h = 1) a) = (knob_state h = 1)" by (simp add: fresh_facts_def)
  note run' = run [unfolded onEasyUIInit_def Let_def t prod.case i d]
  show ?thesis
  proof (cases "c = LOADER_HOLD_DEPLOY")
    case False
    then have "act h (loader_decide f) why f r (snd (snd (decide h (knob_state h) f r p v))) = (Exec_Daemon args, w')"
      using run' c by simp
    then show ?thesis by (rule inspected_start [OF _ i q fits ok kf])
  next
    case True
    have fl: "lw_flash ?u = lw_flash w" using q by (rule quiet_flash)
    note io = inspect_ok [OF i, unfolded fl, OF fits]
    have "lf_deploy_active f" using True c loader_decide_hold by simp
    then have qv: "quiet w v" using io q quiet_trans by simp
    then have qv1: "quiet w v1" unfolding c(2) by (rule decide_quiet)
    obtain watch2 v2 where h: "hold_for_deploy h (bi_start inp) (bi_looks inp) watch v1 = Some (watch2, v2)"
      using run' True by (auto split: option.splits)
    have q2: "quiet w v2" using hold_for_deploy_quiet [OF h qv1] .
    obtain f3 r3 p3 v3 where i3: "inspect h (f\<lparr>lf_deploy_active := False\<rparr>) r v2 = (f3, r3, p3, v3)" by (metis prod_cases4)
    obtain c4 why4 v4 where d4: "decide h (knob_state h) f3 r3 p3 v3 = (c4, why4, v4)" by (metis prod_cases3)
    have c4: "c4 = loader_decide f3" "v4 = snd (snd (decide h (knob_state h) f3 r3 p3 v3))"
      using decide_choice d4 by (metis fst_conv) (simp add: d4)
    have "act h (loader_decide f3) why4 f3 r3 (snd (snd (decide h (knob_state h) f3 r3 p3 v3))) = (Exec_Daemon args, w')"
      using run' unfolding c4 [symmetric] by (simp only: True h i3 d4 option.case prod.case if_True simp_thms)
    moreover have "lf_knob_held (f\<lparr>lf_deploy_active := False\<rparr>) = (knob_state h = 1)" using io kf by simp
    ultimately show ?thesis by (rule inspected_start [OF _ i3 q2 fits ok])
  qed
qed

section \<open>Boots without faults\<close>

lemma fine_calls:
  assumes "bf_script w = []"
  shows "next_call w = (Whole, w)" and "sys_call w = (0, w)" and "retried_call w = (Whole, w)"
  using assms by (simp_all add: next_call_def sys_call_def retried_call_def)

lemma append_bytes_update [simp]:
  "append_bytes p s (w\<lparr>bf_files := f, bf_disk := d\<rparr>) =
     w\<lparr>bf_files := f(p := Some (case f p of None \<Rightarrow> s | Some old \<Rightarrow> old @ s)), bf_disk := d(p := Anything)\<rparr>"
  by (simp add: append_bytes_def)

lemma attempts_text_some [simp]: "attempts_text n \<noteq> []"
  by (simp add: attempts_text_def)

lemma store_fine:
  assumes "bf_script w = []" and "p \<noteq> []" and "length p + 4 < PATH_MAX"
  shows "fst (loader_store_attempts p n w) = 0"
proof -
  have "fst (sync_parent p v) = 0" if "bf_script v = []" for v :: "'a fs"
    using that assms(2,3) by (simp add: sync_parent_def fine_calls tc002_sync_parent_def Let_def)
  then show ?thesis using assms
    by (simp add: loader_store_attempts_def Let_def sys_create_def fine_calls write_all.simps sys_fsync_def sys_rename_def)
qed

lemma clear_fine:
  assumes "bf_script w = []"
  shows "bf_files (snd (loader_clear_attempts p w)) p = None"
proof -
  have "bf_files (snd (sync_parent p v)) = bf_files v" for v :: "'a fs"
    using sync_parent_ok [of p v] by (metis prod.collapse)
  then show ?thesis using assms by (simp add: loader_clear_attempts_def sys_unlink_def fine_calls split_def)
qed

lemma read_fine:
  assumes "bf_script w = []"
  shows "loader_read_attempts p w = (file_attempts (bf_files w p), w)"
  using assms by (simp add: loader_read_attempts_def fine_calls file_attempts_def split: option.split)

lemma read_attempts_fine: "bf_script w = [] \<Longrightarrow> read_attempts w = (counted w, w)"
  by (simp add: read_attempts_def read_fine counted_def)

lemma file_attempts_text: "0 \<le> n \<Longrightarrow> n \<le> 1000 \<Longrightarrow> file_attempts (Some (attempts_text n)) = n"
proof -
  assume n: "0 \<le> n" "n \<le> 1000"
  have len: "k < 10 ^ d \<Longrightarrow> length (print_nat 10 k) \<le> Suc d" for k d :: nat
  proof (induction d arbitrary: k)
    case (Suc d)
    then have "k div 10 < 10 ^ d" by (simp add: less_mult_imp_div_less mult.commute)
    then show ?case using Suc.IH [of "k div 10"] by (subst print_nat.simps) simp
  qed (simp add: print_nat.simps)
  have "length (print_nat 10 (nat n)) \<le> 5" using len [of "nat n" 4] n by simp
  then have "take 16 (attempts_text n) = attempts_text n" using n by (simp add: attempts_text_def print_int_def)
  then show ?thesis using attempts_roundtrip n by (simp add: file_attempts_def)
qed

lemma combine_range: "loader_combine_attempts d r = n \<Longrightarrow> 0 \<le> n \<Longrightarrow> 0 \<le> d \<and> d \<le> n \<and> 0 \<le> r \<and> r \<le> n"
  by (auto simp: loader_combine_attempts_def split: if_splits)

lemma record_attempt_fine:
  assumes fine: "bf_script w = []" and n: "counted w = n" "0 \<le> n" "n < 1000"
  shows "\<exists>w'. record_attempt h (n + 1) w = (0, w') \<and> counted w' = n + 1 \<and> bf_script w' = [] \<and> lw_flash w' = lw_flash w"
proof -
  have ok: "fs_ok w" using fine by (simp add: fs_ok_def)
  have old: "file_attempts (bf_files w LOADER_ATTEMPTS_FILE) \<le> n" "0 \<le> file_attempts (bf_files w LOADER_ATTEMPTS_FILE)"
    using combine_range n(1,2) unfolding counted_def by blast+
  obtain e1 w1 where a: "loader_ensure_directory LOADER_STATE_DIR w = (e1, w1)" by fastforce
  note f1 = ensure_directory_files [OF a]
  have w1: "bf_script w1 = []" "fs_ok w1" "bf_files w1 = bf_files w" "lw_flash w1 = lw_flash w"
    using only_files_flash [OF f1] fine ok f1 by (auto simp: only_files_def)
  show ?thesis
  proof (cases "e1 = 0")
    case True
    obtain e2 w2 where b: "loader_store_attempts LOADER_ATTEMPTS_FILE (n + 1) w1 = (e2, w2)" by fastforce
    have e2: "e2 = 0" using store_fine [OF w1(1), of LOADER_ATTEMPTS_FILE "n + 1"] b by simp
    have so: "store_outcome LOADER_ATTEMPTS_FILE (attempts_text (n + 1)) w1 0 w2"
      using loader_store_attempts_outcome [OF b w1(2)] e2 by simp
    have w2: "bf_script w2 = []" "lw_flash w2 = lw_flash w" "bf_files w2 LOADER_ATTEMPTS_FILE = Some (attempts_text (n + 1))"
      using so only_files_flash [of _ w1 w2] w1 by (auto simp: store_outcome_def)
    obtain e3 w3 where c: "loader_clear_attempts LOADER_RUNTIME_ATTEMPTS_FILE w2 = (e3, w3)" by fastforce
    note f3 = clear_files [OF c]
    have w3: "bf_script w3 = []" "lw_flash w3 = lw_flash w" "bf_files w3 LOADER_ATTEMPTS_FILE = Some (attempts_text (n + 1))"
      using only_files_flash [OF f3] w2 f3 by (auto simp: only_files_def)
    have "bf_files w3 LOADER_RUNTIME_ATTEMPTS_FILE = None"
      using clear_fine [OF w2(1), of LOADER_RUNTIME_ATTEMPTS_FILE] c by simp
    then have "counted w3 = n + 1"
      using w3(3) n file_attempts_text [of "n + 1"] by (simp add: counted_def loader_combine_attempts_def file_attempts_def [of None])
    then show ?thesis using a True b e2 c w3 by (simp add: record_attempt_def)
  next
    case False
    define w2 where "w2 = log_note h (''cannot record the start attempt in '' @ LOADER_ATTEMPTS_FILE @ '': '' @ lh_strerror h (- e1)) w1"
    have "quiet w1 w2" unfolding w2_def by (intro quiets quiet_refl)
    then have w2: "bf_script w2 = []" "fs_ok w2" "lw_flash w2 = lw_flash w"
      "bf_files w2 LOADER_ATTEMPTS_FILE = bf_files w LOADER_ATTEMPTS_FILE" using w1 by (simp_all add: quiet_def)
    obtain e3 w3 where c: "loader_store_attempts LOADER_RUNTIME_ATTEMPTS_FILE (n + 1) w2 = (e3, w3)" by fastforce
    have e3: "e3 = 0" using store_fine [OF w2(1), of LOADER_RUNTIME_ATTEMPTS_FILE "n + 1"] c by simp
    have so: "store_outcome LOADER_RUNTIME_ATTEMPTS_FILE (attempts_text (n + 1)) w2 0 w3"
      using loader_store_attempts_outcome [OF c w2(2)] e3 by simp
    then have f3: "only_files {LOADER_RUNTIME_ATTEMPTS_FILE, LOADER_RUNTIME_ATTEMPTS_FILE @ ''.new''} w2 w3"
      by (simp add: store_outcome_def)
    then have "bf_files w3 LOADER_ATTEMPTS_FILE = bf_files w LOADER_ATTEMPTS_FILE" using w2(4) unfolding only_files_def by simp
    moreover have "bf_files w3 LOADER_RUNTIME_ATTEMPTS_FILE = Some (attempts_text (n + 1))" using so by (simp add: store_outcome_def)
    ultimately have cnt: "counted w3 = n + 1"
      using old n file_attempts_text [of "n + 1"] by (simp add: counted_def loader_combine_attempts_def)
    let ?v = "log_note h (''counting starts until the next boot in '' @ LOADER_RUNTIME_ATTEMPTS_FILE) w3"
    have qv: "quiet w3 ?v" by (intro quiets quiet_refl)
    have "record_attempt h (n + 1) w = (0, ?v)"
      unfolding record_attempt_def a prod.case Let_def using False by (simp only: if_True w2_def [symmetric] c prod.case e3 simp_thms) simp
    then show ?thesis using qv cnt counted_quiet [OF qv] only_files_flash [OF f3] w2 by (simp add: quiet_def)
  qed
qed

lemma fine_quiet: "quiet w w' \<Longrightarrow> bf_script w = [] \<Longrightarrow> bf_script w' = []"
  by (simp add: quiet_def)

lemma open_node_fine:
  "bf_script w = [] \<Longrightarrow> open_node p d w = (Inr d, w\<lparr>lw_nodes := (lw_nodes w)(p \<mapsto> d)\<rparr>)"
  by (simp add: open_node_def unlink_node_def fine_calls Let_def)

lemma mount_release_fine: "bf_script w = [] \<Longrightarrow> fst (mount_release h rel w) = None"
  by (simp add: mount_release_def load_loop_module_def attach_loop_def open_node_fine unlink_node_def loop_set_fd_def
      loop_set_status_def loop_number_def sys_mount_def loop_shows_def fine_calls Let_def)

lemma exec_daemon_fine: "bf_script w = [] \<Longrightarrow> fst (exec_daemon h rel n w) = Exec_Daemon daemon_arguments"
proof -
  assume fine: "bf_script w = []"
  define v where "v = flush_journal (log_note h (''exec '' @ LOADER_RELEASE_DAEMON @ '' of release '' @
      map (\<lambda>b. char_of (unat b)) (cstr (hdr_release (rl_header rel))) @ '' (start '' @ print_int n @ '' of 3)'')
      (let_vendor_startup_settle h w))"
  obtain saved v1 where a: "default_signals (prepare_descriptors (lh_workspace h) v) = (saved, v1)" by fastforce
  have "quiet w v" unfolding v_def by (intro quiets quiet_refl)
  then have "quiet w v1" using default_signals_quiet [OF prepare_descriptors_quiet, of w v "lh_workspace h"] a by simp
  then have "sys_call v1 = (0, v1)" using fine_quiet fine fine_calls(2) by blast
  then show ?thesis unfolding exec_daemon_def Let_def v_def [symmetric] a prod.case by simp
qed

lemma start_daemon_fine:
  assumes fine: "bf_script w = []" and n: "counted w = n" "0 \<le> n" "n < 1000" and run: "lh_runnable h (release_bytes rel w)"
    and on: "on_res h rel" and some: "0 < hdr_image_bytes (rl_header rel)"
  shows "\<exists>w'. start_daemon h rel n w = (Exec_Daemon daemon_arguments, w') \<and> counted w' = n + 1"
proof -
  let ?a = "announce_running h w"
  have q: "quiet w ?a" by (intro quiets quiet_refl)
  have a: "bf_script ?a = []" "counted ?a = n" "lw_flash ?a = lw_flash w"
    using fine_quiet [OF q fine] counted_quiet [OF q] n quiet_flash [OF q] by simp_all
  obtain w1 where r: "record_attempt h (n + 1) ?a = (0, w1)" "counted w1 = n + 1" "bf_script w1 = []" "lw_flash w1 = lw_flash ?a"
    using record_attempt_fine [OF a(1,2) n(2,3)] by blast
  obtain w2 where m: "mount_release h rel w1 = (None, w2)" using mount_release_fine [OF r(3)] by (metis prod.collapse)
  note mo = mount_release_ok [OF m on some]
  have w2: "bf_script w2 = []" "counted w2 = n + 1" using mo r by (simp_all add: steady_def counted_def)
  have "release_bytes rel w1 = release_bytes rel w" using r(4) a(3) by (simp add: release_bytes_def)
  then have rn: "daemon_runnable h w2" using mo run by (simp add: daemon_runnable_def)
  obtain w3 where x: "exec_daemon h rel (n + 1) w2 = (Exec_Daemon daemon_arguments, w3)"
    using exec_daemon_fine [OF w2(1)] by (metis prod.collapse)
  have "counted w3 = n + 1" using exec_daemon_ok [OF x] counted_quiet [of w2 w3] w2(2) by simp
  then show ?thesis unfolding start_daemon_def Let_def r(1) m prod.case using x rn by simp
qed

text \<open>A clock that would start its daemon: nothing fails, nobody interferes, and the release is runnable.\<close>

definition ready :: "loader_host \<Rightarrow> boot_input \<Rightarrow> loader_world \<Rightarrow> bool" where
  "ready h inp w \<longleftrightarrow> bf_script w = [] \<and> knob_state h \<noteq> 1 \<and> bf_files w LOADER_VENDOR_MARKER = None \<and>
     \<not> loader_upgrade_requested (Some (take 91 (lw_props w ''sys.zkupgrade.flag''))) \<and>
     \<not> fst (deploy_token_file_active True (of_nat AWTRIX_DEPLOY_TOKEN_STALE_SECONDS) (bi_first inp) fresh_watch) \<and>
     rl_state (fst (inspect_release h w)) = LOADER_RELEASE_VALID \<and>
     lh_runnable h (release_bytes (fst (inspect_release h w)) w)"

lemma upgrade_pending_none:
  "\<not> loader_upgrade_requested (Some (take 91 (lw_props w ''sys.zkupgrade.flag''))) \<Longrightarrow> upgrade_pending h w = (None, w)"
  by (auto simp: upgrade_pending_def property_get_def loader_upgrade_requested_def)

lemma inspect_release_cong:
  assumes "bf_script w = []" and "bf_script u = []" and "lw_flash u = lw_flash w"
  shows "fst (inspect_release h u) = fst (inspect_release h w)"
  using assms by (simp add: inspect_release_def fine_calls Let_def split_def split: sum.split)

lemma ready_inspect:
  assumes r: "ready h inp w" and fits: "res_fits h (lw_flash w)" and q: "quiet w u"
  shows "\<exists>v. inspect h (fresh_facts False False) zero_release u =
      (\<lparr>lf_upgrade_pending = False, lf_knob_held = False, lf_vendor_this_boot = False, lf_deploy_active = False,
        lf_release = LOADER_RELEASE_VALID, lf_boot_attempts = counted w\<rparr>, fst (inspect_release h w), [], v) \<and>
    bf_script v = [] \<and> counted v = counted w \<and> chip (lw_flash v) = chip (lw_flash w) \<and>
    on_res h (fst (inspect_release h w)) \<and> 0 < hdr_image_bytes (rl_header (fst (inspect_release h w)))"
proof -
  have fine: "bf_script u = []" using r fine_quiet [OF q] by (simp add: ready_def)
  have fl: "lw_flash u = lw_flash w" using q by (rule quiet_flash)
  have up: "upgrade_pending h u = (None, u)" using r q by (intro upgrade_pending_none) (simp add: ready_def quiet_def)
  have mk: "bf_files u LOADER_VENDOR_MARKER = None" using r q by (simp add: ready_def quiet_def)
  obtain rel v where i: "inspect_release h u = (rel, v)" by fastforce
  have rel: "rel = fst (inspect_release h w)" using inspect_release_cong [of w u h] r fine fl i by (simp add: ready_def)
  note io = inspect_release_ok [OF i, unfolded fl, OF fits]
  have "quiet u (v\<lparr>lw_flash := lw_flash u\<rparr>)" using io fl by simp
  then have v: "bf_script v = []" "counted v = counted w" using fine q by (auto simp: quiet_def counted_def)
  have "rl_state rel = LOADER_RELEASE_VALID" using r rel by (simp add: ready_def)
  then show ?thesis unfolding inspect_def up prod.case using fine_calls(2) [OF fine] mk i v io read_attempts_fine [OF v(1)] rel
    by (simp add: Let_def fresh_facts_def genuine_def)
qed

lemma clear_attempts_fine:
  assumes fine: "bf_script w = []"
  shows "counted (clear_attempts w) = 0"
proof -
  obtain e1 w1 where a: "loader_clear_attempts LOADER_ATTEMPTS_FILE w = (e1, w1)" by fastforce
  obtain e2 w2 where b: "loader_clear_attempts LOADER_RUNTIME_ATTEMPTS_FILE w1 = (e2, w2)" by fastforce
  have f1: "bf_script w1 = []" using only_files_flash [OF clear_files [OF a]] fine by simp
  have "bf_files w1 LOADER_ATTEMPTS_FILE = None" using clear_fine [OF fine, of LOADER_ATTEMPTS_FILE] a by simp
  moreover have "bf_files w2 LOADER_ATTEMPTS_FILE = bf_files w1 LOADER_ATTEMPTS_FILE"
    using clear_files [OF b] unfolding only_files_def by simp
  moreover have "bf_files w2 LOADER_RUNTIME_ATTEMPTS_FILE = None"
    using clear_fine [OF f1, of LOADER_RUNTIME_ATTEMPTS_FILE] b by simp
  ultimately show ?thesis
    by (simp add: clear_attempts_def a b counted_def file_attempts_def loader_combine_attempts_def)
qed

lemma boot_counts:
  assumes r: "ready h inp w" and fits: "res_fits h (lw_flash w)"
  shows "(0 \<le> counted w \<and> counted w < LOADER_ATTEMPT_LIMIT \<longrightarrow>
      (\<exists>w'. onEasyUIInit h inp w = (Exec_Daemon daemon_arguments, w') \<and> counted w' = counted w + 1)) \<and>
    (counted w < 0 \<or> LOADER_ATTEMPT_LIMIT \<le> counted w \<longrightarrow>
      fst (onEasyUIInit h inp w) \<in> {Exec_Idle_Shell, Idle_In_Process} \<and> counted (snd (onEasyUIInit h inp w)) = 0)"
proof -
  let ?u = "select_usb_device h w" and ?rel = "fst (inspect_release h w)"
  have q: "quiet w ?u" by (intro quiets quiet_refl)
  obtain watch where t: "deploy_token_file_active True (of_nat AWTRIX_DEPLOY_TOKEN_STALE_SECONDS) (bi_first inp) fresh_watch = (False, watch)"
    using r unfolding ready_def by (metis (full_types) prod.collapse)
  define f where "f = \<lparr>lf_upgrade_pending = False, lf_knob_held = False, lf_vendor_this_boot = False, lf_deploy_active = False,
        lf_release = LOADER_RELEASE_VALID, lf_boot_attempts = counted w\<rparr>"
  obtain v where i: "inspect h (fresh_facts False False) zero_release ?u = (f, ?rel, [], v)"
    and v: "bf_script v = []" "counted v = counted w" "chip (lw_flash v) = chip (lw_flash w)"
    and rel: "on_res h ?rel" "0 < hdr_image_bytes (rl_header ?rel)"
    using ready_inspect [OF r fits q] unfolding f_def by blast
  have k: "(knob_state h = 1) = False" using r by (simp add: ready_def)
  obtain c why v1 where d: "decide h (knob_state h) f ?rel [] v = (c, why, v1)" by (metis prod_cases3)
  have c: "c = loader_decide f" using decide_choice d by (metis fst_conv)
  have q1: "quiet v v1" using decide_quiet [OF quiet_refl, of v h "knob_state h" f ?rel "[]"] d by simp
  have v1: "bf_script v1 = []" "counted v1 = counted w" "chip (lw_flash v1) = chip (lw_flash w)"
    using fine_quiet [OF q1 v(1)] counted_quiet [OF q1] v quiet_flash [OF q1] by simp_all
  have nh: "c \<noteq> LOADER_HOLD_DEPLOY" unfolding c using loader_decide_hold by (simp add: f_def)
  have boot: "onEasyUIInit h inp w = act h c why f ?rel v1"
    unfolding onEasyUIInit_def Let_def t prod.case k i d using nh by (simp only: if_False)
  show ?thesis
  proof (cases "0 \<le> counted w \<and> counted w < LOADER_ATTEMPT_LIMIT")
    case True
    then have cs: "c = LOADER_START_DAEMON" unfolding c loader_decide_start by (simp add: f_def)
    let ?x = "snd (sys_unlink LOADER_RESCUE_MARKER v1)"
    have qx: "quiet v1 ?x" by (rule sys_unlink_quiet) simp_all
    have x: "bf_script ?x = []" "counted ?x = counted w" "release_bytes ?rel ?x = release_bytes ?rel w"
      using fine_quiet [OF qx v1(1)] counted_quiet [OF qx] v1 quiet_flash [OF qx] by (simp_all add: release_bytes_def)
    have "lh_runnable h (release_bytes ?rel ?x)" using r x(3) by (simp add: ready_def)
    then obtain w' where "start_daemon h ?rel (counted w) ?x = (Exec_Daemon daemon_arguments, w')" "counted w' = counted w + 1"
      using start_daemon_fine [OF x(1,2), of h ?rel] True rel by auto
    then show ?thesis using True boot cs
      by (simp add: act_def Let_def loader_choice_resets_attempts_def loader_choice_rescues_def f_def)
  next
    case False
    then have cs: "c = LOADER_RESCUE_UNHEALTHY" unfolding c loader_decide_unhealthy by (auto simp: f_def)
    have b: "onEasyUIInit h inp w = enter_rescue h why (clear_attempts v1)"
      unfolding boot cs by (simp add: act_def Let_def loader_choice_resets_attempts_def loader_choice_rescues_def)
    have "counted (snd (enter_rescue h why (clear_attempts v1))) = 0"
      using counted_quiet [OF enter_rescue_quiet [OF quiet_refl]] clear_attempts_fine [OF v1(1)] by metis
    then show ?thesis using False b enter_rescue_end [of h why "clear_attempts v1"] by auto
  qed
qed

section \<open>The hold ends\<close>

lemma hold_loop_ends:
  assumes "looks ! k = (look, t1, t2)" and "k < length looks" and "end_time \<le> t1 \<or> isl (look_stat look)"
  shows "hold_loop h end_time usb_at looks watch w \<noteq> None"
  using assms
proof (induction looks arbitrary: k usb_at watch w)
  case (Cons l looks)
  obtain lk a b where l: "l = (lk, a, b)" by (cases l) auto
  obtain act watch' where t: "deploy_token_file_active True (of_nat AWTRIX_DEPLOY_TOKEN_STALE_SECONDS) lk watch = (act, watch')"
    by fastforce
  show ?case
  proof (cases k)
    case 0
    then have "\<not> (act \<and> a < end_time)" using Cons.prems l t by (auto simp: deploy_token_file_active_def isl_def)
    then show ?thesis using l t by auto
  next
    case (Suc j)
    then show ?thesis using Cons.IH [of j] Cons.prems l t by (simp add: Let_def)
  qed
qed simp

section \<open>A clock to boot\<close>

definition example_loader_host :: loader_host where
  "example_loader_host = \<lparr>lh_stamp = (\<lambda>_. ''[    1.00s] -------- ''), lh_uptime = (\<lambda>_. ''[1.00s] ''), lh_strerror = (\<lambda>_. ''error''),
     lh_ms = (\<lambda>_. ''0''), lh_age = 1, lh_input = None, lh_get = True, lh_get_fails = (\<lambda>_. False), lh_set = True,
     lh_setprop_status = 0, lh_proc_open = 0, lh_proc_mtd = [Inr (proc_mtd [example_entry])], lh_loop_number = 0, lh_mtdblock = (\<lambda>_. []), lh_pipe = (4, 5),
     lh_runnable = (\<lambda>_. True), lh_workspace = 9, lh_gpio = True, lh_token_left = False, lh_vendor_init = True\<rparr>"

definition example_boot :: "mtd_world \<Rightarrow> int \<Rightarrow> loader_world" where
  "example_boot fl n = \<lparr>bf_files = [LOADER_ATTEMPTS_FILE \<mapsto> attempts_text n], bf_disk = (\<lambda>_. Anything),
     bf_dirs = [LOADER_DATA_DIR, LOADER_STATE_DIR], bf_script = [], lw_journal = [], lw_notes = 0, lw_props = (\<lambda>_. []),
     lw_role = ''usb_device'', lw_last = [CHR 0x0A], lw_hold = 0, lw_lines = 0, lw_fds = [0 \<mapsto> False, 7 \<mapsto> False, 9 \<mapsto> False],
     lw_ignored = [13], lw_blocked = [17], lw_flash = fl, lw_nodes = (\<lambda>_. None),
     lw_loops = (\<lambda>_. None), lw_mounted = None, lw_events = []\<rparr>"

definition example_input :: boot_input where
  "example_input = \<lparr>bi_first = (example_look 50)\<lparr>look_stat := Inl ENOENT\<rparr>, bi_start = 0, bi_looks = []\<rparr>"

lemma example_counted: "0 \<le> n \<Longrightarrow> n \<le> 1000 \<Longrightarrow> counted (example_boot fl n) = n"
  using file_attempts_text [of n] by (simp add: counted_def example_boot_def file_attempts_def [of None] loader_combine_attempts_def)

lemma example_found:
  "read_small_file (lh_proc_open example_loader_host) (lh_proc_mtd example_loader_host) 4096 = Inr (proc_mtd [example_entry])"
  "mtd_table_find_name (proc_mtd [example_entry]) ''res'' = Inr example_entry"
proof -
  have "length (proc_mtd [example_entry]) < 4095" "proc_mtd [example_entry] \<noteq> []" by (simp_all add: example_table)
  then show "read_small_file (lh_proc_open example_loader_host) (lh_proc_mtd example_loader_host) 4096 = Inr (proc_mtd [example_entry])"
    by (simp add: read_small_file_def example_loader_host_def)
  show "mtd_table_find_name (proc_mtd [example_entry]) ''res'' = Inr example_entry"
    using example_entry_ok by (simp add: mtd_table_find_name_def find_entry_eq table_entries_proc unique_entry_def example_entry_def)
qed

lemma example_ready:
  "\<exists>fl. \<forall>n. ready example_loader_host example_input (example_boot fl n) \<and>
     res_fits example_loader_host (lw_flash (example_boot fl n))"
proof -
  obtain rep w where run: "slot_write sys_malloc (mtd_flash 1024 256) (range_source 0 (length example_image))
      example_release (example_res []) = (0, rep, w)" and job: "job_ok 1024 0 example_image w"
    using example_slot_write by blast
  have ans: "slot_answer 1024 256 True (chip w) = 0"
    using mtd_job.slot_write_readable [OF run fine_ok_job [OF example_res_fine] example_release_ok] by simp
  define fl where "fl = w\<lparr>script := []\<rparr>"
  have fine: "fine_ok 1024 0 example_image fl"
    using job by (simp add: fine_ok_def job_ok_def chip_ok_def script_ok_def fl_def)
  have "fst (slot_read sys_malloc (mtd_flash 1024 256) True fl) = 0"
    using slot_read_fine [OF fine, of 256 True] ans by (simp add: fl_def)
  moreover have "slot_read sys_malloc (mtd_flash 1024 256) True fl = slot_read sys_malloc (res_device example_entry) True fl"
    by (rule slot_read_cong)
      (simp_all add: mtd_flash_def res_device_def example_entry_def mtd_read_def [abs_def] read_descriptor_def [abs_def])
  ultimately have rd: "fst (slot_read sys_malloc (res_device example_entry) True fl) = 0" by simp
  have fits: "res_fits example_loader_host fl"
    using fine example_found by (auto simp: res_fits_def example_entry_def fine_ok_def job_ok_def chip_ok_def)
  have "rl_state (fst (inspect_release example_loader_host (example_boot fl n))) = LOADER_RELEASE_VALID" for n
    using rd example_found by (simp add: inspect_release_def res_partition_def fine_calls example_boot_def Let_def split_def)
  moreover have "knob_state example_loader_host \<noteq> 1" by (simp add: knob_state_def example_loader_host_def)
  moreover have "\<not> fst (deploy_token_file_active True (of_nat AWTRIX_DEPLOY_TOKEN_STALE_SECONDS) (bi_first example_input) fresh_watch)"
    by (simp add: deploy_token_file_active_def example_input_def)
  moreover have "lh_runnable example_loader_host x" for x by (simp add: example_loader_host_def)
  ultimately have "ready example_loader_host example_input (example_boot fl n)" for n
    by (simp add: ready_def) (simp add: example_boot_def loader_upgrade_requested_def)
  moreover have "lw_flash (example_boot fl n) = fl" for n by (simp add: example_boot_def)
  ultimately show ?thesis using fits by (intro exI [of _ fl]) simp
qed

section \<open>Properties\<close>

text \<open>
  C3. What it takes to start the daemon, whatever calls fail on the way: when the loader executes it, what
  the loop device shows at the mount point - from the offset and up to the size limit that it was given,
  on the flash partition that it was bound to - is the image whose SHA-256 its header on the flash names,
  the daemon in it is executable, fewer than three starts had been counted, the number that the counter
  files held and one more is on record in one of them (the number held, as long as no read was cut short
  and no file that is there seemed missing), the knob is not held, the flash is untouched, and the daemon inherits no
  descriptor below 1024 beyond the standard ones and the property area, no ignored and no blocked signal.
\<close>

theorem daemon_start_sound:
  assumes "onEasyUIInit h inp w = (Exec_Daemon args, w')" and "fs_ok w" and "res_fits h (lw_flash w)"
  shows "args = daemon_arguments \<and> knob_state h \<noteq> 1 \<and> chip (lw_flash w') = chip (lw_flash w) \<and> clean_exec h w' \<and>
    (\<exists>rel n. 0 \<le> n \<and> n < LOADER_ATTEMPT_LIMIT \<and> genuine rel (chip (lw_flash w)) \<and>
       lw_mounted w' = Some (release_bytes rel w) \<and> lh_runnable h (release_bytes rel w) \<and> recorded (n + 1) w' \<and>
       (undisturbed w \<longrightarrow> n = counted w))"
  using boot_started [OF assms] unfolding started_def .

text \<open>
  C6. Unhealthy starts are bounded: on a clock that would start its daemon, a boot starts it while fewer than
  three starts are counted, and counts one more; with three of them (or a counter it cannot read) it shows
  the rescue message instead and leaves the counter at 0, so that the next power-on tries again.
\<close>

theorem boots_are_counted:
  assumes "ready h inp w" and "res_fits h (lw_flash w)"
  shows "(0 \<le> counted w \<and> counted w < LOADER_ATTEMPT_LIMIT \<longrightarrow>
      (\<exists>w'. onEasyUIInit h inp w = (Exec_Daemon daemon_arguments, w') \<and> counted w' = counted w + 1)) \<and>
    (counted w < 0 \<or> LOADER_ATTEMPT_LIMIT \<le> counted w \<longrightarrow>
      fst (onEasyUIInit h inp w) \<in> {Exec_Idle_Shell, Idle_In_Process} \<and> counted (snd (onEasyUIInit h inp w)) = 0)"
  using assms by (rule boot_counts)

theorem boots_are_counted_witness:
  "\<exists>fl. (\<exists>w'. onEasyUIInit example_loader_host example_input (example_boot fl 2) = (Exec_Daemon daemon_arguments, w') \<and> counted w' = 3) \<and>
     counted (snd (onEasyUIInit example_loader_host example_input (example_boot fl 3))) = 0"
proof -
  obtain fl where r: "\<And>n. ready example_loader_host example_input (example_boot fl n)"
    "\<And>n. res_fits example_loader_host (lw_flash (example_boot fl n))"
    using example_ready by blast
  note b = boots_are_counted [OF r]
  have "counted (example_boot fl 2) = 2" "counted (example_boot fl 3) = 3" using example_counted by simp_all
  then have "\<exists>w'. onEasyUIInit example_loader_host example_input (example_boot fl 2) = (Exec_Daemon daemon_arguments, w') \<and> counted w' = 3"
    "counted (snd (onEasyUIInit example_loader_host example_input (example_boot fl 3))) = 0"
    using b [of 2] b [of 3] by auto
  then show ?thesis by blast
qed

theorem daemon_start_sound_witness:
  "\<exists>fl w'. onEasyUIInit example_loader_host example_input (example_boot fl 2) = (Exec_Daemon daemon_arguments, w') \<and>
     clean_exec example_loader_host w' \<and> recorded 3 w' \<and>
     (\<exists>rel. genuine rel (chip fl) \<and> lw_mounted w' = Some (release_bytes rel (example_boot fl 2)))"
proof -
  obtain fl where r: "ready example_loader_host example_input (example_boot fl 2)"
    "res_fits example_loader_host (lw_flash (example_boot fl 2))"
    using example_ready by blast
  have f: "chip (lw_flash (example_boot fl 2)) = chip fl" "fs_ok (example_boot fl 2)" by (simp_all add: example_boot_def fs_ok_def)
  have u: "undisturbed (example_boot fl 2)" by (simp add: undisturbed_def example_boot_def)
  have c: "counted (example_boot fl 2) = 2" using example_counted by simp
  then obtain w' where b: "onEasyUIInit example_loader_host example_input (example_boot fl 2) = (Exec_Daemon daemon_arguments, w')"
    using boot_counts [OF r] by auto
  from daemon_start_sound [OF b f(2) r(2)] obtain rel n where "genuine rel (chip fl)" "recorded (n + 1) w'" "n = 2"
    "lw_mounted w' = Some (release_bytes rel (example_boot fl 2))" "clean_exec example_loader_host w'"
    unfolding f(1) using u c by auto
  then show ?thesis using b by auto
qed

text \<open>
  C15. The counter file is replaced atomically, whatever call fails: a reader finds the old or the new text,
  and so does the next boot after a power cut at any point; once store has returned 0 both find the new
  one. No other file than the temporary one is touched.
\<close>

theorem store_is_atomic:
  assumes "loader_store_attempts p n w = (r, w')" and "fs_ok w" and "bf_disk w p = One_Of cs"
  shows "(\<forall>q. q \<noteq> p \<and> q \<noteq> p @ ''.new'' \<longrightarrow> bf_files w' q = bf_files w q) \<and>
    bf_files w' p \<in> {bf_files w p, Some (attempts_text n)} \<and>
    (\<exists>cs'. bf_disk w' p = One_Of cs' \<and> set cs' \<subseteq> insert (Some (attempts_text n)) (set cs)) \<and>
    (r = 0 \<longrightarrow> bf_files w' p = Some (attempts_text n) \<and> bf_disk w' p = One_Of [Some (attempts_text n)])"
  using loader_store_attempts_outcome [OF assms(1,2)] assms(3) by (auto simp: store_outcome_def only_files_def)

definition example_files :: "call_end list \<Rightarrow> boot_fs" where
  "example_files cs = \<lparr>bf_files = [''/data/n'' \<mapsto> attempts_text 1], bf_disk = (\<lambda>_. One_Of [Some (attempts_text 1)]),
     bf_dirs = [], bf_script = cs\<rparr>"

theorem store_is_atomic_witness:
  "\<exists>r w' cs'. loader_store_attempts ''/data/n'' 2 (example_files [Whole, Part 1, Error EINTR, Whole, Error EIO]) = (r, w') \<and>
     bf_disk w' ''/data/n'' = One_Of cs' \<and> set cs' \<subseteq> {Some (attempts_text 1), Some (attempts_text 2)}"
proof -
  let ?w = "example_files [Whole, Part 1, Error EINTR, Whole, Error EIO]"
  obtain r w' where run: "loader_store_attempts ''/data/n'' 2 ?w = (r, w')" by fastforce
  have "fs_ok ?w" "bf_disk ?w ''/data/n'' = One_Of [Some (attempts_text 1)]" by (auto simp: fs_ok_def example_files_def)
  from store_is_atomic [OF run this] run show ?thesis by (auto simp: insert_commute)
qed

text \<open>
  The counter file reads back: what store writes for 0 to 1000 starts is parsed to the same number, and
  the parser's answer is never outside -1 to 1000, whatever the file holds.
\<close>

theorem attempts_read_back:
  assumes "0 \<le> n" and "n \<le> 1000"
  shows "loader_parse_attempts (attempts_text n) = n \<and> loader_parse_attempts s \<in> {- 1 .. 1000}"
  using attempts_roundtrip [OF assms] loader_parse_attempts_range by blast

theorem attempts_read_back_witness: "loader_parse_attempts (attempts_text 17) = 17"
  using attempts_read_back [of 17 "[]"] by simp

text \<open>
  Waiting for a deploy ends: the hold returns at the latest with the first turn that comes after its
  half hour or finds no token.
\<close>

theorem deploy_hold_ends:
  assumes "k < length looks" and "looks ! k = (look, t1, t2)"
    and "start + of_nat AWTRIX_DEPLOY_HOLD_SECONDS \<le> t1 \<or> isl (look_stat look)"
  shows "hold_for_deploy h start looks watch w \<noteq> None"
  using hold_loop_ends [OF assms(2,1,3), of h 0 watch "flush_journal (announce_running h w)"]
  by (auto simp: hold_for_deploy_def)

theorem deploy_hold_ends_witness:
  "hold_for_deploy example_loader_host 10 [(example_look 50, 50, 50), (example_look 1900, 1900, 1900)] fresh_watch
     (example_boot (example_res []) 0) \<noteq> None"
  using deploy_hold_ends [of 1 "[(example_look 50, 50, 50), (example_look 1900, 1900, 1900)]" "example_look 1900" 1900 1900 10]
  by simp

text \<open>
  The rescue message is drawn inside the frame buffer: no pixel of USB over RECOVERY is written outside
  the 3072 bytes that go to the panel.
\<close>

theorem rescue_frame_fits: "\<exists>f. rescue_frame = Some f \<and> length f = PANEL_FRAME_BYTES"
  by (rule rescue_frame_drawn)

end
