(* ===== verification/Audio_Protocol.thy ===== *)
theory Audio_Protocol
  imports Prelude
begin

text \<open>
  \<open>tc002/contract/AudioProtocol.h\<close> and the volume table of \<open>core/sound/VolumeCurve.h\<close>: the
  messages between awtrix-linux and the audio helper. An encoder takes the output buffer, whose
  length is the C code's \<open>capacity\<close>, and returns the message's size (0 when it refuses) with the
  buffer; a reader returns None where the C code returns 0. The buffers are never null in the
  program, so the model has no null case.
\<close>

section \<open>Message types\<close>

datatype audio_type =
    AUDIO_OPEN | AUDIO_PCM | AUDIO_DRAIN | AUDIO_STOP | AUDIO_VOLUME | AUDIO_HELLO | AUDIO_STATUS

definition type_code :: "audio_type \<Rightarrow> byte" where
  "type_code t = (case t of AUDIO_OPEN \<Rightarrow> 1 | AUDIO_PCM \<Rightarrow> 2 | AUDIO_DRAIN \<Rightarrow> 3 | AUDIO_STOP \<Rightarrow> 4
     | AUDIO_VOLUME \<Rightarrow> 5 | AUDIO_HELLO \<Rightarrow> 16 | AUDIO_STATUS \<Rightarrow> 17)"

definition type_of_code :: "byte \<Rightarrow> audio_type option" where
  "type_of_code c =
     (if c = 1 then Some AUDIO_OPEN else if c = 2 then Some AUDIO_PCM else if c = 3 then Some AUDIO_DRAIN
      else if c = 4 then Some AUDIO_STOP else if c = 5 then Some AUDIO_VOLUME
      else if c = 16 then Some AUDIO_HELLO else if c = 17 then Some AUDIO_STATUS else None)"

datatype audio_state =
    AUDIO_STARTING | AUDIO_IDLE | AUDIO_PRIMING | AUDIO_PLAYING | AUDIO_SETTLING | AUDIO_PAUSED | AUDIO_FAILED

definition state_code :: "audio_state \<Rightarrow> byte" where
  "state_code s = (case s of AUDIO_STARTING \<Rightarrow> 0 | AUDIO_IDLE \<Rightarrow> 1 | AUDIO_PRIMING \<Rightarrow> 2
     | AUDIO_PLAYING \<Rightarrow> 3 | AUDIO_SETTLING \<Rightarrow> 4 | AUDIO_PAUSED \<Rightarrow> 5 | AUDIO_FAILED \<Rightarrow> 6)"

datatype audio_error =
    ERROR_NONE | ERROR_PREFLIGHT | ERROR_VENDOR | ERROR_QUEUE | ERROR_PRIME_TIMEOUT
  | ERROR_SETTLE_TIMEOUT | ERROR_BAD_MESSAGE | ERROR_OVERFLOW

definition error_code :: "audio_error \<Rightarrow> byte" where
  "error_code e = (case e of ERROR_NONE \<Rightarrow> 0 | ERROR_PREFLIGHT \<Rightarrow> 1 | ERROR_VENDOR \<Rightarrow> 3 | ERROR_QUEUE \<Rightarrow> 4
     | ERROR_PRIME_TIMEOUT \<Rightarrow> 5 | ERROR_SETTLE_TIMEOUT \<Rightarrow> 6 | ERROR_BAD_MESSAGE \<Rightarrow> 7 | ERROR_OVERFLOW \<Rightarrow> 8)"

abbreviation (input) MAX_PCM_BYTES :: nat where "MAX_PCM_BYTES \<equiv> 4096"
abbreviation (input) MAX_MESSAGE :: nat where "MAX_MESSAGE \<equiv> 4104"
abbreviation (input) WINDOW_BYTES :: nat where "WINDOW_BYTES \<equiv> 16384"
abbreviation (input) DEVICE_RATE :: nat where "DEVICE_RATE \<equiv> 44100"
abbreviation (input) MIN_RATE :: nat where "MIN_RATE \<equiv> 8000"
abbreviation (input) MAX_RATE :: nat where "MAX_RATE \<equiv> 48000"
abbreviation (input) MIN_DB :: int where "MIN_DB \<equiv> - 60"
abbreviation (input) MAX_DB :: int where "MAX_DB \<equiv> - 3"

record audio_frame =
  frame_type :: audio_type
  frame_length :: nat
  frame_generation :: "32 word"
  frame_payload :: bytes

record audio_hello =
  hello_rate :: "32 word"
  hello_channels :: byte
  hello_min_db :: int
  hello_max_db :: int
  hello_window :: "32 word"
  hello_max_pcm :: "16 word"

record audio_status =
  status_state :: byte
  status_volume :: byte
  status_error :: byte
  status_consumed :: "32 word"
  status_queued :: "32 word"
  status_busy :: "32 word"
  status_underruns :: "32 word"
  status_completed :: "32 word"
  status_vendor :: int

section \<open>The volume curve\<close>

definition volume_table :: "int list" where
  "volume_table = [
      -60, -60, -60, -57, -52, -49, -46, -44, -42, -40, -38, -37, -36, -34, -33, -32, -31,
      -30, -29, -29, -28, -27, -26, -26, -25, -25, -24, -23, -23, -22, -22, -21, -21, -20,
      -20, -19, -19, -19, -18, -18, -17, -17, -17, -16, -16, -16, -15, -15, -15, -14, -14,
      -14, -13, -13, -13, -13, -12, -12, -12, -11, -11, -11, -11, -10, -10, -10, -10, -10,
      -9,  -9,  -9,  -9,  -8,  -8,  -8,  -8,  -8,  -7,  -7,  -7,  -7,  -7,  -6,  -6,  -6,
      -6,  -6,  -6,  -5,  -5,  -5,  -5,  -5,  -5,  -4,  -4,  -4,  -4,  -4,  -4,  -3]"

definition awtrix_volume_db :: "nat \<Rightarrow> int" where
  "awtrix_volume_db percent = volume_table ! (if 100 < percent then 100 else percent)"

definition audio_volume_db :: "nat \<Rightarrow> int" where
  "audio_volume_db percent =
     (let db = awtrix_volume_db percent in
      if db < MIN_DB then MIN_DB else if MAX_DB < db then MAX_DB else db)"

section \<open>Little-endian fields\<close>

definition put16 :: "bytes \<Rightarrow> nat \<Rightarrow> 16 word \<Rightarrow> bytes" where
  "put16 out p v = patch out p [ucast v, ucast (drop_bit 8 v)]"

definition put32 :: "bytes \<Rightarrow> nat \<Rightarrow> 32 word \<Rightarrow> bytes" where
  "put32 out p v =
     patch out p [ucast v, ucast (drop_bit 8 v), ucast (drop_bit 16 v), ucast (drop_bit 24 v)]"

definition get16 :: "bytes \<Rightarrow> 16 word" where
  "get16 p = ucast (p ! 0) OR push_bit 8 (ucast (p ! 1))"

definition get32 :: "bytes \<Rightarrow> 32 word" where
  "get32 p = ucast (p ! 0) OR push_bit 8 (ucast (p ! 1)) OR push_bit 16 (ucast (p ! 2))
     OR push_bit 24 (ucast (p ! 3))"

text \<open>memset\<close>

definition clear :: "bytes \<Rightarrow> nat \<Rightarrow> nat \<Rightarrow> bytes" where
  "clear out p n = patch out p (replicate n 0)"

section \<open>Encoding\<close>

definition audio_header :: "bytes \<Rightarrow> audio_type \<Rightarrow> 32 word \<Rightarrow> nat \<Rightarrow> nat \<times> bytes" where
  "audio_header out type generation payload =
     (if MAX_PCM_BYTES < payload \<or> length out < 8 + payload then (0, out)
      else
        let out = out[0 := 1]; out = out[1 := type_code type];
            out = put16 out 2 (of_nat payload); out = put32 out 4 generation
        in (8 + payload, out))"

definition encode_open :: "bytes \<Rightarrow> 32 word \<Rightarrow> 32 word \<Rightarrow> byte \<Rightarrow> nat \<times> bytes" where
  "encode_open out generation rate channels =
     (case audio_header out AUDIO_OPEN generation 8 of (n, out) \<Rightarrow>
      if n = 0 then (0, out)
      else
        let out = clear out 8 8; out = put32 out 8 rate; out = out[12 := channels]
        in (n, out))"

primrec put_samples :: "bytes \<Rightarrow> nat \<Rightarrow> 16 word list \<Rightarrow> bytes" where
  "put_samples out i [] = out"
| "put_samples out i (x # xs) = put_samples (put16 out (8 + 2 * i) x) (i + 1) xs"

definition encode_pcm :: "bytes \<Rightarrow> 32 word \<Rightarrow> 16 word list \<Rightarrow> nat \<times> bytes" where
  "encode_pcm out generation samples =
     (if samples = [] \<or> MAX_PCM_BYTES < length samples * 2 then (0, out)
      else case audio_header out AUDIO_PCM generation (length samples * 2) of (n, out) \<Rightarrow>
        if n = 0 then (0, out) else (n, put_samples out 0 samples))"

definition encode_empty :: "bytes \<Rightarrow> audio_type \<Rightarrow> 32 word \<Rightarrow> nat \<times> bytes" where
  "encode_empty out type generation =
     (if type \<noteq> AUDIO_DRAIN \<and> type \<noteq> AUDIO_STOP then (0, out) else audio_header out type generation 0)"

definition encode_volume :: "bytes \<Rightarrow> byte \<Rightarrow> nat \<times> bytes" where
  "encode_volume out percent =
     (case audio_header out AUDIO_VOLUME 0 4 of (n, out) \<Rightarrow>
      if n = 0 \<or> 100 < percent then (0, out)
      else let out = clear out 8 4; out = out[8 := percent] in (n, out))"

definition encode_hello :: "bytes \<Rightarrow> audio_hello \<Rightarrow> nat \<times> bytes" where
  "encode_hello out hello =
     (case audio_header out AUDIO_HELLO 0 16 of (n, out) \<Rightarrow>
      if n = 0 then (0, out)
      else
        let out = clear out 8 16; out = put32 out 8 (hello_rate hello);
            out = out[12 := hello_channels hello];
            out = out[13 := word_of_int (hello_min_db hello)];
            out = out[14 := word_of_int (hello_max_db hello)];
            out = put32 out 16 (hello_window hello); out = put16 out 20 (hello_max_pcm hello)
        in (n, out))"

definition encode_status :: "bytes \<Rightarrow> 32 word \<Rightarrow> audio_status \<Rightarrow> nat \<times> bytes" where
  "encode_status out generation status =
     (case audio_header out AUDIO_STATUS generation 28 of (n, out) \<Rightarrow>
      if n = 0 then (0, out)
      else
        let out = clear out 8 28; out = out[8 := status_state status];
            out = out[9 := status_volume status]; out = out[10 := status_error status];
            out = put32 out 12 (status_consumed status); out = put32 out 16 (status_queued status);
            out = put32 out 20 (status_busy status); out = put32 out 24 (status_underruns status);
            out = put32 out 28 (status_completed status);
            out = put32 out 32 (word_of_int (status_vendor status))
        in (n, out))"

section \<open>Decoding\<close>

definition payload_length_ok :: "audio_type \<Rightarrow> nat \<Rightarrow> bool" where
  "payload_length_ok type n = (case type of
     AUDIO_OPEN \<Rightarrow> n = 8
   | AUDIO_PCM \<Rightarrow> \<not> (n = 0 \<or> MAX_PCM_BYTES < n \<or> n mod 2 = 1)
   | AUDIO_DRAIN \<Rightarrow> n = 0 | AUDIO_STOP \<Rightarrow> n = 0 | AUDIO_VOLUME \<Rightarrow> n = 4 | AUDIO_HELLO \<Rightarrow> n = 16
   | AUDIO_STATUS \<Rightarrow> n = 28)"

definition audio_parse :: "bytes \<Rightarrow> audio_frame option" where
  "audio_parse data =
     (if length data < 8 \<or> data ! 0 \<noteq> 1 then None
      else
        let n = unat (get16 (drop 2 data)) in
        if n \<noteq> length data - 8 then None
        else case type_of_code (data ! 1) of
            None \<Rightarrow> None
          | Some type \<Rightarrow>
              if \<not> payload_length_ok type n then None
              else Some \<lparr>frame_type = type, frame_length = n,
                frame_generation = get32 (drop 4 data), frame_payload = drop 8 data\<rparr>)"

definition read_open :: "audio_frame \<Rightarrow> (nat \<times> nat) option" where
  "read_open frame =
     (if frame_type frame \<noteq> AUDIO_OPEN \<or> frame_generation frame = 0 then None
      else
        let r = unat (get32 (frame_payload frame)); c = unat (frame_payload frame ! 4) in
        if r < MIN_RATE \<or> MAX_RATE < r \<or> c < 1 \<or> 2 < c then None else Some (r, c))"

definition read_volume :: "audio_frame \<Rightarrow> nat option" where
  "read_volume frame =
     (if frame_type frame \<noteq> AUDIO_VOLUME \<or> 100 < unat (frame_payload frame ! 0) then None
      else Some (unat (frame_payload frame ! 0)))"

definition read_hello :: "audio_frame \<Rightarrow> audio_hello option" where
  "read_hello frame =
     (if frame_type frame \<noteq> AUDIO_HELLO then None
      else
        let p = frame_payload frame;
            out = \<lparr>hello_rate = get32 p, hello_channels = p ! 4, hello_min_db = sint (p ! 5),
              hello_max_db = sint (p ! 6), hello_window = get32 (drop 8 p), hello_max_pcm = get16 (drop 12 p)\<rparr>
        in if MAX_PCM_BYTES \<le> unat (hello_window out) \<and> 2 \<le> unat (hello_max_pcm out)
              \<and> unat (hello_max_pcm out) \<le> MAX_PCM_BYTES
           then Some out else None)"

definition read_status :: "audio_frame \<Rightarrow> audio_status option" where
  "read_status frame =
     (if frame_type frame \<noteq> AUDIO_STATUS then None
      else
        let p = frame_payload frame;
            out = \<lparr>status_state = p ! 0, status_volume = p ! 1, status_error = p ! 2,
              status_consumed = get32 (drop 4 p), status_queued = get32 (drop 8 p),
              status_busy = get32 (drop 12 p), status_underruns = get32 (drop 16 p),
              status_completed = get32 (drop 20 p), status_vendor = sint (get32 (drop 24 p))\<rparr>
        in if status_state out \<le> state_code AUDIO_FAILED then Some out else None)"

section \<open>Lemmas\<close>

lemma type_of_code_type_code [simp]: "type_of_code (type_code t) = Some t"
  by (cases t) (simp_all add: type_of_code_def type_code_def)

lemma type_of_code_Some: "type_of_code c = Some t \<Longrightarrow> c = type_code t"
  by (auto simp: type_of_code_def type_code_def split: if_splits)

definition le16 :: "16 word \<Rightarrow> bytes" where
  "le16 v = [ucast v, ucast (drop_bit 8 v)]"

definition le32 :: "32 word \<Rightarrow> bytes" where
  "le32 v = [ucast v, ucast (drop_bit 8 v), ucast (drop_bit 16 v), ucast (drop_bit 24 v)]"

lemma length_le [simp]: "length (le16 v) = 2" "length (le32 w) = 4"
  by (simp_all add: le16_def le32_def)

lemma get16_le16 [simp]: "get16 (le16 v @ xs) = v"
  unfolding get16_def le16_def by (rule bit_word_eqI) (auto simp: bit_simps)

lemma get32_le32 [simp]: "get32 (le32 v @ xs) = v"
proof (rule bit_word_eqI)
  fix n :: nat
  assume "n < LENGTH(32)"
  then consider "n < 8" | "8 \<le> n" "n < 16" | "16 \<le> n" "n < 24" | "24 \<le> n" "n < 32" by fastforce
  then show "bit (get32 (le32 v @ xs)) n = bit v n"
    by cases (auto simp: get32_def le32_def bit_simps)
qed

lemma get_alone [simp]: "get16 (le16 v) = v" "get32 (le32 w) = w"
  using get16_le16 [of v "[]"] get32_le32 [of w "[]"] by simp_all

lemma no_high_bit: "8 \<le> k \<Longrightarrow> \<not> bit (b :: byte) k"
  using bit_imp_le_length [of b k] by auto

lemma le16_get16: "le16 (get16 (a # b # xs)) = [a, b]"
  unfolding le16_def get16_def by (auto intro!: bit_word_eqI simp: bit_simps no_high_bit)

lemma le32_get32: "le32 (get32 (a # b # c # d # xs)) = [a, b, c, d]"
  unfolding le32_def get32_def by (auto intro!: bit_word_eqI simp: bit_simps no_high_bit)

text \<open>A message on the wire, and what an encoder leaves in the buffer.\<close>

definition header_bytes :: "audio_type \<Rightarrow> 32 word \<Rightarrow> nat \<Rightarrow> bytes" where
  "header_bytes t g n = [1, type_code t] @ le16 (of_nat n) @ le32 g"

lemma length_header_bytes [simp]: "length (header_bytes t g n) = 8"
  by (simp add: header_bytes_def)

definition wire :: "audio_type \<Rightarrow> 32 word \<Rightarrow> bytes \<Rightarrow> bytes" where
  "wire t g p = header_bytes t g (length p) @ p"

definition sent :: "nat \<times> bytes \<Rightarrow> bytes" where
  "sent r = take (fst r) (snd r)"

lemma length_wire [simp]: "length (wire t g p) = 8 + length p"
  by (simp add: wire_def)

lemma patch_append: "length pre = i \<Longrightarrow> patch (pre @ xs) i ys = pre @ ys @ drop (length ys) xs"
  by (simp add: patch_def)

lemma eight_cells:
  assumes "8 \<le> length out"
  obtains a0 a1 a2 a3 a4 a5 a6 a7 xs where "out = [a0, a1, a2, a3, a4, a5, a6, a7] @ xs"
  using assms by (auto simp: numeral_eq_Suc Suc_le_length_iff)

lemma audio_header_eq:
  assumes "k \<le> 4096" and "8 + k \<le> length out"
  shows "audio_header out t g k =
(8 + k, header_bytes t g k @ drop 8 out)"
proof -
  from assms(2) have "8 \<le> length out" by simp
  then obtain a0 a1 a2 a3 a4 a5 a6 a7 xs where out: "out = [a0, a1, a2, a3, a4, a5, a6, a7] @ xs"
    by (rule eight_cells)
  show ?thesis
    using assms by (simp add: audio_header_def Let_def out put16_def put32_def patch_def le16_def le32_def header_bytes_def)
qed

lemma clear_after_header:
  "length h = 8 \<Longrightarrow> clear (h @ xs) 8 n = h @ replicate n 0 @ drop n xs"
  by (simp add: clear_def patch_append)

lemma patch_tail: "length h \<le> i \<Longrightarrow> patch (h @ xs) i ys = h @ patch xs (i - length h) ys"
  by (simp add: patch_def)

lemma update_tail: "length h \<le> i \<Longrightarrow> (h @ xs)[i := v] = h @ xs[i - length h := v]"
  by (simp add: list_update_append)

lemma update_patch: "i < length xs \<Longrightarrow> xs[i := v] = patch xs i [v]"
  by (simp add: upd_conv_take_nth_drop patch_def)

lemma zero_cells:
  "replicate 4 (0 :: byte) = [0, 0, 0, 0]"
  "replicate 8 (0 :: byte) = [0, 0, 0, 0, 0, 0, 0, 0]"
  "replicate 16 (0 :: byte) = [0, 0, 0, 0, 0, 0, 0, 0, 0, 0, 0, 0, 0, 0, 0, 0]"
  "replicate 28 (0 :: byte) = [0, 0, 0, 0, 0, 0, 0, 0, 0, 0, 0, 0, 0, 0, 0, 0, 0, 0, 0, 0, 0, 0, 0, 0, 0, 0, 0, 0]"
  by (simp_all add: numeral_eq_Suc)

lemmas encoding = audio_header_eq clear_after_header put32_def put16_def patch_tail update_tail zero_cells
  wire_def Let_def

lemmas filling = patch_def update_patch le16_def le32_def

lemma encoded_open:
  assumes "16 \<le> length out"
  shows "encode_open out g r c = (16, wire AUDIO_OPEN g (le32 r @ [c, 0, 0, 0]) @ drop 16 out)"
  using assms by (simp add: encode_open_def encoding) (simp add: filling)

lemma encoded_volume:
  assumes "12 \<le> length out" and "v \<le> 100"
  shows "encode_volume out v = (12, wire AUDIO_VOLUME 0 [v, 0, 0, 0] @ drop 12 out)"
  using assms by (simp add: encode_volume_def encoding not_less) (simp add: filling numeral_eq_Suc)

lemma encoded_hello:
  assumes "24 \<le> length out"
  shows "encode_hello out h = (24, wire AUDIO_HELLO 0
    (le32 (hello_rate h) @ [hello_channels h, word_of_int (hello_min_db h), word_of_int (hello_max_db h), 0]
      @ le32 (hello_window h) @ le16 (hello_max_pcm h) @ [0, 0]) @ drop 24 out)"
  using assms by (simp add: encode_hello_def encoding) (simp add: filling)

lemma encoded_status:
  assumes "36 \<le> length out"
  shows "encode_status out g s = (36, wire AUDIO_STATUS g
    ([status_state s, status_volume s, status_error s, 0] @ le32 (status_consumed s) @ le32 (status_queued s)
      @ le32 (status_busy s) @ le32 (status_underruns s) @ le32 (status_completed s)
      @ le32 (word_of_int (status_vendor s))) @ drop 36 out)"
  using assms by (simp add: encode_status_def encoding) (simp add: filling)

lemma encoded_empty:
  assumes "8 \<le> length out" and "t = AUDIO_DRAIN \<or> t = AUDIO_STOP"
  shows "encode_empty out t g = (8, wire t g [] @ drop 8 out)"
  using assms by (auto simp: encode_empty_def encoding)

lemma put_samples_append:
  assumes "length h = 8 + 2 * i" and "2 * length xs \<le> length rest"
  shows "put_samples (h @ rest) i xs = h @ concat (map le16 xs) @ drop (2 * length xs) rest"
  using assms
proof (induction xs arbitrary: h rest i)
  case (Cons x xs)
  then have "put16 (h @ rest) (8 + 2 * i) x = (h @ le16 x) @ drop 2 rest"
    by (simp add: put16_def patch_def le16_def)
  moreover have "put_samples ((h @ le16 x) @ drop 2 rest) (i + 1) xs =
      (h @ le16 x) @ concat (map le16 xs) @ drop (2 * length xs) (drop 2 rest)"
    using Cons.prems by (intro Cons.IH) simp_all
  ultimately show ?case by (simp add: drop_drop add.commute)
qed simp

lemma length_concat_le16 [simp]: "length (concat (map le16 xs)) = 2 * length xs"
  by (induction xs) simp_all

lemma encoded_pcm:
  assumes "xs \<noteq> []" and "length xs * 2 \<le> 4096" and "8 + length xs * 2 \<le> length out"
  shows "encode_pcm out g xs = (8 + length xs * 2,
    wire AUDIO_PCM g (concat (map le16 xs)) @ drop (8 + length xs * 2) out)"
  using assms
  by (simp add: encode_pcm_def audio_header_eq put_samples_append not_less wire_def mult.commute add.commute
      flip: append.append_Cons append_assoc)

text \<open>Reading the wire format back.\<close>

lemma parse_wire:
  assumes "length p \<le> 4096" and "payload_length_ok t (length p)"
  shows "audio_parse (wire t g p) = Some \<lparr>frame_type = t, frame_length = length p,
    frame_generation = g, frame_payload = p\<rparr>"
  using assms by (simp add: audio_parse_def wire_def header_bytes_def Let_def unat_of_nat)

lemma parse_Some:
  assumes "audio_parse d = Some f"
  shows "d = wire (frame_type f) (frame_generation f) (frame_payload f)
    \<and> length (frame_payload f) = frame_length f \<and> payload_length_ok (frame_type f) (frame_length f)"
proof -
  have "8 \<le> length d" using assms by (simp add: audio_parse_def split: if_splits)
  then obtain a0 a1 a2 a3 a4 a5 a6 a7 xs where d: "d = [a0, a1, a2, a3, a4, a5, a6, a7] @ xs"
    by (rule eight_cells)
  have n: "unat (get16 (a2 # a3 # a4 # a5 # a6 # a7 # xs)) = length xs"
    using assms by (simp add: audio_parse_def d Let_def split: if_splits)
  have "of_nat (length xs) = get16 (a2 # a3 # a4 # a5 # a6 # a7 # xs)"
    by (simp flip: n)
  then have "le16 (of_nat (length xs)) = [a2, a3]"
    by (simp add: le16_get16)
  with assms show ?thesis
    by (auto simp: audio_parse_def d Let_def n wire_def header_bytes_def le32_get32 split: if_splits option.splits
        dest: type_of_code_Some)
qed

lemma sent_append [simp]: "n = length w \<Longrightarrow> sent (n, w @ xs) = w"
  by (simp add: sent_def)

section \<open>Properties\<close>

lemma sint_of_byte: "- 128 \<le> k \<Longrightarrow> k < 128 \<Longrightarrow> sint (word_of_int k :: byte) = k"
  by (simp add: signed_of_int signed_take_bit_int_eq_self)

lemma sint_of_word32: "- (2 ^ 31) \<le> k \<Longrightarrow> k < 2 ^ 31 \<Longrightarrow> sint (word_of_int k :: 32 word) = k"
  by (simp add: signed_of_int signed_take_bit_int_eq_self)

lemma open_read_back:
  assumes "16 \<le> length out" and "g \<noteq> 0"
    and "8000 \<le> unat r" and "unat r \<le> 48000" and "c = 1 \<or> c = 2"
  shows "Option.bind (audio_parse (sent (encode_open out g r c)))
    (\<lambda>f. map_option (Pair (frame_generation f)) (read_open f)) = Some (g, unat r, unat c)"
  using assms
  by (auto simp: encoded_open parse_wire payload_length_ok_def read_open_def Let_def nth_append not_less)

lemma status_read_back:
  assumes "36 \<le> length out" and "status_state s \<le> 6"
    and "- (2 ^ 31) \<le> status_vendor s" and "status_vendor s < 2 ^ 31"
  shows "Option.bind (audio_parse (sent (encode_status out g s)))
    (\<lambda>f. map_option (Pair (frame_generation f)) (read_status f)) = Some (g, s)"
  using assms
  by (simp add: encoded_status parse_wire payload_length_ok_def read_status_def Let_def state_code_def
      sint_of_word32 nth_append)

lemma hello_read_back:
  assumes "24 \<le> length out" and "- 128 \<le> hello_min_db h" "hello_min_db h < 128"
    and "- 128 \<le> hello_max_db h" "hello_max_db h < 128" and "4096 \<le> unat (hello_window h)"
    and "2 \<le> unat (hello_max_pcm h)" "unat (hello_max_pcm h) \<le> 4096"
  shows "Option.bind (audio_parse (sent (encode_hello out h))) read_hello = Some h"
  using assms
  by (simp add: encoded_hello parse_wire payload_length_ok_def read_hello_def Let_def sint_of_byte nth_append)

lemma volume_read_back:
  assumes "12 \<le> length out" and "v \<le> 100"
  shows "Option.bind (audio_parse (sent (encode_volume out v))) read_volume = Some (unat v)"
  using assms
  by (simp add: encoded_volume parse_wire payload_length_ok_def read_volume_def word_le_nat_alt not_less)

lemma pcm_read_back:
  assumes "8 + length xs * 2 \<le> length out" and "xs \<noteq> []" and "length xs \<le> 2048"
  shows "audio_parse (sent (encode_pcm out g xs)) = Some \<lparr>frame_type = AUDIO_PCM,
    frame_length = length xs * 2, frame_generation = g, frame_payload = concat (map le16 xs)\<rparr>"
  using assms
  by (simp add: encoded_pcm parse_wire payload_length_ok_def mult.commute)

lemma empty_read_back:
  assumes "8 \<le> length out" and "t = AUDIO_DRAIN \<or> t = AUDIO_STOP"
  shows "audio_parse (sent (encode_empty out t g)) = Some \<lparr>frame_type = t, frame_length = 0,
    frame_generation = g, frame_payload = []\<rparr>"
  using assms by (auto simp: encoded_empty parse_wire payload_length_ok_def)

text \<open>
  The messages as the two programs mean them, which of them can be sent, and their encoders and
  readers side by side.
\<close>

datatype audio_message =
    Open_Message "32 word" "32 word" byte
  | Pcm_Message "32 word" "16 word list"
  | Drain_Message "32 word"
  | Stop_Message "32 word"
  | Volume_Message byte
  | Hello_Message audio_hello
  | Status_Message "32 word" audio_status

fun sendable :: "audio_message \<Rightarrow> bool" where
  "sendable (Open_Message g r c) \<longleftrightarrow>
     g \<noteq> 0 \<and> MIN_RATE \<le> unat r \<and> unat r \<le> MAX_RATE \<and> (c = 1 \<or> c = 2)"
| "sendable (Pcm_Message g xs) \<longleftrightarrow> xs \<noteq> [] \<and> length xs * 2 \<le> MAX_PCM_BYTES"
| "sendable (Drain_Message g) \<longleftrightarrow> True"
| "sendable (Stop_Message g) \<longleftrightarrow> True"
| "sendable (Volume_Message v) \<longleftrightarrow> v \<le> 100"
| "sendable (Hello_Message h) \<longleftrightarrow>
     hello_min_db h \<in> {- 128 ..< 128} \<and> hello_max_db h \<in> {- 128 ..< 128} \<and>
     MAX_PCM_BYTES \<le> unat (hello_window h) \<and>
     unat (hello_max_pcm h) \<in> {2 .. MAX_PCM_BYTES}"
| "sendable (Status_Message g s) \<longleftrightarrow>
     status_state s \<le> state_code AUDIO_FAILED \<and> status_vendor s \<in> {- (2 ^ 31) ..< 2 ^ 31}"

fun encode_message :: "bytes \<Rightarrow> audio_message \<Rightarrow> nat \<times> bytes" where
  "encode_message out (Open_Message g r c) = encode_open out g r c"
| "encode_message out (Pcm_Message g xs) = encode_pcm out g xs"
| "encode_message out (Drain_Message g) = encode_empty out AUDIO_DRAIN g"
| "encode_message out (Stop_Message g) = encode_empty out AUDIO_STOP g"
| "encode_message out (Volume_Message v) = encode_volume out v"
| "encode_message out (Hello_Message h) = encode_hello out h"
| "encode_message out (Status_Message g s) = encode_status out g s"

fun samples_of :: "bytes \<Rightarrow> 16 word list" where
  "samples_of (a # b # bs) = get16 [a, b] # samples_of bs"
| "samples_of _ = []"

definition read_message :: "bytes \<Rightarrow> audio_message option" where
  "read_message d = Option.bind (audio_parse d) (\<lambda>f.
     let g = frame_generation f in
     case frame_type f of
       AUDIO_OPEN \<Rightarrow> map_option (\<lambda>(r, c). Open_Message g (of_nat r) (of_nat c)) (read_open f)
     | AUDIO_PCM \<Rightarrow> Some (Pcm_Message g (samples_of (frame_payload f)))
     | AUDIO_DRAIN \<Rightarrow> Some (Drain_Message g)
     | AUDIO_STOP \<Rightarrow> Some (Stop_Message g)
     | AUDIO_VOLUME \<Rightarrow> map_option (\<lambda>v. Volume_Message (of_nat v)) (read_volume f)
     | AUDIO_HELLO \<Rightarrow> map_option Hello_Message (read_hello f)
     | AUDIO_STATUS \<Rightarrow> map_option (Status_Message g) (read_status f))"

lemma samples_of_concat [simp]: "samples_of (concat (map le16 xs)) = xs"
proof (induction xs)
  case (Cons x xs)
  then show ?case using get_alone(1) [of x] by (simp add: le16_def)
qed simp

lemma message_read_back:
  assumes "MAX_MESSAGE \<le> length out" and "sendable m"
  shows "read_message (sent (encode_message out m)) = Some m"
  using assms
  by (cases m)
    (auto simp: read_message_def Let_def encoded_open encoded_status encoded_hello encoded_volume encoded_pcm
      encoded_empty parse_wire payload_length_ok_def read_open_def read_volume_def read_hello_def read_status_def
      nth_append not_less sint_of_byte sint_of_word32 state_code_def word_le_nat_alt mult.commute)

text \<open>
  C36. Every message the two programs can send reads back as itself: the encoder writes it into any
  buffer of the maximal message size, the receiver parses and reads the datagram cut to the returned
  size, and gets the same type, generation and fields (negative decibels and error codes included).
\<close>

theorem audio_message_roundtrip:
  assumes "MAX_MESSAGE \<le> length out" and "sendable m"
  shows "read_message (sent (encode_message out m)) = Some m"
  using assms by (rule message_read_back)

definition example_status :: audio_status where
  "example_status = \<lparr>status_state = 3, status_volume = 40, status_error = 0, status_consumed = 70000,
     status_queued = 512, status_busy = 8192, status_underruns = 2, status_completed = 6, status_vendor = - 11\<rparr>"

theorem audio_message_roundtrip_witness:
  "read_message (sent (encode_message (replicate 4104 7) (Status_Message 9 example_status)))
     = Some (Status_Message 9 example_status)"
  by (rule audio_message_roundtrip) (simp_all add: example_status_def state_code_def)

text \<open>
  C37. The parser accepts exactly the datagrams of the protocol: version 1, the code of the type, the length
  and the generation in little endian, and a payload of 8 bytes for OPEN, none for DRAIN and STOP, 4 for
  VOLUME, 16 for HELLO, 28 for STATUS, and for PCM of 1 to 2048 whole samples; what it returns is the
  type, the generation and the payload, byte for byte.
\<close>

theorem audio_parse_iff:
  "audio_parse d = Some f \<longleftrightarrow>
     (\<exists>code n. d = [1, code] @ le16 (of_nat n) @ le32 (frame_generation f) @ frame_payload f
        \<and> length (frame_payload f) = n \<and> frame_length f = n
        \<and> ((frame_type f, code, n) \<in> {(AUDIO_OPEN, 1, 8), (AUDIO_DRAIN, 3, 0), (AUDIO_STOP, 4, 0), (AUDIO_VOLUME, 5, 4),
              (AUDIO_HELLO, 16, 16), (AUDIO_STATUS, 17, 28)}
            \<or> frame_type f = AUDIO_PCM \<and> code = 2 \<and> n \<in> (\<lambda>k. 2 * k) ` {1..2048}))"
    (is "_ = ?shape")
proof
  assume "audio_parse d = Some f"
  from parse_Some [OF this] have w: "d = wire (frame_type f) (frame_generation f) (frame_payload f)"
    "length (frame_payload f) = frame_length f" "payload_length_ok (frame_type f) (frame_length f)" by simp_all
  have "n \<in> (\<lambda>k. 2 * k) ` {1..2048}" if "n \<noteq> 0" "n \<le> 4096" "n mod 2 \<noteq> 1" for n :: nat
    using that by (intro image_eqI [of _ _ "n div 2"]) auto
  with w show ?shape
    by (intro exI [of _ "type_code (frame_type f)"] exI [of _ "frame_length f"], cases "frame_type f")
      (auto simp: payload_length_ok_def wire_def header_bytes_def type_code_def not_less)
next
  assume ?shape
  then have "d = wire (frame_type f) (frame_generation f) (frame_payload f)" "payload_length_ok (frame_type f) (frame_length f)"
    "length (frame_payload f) \<le> 4096" "frame_length f = length (frame_payload f)"
    by (auto simp: payload_length_ok_def wire_def header_bytes_def type_code_def)
  then show "audio_parse d = Some f" by (cases f) (simp add: parse_wire)
qed

end
