(* ===== verification/Audio_Owner.thy ===== *)
theory Audio_Owner
  imports Prelude "HOL-Library.Sublist"
begin

text \<open>
  Who else may hold the sound output, \<^verbatim>\<open>tc002/audio/helper/audio_owner.c\<close>: the search of a text in a file
  of any length through a window of 1024 bytes, the reading of a small file, and the walk through the
  processes and their tasks for the stock GUI. A file is its content with the answers its reads give
  (\<open>read_file\<close>); the process file system is a record of what it answers for each path.
\<close>

section \<open>Reading\<close>

text \<open>
  An answer of read: an error, or the bytes it gives at most (at least one, as at the end of the file
  only no byte is the end). When the answers are used up every read gives what was asked for.
\<close>

datatype read_answer = Read_Error int | Read_Count nat

record read_file =
  content :: bytes
  answers :: "read_answer list"

fun sys_read :: "read_file \<Rightarrow> nat \<Rightarrow> (int + bytes) \<times> read_file" where
  "sys_read f n = (case answers f of
     [] \<Rightarrow> (Inr (take n (content f)), f\<lparr>content := drop n (content f)\<rparr>)
   | Read_Error e # as \<Rightarrow> (Inl e, f\<lparr>answers := as\<rparr>)
   | Read_Count k # as \<Rightarrow>
       let j = min n (max 1 k)
       in (Inr (take j (content f)), f\<lparr>content := drop j (content f), answers := as\<rparr>))"

lemma sys_read_content:
  "sys_read f n = (Inr bs, g) \<Longrightarrow> content f = bs @ content g \<and> length bs \<le> n
     \<and> (0 < n \<longrightarrow> bs = [] \<longrightarrow> content f = []) \<and> length (answers g) \<le> length (answers f)"
  by (auto simp: Let_def split: list.splits read_answer.splits)

lemma sys_read_error:
  "sys_read f n = (Inl e, g) \<Longrightarrow> content g = content f \<and> answers f = Read_Error e # answers g"
  by (auto simp: Let_def split: list.splits read_answer.splits)

lemma sys_read_shrinks:
  "(Inr bs, g) = sys_read f n \<Longrightarrow> bs \<noteq> [] \<Longrightarrow>
     length (answers g) + length (content g) < length (answers f) + length (content f)"
  "(Inl e, g) = sys_read f n \<Longrightarrow>
     length (answers g) + length (content g) < length (answers f) + length (content f)"
proof -
  assume "(Inr bs, g) = sys_read f n" and bs: "bs \<noteq> []"
  from sys_read_content [OF this(1) [symmetric]]
  have "length (content f) = length bs + length (content g)" "length (answers g) \<le> length (answers f)" by simp_all
  moreover have "0 < length bs" using bs by simp
  ultimately show "length (answers g) + length (content g) < length (answers f) + length (content f)" by linarith
next
  assume "(Inl e, g) = sys_read f n"
  from sys_read_error [OF this [symmetric]]
  show "length (answers g) + length (content g) < length (answers f) + length (content f)" by simp
qed

definition missing :: "int \<Rightarrow> bool" where
  "missing e \<longleftrightarrow> e = ENOENT \<or> e = ESRCH"

definition hidden :: "int \<Rightarrow> bool" where
  "hidden e \<longleftrightarrow> e = EACCES \<or> e = EPERM"

definition ah_numeric :: "string \<Rightarrow> bool" where
  "ah_numeric p \<longleftrightarrow> p \<noteq> [] \<and> list_all (\<lambda>c. 48 \<le> (of_char c :: nat) \<and> of_char c \<le> (57 :: nat)) p"

text \<open>The loop of \<open>ah_read_small\<close>: success, the bytes, and the errno it leaves.\<close>

function small_loop :: "read_file \<Rightarrow> nat \<Rightarrow> bytes \<Rightarrow> int \<Rightarrow> bool \<times> bytes \<times> int" where
  "small_loop f capacity out err =
     (if capacity \<le> length out then (False, out, err)
      else case sys_read f (capacity - length out) of
        (Inl e, f) \<Rightarrow> if e = EINTR then small_loop f capacity out e else (False, out, e)
      | (Inr bs, f) \<Rightarrow> if bs = [] then (True, out, err) else small_loop f capacity (out @ bs) err)"
  by pat_completeness auto
termination
  by (relation "measure (\<lambda>(f, _). length (answers f) + length (content f))")
    (auto intro: sys_read_shrinks simp del: sys_read.simps)

declare small_loop.simps [simp del]

definition ah_read_small :: "int + read_file \<Rightarrow> nat \<Rightarrow> int \<Rightarrow> bool \<times> bytes \<times> int" where
  "ah_read_small opened capacity err = (case opened of
     Inl e \<Rightarrow> (False, [], e) | Inr f \<Rightarrow> small_loop f capacity [] err)"

section \<open>Searching a file\<close>

definition found_in :: "bytes \<Rightarrow> bytes \<Rightarrow> bool" where
  "found_in needle window \<longleftrightarrow>
     list_ex (\<lambda>i. take (length needle) (drop i window) = needle) [0..<length window + 1 - length needle]"

text \<open>What stays of the window: the last bytes, one less than the text has.\<close>

definition slide :: "bytes \<Rightarrow> bytes \<Rightarrow> bytes" where
  "slide needle window =
     (if length needle \<le> length window then drop (length window - (length needle - 1)) window else window)"

function contains_loop :: "bytes \<Rightarrow> read_file \<Rightarrow> bytes \<Rightarrow> int" where
  "contains_loop needle f window =
     (case sys_read f (1024 - length window) of
        (Inl e, f) \<Rightarrow> if e = EINTR then contains_loop needle f window else - 1
      | (Inr bs, f) \<Rightarrow>
          if bs = [] then 0
          else if found_in needle (window @ bs) then 1
          else contains_loop needle f (slide needle (window @ bs)))"
  by pat_completeness auto
termination
  by (relation "measure (\<lambda>(_, f, _). length (answers f) + length (content f))")
    (auto intro: sys_read_shrinks simp del: sys_read.simps)

declare contains_loop.simps [simp del]

definition ah_file_contains :: "int + read_file \<Rightarrow> bytes \<Rightarrow> int" where
  "ah_file_contains opened needle =
     (if needle = [] \<or> 512 < length needle then - 1
      else case opened of Inl _ \<Rightarrow> - 1 | Inr f \<Rightarrow> contains_loop needle f [])"

section \<open>The stock GUI\<close>

text \<open>
  The answers of the process file system: opening a file, reading a link, and opening a directory,
  which gives its names in order and the errno that ends the listing, 0 at the end of the directory.
\<close>

record proc_fs =
  open_file :: "string \<Rightarrow> int + read_file"
  read_link :: "string \<Rightarrow> int + bytes"
  open_dir :: "string \<Rightarrow> int + string list \<times> int"

definition ascii :: "string \<Rightarrow> bytes" where
  "ascii s = map of_char s"

definition task_clear :: "proc_fs \<Rightarrow> string \<Rightarrow> bool" where
  "task_clear fs root =
     (case ah_read_small (open_file fs (take 191 (root @ ''/comm''))) 128 0 of (ok, comm, err) \<Rightarrow>
        if \<not> ok then missing err
        else if 5 \<le> length comm \<and> take 5 comm = ascii ''zkgui'' then False
        else case read_link fs (take 191 (root @ ''/exe'')) of
            Inl e \<Rightarrow> missing e \<or> hidden e
          | Inr l \<Rightarrow>
              let executable = take 192 l in
              if 192 \<le> length executable then False
              else \<not> (10 \<le> length executable \<and> take 10 executable = ascii ''/bin/zkgui''))"

text \<open>The tasks of a process: the number of tasks seen so far, and whether all were clear.\<close>

fun tasks_loop :: "proc_fs \<Rightarrow> string \<Rightarrow> int \<Rightarrow> nat \<Rightarrow> string list \<Rightarrow> nat \<times> bool" where
  "tasks_loop fs path err n [] = (n, err = 0)"
| "tasks_loop fs path err n (t # ts) =
     (if \<not> ah_numeric t then tasks_loop fs path err n ts
      else if 4096 < n + 1 \<or> 20 < length t then (n + 1, False)
      else if \<not> task_clear fs (take 159 (path @ ''/'' @ t)) then (n + 1, False)
      else tasks_loop fs path err (n + 1) ts)"

fun processes_loop :: "proc_fs \<Rightarrow> string \<Rightarrow> int \<Rightarrow> nat \<Rightarrow> nat \<Rightarrow> string list \<Rightarrow> bool" where
  "processes_loop fs proc err m n [] = (err = 0)"
| "processes_loop fs proc err m n (p # ps) =
     (if \<not> ah_numeric p then processes_loop fs proc err m n ps
      else if 1024 < m + 1 \<or> 20 < length p then False
      else
        let path = proc @ ''/'' @ p @ ''/task'' in
        if 128 \<le> length path then False
        else case open_dir fs path of
            Inl e \<Rightarrow> if missing e then processes_loop fs proc err (m + 1) n ps else False
          | Inr (ts, terr) \<Rightarrow> (case tasks_loop fs path terr n ts of (n, ok) \<Rightarrow>
              if ok then processes_loop fs proc err (m + 1) n ps else False))"

definition ah_stock_gui_absent :: "proc_fs \<Rightarrow> string \<Rightarrow> bool" where
  "ah_stock_gui_absent fs proc = (case open_dir fs proc of
     Inl _ \<Rightarrow> False | Inr (ps, err) \<Rightarrow> processes_loop fs proc err 0 0 ps)"

section \<open>The search is exact\<close>

lemma found_in_iff: "found_in needle window \<longleftrightarrow> sublist needle window"
proof
  assume "found_in needle window"
  then obtain i where "take (length needle) (drop i window) = needle" by (auto simp: found_in_def list_ex_iff)
  then have "window = take i window @ needle @ drop (length needle) (drop i window)"
    by (metis append_take_drop_id)
  then show "sublist needle window" by (metis sublist_def)
next
  assume "sublist needle window"
  then obtain ps ss where "window = ps @ needle @ ss" by (auto simp: sublist_def)
  then show "found_in needle window"
    unfolding found_in_def list_ex_iff by (intro bexI [of _ "length ps"]) auto
qed

text \<open>
  A text in three pieces of which the middle one is too short to hold it, but all of it that can
  overlap, is in the first two or in the last two.
\<close>

lemma sublist_overlap:
  assumes "pre = [] \<or> length needle \<le> Suc (length w)"
  shows "sublist needle (pre @ w @ bs) \<longleftrightarrow> sublist needle (pre @ w) \<or> sublist needle (w @ bs)"
proof
  assume "sublist needle (pre @ w @ bs)"
  then obtain ps ss where e: "pre @ w @ bs = ps @ needle @ ss" by (auto simp: sublist_def)
  show "sublist needle (pre @ w) \<or> sublist needle (w @ bs)"
  proof (cases "length pre \<le> length ps")
    case True
    then have "w @ bs = drop (length pre) ps @ needle @ ss"
      using arg_cong [where f = "drop (length pre)", OF e] by simp
    then show ?thesis by (auto simp: sublist_def)
  next
    case False
    then have "length ps + length needle \<le> length (pre @ w)" using assms by auto
    then have "pre @ w = ps @ needle @ take (length (pre @ w) - length ps - length needle) ss"
      using arg_cong [where f = "take (length (pre @ w))", OF e] by (simp add: min_def)
    then show ?thesis by (auto simp: sublist_def)
  qed
next
  assume "sublist needle (pre @ w) \<or> sublist needle (w @ bs)"
  then show "sublist needle (pre @ w @ bs)"
    using sublist_order.order_trans [OF _ sublist_append_rightI [of "pre @ w" bs]]
      sublist_order.order_trans [OF _ sublist_append_leftI [of "w @ bs" pre]] by auto
qed

lemma length_slide:
  "needle \<noteq> [] \<Longrightarrow> length needle \<le> length window \<Longrightarrow> Suc (length (slide needle window)) = length needle"
  by (cases needle) (simp_all add: slide_def)

lemma slide_window:
  assumes "needle \<noteq> []"
  obtains front where "window = front @ slide needle window" and "length (slide needle window) < length needle"
    and "front = [] \<or> length needle \<le> Suc (length (slide needle window))"
proof (cases "length needle \<le> length window")
  case True
  show thesis
  proof (rule that [of "take (length window - (length needle - 1)) window"])
    show "length (slide needle window) < length needle" using length_slide [OF assms True] by simp
    show "take (length window - (length needle - 1)) window = [] \<or> length needle \<le> Suc (length (slide needle window))"
      using length_slide [OF assms True] by simp
  qed (use True in \<open>simp add: slide_def\<close>)
next
  case False
  show thesis by (rule that [of "[]"]) (use False in \<open>simp_all add: slide_def\<close>)
qed

definition only_interrupted :: "read_file \<Rightarrow> bool" where
  "only_interrupted f \<longleftrightarrow> (\<forall>e. Read_Error e \<in> set (answers f) \<longrightarrow> e = EINTR)"

lemma sys_read_answers: "set (answers (snd (sys_read f n))) \<subseteq> set (answers f)"
  by (auto simp: Let_def split: list.splits read_answer.splits)

lemma only_interrupted_read: "sys_read f n = (r, g) \<Longrightarrow> only_interrupted f \<Longrightarrow> only_interrupted g"
  using sys_read_answers [of f n] unfolding only_interrupted_def by (metis snd_conv subsetD)

lemma contains_loop_exact:
  assumes "needle \<noteq> []" and "length needle \<le> 512" and "length w < length needle"
    and "pre = [] \<or> length needle \<le> Suc (length w)" and "\<not> sublist needle (pre @ w)"
  shows "contains_loop needle f w = (if sublist needle (pre @ w @ content f) then 1 else 0)
    \<or> contains_loop needle f w = - 1 \<and> \<not> only_interrupted f"
  using assms
proof (induction needle f w arbitrary: pre rule: contains_loop.induct)
  case (1 needle f w)
  obtain r g where read: "sys_read f (1024 - length w) = (r, g)" by (rule prod.exhaust)
  note step = contains_loop.simps [of needle f w, unfolded read]
  show ?case
  proof (cases r)
    case (Inl e)
    note c = sys_read_error [OF read [unfolded Inl]]
    show ?thesis
    proof (cases "e = EINTR")
      case True
      then show ?thesis
        using 1(1) [OF read [symmetric] Inl True 1(3-7)] c step Inl only_interrupted_def by auto
    next
      case False
      then show ?thesis using step Inl c by (auto simp: only_interrupted_def)
    qed
  next
    case (Inr bs)
    note c = sys_read_content [OF read [unfolded Inr]]
    show ?thesis
    proof (cases "bs = []")
      case True
      then have "content f = []" using c 1(4,5) by auto
      then show ?thesis using step Inr True 1(7) by simp
    next
      case bs: False
      have found: "sublist needle (pre @ w @ bs) \<longleftrightarrow> found_in needle (w @ bs)"
        using sublist_overlap [OF 1(6)] 1(7) by (simp add: found_in_iff)
      show ?thesis
      proof (cases "found_in needle (w @ bs)")
        case True
        then have "sublist needle (pre @ w @ bs)" using found by simp
        then have "sublist needle (pre @ w @ content f)"
          using c sublist_order.order_trans [OF _ sublist_append_rightI [of "pre @ w @ bs" "content g"]] by auto
        then show ?thesis using step Inr bs True by simp
      next
        case False
        obtain front where f: "w @ bs = front @ slide needle (w @ bs)" "length (slide needle (w @ bs)) < length needle"
            "front = [] \<or> length needle \<le> Suc (length (slide needle (w @ bs)))"
          using slide_window [OF 1(3)] by blast
        have whole: "(pre @ front) @ slide needle (w @ bs) = pre @ w @ bs" using f(1) by simp
        have o: "pre @ front = [] \<or> length needle \<le> Suc (length (slide needle (w @ bs)))"
        proof (cases "length needle \<le> length (w @ bs)")
          case True
          then show ?thesis using length_slide [OF 1(3) True] by simp
        next
          case False
          then have "slide needle (w @ bs) = w @ bs" by (simp add: slide_def)
          then show ?thesis using 1(6) f(1) by auto
        qed
        have "\<not> sublist needle ((pre @ front) @ slide needle (w @ bs))" using found False unfolding whole by blast
        from 1(2) [OF read [symmetric] Inr bs False 1(3,4) f(2) o this]
        have "contains_loop needle g (slide needle (w @ bs))
            = (if sublist needle (pre @ w @ content f) then 1 else 0) \<or>
          contains_loop needle g (slide needle (w @ bs)) = - 1 \<and> \<not> only_interrupted g"
          using c whole by (simp add: append_assoc [symmetric] del: append_assoc)
        then show ?thesis
          using step Inr bs False only_interrupted_read [OF read] by auto
      qed
    qed
  qed
qed

section \<open>Properties\<close>

text \<open>
  The search of a file is exact, however the reads cut it and whatever text crosses a cut: for a
  text of 1 to 512 bytes the answer is 1 when the file contains it and 0 when it does not, and -1 only
  where a read failed with something else than an interruption.
\<close>

theorem file_contains_exact:
  assumes "needle \<noteq> []" and "length needle \<le> 512"
  shows "ah_file_contains (Inr f) needle = (if sublist needle (content f) then 1 else 0)
     \<or> ah_file_contains (Inr f) needle = - 1 \<and> \<not> only_interrupted f"
  using contains_loop_exact [OF assms, of "[]" "[]" f] assms by (simp add: ah_file_contains_def not_less)

theorem file_contains_exact_witness:
  "ah_file_contains (Inr \<lparr>content = ascii ''  33: 0 GIC aio_dma'', answers = [Read_Count 11, Read_Error EINTR, Read_Count 3]\<rparr>)
     (ascii ''aio_dma'') = 1"
proof -
  let ?f = "\<lparr>content = ascii ''  33: 0 GIC aio_dma'', answers = [Read_Count 11, Read_Error EINTR, Read_Count 3]\<rparr>"
  have "only_interrupted ?f" by (simp add: only_interrupted_def)
  moreover have "ascii ''  33: 0 GIC aio_dma'' = ascii ''  33: 0 GIC '' @ ascii ''aio_dma''" by (simp add: ascii_def)
  then have "sublist (ascii ''aio_dma'') (content ?f)" by simp
  moreover have "ascii ''aio_dma'' \<noteq> []" "length (ascii ''aio_dma'') \<le> 512" by (simp_all add: ascii_def)
  ultimately show ?thesis using file_contains_exact [of "ascii ''aio_dma''" ?f] by simp
qed

text \<open>What a task shows when it is not the stock GUI's.\<close>

definition harmless_task :: "proc_fs \<Rightarrow> string \<Rightarrow> bool" where
  "harmless_task fs root \<longleftrightarrow> (case ah_read_small (open_file fs (root @ ''/comm'')) 128 0 of (ok, comm, err) \<Rightarrow>
     if \<not> ok then missing err
     else (\<forall>rest. comm \<noteq> ascii ''zkgui'' @ rest) \<and>
       (case read_link fs (root @ ''/exe'') of
          Inl e \<Rightarrow> missing e \<or> hidden e
        | Inr l \<Rightarrow> length l < 192 \<and> (\<forall>rest. l \<noteq> ascii ''/bin/zkgui'' @ rest)))"

lemma starts_with:
  assumes "length p = n"
  shows "(n \<le> length l \<and> take n l = p) \<longleftrightarrow> (\<exists>rest. l = p @ rest)"
proof
  assume "n \<le> length l \<and> take n l = p"
  then have "l = p @ drop n l" using append_take_drop_id [of n l] by simp
  then show "\<exists>rest. l = p @ rest" ..
qed (use assms in auto)

lemma task_clear_harmless:
  assumes "length root \<le> 186"
  shows "task_clear fs root = harmless_task fs root"
proof -
  have p: "take 191 (root @ ''/comm'') = root @ ''/comm''" "take 191 (root @ ''/exe'') = root @ ''/exe''"
    using assms by simp_all
  obtain ok comm err where r: "ah_read_small (open_file fs (root @ ''/comm'')) 128 0 = (ok, comm, err)"
    by (rule prod_cases3)
  have c: "(5 \<le> length comm \<and> take 5 comm = ascii ''zkgui'') = (\<exists>rest. comm = ascii ''zkgui'' @ rest)"
    by (rule starts_with) (simp add: ascii_def)
  have l: "(10 \<le> length l \<and> take 10 l = ascii ''/bin/zkgui'') = (\<exists>rest. l = ascii ''/bin/zkgui'' @ rest)" for l
    by (rule starts_with) (simp add: ascii_def)
  show ?thesis
    unfolding task_clear_def harmless_task_def p r prod.case c
    by (cases "read_link fs (root @ ''/exe'')") (auto simp: Let_def l not_le)
qed

lemma tasks_loop_sound:
  assumes "tasks_loop fs path err n ts = (m, True)" and "length path < 128"
  shows "err = 0 \<and> (\<forall>t \<in> set ts. ah_numeric t \<longrightarrow> harmless_task fs (path @ ''/'' @ t))"
  using assms(1)
proof (induction ts arbitrary: n)
  case (Cons t ts)
  show ?case
  proof (cases "ah_numeric t")
    case True
    then have t: "length t \<le> 20" "task_clear fs (take 159 (path @ ''/'' @ t))" "tasks_loop fs path err (n + 1) ts = (m, True)"
      using Cons.prems by (auto split: if_splits)
    have fit: "take 159 (path @ ''/'' @ t) = path @ ''/'' @ t" "length (path @ ''/'' @ t) \<le> 186" using t(1) assms(2) by simp_all
    have "harmless_task fs (path @ ''/'' @ t)" using t(2) unfolding fit(1) task_clear_harmless [OF fit(2)] .
    then show ?thesis using Cons.IH [OF t(3)] by simp
  next
    case False
    then show ?thesis using Cons by simp
  qed
qed simp

lemma processes_loop_sound:
  assumes "processes_loop fs proc err m n ps"
  shows "err = 0 \<and> (\<forall>p \<in> set ps. ah_numeric p \<longrightarrow>
    (case open_dir fs (proc @ ''/'' @ p @ ''/task'') of
       Inl e \<Rightarrow> missing e
     | Inr (ts, terr) \<Rightarrow> terr = 0 \<and>
         (\<forall>t \<in> set ts. ah_numeric t \<longrightarrow> harmless_task fs (proc @ ''/'' @ p @ ''/task'' @ ''/'' @ t))))"
  using assms
proof (induction ps arbitrary: m n)
  case (Cons p ps)
  show ?case
  proof (cases "ah_numeric p")
    case True
    let ?path = "proc @ ''/'' @ p @ ''/task''"
    have short: "length ?path < 128" using Cons.prems True by (simp add: Let_def split: if_splits)
    show ?thesis
    proof (cases "open_dir fs ?path")
      case (Inl e)
      then have "missing e" "processes_loop fs proc err (m + 1) n ps" using Cons.prems True by (auto simp: Let_def split: if_splits)
      then show ?thesis using Cons.IH Inl True by auto
    next
      case (Inr r)
      obtain ts terr where r: "r = (ts, terr)" by (rule prod.exhaust)
      obtain k ok where l: "tasks_loop fs ?path terr n ts = (k, ok)" by (rule prod.exhaust)
      have "ok" "processes_loop fs proc err (m + 1) k ps" using Cons.prems True Inr r l by (auto simp: Let_def split: if_splits)
      then show ?thesis using Cons.IH tasks_loop_sound [of fs ?path terr n ts k] l Inr r True short by auto
    qed
  next
    case False
    then show ?thesis using Cons by simp
  qed
qed simp

text \<open>
  The helper only takes the output when no task of the stock GUI is seen: a positive answer means
  that the list of processes was read to its end, and that of each process either the directory was
  gone or every task was looked at and none was named zkgui or ran a program whose path starts with
  /bin/zkgui (a task whose program cannot be read for a reason other than its end or its permissions
  counts as the GUI's). No bound on paths, names or counts is passed over in silence.
\<close>

theorem stock_gui_absent_sound:
  assumes "ah_stock_gui_absent fs proc"
  shows "\<exists>ps. open_dir fs proc = Inr (ps, 0) \<and> (\<forall>p \<in> set ps. ah_numeric p \<longrightarrow>
    (case open_dir fs (proc @ ''/'' @ p @ ''/task'') of
       Inl e \<Rightarrow> missing e
     | Inr (ts, err) \<Rightarrow> err = 0 \<and>
         (\<forall>t \<in> set ts. ah_numeric t \<longrightarrow> harmless_task fs (proc @ ''/'' @ p @ ''/task'' @ ''/'' @ t))))"
proof -
  obtain ps err where d: "open_dir fs proc = Inr (ps, err)" "processes_loop fs proc err 0 0 ps"
    using assms by (auto simp: ah_stock_gui_absent_def split: sum.splits prod.splits)
  from processes_loop_sound [OF d(2)] d(1) show ?thesis by auto
qed

definition example_proc :: proc_fs where
  "example_proc = \<lparr>
     open_file = (\<lambda>_. Inr \<lparr>content = ascii ''sh'', answers = []\<rparr>),
     read_link = (\<lambda>_. Inr (ascii ''/bin/busybox'')),
     open_dir = (\<lambda>path. if path = ''/proc'' then Inr ([''self'', ''12''], 0)
       else if path = ''/proc/12/task'' then Inr ([''12'', ''13''], 0) else Inl ENOENT)\<rparr>"

theorem stock_gui_absent_sound_witness:
  "harmless_task example_proc ''/proc/12/task/12'' \<and> harmless_task example_proc ''/proc/12/task/13''"
proof -
  have read: "small_loop \<lparr>content = ascii ''sh'', answers = []\<rparr> 128 [] 0 = (True, ascii ''sh'', 0)"
    by (subst small_loop.simps, simp, subst small_loop.simps, simp add: ascii_def)
  have clear: "task_clear example_proc root" for root
    by (simp add: task_clear_def ah_read_small_def example_proc_def read Let_def) (simp add: ascii_def)
  have "ah_stock_gui_absent example_proc ''/proc''"
    by (simp add: ah_stock_gui_absent_def clear) (simp add: example_proc_def ah_numeric_def clear [unfolded example_proc_def])
  from stock_gui_absent_sound [OF this] show ?thesis by (auto simp: example_proc_def ah_numeric_def)
qed

end
