(* ===== verification/Audio_Helper.thy ===== *)
theory Audio_Helper
  imports Audio_Protocol "HOL-Library.Signed_Division"
begin

text \<open>
  The core of the audio helper, \<open>tc002/audio/helper/audio_helper.c\<close>: the queue of samples, the
  conversion to the device's rate and the state machine from an opened stream to silence. The calls
  of \<open>ah_ops\<close> are parameters, operations of an environment of type \<open>'z\<close>. A device call answers its
  result, the three words of a query, and the underruns the backend adds to the core's count while it
  answers (\<open>note_underruns\<close> of \<open>pcm_backend.c\<close>, the only fields of the core a backend writes there).
\<close>

section \<open>The state\<close>

abbreviation (input) BLOCK_SAMPLES :: nat where "BLOCK_SAMPLES \<equiv> 1024"
abbreviation (input) BLOCK_BYTES :: nat where "BLOCK_BYTES \<equiv> 2048"
abbreviation (input) TARGET_BUSY_BYTES :: nat where "TARGET_BUSY_BYTES \<equiv> 8192"
abbreviation (input) LOW_BUSY_BYTES :: nat where "LOW_BUSY_BYTES \<equiv> 2048"
abbreviation (input) PRIME_MS :: int where "PRIME_MS \<equiv> 500"
abbreviation (input) SETTLE_MS :: int where "SETTLE_MS \<equiv> 1000"
abbreviation (input) PAUSE_AFTER_MS :: int where "PAUSE_AFTER_MS \<equiv> 1000"
abbreviation (input) TICK_MS :: int where "TICK_MS \<equiv> 10"
abbreviation (input) REFUSAL_LIMIT :: nat where "REFUSAL_LIMIT \<equiv> 100"
abbreviation (input) QUEUE_SAMPLES :: nat where "QUEUE_SAMPLES \<equiv> 8192"
abbreviation (input) DEVICE_FULL :: int where "DEVICE_FULL \<equiv> - EAGAIN"

datatype ah_call = AH_SET_MUTE | AH_SET_VOLUME | AH_CLEAR | AH_QUERY | AH_SEND

datatype ah_settle_next = SETTLE_TO_IDLE | SETTLE_TO_PAUSE

record call_answer =
  ans_result :: int
  ans_size :: nat
  ans_free :: nat
  ans_busy :: nat
  ans_underruns :: nat

record 'z ah_ops =
  dev_call :: "ah_call \<Rightarrow> int list \<Rightarrow> int \<Rightarrow> 'z \<Rightarrow> call_answer \<times> 'z"
  sock_send :: "bytes \<Rightarrow> 'z \<Rightarrow> int \<times> 'z"

record ah_state =
  astate :: audio_state
  aerror :: audio_error
  avolume :: nat
  vendor_result :: int
  amuted :: bool
  hello_pending :: bool
  status_dirty :: bool
  broken :: bool
  generation :: "32 word"
  completed :: "32 word"
  rate :: nat
  achannels :: nat
  draining :: bool
  silence_sent :: bool
  starving :: bool
  settle_next :: ah_settle_next
  primed_busy :: nat
  settled_busy :: nat
  clear_after_settle :: bool
  deadline :: int
  starved_since :: int
  rate_step :: nat
  phase :: nat
  qhead :: nat
  qcount :: nat
  consumed :: nat
  busy :: nat
  aunderruns :: nat
  refusals :: nat
  queue :: "int list"
  block :: "int list"

type_synonym 'z core = "ah_state \<times> 'z"

section \<open>Calls and failure\<close>

definition mark_dirty :: "ah_state \<Rightarrow> ah_state" where
  "mark_dirty s = s\<lparr>status_dirty := True\<rparr>"

definition ah_fail :: "audio_error \<Rightarrow> int \<Rightarrow> ah_state \<Rightarrow> ah_state" where
  "ah_fail e r s =
     (let s = (if astate s \<noteq> AUDIO_FAILED then s\<lparr>aerror := e, vendor_result := r\<rparr> else s)
      in mark_dirty (s\<lparr>astate := AUDIO_FAILED\<rparr>))"

definition note_underruns :: "nat \<Rightarrow> ah_state \<Rightarrow> ah_state" where
  "note_underruns n s =
     (if n = 0 then s else mark_dirty (s\<lparr>aunderruns := wrap32 (aunderruns s + n)\<rparr>))"

definition device_call :: "'z ah_ops \<Rightarrow> ah_call \<Rightarrow> int list \<Rightarrow> int \<Rightarrow> 'z core \<Rightarrow> call_answer \<times> 'z core" where
  "device_call ops which data v c = (case dev_call ops which data v (snd c) of (a, z) \<Rightarrow>
     (a, (note_underruns (ans_underruns a) (fst c), z)))"

definition require_zero :: "'z ah_ops \<Rightarrow> ah_call \<Rightarrow> int \<Rightarrow> 'z core \<Rightarrow> bool \<times> 'z core" where
  "require_zero ops which v c = (case device_call ops which [] v c of (a, (s, z)) \<Rightarrow>
     if ans_result a \<noteq> 0 then (False, (ah_fail ERROR_VENDOR (ans_result a) s, z)) else (True, (s, z)))"

definition queue_words_bad :: "nat \<Rightarrow> nat \<Rightarrow> nat \<Rightarrow> bool" where
  "queue_words_bad q0 q1 q2 \<longleftrightarrow> q0 = 0 \<or> (q0 OR q1 OR q2) AND 15 \<noteq> 0 \<or> q0 < q1 \<or> q0 < q2
     \<or> q1 \<noteq> wrap32 (q0 + (2 ^ 32 - q2))"

definition query :: "'z ah_ops \<Rightarrow> 'z core \<Rightarrow> bool \<times> 'z core" where
  "query ops c = (case device_call ops AH_QUERY [] 0 c of (a, (s, z)) \<Rightarrow>
     if ans_result a \<noteq> 0 then (False, (ah_fail ERROR_VENDOR (ans_result a) s, z))
     else if queue_words_bad (ans_size a) (ans_free a) (ans_busy a) then (False, (ah_fail ERROR_QUEUE 0 s, z))
     else (True, (s\<lparr>busy := ans_busy a\<rparr>, z)))"

definition set_muted :: "'z ah_ops \<Rightarrow> bool \<Rightarrow> 'z core \<Rightarrow> bool \<times> 'z core" where
  "set_muted ops m c = (case require_zero ops AH_SET_MUTE (if m then 1 else 0) c of (ok, (s, z)) \<Rightarrow>
     if \<not> ok then (False, (s, z)) else (True, (s\<lparr>amuted := m\<rparr>, z)))"

text \<open>1 accepted, 0 buffer full, -1 failed.\<close>

definition send_block :: "'z ah_ops \<Rightarrow> 'z core \<Rightarrow> int \<times> 'z core" where
  "send_block ops c = (case device_call ops AH_SEND (block (fst c)) (int BLOCK_BYTES) c of (a, (s, z)) \<Rightarrow>
     if ans_result a = 0 then (1, (s\<lparr>busy := wrap32 (busy s + BLOCK_BYTES)\<rparr>, z))
     else if ans_result a = DEVICE_FULL then (0, (s, z))
     else (- 1, (ah_fail ERROR_VENDOR (ans_result a) s, z)))"

definition send_silence :: "'z ah_ops \<Rightarrow> 'z core \<Rightarrow> int \<times> 'z core" where
  "send_silence ops c = send_block ops (fst c\<lparr>block := replicate BLOCK_SAMPLES 0\<rparr>, snd c)"

section \<open>The queue\<close>

definition clear_queue :: "ah_state \<Rightarrow> ah_state" where
  "clear_queue s = s\<lparr>qhead := 0, qcount := 0, phase := 0\<rparr>"

definition queued :: "ah_state \<Rightarrow> nat \<Rightarrow> int" where
  "queued s index = queue s ! (wrap32 (qhead s + index) mod QUEUE_SAMPLES)"

definition enqueue :: "int \<Rightarrow> ah_state \<Rightarrow> ah_state" where
  "enqueue v s = s\<lparr>queue := (queue s)[wrap32 (qhead s + qcount s) mod QUEUE_SAMPLES := v],
     qcount := qcount s + 1\<rparr>"

definition advance :: "nat \<Rightarrow> ah_state \<Rightarrow> ah_state" where
  "advance n s = s\<lparr>qhead := (qhead s + n) mod QUEUE_SAMPLES, qcount := qcount s - n\<rparr>"

definition consume :: "nat \<Rightarrow> ah_state \<Rightarrow> ah_state" where
  "consume n s =
     (let n = (if qcount s < n then qcount s else n);
          s = advance n s
      in mark_dirty (s\<lparr>consumed := wrap32 (consumed s + n * 2 * achannels s)\<rparr>))"

definition frames_needed :: "ah_state \<Rightarrow> nat" where
  "frames_needed s =
     (let final = phase s + (BLOCK_SAMPLES - 1) * rate_step s
      in wrap32 (final div 65536 + (if final mod 65536 \<noteq> 0 then 2 else 1)))"

text \<open>One sample at the device's rate: linear interpolation at a 16.16 fixed-point position.\<close>

definition resampled :: "ah_state \<Rightarrow> nat \<Rightarrow> int" where
  "resampled s position =
     (let index = wrap32 (position div 65536); fraction = int (position mod 65536) in
      if qcount s \<le> index then 0
      else
        let a = queued s index;
            b = (if fraction \<noteq> 0 \<and> index + 1 < qcount s then queued s (index + 1) else a)
        in sint (word_of_int (a + ((b - a) * fraction) sdiv 65536) :: 16 word))"

definition audio_block :: "ah_state \<Rightarrow> int list" where
  "audio_block s = map (\<lambda>i. resampled s (phase s + i * rate_step s)) [0..<BLOCK_SAMPLES]"

definition send_audio_block :: "'z ah_ops \<Rightarrow> 'z core \<Rightarrow> int \<times> 'z core" where
  "send_audio_block ops c =
     (let position = phase (fst c) + BLOCK_SAMPLES * rate_step (fst c) in
      case send_block ops (fst c\<lparr>block := audio_block (fst c)\<rparr>, snd c) of (r, (s, z)) \<Rightarrow>
        if r \<le> 0 then (r, (s, z))
        else (1, (consume (wrap32 (position div 65536)) (s\<lparr>phase := position mod 65536\<rparr>), z)))"

section \<open>Changes of state\<close>

definition set_astate :: "audio_state \<Rightarrow> ah_state \<Rightarrow> ah_state" where
  "set_astate st s = (if astate s \<noteq> st then mark_dirty s else s)\<lparr>astate := st\<rparr>"

definition begin_priming :: "int \<Rightarrow> ah_state \<Rightarrow> ah_state" where
  "begin_priming now s = set_astate AUDIO_PRIMING s\<lparr>silence_sent := False, deadline := now + PRIME_MS\<rparr>"

definition begin_settling :: "int \<Rightarrow> ah_settle_next \<Rightarrow> ah_state \<Rightarrow> ah_state" where
  "begin_settling now nxt s =
     set_astate AUDIO_SETTLING s\<lparr>settle_next := nxt, silence_sent := False, deadline := now + SETTLE_MS\<rparr>"

definition complete_generation :: "ah_state \<Rightarrow> ah_state" where
  "complete_generation s =
     (let s = (if generation s \<noteq> 0 then s\<lparr>completed := generation s\<rparr> else s);
          s = s\<lparr>generation := 0, draining := False, starving := False\<rparr>
      in mark_dirty (set_astate AUDIO_IDLE (clear_queue s)))"

definition stop_generation :: "'z ah_ops \<Rightarrow> 'z core \<Rightarrow> 'z core" where
  "stop_generation ops c =
     (case (if \<not> amuted (fst c) then set_muted ops True c else (True, c)) of (ok, c) \<Rightarrow>
        if \<not> ok then c
        else case require_zero ops AH_CLEAR 0 c of (ok, (s, z)) \<Rightarrow>
          if \<not> ok then (s, z) else (complete_generation (s\<lparr>busy := 0\<rparr>), z))"

definition unmute_if_audible :: "'z ah_ops \<Rightarrow> 'z core \<Rightarrow> bool \<times> 'z core" where
  "unmute_if_audible ops c =
     (if avolume (fst c) = 0 \<or> \<not> amuted (fst c) then (True, c) else set_muted ops False c)"

definition ah_init :: ah_state where
  "ah_init = \<lparr>astate = AUDIO_STARTING, aerror = ERROR_NONE, avolume = 0, vendor_result = 0, amuted = True,
     hello_pending = False, status_dirty = True, broken = False, generation = 0, completed = 0, rate = 0,
     achannels = 0, draining = False, silence_sent = False, starving = False, settle_next = SETTLE_TO_IDLE,
     primed_busy = 2 ^ 32 - 1, settled_busy = BLOCK_BYTES, clear_after_settle = True, deadline = 0,
     starved_since = 0, rate_step = 0, phase = 0, qhead = 0, qcount = 0, consumed = 0, busy = 0, aunderruns = 0,
     refusals = 0, queue = replicate QUEUE_SAMPLES 0, block = replicate BLOCK_SAMPLES 0\<rparr>"

section \<open>Messages from the runtime\<close>

definition bad_message :: "ah_state \<Rightarrow> ah_state" where
  "bad_message s = mark_dirty (s\<lparr>aerror := ERROR_BAD_MESSAGE\<rparr>)"

definition sample16 :: "bytes \<Rightarrow> int" where
  "sample16 p = sint (get16 p)"

text \<open>The mono samples of a payload: the frames themselves, or the mean of the two channels.\<close>

definition frame_sample :: "nat \<Rightarrow> bytes \<Rightarrow> nat \<Rightarrow> int" where
  "frame_sample channels payload i =
     (let p = drop (i * (2 * channels)) payload; v = sample16 p;
          v = (if channels = 2 then (v + sample16 (drop 2 p)) sdiv 2 else v)
      in sint (word_of_int v :: 16 word))"

definition receive_pcm :: "audio_frame \<Rightarrow> ah_state \<Rightarrow> ah_state" where
  "receive_pcm f s =
     (let width = 2 * achannels s in
      if generation s = 0 \<or> frame_generation f \<noteq> generation s then s
      else if frame_length f mod width \<noteq> 0 then bad_message s
      else
        let frames = frame_length f div width in
        if draining s then bad_message s
        else if QUEUE_SAMPLES - qcount s < frames \<or> WINDOW_BYTES < (qcount s + frames) * width
          then mark_dirty (s\<lparr>aerror := ERROR_OVERFLOW\<rparr>)
        else mark_dirty (fold enqueue (map (frame_sample (achannels s) (frame_payload f)) [0..<frames]) s))"

definition apply_volume :: "'z ah_ops \<Rightarrow> nat \<Rightarrow> 'z core \<Rightarrow> 'z core" where
  "apply_volume ops percent c =
     (case require_zero ops AH_SET_VOLUME (audio_volume_db percent) (mark_dirty (fst c\<lparr>avolume := percent\<rparr>), snd c) of
        (ok, (s, z)) \<Rightarrow>
          if \<not> ok then (s, z)
          else if astate s \<noteq> AUDIO_PLAYING then (s, z)
          else if percent = 0 \<and> \<not> amuted s then snd (set_muted ops True (s, z))
          else if percent \<noteq> 0 \<and> amuted s then snd (set_muted ops False (s, z))
          else (s, z))"

definition open_stream :: "int \<Rightarrow> 32 word \<Rightarrow> nat \<Rightarrow> nat \<Rightarrow> ah_state \<Rightarrow> ah_state" where
  "open_stream now g r ch s =
     mark_dirty (begin_priming now (clear_queue (s\<lparr>generation := g, rate := r, achannels := ch,
       rate_step := wrap32 (r * 65536 div DEVICE_RATE), consumed := 0, draining := False, starving := False\<rparr>)))"

definition ah_receive :: "'z ah_ops \<Rightarrow> bytes \<Rightarrow> int \<Rightarrow> 'z core \<Rightarrow> 'z core" where
  "ah_receive ops data now c = (case c of (s, z) \<Rightarrow>
     if astate s = AUDIO_FAILED \<or> astate s = AUDIO_STARTING then (s, z)
     else case audio_parse data of
       None \<Rightarrow> (bad_message s, z)
     | Some f \<Rightarrow> (case frame_type f of
         AUDIO_OPEN \<Rightarrow> (case read_open f of
             None \<Rightarrow> (bad_message s, z)
           | Some (r, ch) \<Rightarrow>
               (case (if generation s \<noteq> 0 then stop_generation ops (s, z) else (s, z)) of (s, z) \<Rightarrow>
                  if astate s = AUDIO_FAILED then (s, z)
                  else (open_stream now (frame_generation f) r ch s, z)))
       | AUDIO_PCM \<Rightarrow> (receive_pcm f s, z)
       | AUDIO_DRAIN \<Rightarrow>
           (if generation s \<noteq> 0 \<and> frame_generation f = generation s
            then mark_dirty (s\<lparr>draining := True\<rparr>) else s, z)
       | AUDIO_STOP \<Rightarrow>
           (case (if generation s \<noteq> 0 \<and> frame_generation f = generation s
                  then stop_generation ops (s, z) else (s, z)) of (s, z) \<Rightarrow> (mark_dirty s, z))
       | AUDIO_VOLUME \<Rightarrow> (case read_volume f of
             Some percent \<Rightarrow> apply_volume ops percent (s, z)
           | None \<Rightarrow> (bad_message s, z))
       | AUDIO_HELLO \<Rightarrow> (bad_message s, z)
       | AUDIO_STATUS \<Rightarrow> (bad_message s, z)))"

section \<open>The service of the device\<close>

definition prime_timeout :: "'z ah_ops \<Rightarrow> 'z core \<Rightarrow> int \<times> 'z core" where
  "prime_timeout ops c = (- 1, stop_generation ops (fst c\<lparr>aerror := ERROR_PRIME_TIMEOUT\<rparr>, snd c))"

definition service_priming :: "'z ah_ops \<Rightarrow> int \<Rightarrow> 'z core \<Rightarrow> int \<times> 'z core" where
  "service_priming ops now c =
     (if \<not> silence_sent (fst c) then
        (case send_silence ops c of (taken, (s, z)) \<Rightarrow>
           if taken < 0 then (- 1, (s, z))
           else if taken \<noteq> 0 then (TICK_MS, (s\<lparr>silence_sent := True\<rparr>, z))
           else if deadline s \<le> now then prime_timeout ops (s, z)
           else (TICK_MS, (s, z)))
      else case query ops c of (ok, (s, z)) \<Rightarrow>
        if \<not> ok then (- 1, (s, z))
        else if busy s \<le> primed_busy s then
          (case unmute_if_audible ops (s, z) of (ok, (s, z)) \<Rightarrow>
             if \<not> ok then (- 1, (s, z)) else (0, (set_astate AUDIO_PLAYING s, z)))
        else if deadline s \<le> now then prime_timeout ops (s, z)
        else (TICK_MS, (s, z)))"

definition settle_end :: "'z ah_ops \<Rightarrow> bool \<Rightarrow> 'z core \<Rightarrow> int \<times> 'z core" where
  "settle_end ops timed_out c =
     (case (if \<not> amuted (fst c) then set_muted ops True c else (True, c)) of (ok, (s, z)) \<Rightarrow>
      if \<not> ok then (- 1, (s, z))
      else
        let s = (if timed_out then s\<lparr>aerror := ERROR_SETTLE_TIMEOUT\<rparr> else s) in
        case (if timed_out \<or> clear_after_settle s
              then (case require_zero ops AH_CLEAR 0 (s, z) of (ok, (s, z)) \<Rightarrow>
                 (ok, (if ok then s\<lparr>busy := 0\<rparr> else s, z)))
              else (True, (s, z))) of (ok, (s, z)) \<Rightarrow>
        if \<not> ok then (- 1, (s, z))
        else if settle_next s = SETTLE_TO_IDLE then (0, (complete_generation s, z))
        else (0, (set_astate AUDIO_PAUSED s, z)))"

definition service_settling :: "'z ah_ops \<Rightarrow> int \<Rightarrow> 'z core \<Rightarrow> int \<times> 'z core" where
  "service_settling ops now c =
     (let settled = (\<lambda>c. case query ops c of (ok, (s, z)) \<Rightarrow>
            if \<not> ok then (- 1, (s, z))
            else if settled_busy s < busy s \<and> now < deadline s then (TICK_MS, (s, z))
            else settle_end ops (settled_busy s < busy s) (s, z))
      in if \<not> silence_sent (fst c) then
           (case send_silence ops c of (taken, (s, z)) \<Rightarrow>
              if taken < 0 then (- 1, (s, z))
              else if taken \<noteq> 0 then (TICK_MS, (s\<lparr>silence_sent := True\<rparr>, z))
              else if deadline s \<le> now then settle_end ops True (s, z)
              else (TICK_MS, (s, z)))
         else settled c)"

text \<open>What ends the playing loop when it has no block to send.\<close>

definition starve :: "'z ah_ops \<Rightarrow> int \<Rightarrow> 'z core \<Rightarrow> int \<times> 'z core" where
  "starve ops now c = (case c of (s, z) \<Rightarrow>
     if draining s then service_settling ops now (begin_settling now SETTLE_TO_IDLE s, z)
     else if LOW_BUSY_BYTES \<le> busy s then (TICK_MS, (s, z))
     else
       let s = (if \<not> starving s
                then mark_dirty (s\<lparr>starving := True, starved_since := now, aunderruns := wrap32 (aunderruns s + 1)\<rparr>)
                else s)
       in if PAUSE_AFTER_MS \<le> now - starved_since s
          then service_settling ops now (begin_settling now SETTLE_TO_PAUSE s, z)
          else case send_silence ops (s, z) of (taken, c) \<Rightarrow> if taken < 0 then (- 1, c) else (TICK_MS, c))"

lemma send_audio_block_busy:
  "fst (send_audio_block ops c) = 1 \<Longrightarrow>
     busy (fst (snd (send_audio_block ops c))) = wrap32 (busy (fst c) + BLOCK_BYTES)"
  by (auto simp: send_audio_block_def send_block_def device_call_def note_underruns_def mark_dirty_def consume_def
      advance_def Let_def split_def split: if_splits)

lemma send_audio_block_results: "fst (send_audio_block ops c) \<in> {- 1, 0, 1}"
  by (auto simp: send_audio_block_def send_block_def Let_def split_def)

function playing_loop :: "'z ah_ops \<Rightarrow> int \<Rightarrow> 'z core \<Rightarrow> int \<times> 'z core" where
  "playing_loop ops now c =
     (if wrap32 (busy (fst c) + BLOCK_BYTES) \<le> TARGET_BUSY_BYTES then
        (if frames_needed (fst c) \<le> qcount (fst c) \<or> draining (fst c) \<and> qcount (fst c) \<noteq> 0 then
           (case send_audio_block ops c of (taken, (s, z)) \<Rightarrow>
              if taken < 0 then (- 1, (s, z))
              else if taken = 0 then
                let s = s\<lparr>refusals := wrap32 (refusals s + 1)\<rparr> in
                if REFUSAL_LIMIT \<le> refusals s then (- 1, (ah_fail ERROR_VENDOR DEVICE_FULL s, z))
                else (TICK_MS, (s, z))
              else playing_loop ops now (s\<lparr>refusals := 0, starving := False\<rparr>, z))
         else starve ops now c)
      else (TICK_MS, c))"
  by pat_completeness auto
termination
proof (relation "measure (\<lambda>(ops, now, c). 12288 - wrap32 (busy (fst c) + BLOCK_BYTES))", goal_cases)
  case (2 ops now c taken cz s z)
  have e: "send_audio_block ops c = (taken, s, z)" using 2(3,4) by simp
  have "taken = 1" using send_audio_block_results [of ops c] 2(5,6) by (simp add: e)
  then have b: "busy s = wrap32 (busy (fst c) + 2048)" using send_audio_block_busy [of ops c] by (simp add: e)
  with 2(1) have "wrap32 (busy s + 2048) = wrap32 (busy (fst c) + 2048) + 2048"
    by (simp add: wrap_simps)
  with 2(1) show ?case by simp
qed simp

declare playing_loop.simps [simp del]

definition service_playing :: "'z ah_ops \<Rightarrow> int \<Rightarrow> 'z core \<Rightarrow> int \<times> 'z core" where
  "service_playing ops now c = (case query ops c of (ok, c) \<Rightarrow>
     if \<not> ok then (- 1, c) else playing_loop ops now c)"

primrec service_rounds :: "'z ah_ops \<Rightarrow> int \<Rightarrow> nat \<Rightarrow> 'z core \<Rightarrow> int \<times> 'z core" where
  "service_rounds ops now 0 c = (TICK_MS, c)"
| "service_rounds ops now (Suc n) c =
     (let more_rounds = (\<lambda>(wait, c). if wait = 0 then service_rounds ops now n c else (wait, c)) in
      case astate (fst c) of
        AUDIO_PAUSED \<Rightarrow>
          (let s = fst c in
           if draining s \<and> qcount s = 0 then (- 1, (complete_generation s, snd c))
           else if qcount s < frames_needed s \<and> \<not> (draining s \<and> qcount s \<noteq> 0) then (- 1, c)
           else more_rounds (0, (begin_priming now s, snd c)))
      | AUDIO_PRIMING \<Rightarrow> more_rounds (service_priming ops now c)
      | AUDIO_PLAYING \<Rightarrow> more_rounds (service_playing ops now c)
      | AUDIO_SETTLING \<Rightarrow> more_rounds (service_settling ops now c)
      | _ \<Rightarrow> (- 1, c))"

definition ah_service :: "'z ah_ops \<Rightarrow> int \<Rightarrow> 'z core \<Rightarrow> int \<times> 'z core" where
  "ah_service ops now c = service_rounds ops now 4 c"

section \<open>Messages to the runtime\<close>

definition helper_hello :: audio_hello where
  "helper_hello = \<lparr>hello_rate = of_nat DEVICE_RATE, hello_channels = 1, hello_min_db = MIN_DB, hello_max_db = MAX_DB,
     hello_window = of_nat WINDOW_BYTES, hello_max_pcm = of_nat MAX_PCM_BYTES\<rparr>"

definition helper_status :: "ah_state \<Rightarrow> audio_status" where
  "helper_status s = \<lparr>status_state = state_code (astate s), status_volume = of_nat (avolume s),
     status_error = error_code (aerror s), status_consumed = of_nat (consumed s),
     status_queued = of_nat (qcount s * 2 * (if achannels s \<noteq> 0 then achannels s else 1)),
     status_busy = of_nat (busy s), status_underruns = of_nat (aunderruns s), status_completed = completed s,
     status_vendor = vendor_result s\<rparr>"

definition ah_flush :: "'z ah_ops \<Rightarrow> bytes \<Rightarrow> 'z core \<Rightarrow> 'z core" where
  "ah_flush ops message c = (case c of (s, z) \<Rightarrow>
     if broken s then (s, z)
     else case (if hello_pending s
                then (case sock_send ops (sent (encode_hello message helper_hello)) z of (r, z) \<Rightarrow>
                  let s = (if r < 0 then s\<lparr>broken := True\<rparr> else s)
                  in if r \<le> 0 then (False, (s, z)) else (True, (s\<lparr>hello_pending := False\<rparr>, z)))
                else (True, (s, z))) of (go, (s, z)) \<Rightarrow>
       if \<not> go \<or> \<not> status_dirty s then (s, z)
       else case sock_send ops (sent (encode_status message (generation s) (helper_status s))) z of (r, z) \<Rightarrow>
         let s = (if r < 0 then s\<lparr>broken := True\<rparr> else s)
         in (if 0 < r then s\<lparr>status_dirty := False\<rparr> else s, z))"

end
