(* ===== verification/Pcm_Driver.thy ===== *)
theory Pcm_Driver
  imports Prelude
begin

text \<open>
  The kernel driver \<open>tc002/kmod/awtrix_pcm/awtrix_pcm.c\<close> of the TC002 speaker. Its state is the
  record \<open>pcm_device\<close>, its module parameters the record \<open>pcm_params\<close>. The vendor audio calls (MHAL),
  the clock, sleeping, signals and the copy from user memory are operations of an environment of
  type \<open>'z\<close>, the record \<open>hal\<close>: they are not in the repository and may do anything their type allows.
  An operation maps a device and an environment to a result and their new values. Unsigned values
  are natural numbers with the wrap-around written out, jiffies a 32-bit word. Log lines are not
  modelled. What runs between two mutex operations is one definition, so that the interleavings of
  several threads are sequences of these (\<open>pcm_step\<close> in Pcm_Driver_Properties).
\<close>

section \<open>The data\<close>

abbreviation (input) GUARD_BYTES :: nat where "GUARD_BYTES \<equiv> 256"
abbreviation (input) WORD_BYTES :: nat where "WORD_BYTES \<equiv> 16"
abbreviation (input) PCM_RATE :: nat where "PCM_RATE \<equiv> 44100"
abbreviation (input) DPGA_MIN_DB :: int where "DPGA_MIN_DB \<equiv> - 64"
abbreviation (input) WRITE_FULL :: int where "WRITE_FULL \<equiv> - 2"
abbreviation (input) DRAIN_MARGIN_MS :: nat where "DRAIN_MARGIN_MS \<equiv> 250"
abbreviation (input) ERESTARTSYS :: int where "ERESTARTSYS \<equiv> 512"

datatype pcm_state = PCM_CLOSED | PCM_PREPARED | PCM_RUNNING | PCM_FAILED

definition pcm_state_code :: "pcm_state \<Rightarrow> nat" where
  "pcm_state_code s = (case s of PCM_CLOSED \<Rightarrow> 0 | PCM_PREPARED \<Rightarrow> 1 | PCM_RUNNING \<Rightarrow> 2 | PCM_FAILED \<Rightarrow> 3)"

record pcm_params =
  channels :: nat
  buffer_bytes :: nat
  period_bytes :: nat
  start_bytes :: nat
  initial_gain_db :: int
  max_gain_db :: int

record pcm_device =
  in_use :: bool
  wait_jiffies :: "32 word"
  wake_timer :: bool
  ready :: bool
  hal_open :: bool
  level_logged :: bool
  state :: pcm_state
  dma_miu_addr :: nat
  staging :: bytes
  frames :: bytes
  staged :: nat
  prepared_level :: nat
  silence_tail :: nat
  stall_armed :: bool
  stall_level :: nat
  stall_since :: "32 word"
  gain_db :: int
  muted :: bool
  written :: nat
  stream_base :: nat
  stream_begin :: int
  underruns :: nat
  hal_error :: int
  measured_rate :: nat

text \<open>What \<open>ConfigPcmOut\<close> is given; the addresses of the ring are the parameter's.\<close>

record mhal_cfg =
  cfg_rate :: nat
  cfg_bit_width :: nat
  cfg_channels :: nat
  cfg_interleaved :: nat
  cfg_miu_addr :: nat
  cfg_buffer :: nat
  cfg_period :: nat
  cfg_threshold :: nat

record 'z hal =
  mhal_init :: "'z \<Rightarrow> int \<times> 'z"
  mhal_config :: "mhal_cfg \<Rightarrow> 'z \<Rightarrow> int \<times> 'z"
  mhal_open :: "'z \<Rightarrow> int \<times> 'z"
  mhal_close :: "'z \<Rightarrow> int \<times> 'z"
  mhal_start :: "'z \<Rightarrow> int \<times> 'z"
  mhal_stop :: "'z \<Rightarrow> int \<times> 'z"
  mhal_write :: "bytes \<Rightarrow> 'z \<Rightarrow> int \<times> 'z"
  mhal_restart :: "'z \<Rightarrow> byte \<times> 'z"
  mhal_gain :: "int \<Rightarrow> nat \<Rightarrow> 'z \<Rightarrow> int \<times> 'z"
  mhal_level :: "'z \<Rightarrow> int \<times> 32 word \<times> 'z"
  jiffies :: "'z \<Rightarrow> 32 word"
  ktime_us :: "'z \<Rightarrow> int"
  to_jiffies :: "nat \<Rightarrow> 32 word"
  pause_us :: "nat \<Rightarrow> 'z \<Rightarrow> 'z"
  nap :: "32 word \<Rightarrow> 'z \<Rightarrow> 'z"
  signal_pending :: "'z \<Rightarrow> bool"
  fatal_signal :: "'z \<Rightarrow> bool"
  user_fault :: "'z \<Rightarrow> bool \<times> 'z"

type_synonym 'z pcm = "pcm_device \<times> 'z"

section \<open>Sizes\<close>

definition input_align :: "pcm_params \<Rightarrow> nat" where
  "input_align k = WORD_BYTES div channels k"

definition staging_capacity :: "pcm_params \<Rightarrow> nat" where
  "staging_capacity k = period_bytes k div channels k"

definition dma_bytes_per_second :: "pcm_params \<Rightarrow> nat" where
  "dma_bytes_per_second k = wrap32 (PCM_RATE * 2 * channels k)"

definition buffer_ms :: "pcm_params \<Rightarrow> nat" where
  "buffer_ms k = wrap32 (buffer_bytes k * 1000) div dma_bytes_per_second k"

definition clamp_gain :: "pcm_params \<Rightarrow> int \<Rightarrow> int" where
  "clamp_gain k db = min (max db DPGA_MIN_DB) (max_gain_db k)"

definition audible_gain :: "pcm_device \<Rightarrow> int" where
  "audible_gain p = (if muted p then DPGA_MIN_DB else gain_db p)"

definition free_dma_bytes :: "pcm_params \<Rightarrow> nat \<Rightarrow> nat" where
  "free_dma_bytes k level =
     (let used = wrap32 (level + GUARD_BYTES) in
      if buffer_bytes k \<le> used then 0
      else (buffer_bytes k - used) div WORD_BYTES * WORD_BYTES)"

definition stall_timeout :: "pcm_params \<Rightarrow> 'z hal \<Rightarrow> 32 word" where
  "stall_timeout k m = to_jiffies m (buffer_ms k + DRAIN_MARGIN_MS)"

definition time_after :: "32 word \<Rightarrow> 32 word \<Rightarrow> bool" where
  "time_after a b \<longleftrightarrow> sint (b - a) < 0"

section \<open>The vendor calls\<close>

definition hal_fail :: "int \<Rightarrow> 'z pcm \<Rightarrow> int \<times> 'z pcm" where
  "hal_fail ret s = (case s of (p, z) \<Rightarrow> (- EIO, (p\<lparr>hal_error := ret, state := PCM_FAILED\<rparr>, z)))"

definition hal_level :: "'z hal \<Rightarrow> 'z pcm \<Rightarrow> int \<times> nat \<times> 'z pcm" where
  "hal_level m s = (case s of (p, z) \<Rightarrow> case mhal_level m z of (ret, level, z) \<Rightarrow>
     if ret \<noteq> 0 then (case hal_fail ret (p, z) of (r, s) \<Rightarrow> (r, unat level, s))
     else (0, unat level, (p, z)))"

primrec set_gain_channels :: "'z hal \<Rightarrow> int \<Rightarrow> nat list \<Rightarrow> 'z pcm \<Rightarrow> int \<times> 'z pcm" where
  "set_gain_channels m db [] s = (0, s)"
| "set_gain_channels m db (c # cs) s = (case s of (p, z) \<Rightarrow>
     case mhal_gain m (sint (word_of_int db :: 16 word)) c z of (ret, z) \<Rightarrow>
       if ret \<noteq> 0 then (- EIO, (p\<lparr>hal_error := ret\<rparr>, z)) else set_gain_channels m db cs (p, z))"

definition hal_set_gain :: "'z hal \<Rightarrow> int \<Rightarrow> 'z pcm \<Rightarrow> int \<times> 'z pcm" where
  "hal_set_gain m db s = set_gain_channels m db [0, 1] s"

definition hal_quiet :: "'z hal \<Rightarrow> 'z pcm \<Rightarrow> 'z pcm" where
  "hal_quiet m s = (case hal_set_gain m DPGA_MIN_DB s of (_, (p, z)) \<Rightarrow> (p, pause_us m 2000 z))"

definition stream_measure :: "'z hal \<Rightarrow> nat \<Rightarrow> 'z pcm \<Rightarrow> 'z pcm" where
  "stream_measure m level s = (case s of (p, z) \<Rightarrow>
     if state p \<noteq> PCM_RUNNING \<or> level \<le> WORD_BYTES * 4 then (p, z)
     else
       let elapsed = ktime_us m z - stream_begin p;
           consumed = wrap64 (written p + (2 ^ 64 - stream_base p))
       in if elapsed < 50000 \<or> consumed \<le> level then (p, z)
          else (p\<lparr>measured_rate := wrap32 (wrap64 ((consumed - level) * 1000000) div nat elapsed)\<rparr>, z))"

definition stream_start :: "'z hal \<Rightarrow> 'z pcm \<Rightarrow> int \<times> 'z pcm" where
  "stream_start m s = (case hal_set_gain m (audible_gain (fst s)) s of (ret, (p, z)) \<Rightarrow>
     if ret \<noteq> 0 then (ret, (p\<lparr>state := PCM_FAILED\<rparr>, z))
     else case mhal_start m z of (ret, z) \<Rightarrow>
       if ret \<noteq> 0 then hal_fail ret (p, z)
       else (0, (p\<lparr>stream_base := wrap64 (written p + (2 ^ 64 - prepared_level p)),
              stream_begin := ktime_us m z, state := PCM_RUNNING, stall_armed := False\<rparr>, z)))"

definition stream_prepare :: "'z hal \<Rightarrow> 'z pcm \<Rightarrow> int \<times> 'z pcm" where
  "stream_prepare m s =
     (case (if state (fst s) = PCM_RUNNING then hal_quiet m s else s) of (p, z) \<Rightarrow>
      case mhal_restart m z of (ret, z) \<Rightarrow>
        if ret \<noteq> 0 then hal_fail (sint ret) (p, z)
        else (0, (p\<lparr>state := PCM_PREPARED, prepared_level := 0\<rparr>, z)))"

text \<open>The level is read again, after 20 microseconds, while it differs from the bytes prepared.\<close>

primrec settle_level :: "'z hal \<Rightarrow> nat \<Rightarrow> nat \<Rightarrow> 'z pcm \<Rightarrow> int \<times> nat \<times> 'z pcm" where
  "settle_level m 0 level s = (0, level, s)"
| "settle_level m (Suc tries) level s = (case hal_level m s of (ret, level, (p, z)) \<Rightarrow>
     if ret \<noteq> 0 then (- EIO, level, (p, z))
     else if level = prepared_level p then (0, level, (p, z))
     else settle_level m tries level (p, pause_us m 20 z))"

definition check_prepared_level :: "'z hal \<Rightarrow> 'z pcm \<Rightarrow> int \<times> 'z pcm" where
  "check_prepared_level m s = (case settle_level m 10 0 s of (ret, level, (p, z)) \<Rightarrow>
     if ret \<noteq> 0 then (- EIO, (p, z))
     else
       let p = (if \<not> level_logged p \<or> level \<noteq> prepared_level p then p\<lparr>level_logged := True\<rparr> else p)
       in if level \<noteq> prepared_level p then (- EIO, (p\<lparr>state := PCM_FAILED\<rparr>, z)) else (0, (p, z)))"

section \<open>Writing\<close>

fun duplicate_samples :: "bytes \<Rightarrow> bytes" where
  "duplicate_samples (a # b # xs) = a # b # a # b # duplicate_samples xs"
| "duplicate_samples _ = []"

definition fill_frames :: "pcm_params \<Rightarrow> bytes \<Rightarrow> pcm_device \<Rightarrow> bytes \<times> pcm_device" where
  "fill_frames k input p =
     (let n = wrap32 (length input * channels k) in
      if muted p then
        let p = p\<lparr>frames := patch (frames p) 0 (replicate n 0)\<rparr> in (take n (frames p), p)
      else if channels k = 2 then
        let p = p\<lparr>frames := patch (frames p) 0 (duplicate_samples input)\<rparr> in (take n (frames p), p)
      else (input, p))"

primrec write_attempts :: "'z hal \<Rightarrow> bytes \<Rightarrow> nat \<Rightarrow> 'z pcm \<Rightarrow> int \<times> 'z pcm" where
  "write_attempts m data 0 s = (case s of (p, z) \<Rightarrow> case mhal_write m data z of (ret, z) \<Rightarrow>
     if ret = int (length data) then (0, (p, z)) else hal_fail ret (p, z))"
| "write_attempts m data (Suc tries) s = (case s of (p, z) \<Rightarrow> case mhal_write m data z of (ret, z) \<Rightarrow>
     if ret = int (length data) then (0, (p, z))
     else if 0 \<le> ret \<or> ret = WRITE_FULL \<or> state p \<noteq> PCM_RUNNING then hal_fail ret (p, z)
     else case stream_prepare m (p\<lparr>underruns := wrap32 (underruns p + 1)\<rparr>, z) of (r, s) \<Rightarrow>
       if r \<noteq> 0 then (- EIO, s) else write_attempts m data tries s)"

definition hal_write :: "pcm_params \<Rightarrow> 'z hal \<Rightarrow> bytes \<Rightarrow> 'z pcm \<Rightarrow> int \<times> 'z pcm" where
  "hal_write k m input s = (case s of (p, z) \<Rightarrow> case fill_frames k input p of (data, p) \<Rightarrow>
     case write_attempts m data 1 (p, z) of (ret, (p, z)) \<Rightarrow>
       if ret \<noteq> 0 then (ret, (p, z))
       else
         let p = p\<lparr>written := wrap64 (written p + length data)\<rparr> in
         if state p \<noteq> PCM_PREPARED then (0, (p, z))
         else
           let p = p\<lparr>prepared_level := wrap32 (prepared_level p + length data)\<rparr> in
           case check_prepared_level m (p, z) of (ret, (p, z)) \<Rightarrow>
             if ret \<noteq> 0 then (- EIO, (p, z))
             else if start_bytes k \<le> prepared_level p then stream_start m (p, z)
             else (0, (p, z)))"

definition detect_stall :: "pcm_params \<Rightarrow> 'z hal \<Rightarrow> nat \<Rightarrow> 'z pcm \<Rightarrow> int \<times> 'z pcm" where
  "detect_stall k m level s = (case s of (p, z) \<Rightarrow>
     if state p \<noteq> PCM_RUNNING then (0, (p, z))
     else if \<not> stall_armed p \<or> level \<noteq> stall_level p then
       (0, (p\<lparr>stall_armed := True, stall_level := level, stall_since := jiffies m z\<rparr>, z))
     else if \<not> time_after (jiffies m z) (stall_since p + stall_timeout k m) then (0, (p, z))
     else stream_prepare m (p\<lparr>stall_armed := False, underruns := wrap32 (underruns p + 1)\<rparr>, z))"

definition push_room :: "pcm_params \<Rightarrow> nat \<Rightarrow> nat" where
  "push_room k level = min (free_dma_bytes k level div channels k) (staging_capacity k)"

definition push_input :: "pcm_params \<Rightarrow> 'z hal \<Rightarrow> bytes \<Rightarrow> 'z pcm \<Rightarrow> int \<times> 'z pcm" where
  "push_input k m src s =
     (if state (fst s) = PCM_FAILED then (- EIO, s)
      else case hal_level m s of (ret, level, s) \<Rightarrow>
        if ret \<noteq> 0 then (ret, s)
        else
          let s = stream_measure m level s; room = push_room k level in
          if room < input_align k then detect_stall k m level s
          else case s of (p, z) \<Rightarrow>
            let p = p\<lparr>stall_armed := False\<rparr>;
                n = min (length src) (wrap32 (room + (2 ^ 32 - staged p)))
            in case user_fault m z of (fault, z) \<Rightarrow>
              if fault then (- EFAULT, (p, z))
              else
                let p = p\<lparr>staging := patch (staging p) (staged p) (take n src)\<rparr>;
                    total = wrap32 (staged p + n);
                    emit = total div input_align k * input_align k;
                    p = p\<lparr>staged := total - emit\<rparr>
                in if emit = 0 then (int n, (p, z))
                   else case hal_write k m (take emit (staging p)) (p, z) of (ret, (p, z)) \<Rightarrow>
                     if ret \<noteq> 0 then (ret, (p, z))
                     else (int n, (p\<lparr>staging := patch (staging p) 0
                            (take (staged p) (drop emit (staging p)))\<rparr>, z)))"

definition flush_with_silence :: "pcm_params \<Rightarrow> 'z hal \<Rightarrow> 'z pcm \<Rightarrow> int \<times> 'z pcm" where
  "flush_with_silence k m s = (case hal_level m s of (ret, level, (p, z)) \<Rightarrow>
     if ret \<noteq> 0 then (ret, (p, z))
     else
       let room = push_room k level in
       if room < input_align k then (0, (p\<lparr>staged := 0\<rparr>, z))
       else
         let n = wrap32 (room + (2 ^ 32 - staged p));
             p = p\<lparr>staging := patch (staging p) (staged p) (replicate n 0),
                   silence_tail := wrap32 (n * channels k), staged := 0\<rparr>
         in hal_write k m (take room (staging p)) (p, z))"

section \<open>Draining and stopping\<close>

text \<open>The first critical section of a drain, and one round of its wait.\<close>

definition drain_begin :: "pcm_params \<Rightarrow> 'z hal \<Rightarrow> 'z pcm \<Rightarrow> int \<times> nat \<times> 'z pcm" where
  "drain_begin k m s = (case s of (p, z) \<Rightarrow>
     let p = p\<lparr>silence_tail := 0\<rparr> in
     case (if state p = PCM_FAILED then (- EIO, (p, z))
           else if state p = PCM_RUNNING \<or> prepared_level p \<noteq> 0 \<or> staged p \<noteq> 0
             then flush_with_silence k m (p, z)
           else (0, (p, z))) of (ret, (p, z)) \<Rightarrow>
     case (if ret = 0 \<and> state p = PCM_PREPARED \<and> prepared_level p \<noteq> 0
           then stream_start m (p, z) else (ret, (p, z))) of (ret, (p, z)) \<Rightarrow>
     (ret, min (silence_tail p) (period_bytes k div 2), (p, z)))"

definition drain_round :: "'z hal \<Rightarrow> nat \<Rightarrow> 32 word \<Rightarrow> 'z pcm \<Rightarrow> int option \<times> 'z pcm" where
  "drain_round m drained deadline s =
     (if state (fst s) \<noteq> PCM_RUNNING
      then (Some (if state (fst s) = PCM_FAILED then - EIO else 0), s)
      else case hal_level m s of (ret, level, s) \<Rightarrow>
        if ret \<noteq> 0 then (Some ret, s)
        else
          let s = stream_measure m level s in
          if level \<le> drained \<or> time_after (jiffies m (snd s)) deadline
          then (case stream_prepare m s of (ret, s) \<Rightarrow> (Some ret, s))
          else (None, s))"

partial_function (option) drain_loop ::
  "'z hal \<Rightarrow> bool \<Rightarrow> nat \<Rightarrow> 32 word \<Rightarrow> 'z pcm \<Rightarrow> (int \<times> 'z pcm) option" where
  "drain_loop m interruptible drained deadline s =
     (case drain_round m drained deadline s of
        (Some ret, s) \<Rightarrow> Some (ret, s)
      | (None, (p, z)) \<Rightarrow>
          let z = pause_us m 5000 z in
          if interruptible \<and> signal_pending m z then Some (- ERESTARTSYS, (p, z))
          else drain_loop m interruptible drained deadline (p, z))"

definition pcm_drain :: "pcm_params \<Rightarrow> 'z hal \<Rightarrow> bool \<Rightarrow> 'z pcm \<Rightarrow> (int \<times> 'z pcm) option" where
  "pcm_drain k m interruptible s = (case drain_begin k m s of (ret, drained, s) \<Rightarrow>
     if ret \<noteq> 0 then Some (ret, s)
     else drain_loop m interruptible drained (jiffies m (snd s) + stall_timeout k m) s)"

definition pcm_stop :: "'z hal \<Rightarrow> 'z pcm \<Rightarrow> int \<times> 'z pcm" where
  "pcm_stop m s = (case s of (p, z) \<Rightarrow>
     let p = p\<lparr>staged := 0\<rparr> in
     if state p = PCM_FAILED then (- EIO, (p, z)) else stream_prepare m (p, z))"

section \<open>Opening and closing\<close>

definition reset_stream :: "pcm_params \<Rightarrow> pcm_device \<Rightarrow> pcm_device" where
  "reset_stream k p =
     p\<lparr>staged := 0, prepared_level := 0, written := 0, stream_base := 0, underruns := 0, hal_error := 0,
       measured_rate := 0, level_logged := False, stall_armed := False, muted := False,
       gain_db := clamp_gain k (initial_gain_db k)\<rparr>"

definition pcm_cfg :: "pcm_params \<Rightarrow> pcm_device \<Rightarrow> mhal_cfg" where
  "pcm_cfg k p = \<lparr>cfg_rate = 44000, cfg_bit_width = 0, cfg_channels = channels k, cfg_interleaved = 1,
     cfg_miu_addr = dma_miu_addr p, cfg_buffer = buffer_bytes k, cfg_period = period_bytes k,
     cfg_threshold = start_bytes k\<rparr>"

definition open_hal :: "pcm_params \<Rightarrow> 'z hal \<Rightarrow> 'z pcm \<Rightarrow> int \<times> 'z pcm" where
  "open_hal k m s = (case s of (p, z) \<Rightarrow>
     if \<not> ready p then (- ENODEV, (p, z))
     else
       let p = reset_stream k p in
       case mhal_init m z of (ret, z) \<Rightarrow>
       if ret \<noteq> 0 then (- EIO, (p\<lparr>hal_error := ret\<rparr>, z))
       else case hal_set_gain m DPGA_MIN_DB (p, z) of (ret, (p, z)) \<Rightarrow>
       if ret \<noteq> 0 then (- ENODEV, (p, z))
       else case mhal_config m (pcm_cfg k p) z of (ret, z) \<Rightarrow>
       if ret \<noteq> 0 then (- EBUSY, (p\<lparr>hal_error := ret\<rparr>, z))
       else case mhal_open m z of (ret, z) \<Rightarrow>
       if ret \<noteq> 0 then (- EIO, (p\<lparr>hal_error := ret\<rparr>, snd (mhal_close m z)))
       else case hal_level m (p\<lparr>hal_open := True, state := PCM_PREPARED\<rparr>, z) of (ret, level, (p, z)) \<Rightarrow>
         (0, (if ret \<noteq> 0 \<or> level \<noteq> 0 then p\<lparr>state := PCM_FAILED\<rparr> else p, z)))"

definition close_hal :: "'z hal \<Rightarrow> 'z pcm \<Rightarrow> 'z pcm" where
  "close_hal m s =
     (if \<not> hal_open (fst s) then (fst s\<lparr>state := PCM_CLOSED\<rparr>, snd s)
      else case hal_quiet m s of (p, z) \<Rightarrow>
        case mhal_stop m z of (_, z) \<Rightarrow> case mhal_close m z of (_, z) \<Rightarrow>
          (p\<lparr>hal_open := False, state := PCM_CLOSED\<rparr>, z))"

definition pcm_open :: "pcm_params \<Rightarrow> 'z hal \<Rightarrow> 'z pcm \<Rightarrow> int \<times> 'z pcm" where
  "pcm_open k m s = (case s of (p, z) \<Rightarrow>
     if in_use p then (- EBUSY, (p, z))
     else case open_hal k m (p\<lparr>in_use := True\<rparr>, z) of (err, s) \<Rightarrow>
       case (if err = 0 \<and> state (fst s) = PCM_FAILED then (- EIO, close_hal m s) else (err, s)) of
         (err, (p, z)) \<Rightarrow> if err \<noteq> 0 then (err, (p\<lparr>in_use := False\<rparr>, z)) else (0, (p, z)))"

definition release_end :: "'z hal \<Rightarrow> 'z pcm \<Rightarrow> 'z pcm" where
  "release_end m s = (case close_hal m (fst s\<lparr>wake_timer := False\<rparr>, snd s) of (p, z) \<Rightarrow>
     (p\<lparr>in_use := False\<rparr>, z))"

definition pcm_release :: "pcm_params \<Rightarrow> 'z hal \<Rightarrow> 'z pcm \<Rightarrow> (int \<times> 'z pcm) option" where
  "pcm_release k m s =
     (if fatal_signal m (snd s) then Some (0, release_end m s)
      else map_option (\<lambda>(_, s). (0, release_end m s)) (pcm_drain k m False s))"

section \<open>The file operations\<close>

text \<open>The loop of a write: \<open>n\<close> bytes have been taken so far.\<close>

partial_function (option) write_loop ::
  "pcm_params \<Rightarrow> 'z hal \<Rightarrow> bool \<Rightarrow> bytes \<Rightarrow> nat \<Rightarrow> 'z pcm \<Rightarrow> (int \<times> nat \<times> 'z pcm) option" where
  "write_loop k m nonblock buf n s =
     (if length buf \<le> n then Some (0, n, s)
      else case push_input k m (drop n buf) s of (r, (p, z)) \<Rightarrow>
        if r < 0 then Some (r, n, (p, z))
        else if r \<noteq> 0 then write_loop k m nonblock buf (n + nat r) (p, z)
        else if nonblock then Some (- EAGAIN, n, (p, z))
        else
          let z = nap m (wait_jiffies p) z in
          if signal_pending m z then Some (- ERESTARTSYS, n, (p, z))
          else write_loop k m nonblock buf n (p, z))"

definition pcm_write :: "pcm_params \<Rightarrow> 'z hal \<Rightarrow> bool \<Rightarrow> bytes \<Rightarrow> 'z pcm \<Rightarrow> (int \<times> 'z pcm) option" where
  "pcm_write k m nonblock buf s =
     (if length buf mod 2 = 1 then Some (- EINVAL, s)
      else map_option (\<lambda>(r, n, s). (if n \<noteq> 0 then int n else r, s)) (write_loop k m nonblock buf 0 s))"

datatype poll_mask = POLL_NONE | POLL_ERR | POLL_OUT

definition pcm_poll :: "pcm_params \<Rightarrow> 'z hal \<Rightarrow> 'z pcm \<Rightarrow> poll_mask \<times> 'z pcm" where
  "pcm_poll k m s =
     (if state (fst s) = PCM_FAILED then (POLL_ERR, s)
      else case hal_level m s of (ret, level, (p, z)) \<Rightarrow>
        if ret \<noteq> 0 then (POLL_ERR, (p, z))
        else if period_bytes k \<le> free_dma_bytes k level then (POLL_OUT, (p, z))
        else (POLL_NONE, (p\<lparr>wake_timer := True\<rparr>, z)))"

record pcm_status =
  st_state :: nat
  st_buffer :: nat
  st_period :: nat
  st_queued :: nat
  st_written :: nat
  st_underruns :: nat
  st_gain :: int
  st_muted :: nat
  st_hal_error :: int
  st_measured :: nat

definition pcm_get_status :: "pcm_params \<Rightarrow> 'z hal \<Rightarrow> 'z pcm \<Rightarrow> (int + pcm_status) \<times> 'z pcm" where
  "pcm_get_status k m s =
     (case (if state (fst s) \<noteq> PCM_FAILED then snd (hal_level m s) else (0, s)) of (level, (p, z)) \<Rightarrow>
      let status = \<lparr>st_state = pcm_state_code (state p), st_buffer = buffer_bytes k, st_period = period_bytes k,
            st_queued = wrap32 (level + staged p * channels k), st_written = written p,
            st_underruns = underruns p, st_gain = gain_db p, st_muted = (if muted p then 1 else 0),
            st_hal_error = hal_error p, st_measured = measured_rate p\<rparr>
      in case user_fault m z of (fault, z) \<Rightarrow> (if fault then Inl (- EFAULT) else Inr status, (p, z)))"

definition apply_gain :: "'z hal \<Rightarrow> 'z pcm \<Rightarrow> int \<times> 'z pcm" where
  "apply_gain m s =
     (case (if state (fst s) = PCM_RUNNING then hal_set_gain m (audible_gain (fst s)) s else (0, s)) of
        (ret, (p, z)) \<Rightarrow> (ret, (if ret \<noteq> 0 then p\<lparr>state := PCM_FAILED\<rparr> else p, z)))"

datatype pcm_request = SET_GAIN int | SET_MUTE nat | DRAIN | STOP | GET_STATUS | OTHER_REQUEST

definition set_gain :: "pcm_params \<Rightarrow> 'z hal \<Rightarrow> int \<Rightarrow> 'z pcm \<Rightarrow> int \<times> 'z pcm" where
  "set_gain k m gain s = apply_gain m (fst s\<lparr>gain_db := clamp_gain k gain\<rparr>, snd s)"

definition set_mute :: "'z hal \<Rightarrow> nat \<Rightarrow> 'z pcm \<Rightarrow> int \<times> 'z pcm" where
  "set_mute m v s = apply_gain m (fst s\<lparr>muted := v \<noteq> 0\<rparr>, snd s)"

definition pcm_ioctl :: "pcm_params \<Rightarrow> 'z hal \<Rightarrow> pcm_request \<Rightarrow> 'z pcm \<Rightarrow> (int \<times> 'z pcm) option" where
  "pcm_ioctl k m request s = (case request of
     SET_GAIN gain \<Rightarrow> (case user_fault m (snd s) of (fault, z) \<Rightarrow>
       Some (if fault then (- EFAULT, (fst s, z)) else set_gain k m gain (fst s, z)))
   | SET_MUTE v \<Rightarrow> (case user_fault m (snd s) of (fault, z) \<Rightarrow>
       Some (if fault then (- EFAULT, (fst s, z)) else set_mute m v (fst s, z)))
   | DRAIN \<Rightarrow> pcm_drain k m True s
   | STOP \<Rightarrow> Some (pcm_stop m s)
   | GET_STATUS \<Rightarrow> (case pcm_get_status k m s of (r, s) \<Rightarrow> Some (case r of Inl e \<Rightarrow> e | Inr _ \<Rightarrow> 0, s))
   | OTHER_REQUEST \<Rightarrow> Some (- ENOTTY, s))"

section \<open>Loading\<close>

definition check_params :: "pcm_params \<Rightarrow> int" where
  "check_params k =
     (if channels k \<noteq> 1 \<and> channels k \<noteq> 2 then - EINVAL
      else if buffer_bytes k mod WORD_BYTES \<noteq> 0 \<or> buffer_bytes k < 4096 \<or> 65536 < buffer_bytes k then - EINVAL
      else if period_bytes k mod WORD_BYTES \<noteq> 0 \<or> period_bytes k < 256
        \<or> buffer_bytes k < wrap32 (period_bytes k * 2 + GUARD_BYTES) then - EINVAL
      else if start_bytes k mod WORD_BYTES \<noteq> 0 \<or> start_bytes k < period_bytes k
        \<or> buffer_bytes k < wrap32 (start_bytes k + GUARD_BYTES) then - EINVAL
      else if max_gain_db k < DPGA_MIN_DB \<or> 0 < max_gain_db k then - EINVAL
      else 0)"

text \<open>
  The resources a load takes, and what the kernel answers it: two kmalloc calls, the registration of
  the device, and the DMA address of the ring (None when there is no memory).
\<close>

datatype pcm_resource = STAGING_MEMORY | FRAMES_MEMORY | MISC_DEVICE | DMA_RING

record load_answers =
  staging_alloc :: "nat \<Rightarrow> bytes option"
  frames_alloc :: "nat \<Rightarrow> bytes option"
  register_result :: int
  dma_alloc :: "nat \<Rightarrow> nat option"

definition free_buffers :: "pcm_resource list \<Rightarrow> pcm_resource list" where
  "free_buffers held = removeAll STAGING_MEMORY (removeAll FRAMES_MEMORY held)"

definition held_if :: "'a option \<Rightarrow> pcm_resource \<Rightarrow> pcm_resource list" where
  "held_if a r = (case a of None \<Rightarrow> [] | Some _ \<Rightarrow> [r])"

definition pcm_init ::
  "pcm_params \<Rightarrow> 'z hal \<Rightarrow> load_answers \<Rightarrow> pcm_device \<Rightarrow> int \<times> pcm_resource list \<times> pcm_device" where
  "pcm_init k m ans p =
     (if check_params k \<noteq> 0 then (check_params k, [], p)
      else
        let p = p\<lparr>wait_jiffies := max 1 (to_jiffies m (wrap32 (period_bytes k * 500) div dma_bytes_per_second k))\<rparr>;
            a = staging_alloc ans (staging_capacity k);
            b = frames_alloc ans (period_bytes k);
            held = held_if a STAGING_MEMORY @ held_if b FRAMES_MEMORY;
            p = p\<lparr>staging := (case a of None \<Rightarrow> [] | Some bs \<Rightarrow> bs), frames := (case b of None \<Rightarrow> [] | Some bs \<Rightarrow> bs)\<rparr>
        in if a = None \<or> b = None then (- ENOMEM, free_buffers held, p)
           else if register_result ans \<noteq> 0 then (register_result ans, free_buffers held, p)
           else
             let held = MISC_DEVICE # held in
             case dma_alloc ans (buffer_bytes k) of
               None \<Rightarrow> (- ENOMEM, free_buffers (removeAll MISC_DEVICE held), p)
             | Some handle \<Rightarrow>
                 let held = DMA_RING # held; miu = wrap64 (handle + (2 ^ 64 - 0x20000000)) in
                 if handle < 0x20000000 \<or> 0x80000000 \<le> miu \<or> miu mod WORD_BYTES \<noteq> 0
                 then (- ENOMEM, free_buffers (removeAll MISC_DEVICE (removeAll DMA_RING held)), p)
                 else (0, held, p\<lparr>dma_miu_addr := wrap32 miu, ready := True\<rparr>))"

definition pcm_exit :: "pcm_resource list \<Rightarrow> pcm_device \<Rightarrow> pcm_resource list \<times> pcm_device" where
  "pcm_exit held p =
     (free_buffers (removeAll MISC_DEVICE (removeAll DMA_RING held)), p\<lparr>ready := False\<rparr>)"

end
