(* ===== verification/Pcm_Backend.thy ===== *)
theory Pcm_Backend
  imports Audio_Helper Pcm_Driver "HOL-Library.Monad_Syntax"
begin

text \<open>
  The speaker device behind the audio helper, \<open>tc002/audio/pcm/pcm_backend.c\<close>: the device calls of the
  core as ioctl and write calls on the driver's descriptor. The system calls are parameters, operations
  of an environment of type \<open>'d\<close>; a failed one answers its errno negated. A call that a signal
  interrupts is made again for as long as it is interrupted: the loops are partial functions, whose
  value is None where the call is interrupted forever.
\<close>

section \<open>The state\<close>

abbreviation (input) AP_GUARD_BYTES :: nat where "AP_GUARD_BYTES \<equiv> 256"
abbreviation (input) AP_STALL_MS :: int where "AP_STALL_MS \<equiv> 1000"

record 'd ap_ops =
  clock_ms :: "'d \<Rightarrow> int \<times> 'd"
  send_message :: "bytes \<Rightarrow> 'd \<Rightarrow> int \<times> 'd"
  sys_ioctl :: "pcm_request \<Rightarrow> 'd \<Rightarrow> int \<times> pcm_status \<times> 'd"
  sys_write :: "bytes \<Rightarrow> 'd \<Rightarrow> int \<times> 'd"

record ap_backend =
  carry :: bytes
  carry_offset :: nat
  carry_length :: nat
  driver_underruns :: nat
  ap_stall_armed :: bool
  ap_stall_level :: nat
  ap_stall_since :: int

type_synonym 'd backend = "ap_backend \<times> 'd"

section \<open>System calls\<close>

partial_function (option) device_ioctl :: "'d ap_ops \<Rightarrow> pcm_request \<Rightarrow> 'd \<Rightarrow> (int \<times> pcm_status \<times> 'd) option" where
  "device_ioctl ops q d = (case sys_ioctl ops q d of (r, st, d) \<Rightarrow>
     if r \<noteq> - EINTR then Some (r, st, d) else device_ioctl ops q d)"

partial_function (option) device_write :: "'d ap_ops \<Rightarrow> bytes \<Rightarrow> 'd \<Rightarrow> (int \<times> 'd) option" where
  "device_write ops data d = (case sys_write ops data d of (n, d) \<Rightarrow>
     if n \<noteq> - EINTR then Some (n, d) else device_write ops data d)"

text \<open>The vendor result of a call that failed with \<open>r\<close>, an errno negated.\<close>

definition failure :: "'d ap_ops \<Rightarrow> int \<Rightarrow> 'd \<Rightarrow> (int \<times> 'd) option" where
  "failure ops r d =
     (let plain = (if r \<noteq> 0 then r else - EIO) in
      if r = - EIO then
        do { (q, st, d) \<leftarrow> device_ioctl ops GET_STATUS d;
             Some (if q = 0 \<and> st_hal_error st \<noteq> 0 then st_hal_error st else plain, d) }
      else Some (plain, d))"

definition control :: "'d ap_ops \<Rightarrow> pcm_request \<Rightarrow> 'd \<Rightarrow> (int \<times> 'd) option" where
  "control ops q d =
     do { (r, st, d) \<leftarrow> device_ioctl ops q d;
          if r \<noteq> 0 then failure ops r d else Some (0, d) }"

section \<open>Blocks and the carry\<close>

definition flush_carry :: "'d ap_ops \<Rightarrow> 'd backend \<Rightarrow> (int \<times> 'd backend) option" where
  "flush_carry ops c = (case c of (h, d) \<Rightarrow>
     if carry_offset h = carry_length h then Some (0, (h, d))
     else
       do { (n, d) \<leftarrow> device_write ops (take (carry_length h - carry_offset h) (drop (carry_offset h) (carry h))) d;
            if n < 0 then
              if n = - EAGAIN then Some (0, (h, d))
              else do { (r, d) \<leftarrow> failure ops n d; Some (r, (h, d)) }
            else
              let h = h\<lparr>carry_offset := carry_offset h + nat n\<rparr>;
                  h = (if carry_offset h = carry_length h then h\<lparr>carry_offset := 0, carry_length := 0\<rparr> else h)
              in Some (0, (h, d)) })"

definition ap_send_block :: "'d ap_ops \<Rightarrow> bytes \<Rightarrow> 'd backend \<Rightarrow> (int \<times> 'd backend) option" where
  "ap_send_block ops data c =
     (if BLOCK_BYTES < length data then Some (- EINVAL, c)
      else
        do { (r, (h, d)) \<leftarrow> flush_carry ops c;
             if r \<noteq> 0 then Some (r, (h, d))
             else if carry_length h \<noteq> 0 then Some (DEVICE_FULL, (h, d))
             else
               do { (n, d) \<leftarrow> device_write ops data d;
                    if n < 0 then
                      if n = - EAGAIN then Some (DEVICE_FULL, (h, d))
                      else do { (r, d) \<leftarrow> failure ops n d; Some (r, (h, d)) }
                    else if nat n < length data then
                      Some (0, (h\<lparr>carry := patch (carry h) 0 (drop (nat n) data), carry_offset := 0,
                        carry_length := length data - nat n\<rparr>, d))
                    else Some (0, (h, d)) } })"

section \<open>The level of the device\<close>

text \<open>The underruns to add to the core's count, and the count they were taken from.\<close>

definition new_underruns :: "nat \<Rightarrow> ap_backend \<Rightarrow> nat \<times> ap_backend" where
  "new_underruns n h =
     (if n = driver_underruns h then (0, h)
      else (wrap32 (n + (2 ^ 32 - driver_underruns h)), h\<lparr>driver_underruns := n\<rparr>))"

definition stalled :: "int \<Rightarrow> pcm_status \<Rightarrow> ap_backend \<Rightarrow> bool \<times> ap_backend" where
  "stalled now st h =
     (if st_state st \<noteq> pcm_state_code PCM_RUNNING \<or> st_queued st = 0 then (False, h\<lparr>ap_stall_armed := False\<rparr>)
      else if \<not> ap_stall_armed h \<or> st_queued st \<noteq> ap_stall_level h then
        (False, h\<lparr>ap_stall_armed := True, ap_stall_level := st_queued st, ap_stall_since := now\<rparr>)
      else (AP_STALL_MS \<le> now - ap_stall_since h, h))"

definition answer :: "int \<Rightarrow> call_answer" where
  "answer r = \<lparr>ans_result = r, ans_size = 0, ans_free = 0, ans_busy = 0, ans_underruns = 0\<rparr>"

definition busy_level :: "pcm_status \<Rightarrow> ap_backend \<Rightarrow> nat" where
  "busy_level st h =
     (let busy = wrap32 (st_queued st + (carry_length h - carry_offset h)) div 16 * 16
      in if st_buffer st < busy then st_buffer st else busy)"

definition ap_query :: "'d ap_ops \<Rightarrow> 'd backend \<Rightarrow> (call_answer \<times> 'd backend) option" where
  "ap_query ops c =
     do { (r, (h, d)) \<leftarrow> flush_carry ops c;
          if r \<noteq> 0 then Some (answer r, (h, d))
          else
            do { (q, st, d) \<leftarrow> device_ioctl ops GET_STATUS d;
                 if q \<noteq> 0 then do { (r, d) \<leftarrow> failure ops q d; Some (answer r, (h, d)) }
                 else if st_state st = pcm_state_code PCM_FAILED
                   then Some (answer (if st_hal_error st \<noteq> 0 then st_hal_error st else - EIO), (h, d))
                 else if st_buffer st = 0 \<or> st_buffer st mod 16 \<noteq> 0 then Some (answer (- EPROTO), (h, d))
                 else
                   case new_underruns (st_underruns st) h of (n, h) \<Rightarrow>
                   case clock_ms ops d of (now, d) \<Rightarrow>
                   case stalled now st h of (dead, h) \<Rightarrow>
                     if dead then Some ((answer (- ETIMEDOUT))\<lparr>ans_underruns := n\<rparr>, (h, d))
                     else
                       let busy = busy_level st h
                       in Some (\<lparr>ans_result = 0, ans_size = st_buffer st, ans_free = st_buffer st - busy,
                            ans_busy = busy, ans_underruns = n\<rparr>, (h, d)) } }"

section \<open>The calls of the core\<close>

text \<open>The samples of a block as they lie in memory.\<close>

definition sample_bytes :: "int list \<Rightarrow> bytes" where
  "sample_bytes xs = concat (map (\<lambda>x. le16 (word_of_int x)) xs)"

definition bridge_call :: "'d ap_ops \<Rightarrow> ah_call \<Rightarrow> int list \<Rightarrow> int \<Rightarrow> 'd backend \<Rightarrow> (call_answer \<times> 'd backend) option" where
  "bridge_call ops which data v c = (case c of (h, d) \<Rightarrow> (case which of
     AH_SET_MUTE \<Rightarrow> do { (r, d) \<leftarrow> control ops (SET_MUTE (if v \<noteq> 0 then 1 else 0)) d; Some (answer r, (h, d)) }
   | AH_SET_VOLUME \<Rightarrow> do { (r, d) \<leftarrow> control ops (SET_GAIN v) d; Some (answer r, (h, d)) }
   | AH_CLEAR \<Rightarrow>
       do { (r, d) \<leftarrow> control ops STOP d;
            Some (answer r, (h\<lparr>carry_offset := 0, carry_length := 0, ap_stall_armed := False\<rparr>, d)) }
   | AH_QUERY \<Rightarrow> ap_query ops (h, d)
   | AH_SEND \<Rightarrow>
       if v < 0 then Some (answer (- EINVAL), (h, d))
       else do { (r, c) \<leftarrow> ap_send_block ops (take (nat v) (sample_bytes data)) (h, d); Some (answer r, c) }))"

text \<open>
  The operations of the core over the backend. The environment is None once a call has never
  returned; nothing is answered after that.
\<close>

definition backend_ops :: "'d ap_ops \<Rightarrow> 'd backend option ah_ops" where
  "backend_ops ops =
     \<lparr>dev_call = (\<lambda>which data v z. case Option.bind z (bridge_call ops which data v) of
         None \<Rightarrow> (answer (- EIO), None) | Some (a, c) \<Rightarrow> (a, Some c)),
      sock_send = (\<lambda>message z. case z of
         None \<Rightarrow> (- 1, None)
       | Some (h, d) \<Rightarrow> (case send_message ops message d of (r, d) \<Rightarrow> (r, Some (h, d))))\<rparr>"

section \<open>Start and end\<close>

definition backend_init :: ap_backend where
  "backend_init = \<lparr>carry = replicate BLOCK_BYTES 0, carry_offset = 0, carry_length = 0, driver_underruns = 0,
     ap_stall_armed = False, ap_stall_level = 0, ap_stall_since = 0\<rparr>"

definition start_refused :: "pcm_status \<Rightarrow> bool" where
  "start_refused st \<longleftrightarrow> st_state st \<noteq> pcm_state_code PCM_PREPARED \<or> st_queued st \<noteq> 0 \<or> st_buffer st mod 16 \<noteq> 0
     \<or> st_buffer st < TARGET_BUSY_BYTES + AP_GUARD_BYTES"

definition ap_start :: "'d ap_ops \<Rightarrow> 'd \<Rightarrow> (bool \<times> ah_state \<times> 'd backend) option" where
  "ap_start ops d =
     (let db = audio_volume_db 0; h = backend_init;
          refuse = (\<lambda>r h d. Some (False, ah_fail ERROR_VENDOR r ah_init, (h, d)))
      in do { (q, st, d) \<leftarrow> device_ioctl ops GET_STATUS d;
              if q \<noteq> 0 then do { (r, d) \<leftarrow> failure ops q d; refuse r h d }
              else if start_refused st then Some (False, ah_fail ERROR_QUEUE (st_hal_error st) ah_init, (h, d))
              else
                let h = h\<lparr>driver_underruns := st_underruns st\<rparr> in
                do { (r, d) \<leftarrow> control ops (SET_MUTE 1) d;
                     if r \<noteq> 0 then refuse r h d
                     else
                       do { (r, d) \<leftarrow> control ops (SET_GAIN db) d;
                            if r \<noteq> 0 then refuse r h d
                            else
                              do { (q, st, d) \<leftarrow> device_ioctl ops GET_STATUS d;
                                   if q \<noteq> 0 then do { (r, d) \<leftarrow> failure ops q d; refuse r h d }
                                   else if st_muted st = 0 \<or> st_gain st \<noteq> db then refuse (st_hal_error st) h d
                                   else Some (True, ah_init\<lparr>astate := AUDIO_IDLE, hello_pending := True\<rparr>, (h, d)) } } } })"

definition ap_shutdown :: "'d ap_ops \<Rightarrow> ah_state \<times> 'd backend \<Rightarrow> (nat \<times> ah_state \<times> 'd backend) option" where
  "ap_shutdown ops c = (case c of (s, (h, d)) \<Rightarrow>
     do { (q, _, d) \<leftarrow> device_ioctl ops (SET_MUTE 1) d;
          (r, _, d) \<leftarrow> device_ioctl ops STOP d;
          Some ((if q \<noteq> 0 then 1 else 0) + (if r \<noteq> 0 then 1 else 0), s\<lparr>amuted := True\<rparr>,
            (h\<lparr>carry_offset := 0, carry_length := 0\<rparr>, d)) })"

definition ap_device_failed :: "'d ap_ops \<Rightarrow> ah_state \<times> 'd backend \<Rightarrow> (ah_state \<times> 'd backend) option" where
  "ap_device_failed ops c = (case c of (s, (h, d)) \<Rightarrow>
     do { (q, st, d) \<leftarrow> device_ioctl ops GET_STATUS d;
          Some (ah_fail ERROR_VENDOR (if q = 0 \<and> st_hal_error st \<noteq> 0 then st_hal_error st else - EIO) s, (h, d)) })"

end
