(* ===== verification/Pcm_Backend_Facts.thy ===== *)
theory Pcm_Backend_Facts
  imports Pcm_Backend
begin

text \<open>
  Facts of the speaker backend. The locale \<open>byte_sink\<close> is what the backend needs of the device to
  account for the bytes of its blocks: a relation between two states of the environment and the bytes
  taken between them. The locale \<open>speaker_device\<close> is what it needs for its calls to return.
\<close>

section \<open>The carry\<close>

definition pending :: "ap_backend \<Rightarrow> bytes" where
  "pending h = take (carry_length h - carry_offset h) (drop (carry_offset h) (carry h))"

definition carry_ok :: "ap_backend \<Rightarrow> bool" where
  "carry_ok h \<longleftrightarrow> length (carry h) = BLOCK_BYTES \<and> carry_length h \<le> BLOCK_BYTES
     \<and> (carry_offset h < carry_length h \<or> carry_offset h = 0 \<and> carry_length h = 0)"

lemma take_pending:
  assumes "n \<le> carry_length h - carry_offset h"
  shows "pending h = take n (pending h) @ pending (h\<lparr>carry_offset := carry_offset h + n\<rparr>)"
proof -
  have "n + (carry_length h - carry_offset h - n) = carry_length h - carry_offset h" using assms by simp
  then have "pending h = take n (drop (carry_offset h) (carry h))
      @ take (carry_length h - carry_offset h - n) (drop n (drop (carry_offset h) (carry h)))"
    using take_add [of n "carry_length h - carry_offset h - n" "drop (carry_offset h) (carry h)"] by (simp add: pending_def)
  moreover have "take n (pending h) = take n (drop (carry_offset h) (carry h))"
    using assms by (simp add: pending_def min_def)
  ultimately show ?thesis by (simp add: pending_def add.commute)
qed

lemma failure_nonzero: "failure ops r e = Some (x, e') \<Longrightarrow> x \<noteq> 0"
  by (auto simp: failure_def Let_def bind_eq_Some_conv split: if_splits)

lemma same_carry:
  "carry h' = carry h \<Longrightarrow> carry_offset h' = carry_offset h \<Longrightarrow> carry_length h' = carry_length h \<Longrightarrow>
    pending h' = pending h \<and> carry_ok h' = carry_ok h"
  by (simp add: pending_def carry_ok_def)

lemma new_underruns_carry: "new_underruns n h = (m, h') \<Longrightarrow> pending h' = pending h \<and> carry_ok h' = carry_ok h"
  by (rule same_carry) (auto simp: new_underruns_def split: if_splits)

lemma stalled_carry: "stalled now st h = (b, h') \<Longrightarrow> pending h' = pending h \<and> carry_ok h' = carry_ok h"
  by (rule same_carry) (auto simp: stalled_def split: if_splits)

section \<open>Runs of calls\<close>

text \<open>The bytes of the blocks that were accepted since the last clear.\<close>

definition accepted :: "ah_call \<Rightarrow> int list \<Rightarrow> int \<Rightarrow> int \<Rightarrow> bytes \<Rightarrow> bytes" where
  "accepted which data v r acc = (case which of
     AH_CLEAR \<Rightarrow> []
   | AH_SEND \<Rightarrow> if r = 0 then acc @ take (nat v) (sample_bytes data) else acc
   | _ \<Rightarrow> acc)"

text \<open>The calls of a stream that plays: blocks, queries and changes of the volume.\<close>

inductive playing_run :: "'d ap_ops \<Rightarrow> 'd backend \<Rightarrow> bytes \<Rightarrow> 'd backend \<Rightarrow> bool" for ops where
  playing_start: "playing_run ops c [] c"
| playing_call: "playing_run ops c acc d \<Longrightarrow> which \<noteq> AH_CLEAR \<and> which \<noteq> AH_SET_MUTE \<Longrightarrow>
    bridge_call ops which data v d = Some (a, e) \<Longrightarrow>
    playing_run ops c (accepted which data v (ans_result a) acc) e"

section \<open>Where the bytes go\<close>

locale byte_sink =
  fixes ops :: "'d ap_ops" and taken :: "'d \<Rightarrow> bytes \<Rightarrow> 'd \<Rightarrow> bool" and quiet :: "pcm_request \<Rightarrow> bool"
  assumes write_sink: "sys_write ops data d = (n, d') \<Longrightarrow> n \<le> int (length data) \<and> taken d (take (nat n) data) d'"
    and ioctl_sink: "quiet q \<Longrightarrow> sys_ioctl ops q d = (r, st, d') \<Longrightarrow> taken d [] d'"
    and status_quiet: "quiet GET_STATUS"
    and clock_sink: "clock_ms ops d = (t, d') \<Longrightarrow> taken d [] d'"
    and sink_refl: "taken d [] d"
    and sink_trans: "taken a x b \<Longrightarrow> taken b y c \<Longrightarrow> taken a (x @ y) c"
begin

lemma silent_trans: "taken a x b \<Longrightarrow> taken b [] c \<Longrightarrow> taken a x c"
  using sink_trans [of a x b "[]" c] by simp

lemma silent_before: "taken a [] b \<Longrightarrow> taken b x c \<Longrightarrow> taken a x c"
  using sink_trans [of a "[]" b x c] by simp

lemma device_write_sink:
  assumes "device_write ops data d = Some (n, d')"
  shows "n \<le> int (length data) \<and> taken d (take (nat n) data) d'"
proof -
  have "ops = ops \<longrightarrow> fst (n, d') \<le> int (length data) \<and> taken d (take (nat (fst (n, d'))) data) (snd (n, d'))"
  proof (rule device_write.raw_induct [where P = "\<lambda>l data d y. l = ops \<longrightarrow>
      fst y \<le> int (length data) \<and> taken d (take (nat (fst y)) data) (snd y)", OF _ assms(1)], rule impI)
    fix f data l and d :: 'd and y
    assume IH: "\<And>l data d y. f l data d = Some y \<Longrightarrow> l = ops \<longrightarrow>
          fst y \<le> int (length data) \<and> taken d (take (nat (fst y)) data) (snd y)"
      and body: "(case sys_write l data d of (n, d) \<Rightarrow> if n \<noteq> - EINTR then Some (n, d) else f l data d) = Some y"
      and l: "l = ops"
    obtain m d1 where w: "sys_write ops data d = (m, d1)" by (rule prod.exhaust)
    note s = write_sink [OF w]
    show "fst y \<le> int (length data) \<and> taken d (take (nat (fst y)) data) (snd y)"
    proof (cases "m = - EINTR")
      case True
      then have "f l data d1 = Some y" using body by (simp add: l w)
      with IH l have "fst y \<le> int (length data) \<and> taken d1 (take (nat (fst y)) data) (snd y)" by blast
      moreover have "taken d [] d1" using s True by simp
      ultimately show ?thesis using silent_before by blast
    next
      case False
      then show ?thesis using body s by (auto simp: l w)
    qed
  qed
  then show ?thesis by simp
qed

lemma device_ioctl_sink:
  assumes "device_ioctl ops q d = Some (r, st, d')" and "quiet q"
  shows "taken d [] d'"
proof -
  have "ops = ops \<longrightarrow> quiet q \<longrightarrow> taken d [] (snd (snd (r, st, d')))"
  proof (rule device_ioctl.raw_induct [where P = "\<lambda>l q d y. l = ops \<longrightarrow> quiet q \<longrightarrow> taken d [] (snd (snd y))",
      OF _ assms(1)], intro impI)
    fix f q l and d :: 'd and y
    assume IH: "\<And>l q d y. f l q d = Some y \<Longrightarrow> l = ops \<longrightarrow> quiet q \<longrightarrow> taken d [] (snd (snd y))"
      and body: "(case sys_ioctl l q d of (r, st, d) \<Rightarrow> if r \<noteq> - EINTR then Some (r, st, d) else f l q d) = Some y"
      and l: "l = ops" and q: "quiet q"
    obtain m st d1 where w: "sys_ioctl ops q d = (m, st, d1)" by (rule prod_cases3)
    show "taken d [] (snd (snd y))"
      using body IH [of l q d1 y] ioctl_sink [OF q w] l q silent_trans by (auto simp: w split: if_splits)
  qed
  with assms(2) show ?thesis by simp
qed

lemma failure_sink: "failure ops r d = Some (x, d') \<Longrightarrow> taken d [] d'"
  using sink_refl device_ioctl_sink [OF _ status_quiet]
  by (auto simp: failure_def Let_def bind_eq_Some_conv split: if_splits)

lemma control_sink: "control ops q d = Some (r, d') \<Longrightarrow> quiet q \<Longrightarrow> taken d [] d'"
  by (auto simp: control_def bind_eq_Some_conv intro: silent_trans failure_sink device_ioctl_sink split: if_splits)

lemma flush_carry_sink:
  assumes run: "flush_carry ops (h, d) = Some (r, (h', d'))" and ok: "carry_ok h"
  shows "carry_ok h' \<and> (\<exists>x. taken d x d' \<and> pending h = x @ pending h')"
proof (cases "carry_offset h = carry_length h")
  case True
  then have "h' = h" "d' = d" using run by (simp_all add: flush_carry_def)
  then show ?thesis using ok sink_refl by auto
next
  case False
  then obtain n d1 where w: "device_write ops (pending h) d = Some (n, d1)"
    using run by (auto simp: flush_carry_def pending_def bind_eq_Some_conv)
  note t = device_write_sink [OF w]
  have l: "length (pending h) = carry_length h - carry_offset h" using ok by (auto simp: pending_def carry_ok_def)
  show ?thesis
  proof (cases "n < 0")
    case True
    then have "h' = h \<and> taken d1 [] d'"
      using run False w by (auto simp: flush_carry_def pending_def bind_eq_Some_conv sink_refl dest: failure_sink split: if_splits)
    moreover have "taken d [] d1" using t True by simp
    ultimately show ?thesis using ok silent_trans [of d "[]" d1 d'] by auto
  next
    case n: False
    have le: "nat n \<le> carry_length h - carry_offset h" using conjunct1 [OF t] l n by linarith
    have e: "d' = d1" "h' = (let h = h\<lparr>carry_offset := carry_offset h + nat n\<rparr> in
        if carry_offset h = carry_length h then h\<lparr>carry_offset := 0, carry_length := 0\<rparr> else h)"
      using run False n w by (simp_all add: flush_carry_def pending_def Let_def)
    have "carry_ok h'" using ok False le by (auto simp: e carry_ok_def Let_def)
    moreover have "pending h' = pending (h\<lparr>carry_offset := carry_offset h + nat n\<rparr>)" by (simp add: e pending_def Let_def)
    ultimately show ?thesis using conjunct2 [OF t] take_pending [OF le] e(1) by metis
  qed
qed

lemma send_block_sink:
  assumes run: "ap_send_block ops data (h, d) = Some (r, (h', d'))" and ok: "carry_ok h"
  shows "carry_ok h' \<and> (\<exists>x. taken d x d' \<and> pending h @ (if r = 0 then data else []) = x @ pending h')"
proof (cases "BLOCK_BYTES < length data")
  case True
  then have "h' = h" "d' = d" "r \<noteq> 0" using run by (auto simp: ap_send_block_def)
  then show ?thesis using ok sink_refl by auto
next
  case small: False
  then obtain y h1 d1 where f: "flush_carry ops (h, d) = Some (y, (h1, d1))"
    using run by (auto simp: ap_send_block_def bind_eq_Some_conv)
  obtain x where k: "carry_ok h1" "taken d x d1" "pending h = x @ pending h1" using flush_carry_sink [OF f ok] by blast
  show ?thesis
  proof (cases "y \<noteq> 0 \<or> carry_length h1 \<noteq> 0")
    case True
    then have "h' = h1" "d' = d1" "r \<noteq> 0" using run small f by (auto simp: ap_send_block_def split: if_splits)
    then show ?thesis using k by auto
  next
    case False
    then obtain n d2 where w: "device_write ops data d1 = Some (n, d2)"
      using run small f by (auto simp: ap_send_block_def bind_eq_Some_conv)
    note t = device_write_sink [OF w]
    have t2: "taken d (x @ take (nat n) data) d2" using sink_trans [OF k(2)] t by blast
    have p: "pending h1 = []" using False by (simp add: pending_def)
    show ?thesis
    proof (cases "n < 0")
      case True
      then have "r \<noteq> 0 \<and> taken d2 [] d' \<and> h' = h1"
        using run small f False w
        by (auto simp: ap_send_block_def bind_eq_Some_conv sink_refl dest: failure_sink failure_nonzero split: if_splits)
      then show ?thesis using k t2 True silent_trans by auto
    next
      case n: False
      show ?thesis
      proof (cases "nat n < length data")
        case True
        have h': "r = 0" "d' = d2" "h' = h1\<lparr>carry := patch (carry h1) 0 (drop (nat n) data), carry_offset := 0,
            carry_length := length data - nat n\<rparr>"
          using run small f False w n True by (simp_all add: ap_send_block_def)
        have "pending h' = drop (nat n) data" by (simp add: h' pending_def patch_def)
        moreover have "carry_ok h'" using k small True by (simp add: h' carry_ok_def)
        ultimately show ?thesis using k(3) t2 p h'(1,2) by (auto intro!: exI [of _ "x @ take (nat n) data"])
      next
        case whole: False
        then have "r = 0" "d' = d2" "h' = h1" using run small f False w n by (simp_all add: ap_send_block_def)
        then show ?thesis using whole k t2 p by auto
      qed
    qed
  qed
qed

lemma query_sink:
  assumes run: "ap_query ops (h, d) = Some (a, (h', d'))" and ok: "carry_ok h"
  shows "carry_ok h' \<and> (\<exists>x. taken d x d' \<and> pending h = x @ pending h')"
proof -
  obtain r h1 d1 where f: "flush_carry ops (h, d) = Some (r, (h1, d1))"
    using run by (auto simp: ap_query_def bind_eq_Some_conv)
  have "pending h' = pending h1 \<and> carry_ok h' = carry_ok h1 \<and> taken d1 [] d'"
    using run f
    by (auto simp: ap_query_def bind_eq_Some_conv Let_def sink_refl intro: silent_trans [OF silent_trans]
        dest!: failure_sink device_ioctl_sink [OF _ status_quiet] new_underruns_carry stalled_carry clock_sink
        split: if_splits prod.splits)
  then show ?thesis using flush_carry_sink [OF f ok] silent_trans by metis
qed

text \<open>A call that neither clears nor makes a request that is not quiet.\<close>

definition passes :: "ah_call \<Rightarrow> int \<Rightarrow> bool" where
  "passes which v \<longleftrightarrow> (case which of
     AH_CLEAR \<Rightarrow> False
   | AH_SET_MUTE \<Rightarrow> quiet (SET_MUTE (if v \<noteq> 0 then 1 else 0))
   | AH_SET_VOLUME \<Rightarrow> quiet (SET_GAIN v)
   | _ \<Rightarrow> True)"

lemma call_sink:
  assumes run: "bridge_call ops which data v (h, d) = Some (a, (h', d'))" and ok: "carry_ok h" and p: "passes which v"
  shows "carry_ok h' \<and> (\<exists>x. taken d x d' \<and>
    pending h @ (if which = AH_SEND \<and> ans_result a = 0 then take (nat v) (sample_bytes data) else []) = x @ pending h')"
proof (cases which)
  case AH_QUERY
  then show ?thesis using run query_sink [OF _ ok] by (simp add: bridge_call_def)
next
  case AH_SEND
  show ?thesis
  proof (cases "v < 0")
    case True
    then have "h' = h" "d' = d" "ans_result a \<noteq> 0" using AH_SEND run by (auto simp: bridge_call_def answer_def)
    then show ?thesis using ok sink_refl by auto
  next
    case False
    then obtain r where "ap_send_block ops (take (nat v) (sample_bytes data)) (h, d) = Some (r, (h', d'))"
      and a: "a = answer r"
      using AH_SEND run by (auto simp: bridge_call_def bind_eq_Some_conv)
    from send_block_sink [OF this(1) ok] show ?thesis using AH_SEND by (simp add: a answer_def)
  qed
next
  case AH_SET_MUTE
  then have "h' = h" "taken d [] d'"
    using run p by (auto simp: bridge_call_def passes_def bind_eq_Some_conv intro: control_sink)
  then show ?thesis using ok AH_SET_MUTE by auto
next
  case AH_SET_VOLUME
  then have "h' = h" "taken d [] d'"
    using run p by (auto simp: bridge_call_def passes_def bind_eq_Some_conv intro: control_sink)
  then show ?thesis using ok AH_SET_VOLUME by auto
qed (use p in \<open>simp add: passes_def\<close>)

lemma playing_sink:
  assumes "playing_run ops c acc c'" and gain: "\<And>v. quiet (SET_GAIN v)"
  shows "carry_ok (fst c) \<longrightarrow> carry_ok (fst c') \<and>
    (\<exists>x. taken (snd c) x (snd c') \<and> pending (fst c) @ acc = x @ pending (fst c'))"
  using assms(1)
proof (induction rule: playing_run.induct)
  case (playing_start c)
  then show ?case using sink_refl by auto
next
  case (playing_call c acc d which data v a e)
  obtain h1 d1 h2 d2 where de: "d = (h1, d1)" "e = (h2, d2)" using prod.exhaust by metis
  show ?case
  proof
    assume "carry_ok (fst c)"
    then obtain x where x: "carry_ok h1" "taken (snd c) x d1" "pending (fst c) @ acc = x @ pending h1"
      using playing_call.IH by (auto simp: de)
    have "passes which v" using playing_call.hyps(2) gain status_quiet by (cases which) (simp_all add: passes_def)
    from call_sink [OF playing_call.hyps(3) [unfolded de] x(1) this]
    obtain y where y: "carry_ok h2" "taken d1 y d2"
      "pending h1 @ (if which = AH_SEND \<and> ans_result a = 0 then take (nat v) (sample_bytes data) else []) = y @ pending h2"
      by blast
    have "pending (fst c) @ accepted which data v (ans_result a) acc = (pending (fst c) @ acc)
        @ (if which = AH_SEND \<and> ans_result a = 0 then take (nat v) (sample_bytes data) else [])"
      using playing_call.hyps(2) by (cases which) (auto simp: accepted_def)
    then have "pending (fst c) @ accepted which data v (ans_result a) acc = (x @ y) @ pending h2"
      by (simp only: x(3) y(3) append_assoc)
    then show "carry_ok (fst e) \<and> (\<exists>x. taken (snd c) x (snd e) \<and>
        pending (fst c) @ accepted which data v (ans_result a) acc = x @ pending (fst e))"
      using sink_trans [OF x(2) y(2)] y(1) by (auto simp: de)
  qed
qed

end

section \<open>The words of a query\<close>

lemma low_bits: "(n :: nat) AND 15 = n mod 16"
  using take_bit_eq_mask [of 4 n] by (simp add: take_bit_eq_mod mask_eq_exp_minus_1)

lemma low_bits_or: "a mod 16 = 0 \<Longrightarrow> b mod 16 = 0 \<Longrightarrow> c mod 16 = 0 \<Longrightarrow> (a OR b OR c) AND 15 = (0 :: nat)"
  using take_bit_or [of 4 a "b OR c"] take_bit_or [of 4 b c] low_bits [of "a OR b OR c"]
  by (simp add: take_bit_eq_mod)

text \<open>The status is a record of 32-bit fields.\<close>

definition status_law :: "'d ap_ops \<Rightarrow> bool" where
  "status_law ops \<longleftrightarrow> (\<forall>q d. st_buffer (fst (snd (sys_ioctl ops q d))) < 2 ^ 32)"

lemma device_ioctl_status:
  assumes "device_ioctl ops q d = Some (r, st, d')" and "status_law ops"
  shows "st_buffer st < 2 ^ 32"
proof -
  have "status_law ops \<longrightarrow> st_buffer (fst (snd (r, st, d'))) < 2 ^ 32"
  proof (rule device_ioctl.raw_induct [where P = "\<lambda>ops q d y. status_law ops \<longrightarrow> st_buffer (fst (snd y)) < 2 ^ 32",
      OF _ assms(1)], rule impI)
    fix f ops q and d :: 'a and y
    assume IH: "\<And>ops q d y. f ops q d = Some y \<Longrightarrow> status_law ops \<longrightarrow> st_buffer (fst (snd y)) < 2 ^ 32"
      and body: "(case sys_ioctl ops q d of (r, st, d) \<Rightarrow> if r \<noteq> - EINTR then Some (r, st, d) else f ops q d) = Some y"
      and law: "status_law ops"
    obtain m st d' where w: "sys_ioctl ops q d = (m, st, d')" by (rule prod_cases3)
    have "st_buffer (fst (snd (sys_ioctl ops q d))) < 2 ^ 32" using law unfolding status_law_def by blast
    then show "st_buffer (fst (snd y)) < 2 ^ 32"
      using body IH law by (auto simp: w split: if_splits)
  qed
  with assms(2) show ?thesis by simp
qed

lemma busy_level_sound:
  assumes "st_buffer st mod 16 = 0"
  shows "busy_level st h \<le> st_buffer st \<and> busy_level st h mod 16 = 0"
  using assms by (simp add: busy_level_def Let_def)

lemma query_words_fine:
  assumes "q0 \<noteq> 0" and "q0 mod 16 = 0" and "q2 mod 16 = 0" and "q2 \<le> q0" and "q0 < 2 ^ 32"
  shows "\<not> queue_words_bad q0 (q0 - q2) q2"
proof -
  have m: "(q0 - q2) mod 16 = 0" using assms(2-4) by (metis dvd_diff_nat mod_eq_0_iff_dvd)
  have w: "wrap32 (q0 + (2 ^ 32 - q2)) = q0 - q2"
  proof -
    have "q0 + (2 ^ 32 - q2) = (q0 - q2) + 2 ^ 32" using assms(4,5) by simp
    then have "wrap32 (q0 + (2 ^ 32 - q2)) = wrap32 (q0 - q2 + 2 ^ 32)" by (rule arg_cong)
    also have "\<dots> = (q0 - q2) mod 2 ^ 32" by (simp only: wrap32_def mod_add_self2)
    finally show ?thesis using assms(5) by simp
  qed
  show ?thesis
    unfolding queue_words_bad_def w using assms low_bits_or [OF assms(2) m assms(3)] by (simp add: not_less)
qed

lemma ap_query_words:
  assumes run: "ap_query ops c = Some (a, c')" and r: "ans_result a = 0" and law: "status_law ops"
  shows "\<not> queue_words_bad (ans_size a) (ans_free a) (ans_busy a)"
proof -
  obtain r h d where f: "flush_carry ops c = Some (r, (h, d))" using run by (auto simp: ap_query_def bind_eq_Some_conv)
  have r0: "r = 0" using run f assms(2) by (auto simp: ap_query_def answer_def split: if_splits)
  obtain q st d1 where i: "device_ioctl ops GET_STATUS d = Some (q, st, d1)"
    using run f r0 by (auto simp: ap_query_def bind_eq_Some_conv split: if_splits)
  have q0: "q = 0"
    using run f r0 i assms(2) by (auto simp: ap_query_def bind_eq_Some_conv answer_def dest: failure_nonzero split: if_splits)
  have b: "st_buffer st \<noteq> 0" "st_buffer st mod 16 = 0"
    using run f r0 i q0 assms(2) by (auto simp: ap_query_def answer_def split: if_splits)
  have "\<exists>h. ans_size a = st_buffer st \<and> ans_free a = st_buffer st - busy_level st h \<and> ans_busy a = busy_level st h"
    using run f r0 i q0 assms(2) by (auto simp: ap_query_def answer_def Let_def split: if_splits prod.splits)
  then show ?thesis
    using query_words_fine [OF b(1,2)] busy_level_sound [OF b(2)] device_ioctl_status [OF i law] by auto
qed

section \<open>Calls that return\<close>

definition returns :: "'a option \<Rightarrow> bool" where
  "returns x \<longleftrightarrow> x \<noteq> None"

lemma returns_Some [simp]: "returns (Some x)"
  by (simp add: returns_def)

lemma returns_bind: "returns x \<Longrightarrow> (\<And>a. returns (f a)) \<Longrightarrow> returns (Option.bind x f)"
  by (auto simp: returns_def bind_eq_None_conv)

text \<open>
  The contract of the descriptor: a call other than a drain, which the backend never makes, is not
  interrupted forever (every interruption uses up some of the environment's \<open>patience\<close>).
\<close>

locale speaker_device =
  fixes ops :: "'d ap_ops" and patience :: "'d \<Rightarrow> nat"
  assumes ioctl_patience: "q \<noteq> DRAIN \<Longrightarrow> sys_ioctl ops q d = (- EINTR, st, d') \<Longrightarrow> patience d' < patience d"
    and write_patience: "sys_write ops data d = (- EINTR, d') \<Longrightarrow> patience d' < patience d"
begin

lemma ioctl_returns: "q \<noteq> DRAIN \<Longrightarrow> returns (device_ioctl ops q d)"
proof (induction d rule: measure_induct_rule [of patience])
  case (less d)
  then show ?case
    using ioctl_patience [of q d] by (subst device_ioctl.simps) (auto split: prod.splits)
qed

lemma write_returns: "returns (device_write ops data d)"
proof (induction d rule: measure_induct_rule [of patience])
  case (less d)
  then show ?case
    using write_patience [of data d] by (subst device_write.simps) (auto split: prod.splits)
qed

lemma failure_returns: "returns (failure ops r d)"
  by (auto simp: failure_def Let_def split_def intro!: returns_bind ioctl_returns)

lemma control_returns: "q \<noteq> DRAIN \<Longrightarrow> returns (control ops q d)"
  by (auto simp: control_def Let_def split_def intro!: returns_bind ioctl_returns failure_returns)

lemma flush_returns: "returns (flush_carry ops c)"
  by (auto simp: flush_carry_def Let_def split_def intro!: returns_bind write_returns failure_returns)

lemma send_returns: "returns (ap_send_block ops data c)"
  by (auto simp: ap_send_block_def Let_def split_def intro!: returns_bind flush_returns write_returns failure_returns)

lemma query_returns: "returns (ap_query ops c)"
  by (auto simp: ap_query_def Let_def split_def intro!: returns_bind flush_returns ioctl_returns failure_returns)

lemma call_returns: "returns (bridge_call ops which data v c)"
  by (cases which) (auto simp: bridge_call_def split_def intro!: returns_bind control_returns send_returns query_returns)

lemma start_returns: "returns (ap_start ops d)"
  by (auto simp: ap_start_def Let_def split_def intro!: returns_bind ioctl_returns control_returns failure_returns)

end

end
