(* ===== verification/Audio_Helper_Facts.thy ===== *)
theory Audio_Helper_Facts
  imports Audio_Helper
begin

text \<open>
  Facts of the audio helper's core: the ring of samples is a first-in first-out list (the locale
  \<open>sample_fifo\<close>, interpreted on \<open>enqueue\<close> and \<open>advance\<close>), every operation keeps \<open>core_ok\<close>, and
  what leaves the queue leaves it at the front and is counted as consumed (\<open>progress\<close>).
\<close>

section \<open>A first-in first-out queue\<close>

locale sample_fifo =
  fixes contents :: "'s \<Rightarrow> 'a list" and push :: "'a \<Rightarrow> 's \<Rightarrow> 's" and pop :: "nat \<Rightarrow> 's \<Rightarrow> 's"
    and fifo_ok :: "'s \<Rightarrow> bool" and capacity :: nat
  assumes push_law: "fifo_ok s \<Longrightarrow> length (contents s) < capacity \<Longrightarrow>
      fifo_ok (push x s) \<and> contents (push x s) = contents s @ [x]"
    and pop_law: "fifo_ok s \<Longrightarrow> n \<le> length (contents s) \<Longrightarrow>
      fifo_ok (pop n s) \<and> contents (pop n s) = drop n (contents s)"
begin

lemma push_all:
  "fifo_ok s \<Longrightarrow> length (contents s) + length xs \<le> capacity \<Longrightarrow>
     fifo_ok (fold push xs s) \<and> contents (fold push xs s) = contents s @ xs"
proof (induction xs arbitrary: s)
  case (Cons x xs)
  then have "fifo_ok (push x s)" "contents (push x s) = contents s @ [x]"
    using push_law [of s x] by simp_all
  with Cons show ?case by simp
qed simp

lemma push_pop:
  assumes "fifo_ok s" and "length (contents s) + length xs \<le> capacity" and "n \<le> length (contents s) + length xs"
  shows "contents (pop n (fold push xs s)) = drop n (contents s @ xs)"
  using push_all [OF assms(1,2)] pop_law [of "fold push xs s" n] assms(3) by simp

end

definition fifo :: "ah_state \<Rightarrow> int list" where
  "fifo s = map (queued s) [0..<qcount s]"

definition ring_ok :: "ah_state \<Rightarrow> bool" where
  "ring_ok s \<longleftrightarrow> length (queue s) = QUEUE_SAMPLES \<and> qhead s < QUEUE_SAMPLES \<and> qcount s \<le> QUEUE_SAMPLES"

lemma length_fifo [simp]: "length (fifo s) = qcount s"
  by (simp add: fifo_def)

lemma queued_eq: "ring_ok s \<Longrightarrow> i \<le> QUEUE_SAMPLES \<Longrightarrow> queued s i = queue s ! ((qhead s + i) mod QUEUE_SAMPLES)"
  by (simp add: queued_def ring_ok_def wrap_simps)

lemma ring_slots_differ:
  "i < j \<Longrightarrow> j < 8192 \<Longrightarrow> (h + i) mod 8192 \<noteq> (h + j) mod (8192 :: nat)"
proof
  assume ij: "i < j" "j < 8192" and "(h + i) mod 8192 = (h + j) mod 8192"
  then have "8192 dvd (h + j) - (h + i)" using mod_eq_dvd_iff_nat [of "h + i" "h + j" 8192] by simp
  then show False using ij by (auto dest!: dvd_imp_le)
qed

lemma ring_view:
  assumes "queue t = queue s" and "qhead t = qhead s" and "qcount t = qcount s"
  shows "fifo t = fifo s" and "ring_ok t = ring_ok s"
  using assms by (simp_all add: fifo_def queued_def ring_ok_def)

lemma enqueue_fifo:
  assumes "ring_ok s" and "qcount s < QUEUE_SAMPLES"
  shows "ring_ok (enqueue v s) \<and> fifo (enqueue v s) = fifo s @ [v]"
proof -
  have e: "enqueue v s = s\<lparr>queue := (queue s)[(qhead s + qcount s) mod 8192 := v], qcount := qcount s + 1\<rparr>"
    using assms by (simp add: enqueue_def ring_ok_def wrap_simps)
  have ok: "ring_ok (enqueue v s)" using assms by (simp add: e ring_ok_def)
  have "queued (enqueue v s) i = (if i = qcount s then v else queued s i)" if "i \<le> qcount s" for i
  proof -
    have i: "i \<le> 8192" using that assms(2) by simp
    have "queued (enqueue v s) i = (queue s)[(qhead s + qcount s) mod 8192 := v] ! ((qhead s + i) mod 8192)"
      unfolding queued_eq [OF ok i] by (simp add: e)
    also have "\<dots> = (if i = qcount s then v else queued s i)"
    proof (cases "i = qcount s")
      case True
      then show ?thesis using assms(1) by (simp add: ring_ok_def)
    next
      case False
      then have "(qhead s + qcount s) mod 8192 \<noteq> (qhead s + i) mod 8192"
        using ring_slots_differ [of i "qcount s" "qhead s"] that assms(2) by simp
      then show ?thesis using False queued_eq [OF assms(1) i] by simp
    qed
    finally show ?thesis .
  qed
  then have "fifo (enqueue v s) = fifo s @ [v]"
    by (simp add: fifo_def e [THEN arg_cong [where f = qcount]])
  with ok show ?thesis by simp
qed

lemma advance_fifo:
  assumes "ring_ok s" and "n \<le> qcount s"
  shows "ring_ok (advance n s) \<and> fifo (advance n s) = drop n (fifo s)"
proof -
  have ok: "ring_ok (advance n s)" using assms by (auto simp: advance_def ring_ok_def)
  have q: "queued (advance n s) i = queued s (n + i)" if "n + i \<le> 8192" for i
    using queued_eq [OF ok, of i] queued_eq [OF assms(1), of "n + i"] that
    by (simp add: advance_def mod_add_left_eq add.assoc)
  have c: "qcount (advance n s) = qcount s - n" by (simp add: advance_def)
  have "qcount s \<le> 8192" using assms(1) by (simp add: ring_ok_def)
  then have "fifo (advance n s) = drop n (fifo s)"
    by (intro nth_equalityI) (simp_all add: fifo_def c q)
  with ok show ?thesis by simp
qed

interpretation ring: sample_fifo fifo enqueue advance ring_ok QUEUE_SAMPLES
  by unfold_locales (use enqueue_fifo advance_fifo in auto)

lemma enqueue_fields [simp]:
  "astate (enqueue v s) = astate s" "amuted (enqueue v s) = amuted s" "generation (enqueue v s) = generation s"
  "achannels (enqueue v s) = achannels s" "avolume (enqueue v s) = avolume s" "phase (enqueue v s) = phase s"
  "consumed (enqueue v s) = consumed s" "aerror (enqueue v s) = aerror s" "rate_step (enqueue v s) = rate_step s"
  by (simp_all add: enqueue_def)

lemma fold_enqueue_fields [simp]:
  "astate (fold enqueue vs s) = astate s" "amuted (fold enqueue vs s) = amuted s"
  "generation (fold enqueue vs s) = generation s" "achannels (fold enqueue vs s) = achannels s"
  "avolume (fold enqueue vs s) = avolume s" "phase (fold enqueue vs s) = phase s"
  "consumed (fold enqueue vs s) = consumed s" "aerror (fold enqueue vs s) = aerror s"
  by (induction vs arbitrary: s) simp_all

section \<open>The invariant and the account of the bytes\<close>

text \<open>
  The queue holds no more than the window the runtime was told of; a stream has a generation; and the
  device is muted wherever nothing is meant to be heard.
\<close>

definition core_ok :: "ah_state \<Rightarrow> bool" where
  "core_ok s \<longleftrightarrow> ring_ok s \<and> phase s < 65536 \<and> avolume s \<le> 100
     \<and> (generation s \<noteq> 0 \<longrightarrow> achannels s \<in> {1, 2} \<and> qcount s * (2 * achannels s) \<le> WINDOW_BYTES)
     \<and> (generation s = 0 \<longrightarrow> astate s \<in> {AUDIO_STARTING, AUDIO_IDLE, AUDIO_FAILED})
     \<and> (astate s \<in> {AUDIO_STARTING, AUDIO_IDLE, AUDIO_PRIMING, AUDIO_PAUSED} \<longrightarrow> amuted s)
     \<and> consumed s < 2 ^ 32"

text \<open>Samples leave the queue at its front, and their bytes are counted as consumed.\<close>

definition progress :: "ah_state \<Rightarrow> ah_state \<Rightarrow> bool" where
  "progress s t \<longleftrightarrow> generation t = 0 \<or>
     (generation t = generation s \<and> achannels t = achannels s \<and>
      (\<exists>n \<le> qcount s. fifo t = drop n (fifo s) \<and> consumed t = wrap32 (consumed s + n * (2 * achannels s))))"

text \<open>The two fields a device call changes beside the failure.\<close>

definition same_stream :: "ah_state \<Rightarrow> ah_state \<Rightarrow> bool" where
  "same_stream q s \<longleftrightarrow> queue s = queue q \<and> qhead s = qhead q \<and> qcount s = qcount q \<and> phase s = phase q
     \<and> avolume s = avolume q \<and> generation s = generation q \<and> achannels s = achannels q
     \<and> consumed s = consumed q \<and> rate_step s = rate_step q \<and> draining s = draining q \<and> settle_next s = settle_next q"

lemma same_stream_refl [simp]: "same_stream s s"
  by (simp add: same_stream_def)

lemma same_stream_trans: "same_stream a b \<Longrightarrow> same_stream b c \<Longrightarrow> same_stream a c"
  by (simp add: same_stream_def)

lemma same_stream_simps [simp]:
  "same_stream q (mark_dirty s) = same_stream q s"
  "same_stream q (note_underruns n s) = same_stream q s"
  "same_stream q (ah_fail e r s) = same_stream q s"
  "same_stream q (set_astate st s) = same_stream q s"
  "same_stream q (s\<lparr>busy := b\<rparr>) = same_stream q s" "same_stream q (s\<lparr>amuted := m\<rparr>) = same_stream q s"
  "same_stream q (s\<lparr>silence_sent := m\<rparr>) = same_stream q s" "same_stream q (s\<lparr>aerror := e\<rparr>) = same_stream q s"
  "same_stream q (s\<lparr>block := bs\<rparr>) = same_stream q s" "same_stream q (s\<lparr>refusals := n\<rparr>) = same_stream q s"
  "same_stream q (s\<lparr>starving := m\<rparr>) = same_stream q s"
  by (simp_all add: same_stream_def mark_dirty_def note_underruns_def ah_fail_def set_astate_def Let_def)

lemma state_simps [simp]:
  "astate (mark_dirty s) = astate s" "amuted (mark_dirty s) = amuted s"
  "astate (note_underruns n s) = astate s" "amuted (note_underruns n s) = amuted s"
  "astate (ah_fail e r s) = AUDIO_FAILED" "amuted (ah_fail e r s) = amuted s"
  "astate (set_astate st s) = st" "amuted (set_astate st s) = amuted s"
  by (simp_all add: mark_dirty_def note_underruns_def ah_fail_def set_astate_def Let_def)

text \<open>After a call: failed, or in the same state with the mute it had.\<close>

definition called :: "ah_state \<Rightarrow> bool \<Rightarrow> ah_state \<Rightarrow> bool" where
  "called q ok s \<longleftrightarrow> same_stream q s \<and> amuted s = amuted q \<and> (if ok then astate s = astate q else astate s = AUDIO_FAILED)"

lemma require_zero_called: "called (fst c) (fst (require_zero ops w v c)) (fst (snd (require_zero ops w v c)))"
  by (simp add: require_zero_def device_call_def split_def called_def)

lemma query_called: "called (fst c) (fst (query ops c)) (fst (snd (query ops c)))"
  by (simp add: query_def device_call_def split_def called_def)

lemma send_block_called: "called (fst c) (0 \<le> fst (send_block ops c)) (fst (snd (send_block ops c)))"
  by (simp add: send_block_def device_call_def split_def called_def)

lemma send_silence_called: "called (fst c) (0 \<le> fst (send_silence ops c)) (fst (snd (send_silence ops c)))"
  using send_block_called [of "(fst c\<lparr>block := replicate BLOCK_SAMPLES 0\<rparr>, snd c)" ops]
  by (simp add: send_silence_def called_def same_stream_def)

lemma set_muted_called:
  "same_stream (fst c) (fst (snd (set_muted ops m c)))
   \<and> (if fst (set_muted ops m c) then astate (fst (snd (set_muted ops m c))) = astate (fst c) \<and> amuted (fst (snd (set_muted ops m c))) = m
      else astate (fst (snd (set_muted ops m c))) = AUDIO_FAILED)"
  using require_zero_called [of c ops AH_SET_MUTE "if m then 1 else 0"]
  by (simp add: set_muted_def split_def called_def)

lemma core_ok_failed: "core_ok q \<Longrightarrow> same_stream q s \<Longrightarrow> astate s = AUDIO_FAILED \<Longrightarrow> core_ok s"
  by (simp add: core_ok_def same_stream_def ring_ok_def)

lemma core_ok_same: "core_ok q \<Longrightarrow> same_stream q s \<Longrightarrow> astate s = astate q \<Longrightarrow> amuted s = amuted q \<Longrightarrow> core_ok s"
  by (simp add: core_ok_def same_stream_def ring_ok_def)

lemma core_ok_state:
  "core_ok q \<Longrightarrow> same_stream q s \<Longrightarrow> generation q \<noteq> 0 \<Longrightarrow>
    (astate s \<in> {AUDIO_STARTING, AUDIO_IDLE, AUDIO_PRIMING, AUDIO_PAUSED} \<longrightarrow> amuted s) \<Longrightarrow> core_ok s"
  by (simp add: core_ok_def same_stream_def ring_ok_def)

lemma progress_same: "same_stream q s \<Longrightarrow> consumed q < 2 ^ 32 \<Longrightarrow> progress q s"
  by (auto simp: progress_def same_stream_def fifo_def queued_def wrap_simps intro!: exI [of _ 0])

lemma wrap32_add: "wrap32 (wrap32 a + b) = wrap32 (a + b)"
  by (simp add: wrap32_def mod_add_left_eq)

lemma progress_trans:
  assumes "progress a b" and "progress b c"
  shows "progress a c"
proof (cases "generation b = 0 \<or> generation c = 0")
  case True
  then show ?thesis using assms by (auto simp: progress_def)
next
  case False
  then obtain n m where n: "n \<le> qcount a" "fifo b = drop n (fifo a)" "consumed b = wrap32 (consumed a + n * (2 * achannels a))"
    and m: "m \<le> qcount b" "fifo c = drop m (fifo b)" "consumed c = wrap32 (consumed b + m * (2 * achannels a))"
    and g: "generation c = generation a" "achannels c = achannels a"
    using assms by (auto simp: progress_def)
  have "qcount b = qcount a - n" using arg_cong [OF n(2), of length] by simp
  then have "n + m \<le> qcount a" using n(1) m(1) by simp
  moreover have "fifo c = drop (n + m) (fifo a)" using n(2) m(2) by (simp add: add.commute)
  moreover have "consumed c = wrap32 (consumed a + (n + m) * (2 * achannels a))"
    by (simp add: m(3) n(3) wrap32_add add_mult_distrib add.assoc)
  ultimately show ?thesis using g by (auto simp: progress_def)
qed

definition fine :: "ah_state \<Rightarrow> ah_state \<Rightarrow> bool" where
  "fine s t \<longleftrightarrow> core_ok t \<and> progress s t"

lemma fine_trans: "fine a b \<Longrightarrow> fine b c \<Longrightarrow> fine a c"
  unfolding fine_def using progress_trans by blast

lemma same_fine:
  "core_ok q \<Longrightarrow> same_stream q s \<Longrightarrow> astate s = AUDIO_FAILED \<or> astate s = astate q \<and> amuted s = amuted q \<Longrightarrow> fine q s"
  unfolding fine_def using core_ok_failed [of q s] core_ok_same [of q s] progress_same [of q s] core_ok_def [of q] by blast

lemma called_fine: "core_ok q \<Longrightarrow> called q ok s \<Longrightarrow> fine q s"
  by (rule same_fine) (auto simp: called_def split: if_splits)

lemma moved_fine:
  "core_ok q \<Longrightarrow> same_stream q s \<Longrightarrow> generation q \<noteq> 0 \<Longrightarrow>
    (astate s \<in> {AUDIO_STARTING, AUDIO_IDLE, AUDIO_PRIMING, AUDIO_PAUSED} \<longrightarrow> amuted s) \<Longrightarrow> fine q s"
  unfolding fine_def using core_ok_state [of q s] progress_same [of q s] core_ok_def [of q] by blast

lemma complete_fine:
  assumes "core_ok q" and "same_stream q s" and "amuted s"
  shows "fine q (complete_generation s)" and "astate (complete_generation s) = AUDIO_IDLE"
  using assms
  by (auto simp: fine_def progress_def core_ok_def ring_ok_def same_stream_def complete_generation_def clear_queue_def
      set_astate_def mark_dirty_def Let_def)

lemma stop_generation_fine:
  assumes "core_ok (fst c)"
  shows "fine (fst c) (fst (stop_generation ops c)) \<and> astate (fst (stop_generation ops c)) \<in> {AUDIO_IDLE, AUDIO_FAILED}"
proof -
  define d where "d = (if \<not> amuted (fst c) then set_muted ops True c else (True, c))"
  obtain ok s z where d: "d = (ok, (s, z))" by (rule prod_cases3)
  have s: "same_stream (fst c) s" "ok \<Longrightarrow> amuted s" "\<not> ok \<Longrightarrow> astate s = AUDIO_FAILED"
    using set_muted_called [of c ops True] d by (auto simp: d_def split: if_splits)
  obtain ok2 s2 z2 where r: "require_zero ops AH_CLEAR 0 (s, z) = (ok2, (s2, z2))" by (rule prod_cases3)
  have s2: "same_stream s s2" "amuted s2 = amuted s" "\<not> ok2 \<Longrightarrow> astate s2 = AUDIO_FAILED"
    using require_zero_called [of "(s, z)" ops AH_CLEAR 0] by (auto simp: r called_def)
  have q: "same_stream (fst c) s2" using s(1) s2(1) by (rule same_stream_trans)
  have "\<not> ok \<Longrightarrow> fine (fst c) s" "\<not> ok2 \<Longrightarrow> fine (fst c) s2"
    using same_fine [OF assms] s s2 q by blast+
  moreover have "ok \<Longrightarrow> fine (fst c) (complete_generation (s2\<lparr>busy := 0\<rparr>))"
      "ok \<Longrightarrow> astate (complete_generation (s2\<lparr>busy := 0\<rparr>)) = AUDIO_IDLE"
    using complete_fine [OF assms, of "s2\<lparr>busy := 0\<rparr>"] q s(2) s2(2) by simp_all
  ultimately show ?thesis
    unfolding stop_generation_def d_def [symmetric] d prod.case r using s(3) s2(3) by simp
qed

lemma core_ok_shrink:
  assumes "core_ok s" and "ring_ok t" and "qcount t \<le> qcount s" and "phase t < 65536" and "consumed t < 2 ^ 32"
    and "generation t = generation s" and "achannels t = achannels s" and "astate t = astate s"
    and "amuted t = amuted s" and "avolume t = avolume s"
  shows "core_ok t"
proof -
  have "qcount t * (2 * achannels s) \<le> qcount s * (2 * achannels s)" using assms(3) by (rule mult_le_mono1)
  then have "qcount s * (2 * achannels s) \<le> WINDOW_BYTES \<Longrightarrow> qcount t * (2 * achannels s) \<le> WINDOW_BYTES"
    by (rule le_trans)
  with assms show ?thesis unfolding core_ok_def by presburger
qed

lemma send_audio_block_fine:
  assumes "core_ok (fst c)"
  shows "fine (fst c) (fst (snd (send_audio_block ops c)))
    \<and> (if 0 \<le> fst (send_audio_block ops c)
       then astate (fst (snd (send_audio_block ops c))) = astate (fst c) \<and> amuted (fst (snd (send_audio_block ops c))) = amuted (fst c)
       else astate (fst (snd (send_audio_block ops c))) = AUDIO_FAILED)"
proof -
  let ?c = "(fst c\<lparr>block := audio_block (fst c)\<rparr>, snd c)" and ?p = "phase (fst c) + BLOCK_SAMPLES * rate_step (fst c)"
  obtain r s z where b: "send_block ops ?c = (r, (s, z))" by (rule prod_cases3)
  have s: "same_stream (fst c) s" "amuted s = amuted (fst c)" "if 0 \<le> r then astate s = astate (fst c) else astate s = AUDIO_FAILED"
    using send_block_called [of ?c ops] unfolding b by (auto simp: called_def same_stream_def)
  have f: "fine (fst c) s"
    using same_fine [OF assms s(1)] s(2,3) by (simp split: if_splits)
  let ?t = "consume (wrap32 (?p div 65536)) (s\<lparr>phase := ?p mod 65536\<rparr>)"
  define n where "n = min (qcount s) (wrap32 (?p div 65536))"
  let ?u = "advance n (s\<lparr>phase := ?p mod 65536\<rparr>)"
  have t: "?t = mark_dirty (?u\<lparr>consumed := wrap32 (consumed s + n * (2 * achannels s))\<rparr>)"
    by (simp add: consume_def n_def advance_def Let_def min_def mult.assoc)
  have ok: "core_ok s" using f by (simp add: fine_def)
  have fu: "ring_ok ?u" "fifo ?u = drop n (fifo s)"
    using advance_fifo [of "s\<lparr>phase := ?p mod 65536\<rparr>" n] ok ring_view [of "s\<lparr>phase := ?p mod 65536\<rparr>" s]
    by (simp_all add: core_ok_def n_def)
  have "queue ?t = queue ?u" "qhead ?t = qhead ?u" "qcount ?t = qcount ?u"
    by (simp_all only: t) (simp_all add: mark_dirty_def)
  then have ft: "fifo ?t = drop n (fifo s)" "ring_ok ?t" using fu ring_view [of ?t ?u] by simp_all
  have fields: "qcount ?t = qcount s - n" "generation ?t = generation s" "achannels ?t = achannels s" "astate ?t = astate s"
      "amuted ?t = amuted s" "avolume ?t = avolume s" "phase ?t = ?p mod 65536"
      "consumed ?t = wrap32 (consumed s + n * (2 * achannels s))"
    by (simp_all only: t) (simp_all add: mark_dirty_def advance_def)
  have n: "n \<le> qcount s" by (simp add: n_def)
  have "core_ok ?t"
    by (rule core_ok_shrink [OF ok ft(2)]) (simp_all only: fields diff_le_self mod_less_divisor wrap32_less zero_less_numeral)
  moreover have "progress s ?t" using n ft(1) fields by (auto simp: progress_def)
  ultimately have ft: "fine (fst c) ?t" using fine_trans [OF f] by (simp add: fine_def)
  have e: "send_audio_block ops c = (if r \<le> 0 then (r, (s, z)) else (1, (?t, z)))"
    unfolding send_audio_block_def Let_def b prod.case ..
  show ?thesis
  proof (cases "r \<le> 0")
    case True
    then show ?thesis unfolding e using f s by simp
  next
    case False
    then show ?thesis unfolding e using ft s fields(4,5) by simp
  qed
qed

lemma core_ok_live: "core_ok s \<Longrightarrow> astate s \<in> {AUDIO_PRIMING, AUDIO_PLAYING, AUDIO_SETTLING, AUDIO_PAUSED} \<Longrightarrow> generation s \<noteq> 0"
  by (auto simp: core_ok_def)

lemma fine_ok: "fine s t \<Longrightarrow> core_ok t"
  by (simp add: fine_def)

lemma fine_refl: "core_ok s \<Longrightarrow> fine s s"
  by (rule same_fine) simp_all

lemma prime_timeout_fine:
  assumes "core_ok (fst c)"
  shows "fine (fst c) (fst (snd (prime_timeout ops c)))"
proof -
  have "fine (fst c) (fst c\<lparr>aerror := ERROR_PRIME_TIMEOUT\<rparr>)" by (rule same_fine) (simp_all add: assms)
  moreover from fine_ok [OF this] have "fine (fst c\<lparr>aerror := ERROR_PRIME_TIMEOUT\<rparr>)
      (fst (stop_generation ops (fst c\<lparr>aerror := ERROR_PRIME_TIMEOUT\<rparr>, snd c)))"
    using stop_generation_fine [of "(fst c\<lparr>aerror := ERROR_PRIME_TIMEOUT\<rparr>, snd c)" ops] by simp
  ultimately show ?thesis by (simp add: prime_timeout_def fine_trans)
qed

text \<open>A block of silence or a query, when it did not fail.\<close>

lemma send_silence_fine:
  assumes "core_ok (fst c)" and "send_silence ops c = (r, (s, z))"
  shows "fine (fst c) s" and "0 \<le> r \<Longrightarrow> astate s = astate (fst c) \<and> amuted s = amuted (fst c)"
  using called_fine [OF assms(1) send_silence_called [of c ops]] send_silence_called [of c ops] assms(2)
  by (simp_all add: called_def)

lemma query_fine:
  assumes "core_ok (fst c)" and "query ops c = (ok, (s, z))"
  shows "fine (fst c) s" and "ok \<Longrightarrow> astate s = astate (fst c) \<and> amuted s = amuted (fst c)"
  using called_fine [OF assms(1) query_called [of c ops]] query_called [of c ops] assms(2)
  by (simp_all add: called_def)

lemma field_fine:
  assumes "core_ok s"
  shows "fine s (s\<lparr>silence_sent := m\<rparr>)" and "fine s (s\<lparr>refusals := n\<rparr>)"
    and "fine s (s\<lparr>refusals := n, starving := m\<rparr>)" and "fine s (ah_fail e r s)" and "fine s (s\<lparr>aerror := e\<rparr>)"
    and "fine s (mark_dirty (s\<lparr>starving := m, starved_since := now, aunderruns := u\<rparr>))"
    and "fine s (mark_dirty s)" and "fine s (bad_message s)"
proof -
  show "fine s (s\<lparr>silence_sent := m\<rparr>)" "fine s (s\<lparr>refusals := n\<rparr>)" "fine s (s\<lparr>refusals := n, starving := m\<rparr>)"
    "fine s (ah_fail e r s)" "fine s (s\<lparr>aerror := e\<rparr>)" "fine s (mark_dirty s)" "fine s (bad_message s)"
    by (rule same_fine [OF assms]; simp add: bad_message_def)+
  have "same_stream s (s\<lparr>starving := m, starved_since := now, aunderruns := u\<rparr>)"
    by (simp add: same_stream_def)
  then show "fine s (mark_dirty (s\<lparr>starving := m, starved_since := now, aunderruns := u\<rparr>))"
    by (intro same_fine [OF assms]) simp_all
qed

lemma service_priming_fine:
  assumes ok: "core_ok (fst c)" and st: "astate (fst c) = AUDIO_PRIMING"
  shows "fine (fst c) (fst (snd (service_priming ops now c)))"
proof (cases "silence_sent (fst c)")
  case False
  obtain r s z where r: "send_silence ops c = (r, (s, z))" by (rule prod_cases3)
  note s = send_silence_fine [OF ok r]
  have "fine s (s\<lparr>silence_sent := True\<rparr>)" "fine s (fst (snd (prime_timeout ops (s, z))))"
    using field_fine(1) prime_timeout_fine [of "(s, z)" ops] fine_ok [OF s(1)] by simp_all
  then show ?thesis
    using False s(1) fine_trans [OF s(1)] by (simp add: service_priming_def r)
next
  case True
  obtain g s z where r: "query ops c = (g, (s, z))" by (rule prod_cases3)
  note s = query_fine [OF ok r]
  note ok' = fine_ok [OF s(1)]
  have t: "fine s (fst (snd (prime_timeout ops (s, z))))" using prime_timeout_fine [of "(s, z)" ops] ok' by simp
  obtain h u y where m: "unmute_if_audible ops (s, z) = (h, (u, y))" by (rule prod_cases3)
  have u: "same_stream s u" "h \<Longrightarrow> astate u = astate s" "\<not> h \<Longrightarrow> astate u = AUDIO_FAILED"
    using m set_muted_called [of "(s, z)" ops False] by (auto simp: unmute_if_audible_def split: if_splits)
  have "g \<Longrightarrow> generation s \<noteq> 0" using core_ok_live [OF ok'] s(2) st by simp
  then have p: "g \<Longrightarrow> fine s (set_astate AUDIO_PLAYING u)" "\<not> h \<Longrightarrow> fine s u"
    using moved_fine [OF ok', of "set_astate AUDIO_PLAYING u"] same_fine [OF ok' u(1)] u by simp_all
  show ?thesis
    using True s(1) p t by (simp add: service_priming_def r m fine_trans [OF s(1)])
qed

lemma settle_end_fine:
  assumes ok: "core_ok (fst c)" and live: "generation (fst c) \<noteq> 0"
  shows "fine (fst c) (fst (snd (settle_end ops late c)))"
proof -
  define d where "d = (if \<not> amuted (fst c) then set_muted ops True c else (True, c))"
  obtain g s z where d: "d = (g, (s, z))" by (rule prod_cases3)
  have s: "same_stream (fst c) s" "g \<Longrightarrow> amuted s" "\<not> g \<Longrightarrow> astate s = AUDIO_FAILED"
    using set_muted_called [of c ops True] d by (auto simp: d_def split: if_splits)
  define t where "t = (if late then s\<lparr>aerror := ERROR_SETTLE_TIMEOUT\<rparr> else s)"
  have t: "same_stream (fst c) t" "g \<Longrightarrow> amuted t" using s by (simp_all add: t_def)
  define e where "e = (if late \<or> clear_after_settle t
      then (case require_zero ops AH_CLEAR 0 (t, z) of (ok, (s, z)) \<Rightarrow> (ok, (if ok then s\<lparr>busy := 0\<rparr> else s, z)))
      else (True, (t, z)))"
  obtain h u y where e: "e = (h, (u, y))" by (rule prod_cases3)
  have "same_stream t u \<and> amuted u = amuted t \<and> (\<not> h \<longrightarrow> astate u = AUDIO_FAILED)"
    using e require_zero_called [of "(t, z)" ops AH_CLEAR 0]
    by (auto simp: e_def called_def split_def split: if_splits)
  then have u: "same_stream (fst c) u" "g \<Longrightarrow> amuted u" "\<not> h \<Longrightarrow> astate u = AUDIO_FAILED"
    using same_stream_trans [OF t(1)] t(2) by auto
  have f: "\<not> g \<Longrightarrow> fine (fst c) s" "\<not> h \<Longrightarrow> fine (fst c) u"
    using same_fine [OF ok] s u by blast+
  have p: "g \<Longrightarrow> fine (fst c) (complete_generation u)" "g \<Longrightarrow> fine (fst c) (set_astate AUDIO_PAUSED u)"
    using complete_fine(1) [OF ok u(1)] moved_fine [OF ok, of "set_astate AUDIO_PAUSED u"] u live by simp_all
  show ?thesis
    unfolding settle_end_def d_def [symmetric] d prod.case Let_def t_def [symmetric] e_def [symmetric] e
    using f p by simp
qed

lemma service_settling_fine:
  assumes ok: "core_ok (fst c)" and st: "astate (fst c) = AUDIO_SETTLING"
  shows "fine (fst c) (fst (snd (service_settling ops now c)))"
proof (cases "silence_sent (fst c)")
  case False
  obtain r s z where r: "send_silence ops c = (r, (s, z))" by (rule prod_cases3)
  note s = send_silence_fine [OF ok r]
  have "0 \<le> r \<Longrightarrow> generation s \<noteq> 0" using core_ok_live [OF fine_ok [OF s(1)]] s(2) st by simp
  then have "0 \<le> r \<Longrightarrow> fine s (fst (snd (settle_end ops True (s, z))))"
    using settle_end_fine [of "(s, z)" ops True] fine_ok [OF s(1)] by simp
  moreover have "fine s (s\<lparr>silence_sent := True\<rparr>)" using field_fine(1) fine_ok [OF s(1)] by simp
  ultimately show ?thesis
    using False s(1) fine_trans [OF s(1)] by (simp add: service_settling_def r Let_def)
next
  case True
  obtain g s z where r: "query ops c = (g, (s, z))" by (rule prod_cases3)
  note s = query_fine [OF ok r]
  have "g \<Longrightarrow> generation s \<noteq> 0" using core_ok_live [OF fine_ok [OF s(1)]] s(2) st by simp
  then have "g \<Longrightarrow> fine s (fst (snd (settle_end ops late (s, z))))" for late
    using settle_end_fine [of "(s, z)" ops late] fine_ok [OF s(1)] by simp
  then show ?thesis
    using True s(1) fine_trans [OF s(1)] by (simp add: service_settling_def r Let_def)
qed

lemma begin_settling_fine:
  assumes "core_ok s" and "generation s \<noteq> 0"
  shows "fine s (begin_settling now nxt s)" and "astate (begin_settling now nxt s) = AUDIO_SETTLING"
proof -
  have st: "same_stream s (s\<lparr>settle_next := settle_next s, silence_sent := False, deadline := d\<rparr>)" for d
    by (simp add: same_stream_def)
  show "fine s (begin_settling now nxt s)"
    using assms
    by (auto simp: fine_def core_ok_def begin_settling_def set_astate_def mark_dirty_def ring_ok_def progress_def
        fifo_def queued_def wrap_simps intro!: exI [of _ 0])
  show "astate (begin_settling now nxt s) = AUDIO_SETTLING" by (simp add: begin_settling_def)
qed

lemma starve_fine:
  assumes ok: "core_ok (fst c)" and st: "astate (fst c) = AUDIO_PLAYING"
  shows "fine (fst c) (fst (snd (starve ops now c)))"
proof -
  obtain s z where c: "c = (s, z)" by (rule prod.exhaust)
  have s: "core_ok s" "generation s \<noteq> 0" using ok st core_ok_live [OF ok] by (simp_all add: c)
  have settle: "fine u (fst (snd (service_settling ops now (begin_settling now nxt u, y))))"
    if "core_ok u" "generation u \<noteq> 0" for u nxt y
    using begin_settling_fine [OF that, of now nxt] service_settling_fine [of "(begin_settling now nxt u, y)" ops now]
    by (auto intro: fine_trans dest: fine_ok)
  define t where "t = (if \<not> starving s
      then mark_dirty (s\<lparr>starving := True, starved_since := now, aunderruns := wrap32 (aunderruns s + 1)\<rparr>) else s)"
  have t: "fine s t" "generation t \<noteq> 0"
    using field_fine(6) [OF s(1)] fine_refl [OF s(1)] s(2) by (simp_all add: t_def mark_dirty_def)
  obtain r u y where r: "send_silence ops (t, z) = (r, (u, y))" by (rule prod_cases3)
  have "fine s u" using send_silence_fine(1) [of "(t, z)", OF _ r] fine_ok [OF t(1)] fine_trans [OF t(1)] by simp
  moreover have "fine s (fst (snd (service_settling ops now (begin_settling now SETTLE_TO_PAUSE t, z))))"
    using settle [OF fine_ok [OF t(1)] t(2)] fine_trans [OF t(1)] by blast
  ultimately show ?thesis
    unfolding starve_def c prod.case Let_def t_def [symmetric] r using settle [OF s] fine_refl [OF s(1)] by simp
qed

lemma playing_loop_fine:
  "core_ok (fst c) \<Longrightarrow> astate (fst c) = AUDIO_PLAYING \<Longrightarrow> fine (fst c) (fst (snd (playing_loop ops now c)))"
proof (induction ops now c rule: playing_loop.induct)
  case (1 ops now c)
  obtain r s z where b: "send_audio_block ops c = (r, (s, z))" by (rule prod_cases3)
  have s: "fine (fst c) s" "0 \<le> r \<Longrightarrow> astate s = AUDIO_PLAYING"
    using send_audio_block_fine [OF 1(2), of ops] 1(3) by (auto simp: b split: if_splits)
  note ok = fine_ok [OF s(1)]
  have f: "fine s (s\<lparr>refusals := n\<rparr>)" "fine s (s\<lparr>refusals := n, starving := m\<rparr>)" for n m
    using field_fine(2,3) [OF ok] by simp_all
  have g: "fine s (ah_fail e x (s\<lparr>refusals := n\<rparr>))" for e x n
    using field_fine(4) [OF fine_ok [OF f(1)]] fine_trans [OF f(1)] by blast
  show ?case
  proof (cases "wrap32 (busy (fst c) + BLOCK_BYTES) \<le> TARGET_BUSY_BYTES \<and>
      (frames_needed (fst c) \<le> qcount (fst c) \<or> draining (fst c) \<and> qcount (fst c) \<noteq> 0)")
    case False
    then show ?thesis
      using starve_fine [OF 1(2,3)] fine_refl [OF 1(2)] by (subst playing_loop.simps) auto
  next
    case True
    have "\<not> r < 0 \<Longrightarrow> r \<noteq> 0 \<Longrightarrow> fine (s\<lparr>refusals := 0, starving := False\<rparr>)
        (fst (snd (playing_loop ops now (s\<lparr>refusals := 0, starving := False\<rparr>, z))))"
      using 1(1) [of r "(s, z)" s z] True b fine_ok [OF f(2)] s(2) by simp
    then have n: "\<not> r < 0 \<Longrightarrow> r \<noteq> 0 \<Longrightarrow> fine (fst c)
        (fst (snd (playing_loop ops now (s\<lparr>refusals := 0, starving := False\<rparr>, z))))"
      using fine_trans [OF fine_trans [OF s(1) f(2)]] by blast
    show ?thesis
      using True n s(1) fine_trans [OF s(1) f(1)] fine_trans [OF s(1) g]
      by (subst playing_loop.simps) (simp add: b Let_def)
  qed
qed

lemma service_playing_fine:
  assumes ok: "core_ok (fst c)" and st: "astate (fst c) = AUDIO_PLAYING"
  shows "fine (fst c) (fst (snd (service_playing ops now c)))"
proof -
  obtain g s z where r: "query ops c = (g, (s, z))" by (rule prod_cases3)
  note s = query_fine [OF ok r]
  have "g \<Longrightarrow> fine s (fst (snd (playing_loop ops now (s, z))))"
    using playing_loop_fine [of "(s, z)" ops now] fine_ok [OF s(1)] s(2) st by simp
  then show ?thesis using s(1) fine_trans [OF s(1)] by (simp add: service_playing_def r)
qed

lemma paused_fine:
  assumes "core_ok s" and "astate s = AUDIO_PAUSED"
  shows "fine s (complete_generation s)" and "fine s (begin_priming now s)"
proof -
  have g: "generation s \<noteq> 0" "amuted s" using core_ok_live [OF assms(1)] assms by (auto simp: core_ok_def)
  then show "fine s (complete_generation s)" using complete_fine(1) [OF assms(1)] by simp
  show "fine s (begin_priming now s)"
    by (rule moved_fine [OF assms(1) _ g(1)]) (simp_all add: begin_priming_def same_stream_def g(2) mark_dirty_def set_astate_def)
qed

lemma service_rounds_fine: "core_ok (fst c) \<Longrightarrow> fine (fst c) (fst (snd (service_rounds ops now n c)))"
proof (induction n arbitrary: c)
  case 0
  then show ?case by (simp add: fine_refl)
next
  case (Suc n)
  have go: "fine (fst c) (fst (snd (case r of (wait, c) \<Rightarrow> if wait = 0 then service_rounds ops now n c else (wait, c))))"
    if "fine (fst c) (fst (snd r))" for r :: "int \<times> 'a core"
    using that Suc.IH [of "snd r"] fine_ok [OF that] fine_trans [OF that] by (auto simp: split_def)
  show ?case
  proof (cases "astate (fst c)")
    case AUDIO_PAUSED
    then show ?thesis
      using paused_fine [OF Suc.prems AUDIO_PAUSED] fine_refl [OF Suc.prems] go [of "(0, (begin_priming now (fst c), snd c))"]
      by (simp add: Let_def)
  next
    case AUDIO_PRIMING
    then show ?thesis using go [OF service_priming_fine [OF Suc.prems AUDIO_PRIMING]] by simp
  next
    case AUDIO_PLAYING
    then show ?thesis using go [OF service_playing_fine [OF Suc.prems AUDIO_PLAYING]] by simp
  next
    case AUDIO_SETTLING
    then show ?thesis using go [OF service_settling_fine [OF Suc.prems AUDIO_SETTLING]] by simp
  qed (simp_all add: fine_refl [OF Suc.prems])
qed

lemma ah_service_fine: "core_ok (fst c) \<Longrightarrow> fine (fst c) (fst (snd (ah_service ops now c)))"
  unfolding ah_service_def by (rule service_rounds_fine)

section \<open>Messages\<close>

text \<open>A datagram of samples is admitted when it belongs to the stream and keeps within the window.\<close>

definition admits :: "audio_frame \<Rightarrow> ah_state \<Rightarrow> bool" where
  "admits f s \<longleftrightarrow> generation s \<noteq> 0 \<and> frame_generation f = generation s
     \<and> frame_length f mod (2 * achannels s) = 0 \<and> \<not> draining s
     \<and> qcount s * (2 * achannels s) + frame_length f \<le> WINDOW_BYTES"

definition new_samples :: "audio_frame \<Rightarrow> ah_state \<Rightarrow> int list" where
  "new_samples f s = map (frame_sample (achannels s) (frame_payload f)) [0..<frame_length f div (2 * achannels s)]"

lemma same_stream_ring:
  "same_stream q s \<Longrightarrow> fifo s = fifo q \<and> ring_ok s = ring_ok q \<and> generation s = generation q
     \<and> achannels s = achannels q \<and> consumed s = consumed q"
  using ring_view [of s q] by (simp add: same_stream_def)

lemma window_fits:
  assumes "0 < w" and "n mod w = 0" and "2 dvd w"
  shows "(QUEUE_SAMPLES - q < n div w \<or> WINDOW_BYTES < (q + n div w) * w) \<longleftrightarrow> WINDOW_BYTES < q * w + n"
proof -
  obtain k where w: "w = 2 * k" "0 < k" using assms(1,3) by (auto elim!: dvdE)
  have e: "(q + n div w) * w = q * w + n" using assms(2) by (simp add: add_mult_distrib mod_eq_0_iff_dvd)
  have "WINDOW_BYTES < (q + n div w) * w" if "QUEUE_SAMPLES - q < n div w"
  proof -
    have "8193 * 2 \<le> (q + n div w) * w" using that w by (intro mult_le_mono) simp_all
    then show ?thesis by simp
  qed
  then show ?thesis using e by auto
qed

lemma channels_live: "core_ok s \<Longrightarrow> generation s \<noteq> 0 \<Longrightarrow> achannels s \<in> {1, 2}"
  by (simp add: core_ok_def)

lemma receive_pcm_cases:
  assumes ok: "core_ok s"
  shows "receive_pcm f s =
    (if admits f s then mark_dirty (fold enqueue (new_samples f s) s)
     else if generation s = 0 \<or> frame_generation f \<noteq> generation s then s
     else if frame_length f mod (2 * achannels s) \<noteq> 0 \<or> draining s then bad_message s
     else mark_dirty (s\<lparr>aerror := ERROR_OVERFLOW\<rparr>))"
proof (cases "generation s = 0")
  case True
  then show ?thesis by (simp add: receive_pcm_def admits_def)
next
  case False
  have w: "0 < 2 * achannels s" using channels_live [OF ok False] by auto
  show ?thesis
  proof (cases "frame_length f mod (2 * achannels s) = 0")
    case True
    note fits = window_fits [OF w True dvd_triv_left, of "qcount s"]
    then show ?thesis
      using False True unfolding receive_pcm_def Let_def admits_def new_samples_def fits by simp
  next
    case F: False
    then show ?thesis using False unfolding receive_pcm_def Let_def admits_def by simp
  qed
qed

lemma receive_pcm_admitted:
  assumes ok: "core_ok s" and f: "admits f s"
  shows "core_ok (receive_pcm f s)" and "fifo (receive_pcm f s) = fifo s @ new_samples f s"
    and "generation (receive_pcm f s) = generation s" and "achannels (receive_pcm f s) = achannels s"
    and "consumed (receive_pcm f s) = consumed s" and "astate (receive_pcm f s) = astate s"
proof -
  let ?n = "new_samples f s" let ?u = "fold enqueue ?n s" let ?t = "receive_pcm f s"
  have g: "generation s \<noteq> 0" and fit: "qcount s * (2 * achannels s) + frame_length f \<le> WINDOW_BYTES"
    and m: "frame_length f mod (2 * achannels s) = 0"
    using f by (simp_all add: admits_def)
  have ch: "achannels s \<in> {1, 2}" using channels_live [OF ok g] .
  have "(qcount s + length ?n) * (2 * achannels s) = qcount s * (2 * achannels s) + frame_length f"
    using m by (simp add: new_samples_def add_mult_distrib mod_eq_0_iff_dvd)
  with fit have room: "(qcount s + length ?n) * (2 * achannels s) \<le> WINDOW_BYTES" by simp
  have "(qcount s + length ?n) * 2 \<le> (qcount s + length ?n) * (2 * achannels s)"
    using ch by (intro mult_le_mono) auto
  then have "(qcount s + length ?n) * 2 \<le> WINDOW_BYTES" using room by (rule le_trans)
  then have "qcount s + length ?n \<le> QUEUE_SAMPLES" by simp
  then have u: "ring_ok ?u" "fifo ?u = fifo s @ ?n"
    using ring.push_all [of s ?n] ok by (simp_all add: core_ok_def)
  have t: "?t = mark_dirty ?u" using f by (simp add: receive_pcm_cases [OF ok])
  have view: "fifo ?t = fifo ?u" "ring_ok ?t = ring_ok ?u"
    using ring_view [of ?t ?u] by (simp_all add: t mark_dirty_def)
  show fi: "fifo ?t = fifo s @ ?n" by (simp add: view u)
  have q: "qcount ?t = qcount s + length ?n" using arg_cong [where f = length, OF fi] by simp
  have fields: "generation ?t = generation s" "achannels ?t = achannels s" "consumed ?t = consumed s"
    "astate ?t = astate s" "amuted ?t = amuted s" "avolume ?t = avolume s" "phase ?t = phase s"
    by (simp_all add: t mark_dirty_def)
  then show "generation ?t = generation s" "achannels ?t = achannels s" "consumed ?t = consumed s" "astate ?t = astate s"
    by simp_all
  show "core_ok ?t"
    using ok room view u(1) unfolding core_ok_def fields q by simp
qed

lemma receive_pcm_refused: "core_ok s \<Longrightarrow> \<not> admits f s \<Longrightarrow> fine s (receive_pcm f s)"
proof -
  assume ok: "core_ok s" and f: "\<not> admits f s"
  have "fine s (mark_dirty (s\<lparr>aerror := ERROR_OVERFLOW\<rparr>))" by (rule same_fine [OF ok]) simp_all
  then show ?thesis
    using f field_fine(8) [OF ok] fine_refl [OF ok] by (simp add: receive_pcm_cases [OF ok] split del: if_split) simp
qed

lemma same_view_fine:
  assumes ok: "core_ok s" and view: "queue t = queue s" "qhead t = qhead s" "qcount t = qcount s"
    and f: "generation t = generation s" "achannels t = achannels s" "consumed t = consumed s" "astate t = astate s"
      "amuted t = amuted s" "phase t = phase s" and v: "avolume t \<le> 100"
  shows "fine s t"
proof -
  have "core_ok t" using ok v unfolding core_ok_def ring_view(2) [OF view] f view by blast
  moreover have "progress s t"
    using ok ring_view(1) [OF view] f unfolding progress_def core_ok_def
    by (intro disjI2 conjI exI [of _ 0]) (simp_all add: wrap_simps)
  ultimately show ?thesis by (simp add: fine_def)
qed

lemma volume_fine:
  "core_ok s \<Longrightarrow> p \<le> 100 \<Longrightarrow> fine s (mark_dirty (s\<lparr>avolume := p\<rparr>))"
  by (rule same_view_fine) (simp_all add: mark_dirty_def)

lemma apply_volume_fine:
  assumes ok: "core_ok (fst c)" and p: "p \<le> 100"
  shows "fine (fst c) (fst (apply_volume ops p c))"
proof -
  let ?q = "mark_dirty (fst c\<lparr>avolume := p\<rparr>)"
  have q: "fine (fst c) ?q" using volume_fine [OF assms] .
  obtain g s z where r: "require_zero ops AH_SET_VOLUME (audio_volume_db p) (?q, snd c) = (g, (s, z))" by (rule prod_cases3)
  have s: "fine ?q s"
    using called_fine [OF fine_ok [OF q] require_zero_called [of "(?q, snd c)" ops, unfolded fst_conv]]
    by (metis r fst_conv snd_conv)
  have m: "astate s = AUDIO_PLAYING \<Longrightarrow> fine s (fst (snd (set_muted ops b (s, z))))" for b
  proof -
    assume st: "astate s = AUDIO_PLAYING"
    have live: "generation s \<noteq> 0" using core_ok_live [OF fine_ok [OF s]] st by simp
    show ?thesis
      using set_muted_called [of "(s, z)" ops b] st by (intro moved_fine [OF fine_ok [OF s] _ live]) (auto split: if_splits)
  qed
  have "fine s (fst (apply_volume ops p c))"
    unfolding apply_volume_def r prod.case using m fine_refl [OF fine_ok [OF s]] by simp
  then show ?thesis using fine_trans [OF fine_trans [OF q s]] by blast
qed

lemma drain_fine: "core_ok s \<Longrightarrow> fine s (mark_dirty (s\<lparr>draining := True\<rparr>))"
  by (rule same_view_fine) (simp_all add: mark_dirty_def core_ok_def)

lemma read_open_sound: "read_open f = Some (r, ch) \<Longrightarrow> frame_generation f \<noteq> 0 \<and> ch \<in> {1, 2} \<and> r \<le> MAX_RATE \<and> MIN_RATE \<le> r"
  by (auto simp: read_open_def Let_def split: if_splits)

lemma read_volume_sound: "read_volume f = Some p \<Longrightarrow> p \<le> 100"
  by (auto simp: read_volume_def split: if_splits)

lemma open_stream_ok:
  assumes ok: "core_ok s" and m: "amuted s" and g: "g \<noteq> 0" and ch: "ch \<in> {1, 2}"
  shows "core_ok (open_stream now g r ch s)"
    and "generation (open_stream now g r ch s) = g" and "achannels (open_stream now g r ch s) = ch"
    and "fifo (open_stream now g r ch s) = []" and "consumed (open_stream now g r ch s) = 0"
    and "astate (open_stream now g r ch s) = AUDIO_PRIMING"
proof -
  let ?t = "open_stream now g r ch s"
  have f: "queue ?t = queue s" "qhead ?t = 0" "qcount ?t = 0" "phase ?t = 0" "avolume ?t = avolume s"
    "generation ?t = g" "achannels ?t = ch" "consumed ?t = 0" "astate ?t = AUDIO_PRIMING" "amuted ?t = amuted s"
    by (simp_all add: open_stream_def begin_priming_def clear_queue_def set_astate_def mark_dirty_def)
  then show "generation ?t = g" "achannels ?t = ch" "consumed ?t = 0" "astate ?t = AUDIO_PRIMING" "fifo ?t = []"
    by (simp_all add: fifo_def)
  show "core_ok ?t" using ok m g ch unfolding core_ok_def ring_ok_def f by simp
qed

section \<open>A device that takes no block\<close>

definition refuses :: "'z ah_ops \<Rightarrow> bool" where
  "refuses ops \<longleftrightarrow> (\<forall>data v z. ans_result (fst (dev_call ops AH_SEND data v z)) \<noteq> 0)"

text \<open>The stream is over, or nothing was taken from its queue.\<close>

definition line_kept :: "ah_state \<Rightarrow> ah_state \<Rightarrow> bool" where
  "line_kept s t \<longleftrightarrow> generation t = 0 \<or>
     generation t = generation s \<and> fifo t = fifo s \<and> consumed t = consumed s \<and> phase t = phase s"

lemma line_kept_trans [trans]: "line_kept a b \<Longrightarrow> line_kept b c \<Longrightarrow> line_kept a c"
  by (auto simp: line_kept_def)

lemma same_kept: "same_stream s t \<Longrightarrow> line_kept s t"
  unfolding line_kept_def by (frule same_stream_ring) (simp add: same_stream_def)

lemma line_kept_refl [simp]: "line_kept s s"
  by (simp add: line_kept_def)

lemma called_kept: "called s ok t \<Longrightarrow> line_kept s t"
  by (simp add: called_def same_kept)

lemma complete_kept [simp]: "line_kept s (complete_generation t)"
  by (simp add: line_kept_def complete_generation_def clear_queue_def set_astate_def mark_dirty_def Let_def)

lemma stop_generation_kept: "line_kept (fst c) (fst (stop_generation ops c))"
proof -
  obtain ok s z where d: "(if \<not> amuted (fst c) then set_muted ops True c else (True, c)) = (ok, (s, z))" by (rule prod_cases3)
  have s: "line_kept (fst c) s" using set_muted_called [of c ops True] d by (auto simp: same_kept split: if_splits)
  obtain ok2 s2 z2 where r: "require_zero ops AH_CLEAR 0 (s, z) = (ok2, (s2, z2))" by (rule prod_cases3)
  have "line_kept s s2" using called_kept [OF require_zero_called [of "(s, z)" ops AH_CLEAR 0]] by (simp add: r)
  then show ?thesis using s line_kept_trans unfolding stop_generation_def d prod.case r by auto
qed

lemma prime_timeout_kept: "line_kept (fst c) (fst (snd (prime_timeout ops c)))"
  using stop_generation_kept [of "(fst c\<lparr>aerror := ERROR_PRIME_TIMEOUT\<rparr>, snd c)" ops]
    same_kept [of "fst c" "fst c\<lparr>aerror := ERROR_PRIME_TIMEOUT\<rparr>"] line_kept_trans
  by (fastforce simp: prime_timeout_def)

lemma send_silence_kept: "send_silence ops c = (r, (s, z)) \<Longrightarrow> line_kept (fst c) s"
  using called_kept [OF send_silence_called [of c ops]] by simp

lemma query_kept: "query ops c = (ok, (s, z)) \<Longrightarrow> line_kept (fst c) s"
  using called_kept [OF query_called [of c ops]] by simp

lemma send_audio_block_refused:
  assumes "refuses ops"
  shows "fst (send_audio_block ops c) \<le> 0 \<and> line_kept (fst c) (fst (snd (send_audio_block ops c)))"
proof -
  let ?c = "(fst c\<lparr>block := audio_block (fst c)\<rparr>, snd c)"
  have r: "fst (send_block ops ?c) \<le> 0"
    using assms by (simp add: send_block_def device_call_def split_def refuses_def)
  have "same_stream (fst c) (fst (snd (send_block ops ?c)))"
    using send_block_called [of ?c ops] by (simp add: called_def same_stream_def)
  then show ?thesis using r by (simp add: send_audio_block_def Let_def split_def same_kept)
qed

lemma service_priming_kept: "line_kept (fst c) (fst (snd (service_priming ops now c)))"
proof -
  have "same_stream s t \<Longrightarrow> line_kept s (set_astate AUDIO_PLAYING t)" for s t by (simp add: same_kept)
  then have u: "line_kept s (fst (snd (case unmute_if_audible ops (s, z) of (ok, (s, z)) \<Rightarrow>
             if \<not> ok then (- 1, (s, z)) else (0, (set_astate AUDIO_PLAYING s, z)))))" for s z
    using set_muted_called [of "(s, z)" ops False] by (auto simp: unmute_if_audible_def same_kept split_def)
  show ?thesis
  proof (cases "silence_sent (fst c)")
    case False
    obtain r s z where b: "send_silence ops c = (r, (s, z))" by (rule prod_cases3)
    have "line_kept s (s\<lparr>silence_sent := True\<rparr>)" by (simp add: same_kept)
    then show ?thesis using False send_silence_kept [OF b] prime_timeout_kept [of "(s, z)" ops] line_kept_trans
      unfolding service_priming_def b prod.case by (auto split: if_splits)
  next
    case True
    obtain ok s z where b: "query ops c = (ok, (s, z))" by (rule prod_cases3)
    show ?thesis using True query_kept [OF b] prime_timeout_kept [of "(s, z)" ops] u [of s z] line_kept_trans
      unfolding service_priming_def b prod.case by (auto split: if_splits)
  qed
qed

lemma settle_end_kept: "line_kept (fst c) (fst (snd (settle_end ops late c)))"
proof -
  obtain g s z where d: "(if \<not> amuted (fst c) then set_muted ops True c else (True, c)) = (g, (s, z))" by (rule prod_cases3)
  have s: "line_kept (fst c) s" using set_muted_called [of c ops True] d by (auto simp: same_kept split: if_splits)
  define t where "t = (if late then s\<lparr>aerror := ERROR_SETTLE_TIMEOUT\<rparr> else s)"
  have t: "line_kept (fst c) t" using s line_kept_trans same_kept [of s "s\<lparr>aerror := ERROR_SETTLE_TIMEOUT\<rparr>"] by (auto simp: t_def)
  define e where "e = (if late \<or> clear_after_settle t
      then (case require_zero ops AH_CLEAR 0 (t, z) of (ok, (s, z)) \<Rightarrow> (ok, (if ok then s\<lparr>busy := 0\<rparr> else s, z)))
      else (True, (t, z)))"
  obtain h u y where e: "e = (h, (u, y))" by (rule prod_cases3)
  have "same_stream t u"
    using e require_zero_called [of "(t, z)" ops AH_CLEAR 0] by (auto simp: e_def called_def split_def split: if_splits)
  then have u: "line_kept (fst c) u" "line_kept (fst c) (set_astate AUDIO_PAUSED u)"
    using t line_kept_trans same_kept by (blast, metis line_kept_trans same_kept same_stream_simps(4))
  show ?thesis using s u unfolding settle_end_def d prod.case Let_def t_def [symmetric] e_def [symmetric] e by simp
qed

lemma service_settling_kept: "line_kept (fst c) (fst (snd (service_settling ops now c)))"
proof (cases "silence_sent (fst c)")
  case False
  obtain r s z where b: "send_silence ops c = (r, (s, z))" by (rule prod_cases3)
  have "line_kept s (s\<lparr>silence_sent := True\<rparr>)" by (simp add: same_kept)
  then show ?thesis using False send_silence_kept [OF b] settle_end_kept [of "(s, z)" ops True] line_kept_trans
    unfolding service_settling_def Let_def b prod.case by (auto split: if_splits)
next
  case True
  obtain ok s z where b: "query ops c = (ok, (s, z))" by (rule prod_cases3)
  show ?thesis using True query_kept [OF b] settle_end_kept [of "(s, z)" ops] line_kept_trans
    unfolding service_settling_def Let_def b prod.case by (auto split: if_splits)
qed

lemma begin_settling_kept: "line_kept s (begin_settling now nxt s)"
  by (simp add: begin_settling_def line_kept_def set_astate_def mark_dirty_def fifo_def queued_def)

lemma starve_kept: "line_kept (fst c) (fst (snd (starve ops now c)))"
proof -
  obtain s z where c: "c = (s, z)" by (rule prod.exhaust)
  have settle: "line_kept u (fst (snd (service_settling ops now (begin_settling now nxt u, y))))" for u nxt y
    using begin_settling_kept service_settling_kept [of "(begin_settling now nxt u, y)" ops now] line_kept_trans by fastforce
  define t where "t = (if \<not> starving s
      then mark_dirty (s\<lparr>starving := True, starved_since := now, aunderruns := wrap32 (aunderruns s + 1)\<rparr>) else s)"
  have "same_stream s (s\<lparr>starving := True, starved_since := now, aunderruns := n\<rparr>)" for n by (simp add: same_stream_def)
  then have t: "line_kept s t" by (simp add: t_def same_kept)
  obtain r u y where r: "send_silence ops (t, z) = (r, (u, y))" by (rule prod_cases3)
  show ?thesis
    unfolding starve_def c prod.case Let_def t_def [symmetric] r
    using settle t send_silence_kept [OF r] line_kept_trans [OF t] by simp
qed

lemma playing_loop_kept:
  assumes "refuses ops"
  shows "line_kept (fst c) (fst (snd (playing_loop ops now c)))"
proof -
  obtain r s z where b: "send_audio_block ops c = (r, (s, z))" by (rule prod_cases3)
  have s: "r \<le> 0" "line_kept (fst c) s" using send_audio_block_refused [OF assms, of c] by (simp_all add: b)
  have "line_kept s (s\<lparr>refusals := n\<rparr>)" "line_kept s (ah_fail e x (s\<lparr>refusals := n\<rparr>))" for n e x by (simp_all add: same_kept)
  then have k: "line_kept (fst c) (s\<lparr>refusals := n\<rparr>)" "line_kept (fst c) (ah_fail e x (s\<lparr>refusals := n\<rparr>))" for n e x
    using s(2) line_kept_trans by blast+
  show ?thesis using k s starve_kept [of c ops now] by (subst playing_loop.simps) (simp add: b Let_def)
qed

lemma service_rounds_kept: "refuses ops \<Longrightarrow> line_kept (fst c) (fst (snd (service_rounds ops now n c)))"
proof (induction n arbitrary: c)
  case (Suc n)
  have go: "line_kept (fst c) (fst (snd (case r of (wait, c) \<Rightarrow> if wait = 0 then service_rounds ops now n c else (wait, c))))"
    if "line_kept (fst c) (fst (snd r))" for r :: "int \<times> 'a core"
    using that Suc.IH [OF Suc.prems, of "snd r"] line_kept_trans [OF that] by (auto simp: split_def)
  have p: "line_kept (fst c) (fst (snd (service_playing ops now c)))"
  proof -
    obtain ok s z where b: "query ops c = (ok, (s, z))" by (rule prod_cases3)
    show ?thesis using query_kept [OF b] playing_loop_kept [OF Suc.prems, of "(s, z)" now] line_kept_trans
      unfolding service_playing_def b prod.case by (auto split: if_splits)
  qed
  have b: "line_kept (fst c) (begin_priming now (fst c))"
    by (simp add: begin_priming_def line_kept_def set_astate_def mark_dirty_def fifo_def queued_def)
  show ?case
  proof (cases "astate (fst c)")
    case AUDIO_PAUSED
    then show ?thesis using go [of "(0, (begin_priming now (fst c), snd c))"] b by (simp add: Let_def)
  qed (simp_all add: go service_priming_kept service_settling_kept p)
qed simp

lemma ah_service_kept: "refuses ops \<Longrightarrow> line_kept (fst c) (fst (snd (ah_service ops now c)))"
  unfolding ah_service_def by (rule service_rounds_kept)

end
