(* ===== verification/Audio_Helper_Properties.thy ===== *)
theory Audio_Helper_Properties
  imports Audio_Helper_Facts
begin

text \<open>
  The properties of the audio helper's core over its runs (\<open>helper_run\<close>): the invariant, the account
  of a stream's samples, the samples of a datagram, the conversion of the rate, and the finality of
  a failure.
\<close>

section \<open>Runs of the helper\<close>

text \<open>
  What the loop of the helper does to the core: a datagram arrives, the device is served, what is
  due is sent, the device reports a failure. Between two of these the environment moves on by itself.
\<close>

datatype helper_event =
    Received bytes int
  | Served int
  | Flushed bytes
  | Device_lost int

fun helper_do :: "'z ah_ops \<Rightarrow> helper_event \<Rightarrow> 'z core \<Rightarrow> 'z core" where
  "helper_do ops (Received data now) c = ah_receive ops data now c"
| "helper_do ops (Served now) c = snd (ah_service ops now c)"
| "helper_do ops (Flushed message) c = ah_flush ops message c"
| "helper_do ops (Device_lost r) c = (ah_fail ERROR_VENDOR r (fst c), snd c)"

text \<open>The samples of the current stream that were admitted, oldest first.\<close>

fun admitted :: "helper_event \<Rightarrow> ah_state \<Rightarrow> int list \<Rightarrow> int list" where
  "admitted (Received data now) s acc =
     (if astate s = AUDIO_FAILED \<or> astate s = AUDIO_STARTING then acc
      else case audio_parse data of
        None \<Rightarrow> acc
      | Some f \<Rightarrow>
          if frame_type f = AUDIO_OPEN then (if read_open f = None then acc else [])
          else if frame_type f = AUDIO_PCM \<and> admits f s then acc @ new_samples f s
          else acc)"
| "admitted ev s acc = acc"

text \<open>A helper whose device was prepared: \<open>ap_start\<close> sets the last two fields.\<close>

definition ah_started :: ah_state where
  "ah_started = ah_init\<lparr>astate := AUDIO_IDLE, hello_pending := True\<rparr>"

inductive helper_run :: "'z ah_ops \<Rightarrow> int list \<Rightarrow> 'z core \<Rightarrow> bool" for ops where
  run_start: "helper_run ops [] (ah_started, z)"
| run_event: "helper_run ops acc c \<Longrightarrow> helper_run ops (admitted ev (fst c) acc) (helper_do ops ev c)"
| run_outside: "helper_run ops acc (s, z) \<Longrightarrow> helper_run ops acc (s, z')"

lemma core_ok_started: "core_ok ah_started"
  by (simp add: core_ok_def ring_ok_def ah_started_def ah_init_def)

lemma ah_flush_fields:
  "queue (fst (ah_flush ops message c)) = queue (fst c)" "qhead (fst (ah_flush ops message c)) = qhead (fst c)"
  "qcount (fst (ah_flush ops message c)) = qcount (fst c)" "generation (fst (ah_flush ops message c)) = generation (fst c)"
  "achannels (fst (ah_flush ops message c)) = achannels (fst c)" "consumed (fst (ah_flush ops message c)) = consumed (fst c)"
  "astate (fst (ah_flush ops message c)) = astate (fst c)" "amuted (fst (ah_flush ops message c)) = amuted (fst c)"
  "phase (fst (ah_flush ops message c)) = phase (fst c)" "avolume (fst (ah_flush ops message c)) = avolume (fst c)"
  "aerror (fst (ah_flush ops message c)) = aerror (fst c)" "vendor_result (fst (ah_flush ops message c)) = vendor_result (fst c)"
  by (simp_all add: ah_flush_def Let_def split_def)

lemma ah_flush_fine: "core_ok (fst c) \<Longrightarrow> fine (fst c) (fst (ah_flush ops message c))"
  by (rule same_view_fine) (simp_all add: ah_flush_fields core_ok_def)

text \<open>What a datagram does: it opens a stream, adds samples, or leaves the account of the stream.\<close>

lemma ah_receive_effect:
  assumes ok: "core_ok (fst c)"
  shows "core_ok (fst (ah_receive ops data now c)) \<and>
    (if astate (fst c) \<noteq> AUDIO_FAILED \<and> astate (fst c) \<noteq> AUDIO_STARTING \<and>
        (\<exists>f. audio_parse data = Some f \<and> frame_type f = AUDIO_OPEN \<and> read_open f \<noteq> None)
     then astate (fst (ah_receive ops data now c)) \<noteq> AUDIO_FAILED \<longrightarrow>
       fifo (fst (ah_receive ops data now c)) = [] \<and> consumed (fst (ah_receive ops data now c)) = 0
     else if astate (fst c) \<noteq> AUDIO_FAILED \<and> astate (fst c) \<noteq> AUDIO_STARTING \<and>
        (\<exists>f. audio_parse data = Some f \<and> frame_type f = AUDIO_PCM \<and> admits f (fst c))
     then fst (ah_receive ops data now c) = receive_pcm (the (audio_parse data)) (fst c)
     else progress (fst c) (fst (ah_receive ops data now c)))"
proof (cases "astate (fst c) = AUDIO_FAILED \<or> astate (fst c) = AUDIO_STARTING \<or> audio_parse data = None")
  case True
  obtain s z where c: "c = (s, z)" by (rule prod.exhaust)
  show ?thesis
    using True ok fine_refl [OF ok] field_fine(8) [OF ok] by (auto simp: c ah_receive_def fine_def split: option.splits)
next
  case False
  obtain s z where c: "c = (s, z)" by (rule prod.exhaust)
  obtain f where f: "audio_parse data = Some f" using False by auto
  have live: "astate s \<noteq> AUDIO_FAILED" "astate s \<noteq> AUDIO_STARTING" and oks: "core_ok s" using False ok by (simp_all add: c)
  have bad: "fine s (bad_message s)" using field_fine(8) [OF oks] .
  have e: "?thesis" if "fine s (fst (ah_receive ops data now c))"
      "\<not> (frame_type f = AUDIO_OPEN \<and> read_open f \<noteq> None)" "\<not> (frame_type f = AUDIO_PCM \<and> admits f s)"
    using that by (auto simp: c f fine_def)
  show ?thesis
  proof (cases "frame_type f")
    case AUDIO_OPEN
    show ?thesis
    proof (cases "read_open f")
      case None
      then show ?thesis using bad AUDIO_OPEN live by (intro e) (simp_all add: c ah_receive_def f)
    next
      case (Some a)
      obtain r ch where a: "read_open f = Some (r, ch)" using Some by (cases a) simp
      note g = read_open_sound [OF a]
      obtain t y where d: "(if generation s \<noteq> 0 then stop_generation ops (s, z) else (s, z)) = (t, y)" by (rule prod.exhaust)
      have t: "core_ok t" "astate t \<noteq> AUDIO_FAILED \<Longrightarrow> amuted t"
      proof -
        have "fine s t \<and> (astate t = AUDIO_IDLE \<or> astate t = AUDIO_FAILED)"
          using d stop_generation_fine [of "(s, z)" ops] oks live fine_refl [OF oks]
          by (auto simp: core_ok_def [of s] split: if_splits)
        then show "core_ok t" "astate t \<noteq> AUDIO_FAILED \<Longrightarrow> amuted t" by (auto dest: fine_ok simp: core_ok_def [of t])
      qed
      have r: "ah_receive ops data now c = (if astate t = AUDIO_FAILED then (t, y)
          else (open_stream now (frame_generation f) r ch t, y))"
        unfolding ah_receive_def c prod.case using live by (simp add: f AUDIO_OPEN a d)
      show ?thesis
        using t open_stream_ok [OF t(1), of "frame_generation f" ch now r] g AUDIO_OPEN a live unfolding r
        by (auto simp: c f)
    qed
  next
    case AUDIO_PCM
    have r: "ah_receive ops data now c = (receive_pcm f s, z)"
      unfolding ah_receive_def c prod.case using live by (simp add: f AUDIO_PCM)
    show ?thesis
      using receive_pcm_admitted(1) [OF oks, of f] receive_pcm_refused [OF oks, of f] AUDIO_PCM live unfolding r
      by (cases "admits f s") (simp_all add: c f fine_def)
  next
    case AUDIO_DRAIN
    then show ?thesis
      using drain_fine [OF oks] fine_refl [OF oks] live by (intro e) (simp_all add: c ah_receive_def f)
  next
    case AUDIO_STOP
    obtain t y where d: "(if generation s \<noteq> 0 \<and> frame_generation f = generation s then stop_generation ops (s, z) else (s, z)) = (t, y)"
      by (rule prod.exhaust)
    have t: "fine s t"
      using d stop_generation_fine [of "(s, z)" ops] oks fine_refl [OF oks] by (auto split: if_splits)
    have "fine s (mark_dirty t)" using fine_trans [OF t field_fine(7) [OF fine_ok [OF t]]] .
    moreover have "ah_receive ops data now c = (mark_dirty t, y)"
      unfolding ah_receive_def c prod.case using live by (simp add: f AUDIO_STOP d)
    ultimately show ?thesis using AUDIO_STOP by (intro e) simp_all
  next
    case AUDIO_VOLUME
    have "fine s (fst (ah_receive ops data now c))"
      using AUDIO_VOLUME live bad apply_volume_fine [of "(s, z)" _ ops] oks read_volume_sound [of f]
      by (auto simp: c ah_receive_def f split: option.splits)
    then show ?thesis using AUDIO_VOLUME by (intro e) simp_all
  qed (use bad live in \<open>intro e; simp add: c ah_receive_def f\<close>)+
qed

section \<open>The account of a stream\<close>

lemma failed_done:
  assumes "astate (fst c) = AUDIO_FAILED"
  shows "astate (fst (helper_do ops ev c)) = AUDIO_FAILED \<and> aerror (fst (helper_do ops ev c)) = aerror (fst c)
    \<and> vendor_result (fst (helper_do ops ev c)) = vendor_result (fst c) \<and> amuted (fst (helper_do ops ev c)) = amuted (fst c)
    \<and> fifo (fst (helper_do ops ev c)) = fifo (fst c)"
proof (cases ev)
  case (Served now)
  then show ?thesis
    using assms by (simp add: ah_service_def numeral_nat)
next
  case (Flushed message)
  then show ?thesis
    using assms ring_view(1) [of "fst (ah_flush ops message c)" "fst c"] by (simp add: ah_flush_fields)
next
  case (Device_lost r)
  then show ?thesis
    using assms ring_view(1) [of "ah_fail ERROR_VENDOR r (fst c)" "fst c"] by (simp add: ah_fail_def mark_dirty_def)
qed (use assms in \<open>simp add: ah_receive_def split_def\<close>)

definition accounted :: "int list \<Rightarrow> ah_state \<Rightarrow> bool" where
  "accounted acc s \<longleftrightarrow> generation s \<noteq> 0 \<longrightarrow> astate s \<noteq> AUDIO_FAILED \<longrightarrow>
     (\<exists>n \<le> length acc. fifo s = drop n acc \<and> consumed s = wrap32 (n * (2 * achannels s)))"

lemma accounted_progress:
  assumes a: "accounted acc s" and p: "progress s t" and f: "astate s = AUDIO_FAILED \<Longrightarrow> astate t = AUDIO_FAILED"
  shows "accounted acc t"
  unfolding accounted_def
proof (intro impI)
  assume t: "generation t \<noteq> 0" "astate t \<noteq> AUDIO_FAILED"
  then obtain m where m: "m \<le> qcount s" "fifo t = drop m (fifo s)" "consumed t = wrap32 (consumed s + m * (2 * achannels s))"
    and g: "generation t = generation s" "achannels t = achannels s"
    using p by (auto simp: progress_def)
  obtain n where n: "n \<le> length acc" "fifo s = drop n acc" "consumed s = wrap32 (n * (2 * achannels s))"
    using a t f g by (auto simp: accounted_def)
  have "qcount s = length acc - n" using arg_cong [where f = length, OF n(2)] by simp
  then have "n + m \<le> length acc" using m(1) n(1) by simp
  moreover have "fifo t = drop (n + m) acc" using m(2) n(2) by (simp add: add.commute)
  moreover have "consumed t = wrap32 ((n + m) * (2 * achannels t))"
    by (simp add: m(3) n(3) g wrap32_add add_mult_distrib)
  ultimately show "\<exists>n \<le> length acc. fifo t = drop n acc \<and> consumed t = wrap32 (n * (2 * achannels t))" by blast
qed

lemma accounted_new: "fifo s = [] \<Longrightarrow> consumed s = 0 \<Longrightarrow> accounted [] s"
  by (simp add: accounted_def wrap_simps)

lemma accounted_push:
  assumes a: "accounted acc s" and live: "generation s \<noteq> 0" "astate s \<noteq> AUDIO_FAILED"
    and t: "fifo t = fifo s @ xs" "achannels t = achannels s" "consumed t = consumed s"
  shows "accounted (acc @ xs) t"
proof -
  obtain n where n: "n \<le> length acc" "fifo s = drop n acc" "consumed s = wrap32 (n * (2 * achannels s))"
    using a live by (auto simp: accounted_def)
  then have "n \<le> length (acc @ xs)" "fifo t = drop n (acc @ xs)" "consumed t = wrap32 (n * (2 * achannels t))"
    using t by simp_all
  then show ?thesis unfolding accounted_def by blast
qed

lemma received_accounted:
  assumes ok: "core_ok (fst c)" and a: "accounted acc (fst c)"
  shows "accounted (admitted (Received data now) (fst c) acc) (fst (ah_receive ops data now c))"
proof (cases "astate (fst c) = AUDIO_FAILED \<or> astate (fst c) = AUDIO_STARTING")
  case True
  have "fst (ah_receive ops data now c) = fst c" using True by (auto simp: ah_receive_def split: prod.splits)
  then show ?thesis using True a by auto
next
  case False
  note e = ah_receive_effect [OF ok, where data = data and now = now and ops = ops]
  have quiet: "accounted acc (fst (ah_receive ops data now c))"
    if "progress (fst c) (fst (ah_receive ops data now c))"
    using accounted_progress [OF a that] False by blast
  show ?thesis
  proof (cases "audio_parse data")
    case None
    then show ?thesis using e False quiet by simp
  next
    case (Some f)
    show ?thesis
    proof (cases "frame_type f = AUDIO_OPEN \<and> read_open f \<noteq> None")
      case True
      then have "astate (fst (ah_receive ops data now c)) \<noteq> AUDIO_FAILED \<longrightarrow>
          accounted [] (fst (ah_receive ops data now c))"
        using e False Some accounted_new by auto
      then show ?thesis using True False Some by (auto simp: accounted_def)
    next
      case other: False
      show ?thesis
      proof (cases "frame_type f = AUDIO_PCM \<and> admits f (fst c)")
        case True
        then have "fst (ah_receive ops data now c) = receive_pcm f (fst c)" using e False Some by simp
        moreover have "generation (fst c) \<noteq> 0" using True by (simp add: admits_def)
        ultimately show ?thesis
          using accounted_push [OF a] receive_pcm_admitted [OF ok] True False Some by simp
      next
        case False
        then have "progress (fst c) (fst (ah_receive ops data now c))" using e other Some by auto
        then show ?thesis using quiet other False Some by auto
      qed
    qed
  qed
qed

lemma run_sound: "helper_run ops acc c \<Longrightarrow> core_ok (fst c) \<and> accounted acc (fst c)"
proof (induction rule: helper_run.induct)
  case (run_start z)
  show ?case using core_ok_started by (simp add: accounted_def ah_started_def ah_init_def)
next
  case (run_event acc c ev)
  then have ok: "core_ok (fst c)" and a: "accounted acc (fst c)" by simp_all
  have go: ?case if "fine (fst c) (fst (helper_do ops ev c))" "admitted ev (fst c) acc = acc"
    using that accounted_progress [OF a] failed_done [of c ops ev] by (simp add: fine_def)
  show ?case
  proof (cases ev)
    case (Received data now)
    then show ?thesis using ah_receive_effect [OF ok, where data = data and now = now and ops = ops] received_accounted [OF ok a] by simp
  qed (use go ah_service_fine [OF ok] ah_flush_fine [OF ok] field_fine(4) [OF ok] in auto)
qed simp

lemma sint16_range: "sint (w :: 16 word) \<in> {- 32768 .. 32767}"
  using sint_lt [of w] sint_ge [of w] by simp

lemma sint_of_word16: "- 32768 \<le> k \<Longrightarrow> k < 32768 \<Longrightarrow> sint (word_of_int k :: 16 word) = k"
  by (simp add: signed_of_int signed_take_bit_int_eq_self)

lemma admitted_range: "helper_run ops acc c \<Longrightarrow> set acc \<subseteq> {- 32768 .. 32767}"
proof (induction rule: helper_run.induct)
  case (run_event acc c ev)
  have "frame_sample ch p i \<in> {- 32768 .. 32767}" for ch p i
    using sint16_range unfolding frame_sample_def Let_def by blast
  then have "set (new_samples f s) \<subseteq> {- 32768 .. 32767}" for f s by (auto simp: new_samples_def)
  then show ?case using run_event.IH by (cases ev) (auto split: option.splits)
qed simp_all

section \<open>The samples of a datagram\<close>

text \<open>What the helper plays of the runtime's samples: all of them, or the mean of the two channels.\<close>

fun mixed :: "16 word list \<Rightarrow> int list" where
  "mixed (l # r # xs) = (sint l + sint r) sdiv 2 # mixed xs"
| "mixed _ = []"

definition as_mono :: "nat \<Rightarrow> 16 word list \<Rightarrow> int list" where
  "as_mono channels xs = (if channels = 2 then mixed xs else map sint xs)"

lemma mean_range: "(sint (l :: 16 word) + sint (r :: 16 word)) sdiv 2 \<in> {- 32768 .. 32767}"
  using sint16_range [of l] sint16_range [of r] by (auto simp: signed_divide_int_def sgn_if)

lemma drop_frame: "drop (4 + n) (a # b # c # d # p) = drop n p" "drop (6 + n) (a # b # c # d # p) = drop (2 + n) p"
  by (simp_all add: eval_nat_numeral)

lemma frame_sample_shift: "frame_sample ch (le16 x @ p) (Suc i) = frame_sample ch p i" if "ch = 1"
  using that by (simp add: frame_sample_def le16_def)

lemma new_samples_mono:
  "map (frame_sample 1 (concat (map le16 xs))) [0..<length xs] = map sint xs"
proof (induction xs)
  case (Cons x xs)
  have "frame_sample 1 (le16 x @ p) 0 = sint x" for p
    by (simp add: frame_sample_def sample16_def)
  then show ?case
    using Cons frame_sample_shift [of 1] by (simp add: map_upt_Suc del: upt_Suc)
qed simp

lemma new_samples_stereo:
  "even (length xs) \<Longrightarrow> map (frame_sample 2 (concat (map le16 xs))) [0..<length xs div 2] = mixed xs"
proof (induction xs rule: mixed.induct)
  case (1 l r xs)
  have "frame_sample 2 (le16 l @ le16 r @ p) 0 = (sint l + sint r) sdiv 2" for p
    using mean_range [of l r] by (simp add: frame_sample_def sample16_def Let_def sint_of_word16)
  moreover have "frame_sample 2 (le16 l @ le16 r @ p) (Suc i) = frame_sample 2 p i" for p i
    by (simp add: frame_sample_def le16_def drop_frame)
  ultimately show ?case using 1 by (simp add: map_upt_Suc del: upt_Suc)
qed simp_all

section \<open>Interpolation\<close>

lemma part_between:
  fixes d f :: int
  assumes "0 \<le> f" and "f < 65536"
  shows "min 0 d \<le> (d * f) sdiv 65536 \<and> (d * f) sdiv 65536 \<le> max 0 d"
proof -
  have "\<bar>d\<bar> * f div 65536 \<le> \<bar>d\<bar>"
  proof -
    have "\<bar>d\<bar> * f \<le> \<bar>d\<bar> * 65536" using assms by (intro mult_left_mono) simp_all
    then have "\<bar>d\<bar> * f div 65536 \<le> \<bar>d\<bar> * 65536 div 65536" by (rule zdiv_mono1) simp
    then show ?thesis by simp
  qed
  moreover have "0 \<le> \<bar>d\<bar> * f div 65536" using assms by (simp add: pos_imp_zdiv_nonneg_iff)
  moreover have "(d * f) sdiv 65536 = sgn d * (\<bar>d\<bar> * f div 65536)"
    using assms by (cases "f = 0") (simp_all add: signed_divide_int_def sgn_mult abs_mult)
  ultimately show ?thesis by (cases "d = 0") (auto simp: sgn_if)
qed

lemma fifo_nth: "i < qcount s \<Longrightarrow> fifo s ! i = queued s i"
  by (simp add: fifo_def)

lemma resampled_eq:
  assumes range: "set (fifo s) \<subseteq> {- 32768 .. 32767}" and i: "p div 65536 < qcount s" and q: "qcount s \<le> QUEUE_SAMPLES"
  defines "a \<equiv> fifo s ! (p div 65536)"
  defines "b \<equiv> (if p div 65536 + 1 < qcount s then fifo s ! (p div 65536 + 1) else a)"
  shows "resampled s p = (if p mod 65536 = 0 then a else a + ((b - a) * int (p mod 65536)) sdiv 65536)"
    and "min a b \<le> resampled s p \<and> resampled s p \<le> max a b"
proof -
  have ab: "a \<in> {- 32768 .. 32767}" "b \<in> {- 32768 .. 32767}"
    using range i unfolding a_def b_def by (auto simp: subset_iff)
  define v where "v = a + ((b - a) * int (p mod 65536)) sdiv 65536"
  have v: "min a b \<le> v \<and> v \<le> max a b"
    using part_between [of "int (p mod 65536)" "b - a"] unfolding v_def by (simp add: min_def max_def split: if_splits)
  then have "sint (word_of_int v :: 16 word) = v" using ab by (intro sint_of_word16) auto
  moreover have "wrap32 (p div 65536) = p div 65536" using i q by (simp add: wrap_simps)
  moreover have "a = queued s (p div 65536)" "p div 65536 + 1 < qcount s \<Longrightarrow> b = queued s (p div 65536 + 1)"
    using i by (simp_all add: a_def b_def fifo_nth)
  moreover have "sint (word_of_int a :: 16 word) = a" using ab by (intro sint_of_word16) auto
  ultimately show e: "resampled s p = (if p mod 65536 = 0 then a else a + ((b - a) * int (p mod 65536)) sdiv 65536)"
    using i unfolding resampled_def Let_def v_def b_def by auto
  show "min a b \<le> resampled s p \<and> resampled s p \<le> max a b" unfolding e using v by (auto simp: v_def)
qed

lemma block_positions:
  assumes "phase s < 65536" and "rate_step s < 2 ^ 20" and "i < BLOCK_SAMPLES" and "frames_needed s \<le> qcount s"
  shows "(phase s + i * rate_step s) div 65536 < qcount s"
    and "(phase s + i * rate_step s) mod 65536 \<noteq> 0 \<Longrightarrow> (phase s + i * rate_step s) div 65536 + 1 < qcount s"
proof -
  let ?f = "phase s + 1023 * rate_step s" and ?p = "phase s + i * rate_step s"
  have le: "?p \<le> ?f" using assms(3) by (simp add: mult_le_mono1)
  have need: "frames_needed s = ?f div 65536 + (if ?f mod 65536 \<noteq> 0 then 2 else 1)"
    using assms(1,2) by (simp add: frames_needed_def wrap_simps)
  have d: "?p div 65536 \<le> ?f div 65536" using le by (rule div_le_mono)
  then show "?p div 65536 < qcount s" using assms(4) need by (simp split: if_splits)
  assume m: "?p mod 65536 \<noteq> 0"
  show "?p div 65536 + 1 < qcount s"
  proof (cases "?f mod 65536 = 0")
    case True
    then have "?p div 65536 < ?f div 65536"
      using le m d div_mult_mod_eq [of ?p 65536] div_mult_mod_eq [of ?f 65536] by (cases "?p div 65536 = ?f div 65536") linarith+
    then show ?thesis using assms(4) need True by simp
  next
    case False
    then show ?thesis using d assms(4) need by simp
  qed
qed

section \<open>Properties\<close>

lemma fold_rate_step: "rate_step (fold enqueue xs s) = rate_step s"
  by (induction xs arbitrary: s) simp_all

lemma pcm_queued:
  assumes ok: "core_ok s" and st: "astate s \<noteq> AUDIO_FAILED" "astate s \<noteq> AUDIO_STARTING"
    and g: "generation s \<noteq> 0" "\<not> draining s"
    and xs: "xs \<noteq> []" "length xs \<le> 2048" "achannels s dvd length xs" "8 + 2 * length xs \<le> length message"
    and fit: "2 * (qcount s * achannels s + length xs) \<le> WINDOW_BYTES"
  defines "data \<equiv> sent (encode_pcm message (generation s) xs)"
  shows "fst (ah_receive ops data now (s, z)) = receive_pcm (the (audio_parse data)) s"
    and "fifo (fst (ah_receive ops data now (s, z))) = fifo s @ as_mono (achannels s) xs"
    and "admitted (Received data now) s acc = acc @ as_mono (achannels s) xs"
proof -
  define f where "f = \<lparr>frame_type = AUDIO_PCM, frame_length = length xs * 2, frame_generation = generation s,
      frame_payload = concat (map le16 xs)\<rparr>"
  have p: "audio_parse data = Some f"
    using pcm_read_back [of xs message "generation s"] xs by (simp add: data_def f_def mult.commute)
  have ch: "achannels s = 1 \<or> achannels s = 2" using channels_live [OF ok g(1)] by auto
  have "length xs * 2 mod (2 * achannels s) = 0" using xs(3) by (simp add: mult.commute mod_eq_0_iff_dvd)
  then have a: "admits f s"
    using g fit by (simp add: admits_def f_def add_mult_distrib2 mult.assoc mult.left_commute)
  have n: "new_samples f s = as_mono (achannels s) xs"
    using ch new_samples_mono [of xs] new_samples_stereo [of xs] xs(3) by (auto simp: new_samples_def f_def as_mono_def)
  show r: "fst (ah_receive ops data now (s, z)) = receive_pcm (the (audio_parse data)) s"
    using st by (simp add: ah_receive_def p) (simp add: f_def)
  show "fifo (fst (ah_receive ops data now (s, z))) = fifo s @ as_mono (achannels s) xs"
    unfolding r p option.sel receive_pcm_admitted(2) [OF ok a] n ..
  show "admitted (Received data now) s acc = acc @ as_mono (achannels s) xs"
    using st a n by (simp add: p) (simp add: f_def)
qed

text \<open>An example: a device that takes everything, a stream of one channel at the device's rate.\<close>

definition easy_ops :: "unit ah_ops" where
  "easy_ops = \<lparr>dev_call = (\<lambda>_ _ _ z. (\<lparr>ans_result = 0, ans_size = 16384, ans_free = 16384, ans_busy = 0,
     ans_underruns = 0\<rparr>, z)), sock_send = (\<lambda>_ z. (1, z))\<rparr>"

definition opened :: "unit core" where
  "opened = helper_do easy_ops (Received (wire AUDIO_OPEN 7 (le32 44100 @ [1, 0, 0, 0])) 0) (ah_started, ())"

lemma opened_run: "opened = (open_stream 0 7 44100 1 ah_started, ()) \<and> helper_run easy_ops [] opened"
proof -
  let ?d = "wire AUDIO_OPEN 7 (le32 44100 @ [1, 0, 0, 0])"
  let ?f = "\<lparr>frame_type = AUDIO_OPEN, frame_length = 8, frame_generation = 7, frame_payload = le32 44100 @ [1, 0, 0, 0]\<rparr>"
  have p: "audio_parse ?d = Some ?f" by (simp add: parse_wire payload_length_ok_def)
  have o: "read_open ?f = Some (44100, 1)" by (simp add: read_open_def Let_def nth_append)
  have st: "astate ah_started = AUDIO_IDLE" "generation ah_started = 0" by (simp_all add: ah_started_def ah_init_def)
  have "helper_run easy_ops (admitted (Received ?d 0) (fst (ah_started, ())) []) opened"
    unfolding opened_def by (rule run_event [OF run_start])
  then show ?thesis using p o st by (simp add: opened_def ah_receive_def)
qed

lemma opened_fields:
  "astate (fst opened) = AUDIO_PRIMING" "generation (fst opened) = 7" "achannels (fst opened) = 1" "\<not> draining (fst opened)"
  "qcount (fst opened) = 0" "fifo (fst opened) = []" "core_ok (fst opened)" "rate_step (fst opened) = 65536" "phase (fst opened) = 0"
proof -
  have o: "fst opened = open_stream 0 7 44100 1 ah_started" unfolding conjunct1 [OF opened_run] by (rule fst_conv)
  show "core_ok (fst opened)" using opened_run run_sound by blast
  show "astate (fst opened) = AUDIO_PRIMING" "generation (fst opened) = 7" "achannels (fst opened) = 1"
    "\<not> draining (fst opened)" "qcount (fst opened) = 0" "fifo (fst opened) = []" "rate_step (fst opened) = 65536"
    "phase (fst opened) = 0"
    unfolding o
    by (simp_all add: open_stream_def begin_priming_def clear_queue_def set_astate_def mark_dirty_def wrap_simps fifo_def)
qed

lemma receive_pcm_fields [simp]:
  "astate (receive_pcm f s) = astate s" "generation (receive_pcm f s) = generation s"
  "achannels (receive_pcm f s) = achannels s" "phase (receive_pcm f s) = phase s" "rate_step (receive_pcm f s) = rate_step s"
  by (simp_all add: receive_pcm_def Let_def bad_message_def mark_dirty_def fold_rate_step)

lemma unit_core: "(fst c, ()) = c"
  by (simp add: prod_eq_iff)

definition fed :: "16 word list \<Rightarrow> unit core" where
  "fed xs = helper_do easy_ops (Received (sent (encode_pcm (replicate 4104 0) 7 xs)) 1) opened"

lemma fed_run:
  assumes "xs \<noteq> []" and "length xs \<le> 2048"
  shows "helper_run easy_ops (map sint xs) (fed xs)" and "fifo (fst (fed xs)) = map sint xs"
    and "astate (fst (fed xs)) = AUDIO_PRIMING" and "generation (fst (fed xs)) = 7" and "achannels (fst (fed xs)) = 1"
    and "phase (fst (fed xs)) = 0" and "rate_step (fst (fed xs)) = 65536"
proof -
  let ?d = "sent (encode_pcm (replicate 4104 0) 7 xs)"
  note q = pcm_queued [where s = "fst opened" and xs = xs and message = "replicate 4104 0"]
  have acc: "admitted (Received ?d 1) (fst opened) [] = map sint xs"
    using q(3) [where now = 1 and acc = "[]"] assms by (simp add: opened_fields as_mono_def del: admitted.simps)
  have "helper_run easy_ops (admitted (Received ?d 1) (fst opened) []) (fed xs)"
    unfolding fed_def by (rule run_event) (use opened_run in blast)
  then show "helper_run easy_ops (map sint xs) (fed xs)" by (simp only: acc)
  show "fifo (fst (fed xs)) = map sint xs"
    using q(2) [where ops = easy_ops and now = 1 and z = "()"] assms
    by (simp add: fed_def as_mono_def unit_core opened_fields)
  have "fst (fed xs) = receive_pcm (the (audio_parse ?d)) (fst opened)"
    using q(1) [where ops = easy_ops and now = 1 and z = "()"] assms by (simp add: fed_def unit_core opened_fields)
  then show "astate (fst (fed xs)) = AUDIO_PRIMING" "generation (fst (fed xs)) = 7" "achannels (fst (fed xs)) = 1"
    "phase (fst (fed xs)) = 0" "rate_step (fst (fed xs)) = 65536"
    by (simp_all add: opened_fields)
qed

text \<open>
  C27. In every run of the helper, whatever datagrams arrive, whenever it is served and whatever the
  device answers, its state is sound: the ring holds what its head and count say and no more bytes
  than the window the runtime was promised, a stream has one or two channels, the position stays
  below one sample, the volume within 0 to 100, and the device is muted whenever no stream is
  playing or settling and nothing failed.
\<close>

theorem helper_invariant:
  assumes "helper_run ops acc c"
  shows "core_ok (fst c)"
  using run_sound [OF assms] by blast

theorem helper_invariant_witness: "core_ok (fst (fed [5, 65533]))"
  by (rule helper_invariant [OF fed_run(1)]) simp_all

text \<open>
  C9. No sample of a stream is lost, doubled or reordered, and the credit given back is exact: while
  a stream lives, the queue is what was admitted since it was opened without its first n
  samples, and the consumed count told to the runtime is the size of those n frames (modulo
  2 ^ 32), through refusals of the device, underruns, pauses and volume changes. And samples leave the
  queue only for a block that the device took: a service in which it takes none leaves queue, count and
  position as they are, unless it ends the stream.
\<close>

theorem stream_account:
  assumes "helper_run ops acc c" and "generation (fst c) \<noteq> 0" and "astate (fst c) \<noteq> AUDIO_FAILED"
  shows "\<exists>n \<le> length acc. fifo (fst c) = drop n acc
     \<and> consumed (fst c) = wrap32 (n * (2 * achannels (fst c)))
     \<and> (\<forall>ops' now. refuses ops' \<longrightarrow> line_kept (fst c) (fst (snd (ah_service ops' now c))))"
  using run_sound [OF assms(1)] assms(2,3) ah_service_kept [of _ c] unfolding accounted_def by blast

definition full_ops :: "unit ah_ops" where
  "full_ops = easy_ops\<lparr>dev_call := (\<lambda>_ _ _ z. (\<lparr>ans_result = DEVICE_FULL, ans_size = 16, ans_free = 16, ans_busy = 0,
     ans_underruns = 0\<rparr>, z))\<rparr>"

theorem stream_account_witness:
  "\<exists>n \<le> length [5, - 3 :: int]. fifo (fst (fed [5, 65533])) = drop n [5, - 3] \<and> consumed (fst (fed [5, 65533])) = wrap32 (n * (2 * 1)) \<and>
     line_kept (fst (fed [5, 65533])) (fst (snd (ah_service full_ops 2 (fed [5, 65533]))))"
proof -
  have "refuses full_ops" by (simp add: refuses_def full_ops_def)
  have "map sint [5, 65533 :: 16 word] = [5, - 3]" by simp
  with \<open>refuses full_ops\<close> show ?thesis
    using stream_account [OF fed_run(1) [of "[5, 65533]"]] fed_run(3-5) [of "[5, 65533]"]
    by auto
qed

text \<open>
  C38. From the runtime's encoder to the queue: a datagram of samples for the current stream that fits
  what is left of the window is queued whole, behind what is there, the samples as they are for one
  channel and the mean of each pair for two.
\<close>

theorem pcm_datagram_queued:
  assumes "helper_run ops acc (s, z)" and "astate s \<noteq> AUDIO_FAILED" and "astate s \<noteq> AUDIO_STARTING"
    and "generation s \<noteq> 0" and "\<not> draining s"
    and "xs \<noteq> []" and "length xs \<le> 2048" and "achannels s dvd length xs" and "8 + 2 * length xs \<le> length message"
    and "2 * (qcount s * achannels s + length xs) \<le> WINDOW_BYTES"
  shows "fifo (fst (ah_receive ops (sent (encode_pcm message (generation s) xs)) now (s, z)))
     = fifo s @ as_mono (achannels s) xs"
  using run_sound [OF assms(1)] by (intro pcm_queued assms(2-)) simp

theorem pcm_datagram_queued_witness:
  "fifo (fst (ah_receive easy_ops (sent (encode_pcm (replicate 4104 0) 7 [1, 2, 65535])) 1 (fst opened, ())))
     = [1, 2, - 1]"
proof -
  have "helper_run easy_ops [] (fst opened, ())" using opened_run by (simp only: unit_core)
  from pcm_datagram_queued [OF this, of "[1, 2, 65535]" "replicate 4104 0" 1]
  show ?thesis by (simp add: opened_fields as_mono_def)
qed

text \<open>
  C39. The conversion of the rate: when the queue holds the frames a block needs, each of its 1024
  samples is the linear interpolation at its 16.16 position of two neighbouring queued samples,
  neither of them past the end of the queue, and lies between the two; where the position is whole
  (every position of a stream at the device's rate) it is the queued sample itself.
\<close>

theorem block_interpolates:
  assumes "helper_run ops acc (s, z)" and "generation s \<noteq> 0" and "astate s \<noteq> AUDIO_FAILED"
    and "rate_step s < 2 ^ 20" and "frames_needed s \<le> qcount s" and "i < BLOCK_SAMPLES"
  shows "let p = phase s + i * rate_step s; k = p div 65536; x = audio_block s ! i in
     k < qcount s
     \<and> (if p mod 65536 = 0 then x = fifo s ! k
        else k + 1 < qcount s
          \<and> x = fifo s ! k + ((fifo s ! (k + 1) - fifo s ! k) * int (p mod 65536)) sdiv 65536
          \<and> min (fifo s ! k) (fifo s ! (k + 1)) \<le> x \<and> x \<le> max (fifo s ! k) (fifo s ! (k + 1)))"
proof -
  define p where "p = phase s + i * rate_step s"
  have ok: "core_ok s" and "accounted acc s" using run_sound [OF assms(1)] by simp_all
  then obtain n where "fifo s = drop n acc" using assms(2,3) by (auto simp: accounted_def)
  then have range: "set (fifo s) \<subseteq> {- 32768 .. 32767}"
    using admitted_range [OF assms(1)] by (auto dest: in_set_dropD)
  have q: "qcount s \<le> QUEUE_SAMPLES" and ph: "phase s < 65536" using ok by (simp_all add: core_ok_def ring_ok_def)
  note b = block_positions [OF ph assms(4,6,5), folded p_def]
  note r = resampled_eq [OF range b(1) q]
  have x: "audio_block s ! i = resampled s p" using assms(6) by (simp add: audio_block_def p_def)
  show ?thesis
  proof (cases "p mod 65536 = 0")
    case True
    then show ?thesis unfolding Let_def p_def [symmetric] x using b(1) r(1) by simp
  next
    case False
    show ?thesis
      unfolding Let_def p_def [symmetric] x if_not_P [OF False]
      using b(1) b(2) [OF False] r(2) r(1) [unfolded if_not_P [OF False]] by (simp only: if_P simp_thms)
  qed
qed

theorem block_interpolates_witness: "audio_block (fst (fed (replicate 1024 9))) ! 1023 = 9"
proof -
  let ?c = "fed (replicate 1024 9)" let ?x = "replicate 1024 9 :: 16 word list"
  have f: "fifo (fst ?c) = replicate 1024 9" "phase (fst ?c) = 0" "rate_step (fst ?c) = 65536" "astate (fst ?c) = AUDIO_PRIMING"
    "generation (fst ?c) = 7"
    using fed_run(2-) [of ?x] by simp_all
  have q: "qcount (fst ?c) = 1024" using arg_cong [where f = length, OF f(1)] by simp
  have "helper_run easy_ops (map sint ?x) (fst ?c, ())" using fed_run(1) [of ?x] by (cases ?c) simp
  then show ?thesis
    using block_interpolates [of easy_ops "map sint ?x" "fst ?c" "()" 1023]
    by (simp add: f q frames_needed_def wrap_simps Let_def)
qed

text \<open>
  A failure is final and told as it was: once the helper failed, no datagram, service or further
  failure of the device changes its state, its first error and vendor result, its mute or its queue.
\<close>

theorem helper_failure_final:
  assumes "astate (fst c) = AUDIO_FAILED"
  shows "let s = fst (fold (helper_do ops) evs c) in
     astate s = AUDIO_FAILED \<and> aerror s = aerror (fst c) \<and> vendor_result s = vendor_result (fst c)
     \<and> amuted s = amuted (fst c) \<and> fifo s = fifo (fst c)"
  using assms
proof (induction evs arbitrary: c)
  case (Cons ev evs)
  from Cons.IH [of "helper_do ops ev c"] failed_done [OF Cons.prems, of ops ev] show ?case by (simp add: Let_def)
qed simp

theorem helper_failure_final_witness:
  "aerror (fst (fold (helper_do easy_ops) [Served 5, Device_lost (- 5), Flushed []]
     (ah_fail ERROR_QUEUE (- 3) (fst opened), ()))) = ERROR_QUEUE"
  using helper_failure_final [of "(ah_fail ERROR_QUEUE (- 3) (fst opened), ())" easy_ops
      "[Served 5, Device_lost (- 5), Flushed []]"] opened_fields(1)
  by (simp add: Let_def ah_fail_def mark_dirty_def del: helper_do.simps)

end
