(* ===== verification/Pcm_Driver_Facts.thy ===== *)
theory Pcm_Driver_Facts
  imports Pcm_Driver
begin

text \<open>
  What the operations of the speaker driver keep: the buffers and settings (\<open>keeps_device\<close>), the state an
  error leaves, the sizes a load with accepted parameters has, and the well-formedness of the device
  through the writing path (\<open>wf_device\<close>, \<open>push_input_sound\<close>).
\<close>

named_theorems keeps_device_rules \<open>operations that keep the buffers and the settings of the device\<close>

definition keeps_device :: "pcm_device \<Rightarrow> pcm_device \<Rightarrow> bool" where
  "keeps_device q p \<longleftrightarrow> in_use p = in_use q \<and> ready p = ready q \<and> hal_open p = hal_open q \<and> staging p = staging q
     \<and> staged p = staged q \<and> length (frames p) = length (frames q) \<and> gain_db p = gain_db q \<and> muted p = muted q
     \<and> (state q \<noteq> PCM_CLOSED \<longrightarrow> state p \<noteq> PCM_CLOSED)"

lemma keeps_device_refl [simp]: "keeps_device p p"
  by (simp add: keeps_device_def)

lemma kept_hal_fail [keeps_device_rules]: "keeps_device q (fst s) \<Longrightarrow> keeps_device q (fst (snd (hal_fail r s)))"
  by (cases s) (simp add: hal_fail_def keeps_device_def)

lemma kept_hal_level [keeps_device_rules]: "keeps_device q (fst s) \<Longrightarrow> keeps_device q (fst (snd (snd (hal_level m s))))"
  by (cases s) (simp add: hal_level_def hal_fail_def keeps_device_def split_def)

lemma kept_set_gain_channels: "keeps_device q (fst s) \<Longrightarrow> keeps_device q (fst (snd (set_gain_channels m db cs s)))"
  by (induction cs arbitrary: s) (auto simp: keeps_device_def split_def)

lemma kept_hal_set_gain [keeps_device_rules]: "keeps_device q (fst s) \<Longrightarrow> keeps_device q (fst (snd (hal_set_gain m db s)))"
  unfolding hal_set_gain_def by (rule kept_set_gain_channels)

lemma kept_hal_quiet [keeps_device_rules]: "keeps_device q (fst s) \<Longrightarrow> keeps_device q (fst (hal_quiet m s))"
  by (simp add: hal_quiet_def split_def kept_hal_set_gain)

lemma kept_stream_measure [keeps_device_rules]: "keeps_device q (fst s) \<Longrightarrow> keeps_device q (fst (stream_measure m level s))"
  by (cases s) (simp add: stream_measure_def Let_def keeps_device_def)

lemma kept_stream_start [keeps_device_rules]: "keeps_device q (fst s) \<Longrightarrow> keeps_device q (fst (snd (stream_start m s)))"
  using kept_hal_set_gain [of q s m "audible_gain (fst s)"]
  by (auto simp: stream_start_def hal_fail_def split_def keeps_device_def)

lemma kept_stream_prepare [keeps_device_rules]: "keeps_device q (fst s) \<Longrightarrow> keeps_device q (fst (snd (stream_prepare m s)))"
  using kept_hal_quiet [of q s m]
  by (auto simp: stream_prepare_def hal_fail_def split_def keeps_device_def)

lemma kept_settle_level [keeps_device_rules]: "keeps_device q (fst s) \<Longrightarrow> keeps_device q (fst (snd (snd (settle_level m n level s))))"
  by (induction n arbitrary: s level) (auto simp: split_def kept_hal_level)

lemma kept_check_prepared_level [keeps_device_rules]: "keeps_device q (fst s) \<Longrightarrow> keeps_device q (fst (snd (check_prepared_level m s)))"
  using kept_settle_level [of q s m 10 0]
  by (auto simp: check_prepared_level_def split_def Let_def keeps_device_def)

lemma kept_write_attempts [keeps_device_rules]: "keeps_device q (fst s) \<Longrightarrow> keeps_device q (fst (snd (write_attempts m d n s)))"
proof (induction n arbitrary: s)
  case 0
  then show ?case by (cases s) (simp add: split_def kept_hal_fail)
next
  case (Suc n)
  then have "keeps_device q (fst s\<lparr>underruns := wrap32 (underruns (fst s) + 1)\<rparr>)" by (simp add: keeps_device_def)
  then have "keeps_device q (fst (snd (stream_prepare m (fst s\<lparr>underruns := wrap32 (underruns (fst s) + 1)\<rparr>, z))))" for z
    by (intro kept_stream_prepare) simp
  with Suc show ?case by (cases s) (simp add: split_def kept_hal_fail)
qed

lemma kept_detect_stall [keeps_device_rules]: "keeps_device q (fst s) \<Longrightarrow> keeps_device q (fst (snd (detect_stall k m level s)))"
proof -
  assume s: "keeps_device q (fst s)"
  then have "keeps_device q (fst s\<lparr>stall_armed := False, underruns := wrap32 (underruns (fst s) + 1)\<rparr>)" by (simp add: keeps_device_def)
  then have "keeps_device q (fst (snd (stream_prepare m (fst s\<lparr>stall_armed := False, underruns := wrap32 (underruns (fst s) + 1)\<rparr>, z))))" for z
    by (intro kept_stream_prepare) simp
  with s show ?thesis by (cases s) (simp add: detect_stall_def split_def, simp add: keeps_device_def)
qed

text \<open>What the DMA ring is given for a piece of input.\<close>

definition dma_frames :: "pcm_params \<Rightarrow> bool \<Rightarrow> bytes \<Rightarrow> bytes" where
  "dma_frames k quieted e =
     (if quieted then replicate (length e * channels k) 0
      else if channels k = 2 then duplicate_samples e else e)"

lemma length_duplicate_samples: "even (length e) \<Longrightarrow> length (duplicate_samples e) = length e * 2"
  by (induction e rule: duplicate_samples.induct) auto

lemma duplicate_samples_append:
  "even (length a) \<Longrightarrow> duplicate_samples (a @ b) = duplicate_samples a @ duplicate_samples b"
  by (induction a rule: duplicate_samples.induct) auto

lemma dma_frames_append:
  "even (length a) \<Longrightarrow> dma_frames k u (a @ b) = dma_frames k u a @ dma_frames k u b"
  by (simp add: dma_frames_def duplicate_samples_append add_mult_distrib replicate_add)

lemma length_dma_frames:
  "even (length e) \<Longrightarrow> channels k = 1 \<or> channels k = 2 \<Longrightarrow> length (dma_frames k u e) = length e * channels k"
  by (auto simp: dma_frames_def length_duplicate_samples)

lemma fill_frames_eq:
  assumes "even (length e)" and "channels k = 1 \<or> channels k = 2"
    and "length e * channels k \<le> length (frames p)" and "length (frames p) < 2 ^ 32"
  shows "fst (fill_frames k e p) = dma_frames k (muted p) e"
    and "\<exists>fr. snd (fill_frames k e p) = p\<lparr>frames := fr\<rparr> \<and> length fr = length (frames p)"
proof -
  have w: "wrap32 (length e * channels k) = length e * channels k"
    using assms(3,4) by (simp add: wrap_simps)
  have d: "length (duplicate_samples e) = length e * 2"
    using assms(1) by (rule length_duplicate_samples)
  show "fst (fill_frames k e p) = dma_frames k (muted p) e"
    using assms(2,3) by (auto simp: fill_frames_def Let_def w dma_frames_def patch_def d)
  show "\<exists>fr. snd (fill_frames k e p) = p\<lparr>frames := fr\<rparr> \<and> length fr = length (frames p)"
    using assms(2,3) by (auto simp: fill_frames_def Let_def w d intro: exI [of _ "frames p"])
qed

section \<open>What a failure leaves, and the level of a prepared stream\<close>

definition primed :: "pcm_params \<Rightarrow> pcm_device \<Rightarrow> bool" where
  "primed k p \<longleftrightarrow> (state p = PCM_PREPARED \<longrightarrow> prepared_level p < start_bytes k)"

lemma failed_hal_fail: "state (fst (snd (hal_fail r s))) = PCM_FAILED" "fst (hal_fail r s) = - EIO"
  by (cases s; simp add: hal_fail_def)+

lemma failed_hal_level:
  "fst (hal_level m s) \<noteq> 0 \<Longrightarrow> state (fst (snd (snd (hal_level m s)))) = PCM_FAILED"
  "fst (hal_level m s) = 0 \<Longrightarrow> fst (snd (snd (hal_level m s))) = fst s"
  by (cases s; simp add: hal_level_def hal_fail_def split_def split: if_splits)+

lemma set_gain_channels_keeps:
  "state (fst (snd (set_gain_channels m db cs s))) = state (fst s)"
  "prepared_level (fst (snd (set_gain_channels m db cs s))) = prepared_level (fst s)"
  "written (fst (snd (set_gain_channels m db cs s))) = written (fst s)"
  by (induction cs arbitrary: s) (auto simp: split_def)

lemma hal_set_gain_keeps [simp]:
  "state (fst (snd (hal_set_gain m db s))) = state (fst s)"
  "prepared_level (fst (snd (hal_set_gain m db s))) = prepared_level (fst s)"
  "written (fst (snd (hal_set_gain m db s))) = written (fst s)"
  unfolding hal_set_gain_def by (rule set_gain_channels_keeps)+

lemma hal_quiet_keeps [simp]: "state (fst (hal_quiet m s)) = state (fst s)"
  by (simp add: hal_quiet_def split_def)

lemma stream_measure_keeps [simp]: "state (fst (stream_measure m l s)) = state (fst s)"
  "prepared_level (fst (stream_measure m l s)) = prepared_level (fst s)"
  "snd (stream_measure m l s) = snd s"
  by (cases s; simp add: stream_measure_def Let_def)+

lemma stream_start_state:
  "state (fst (snd (stream_start m s))) = (if fst (stream_start m s) = 0 then PCM_RUNNING else PCM_FAILED)"
  by (simp add: stream_start_def split_def hal_fail_def)

lemma stream_prepare_state:
  "state (fst (snd (stream_prepare m s))) = (if fst (stream_prepare m s) = 0 then PCM_PREPARED else PCM_FAILED)"
  "fst (stream_prepare m s) = 0 \<Longrightarrow> prepared_level (fst (snd (stream_prepare m s))) = 0"
  by (auto simp: stream_prepare_def split_def hal_fail_def split: if_splits)

lemma stream_prepare_result: "fst (stream_prepare m s) = 0 \<or> fst (stream_prepare m s) = - EIO"
  by (simp add: stream_prepare_def split_def hal_fail_def)

lemma settle_level_state:
  "fst (settle_level m n l s) \<noteq> 0 \<Longrightarrow> state (fst (snd (snd (settle_level m n l s)))) = PCM_FAILED"
  "fst (settle_level m n l s) = 0 \<Longrightarrow> fst (snd (snd (settle_level m n l s))) = fst s"
proof (induction n arbitrary: s l)
  case (Suc n)
  { case 1 then show ?case using Suc(1) failed_hal_level(1) [of m s] by (auto simp: split_def split: if_splits) }
  { case 2 then show ?case using Suc(2) failed_hal_level(2) [of m s] by (auto simp: split_def split: if_splits) }
qed simp_all

lemma check_prepared_state:
  "fst (check_prepared_level m s) \<noteq> 0 \<Longrightarrow> state (fst (snd (check_prepared_level m s))) = PCM_FAILED"
  "fst (check_prepared_level m s) = 0 \<Longrightarrow> state (fst (snd (check_prepared_level m s))) = state (fst s)
     \<and> prepared_level (fst (snd (check_prepared_level m s))) = prepared_level (fst s)"
proof -
  obtain r l s' where e': "settle_level m 10 0 s = (r, l, s')" by (rule prod_cases3)
  obtain p z where s': "s' = (p, z)" by (rule prod.exhaust)
  note e = e' [unfolded s']
  show "fst (check_prepared_level m s) \<noteq> 0 \<Longrightarrow> state (fst (snd (check_prepared_level m s))) = PCM_FAILED"
    using settle_level_state(1) [of m 10 0 s, unfolded e]
    unfolding check_prepared_level_def e by (auto simp: Let_def split: if_splits)
  assume "fst (check_prepared_level m s) = 0"
  then have r: "r = 0" and l: "l = prepared_level p"
    unfolding check_prepared_level_def e by (simp_all add: Let_def split: if_splits)
  have c: "check_prepared_level m s = (0, (if \<not> level_logged p then p\<lparr>level_logged := True\<rparr> else p, z))"
    unfolding check_prepared_level_def e r l Let_def prod.case by (cases "level_logged p") simp_all
  have p: "p = fst s" using settle_level_state(2) [of m 10 0 s] by (simp add: e r)
  show "state (fst (snd (check_prepared_level m s))) = state (fst s)
     \<and> prepared_level (fst (snd (check_prepared_level m s))) = prepared_level (fst s)"
    unfolding c using p by (cases s) simp
qed

lemma write_attempts_state:
  "fst (write_attempts m d n s) \<noteq> 0 \<Longrightarrow> state (fst (snd (write_attempts m d n s))) = PCM_FAILED"
proof (induction n arbitrary: s)
  case 0
  then show ?case by (cases s) (simp add: split_def failed_hal_fail split: if_splits)
next
  case (Suc n)
  then show ?case by (cases s) (auto simp: split_def failed_hal_fail stream_prepare_state split: if_splits)
qed

lemma write_attempts_primed:
  "0 < start_bytes k \<Longrightarrow> primed k (fst s) \<Longrightarrow> primed k (fst (snd (write_attempts m d n s)))"
proof (induction n arbitrary: s)
  case 0
  then show ?case by (cases s) (simp add: split_def failed_hal_fail primed_def)
next
  case (Suc n)
  have "primed k (fst (snd (stream_prepare m s)))" for s
    using Suc.prems stream_prepare_state [of m s] by (auto simp: primed_def split: if_splits)
  with Suc show ?case by (cases s) (simp add: split_def failed_hal_fail primed_def)
qed

section \<open>Parameters\<close>

definition good_params :: "pcm_params \<Rightarrow> bool" where
  "good_params k \<longleftrightarrow> (channels k = 1 \<or> channels k = 2)
     \<and> 16 dvd buffer_bytes k \<and> buffer_bytes k \<in> {4096 .. 65536}
     \<and> 16 dvd period_bytes k \<and> 256 \<le> period_bytes k \<and> period_bytes k * 2 + GUARD_BYTES \<le> buffer_bytes k
     \<and> 16 dvd start_bytes k \<and> period_bytes k \<le> start_bytes k \<and> start_bytes k + GUARD_BYTES \<le> buffer_bytes k
     \<and> max_gain_db k \<in> {DPGA_MIN_DB .. 0}"

lemma check_params_iff:
  assumes "period_bytes k < 2 ^ 31 - 128" and "start_bytes k < 2 ^ 32 - 256"
  shows "check_params k = 0 \<longleftrightarrow> good_params k"
proof -
  have "wrap32 (period_bytes k * 2 + 256) = period_bytes k * 2 + 256"
    "wrap32 (start_bytes k + 256) = start_bytes k + 256"
    using assms by (simp_all add: wrap_simps)
  then show ?thesis
    by (auto simp: check_params_def good_params_def mod_eq_0_iff_dvd not_less)
qed

lemma good_channels:
  assumes "good_params k"
  shows "channels k = 1 \<or> channels k = 2" and "0 < start_bytes k" and "period_bytes k < 2 ^ 32"
    and "even (input_align k)" and "0 < input_align k" and "input_align k * channels k = 16"
    and "staging_capacity k * channels k = period_bytes k" and "input_align k dvd staging_capacity k"
    and "input_align k \<le> staging_capacity k" and "staging_capacity k < 2 ^ 31"
proof -
  from assms show c: "channels k = 1 \<or> channels k = 2" and "0 < start_bytes k" and "period_bytes k < 2 ^ 32"
    by (auto simp: good_params_def)
  from assms obtain q where q: "period_bytes k = 16 * q" by (auto simp: good_params_def)
  from assms have "0 < q" "period_bytes k < 2 ^ 31" by (auto simp: good_params_def q)
  with c show "even (input_align k)" "0 < input_align k" "input_align k * channels k = 16"
    "staging_capacity k * channels k = period_bytes k" "input_align k dvd staging_capacity k"
    "input_align k \<le> staging_capacity k" "staging_capacity k < 2 ^ 31"
    by (auto simp: input_align_def staging_capacity_def q)
qed

lemma push_room_le: "push_room k level \<le> staging_capacity k"
  by (simp add: push_room_def)

lemma push_room_aligned:
  assumes "good_params k"
  shows "input_align k dvd push_room k level"
proof -
  have "16 dvd free_dma_bytes k level" by (simp add: free_dma_bytes_def Let_def)
  then obtain q where q: "free_dma_bytes k level = 16 * q" ..
  have "input_align k dvd free_dma_bytes k level div channels k"
    using good_channels(1) [OF assms] by (auto simp: q input_align_def)
  then show ?thesis using good_channels(8) [OF assms] by (simp add: push_room_def min_def)
qed

lemma push_room_fits:
  assumes "good_params k" and "level \<le> buffer_bytes k" and "push_room k level \<noteq> 0"
  shows "level + push_room k level * channels k + GUARD_BYTES \<le> buffer_bytes k"
proof -
  have "level + 256 < 2 ^ 32" using assms by (simp add: good_params_def)
  then have w: "wrap32 (level + 256) = level + 256" by (rule wrap32_id)
  have "push_room k level * channels k \<le> free_dma_bytes k level"
    using good_channels(1) [OF assms(1)] by (auto simp: push_room_def min_def)
  moreover have "free_dma_bytes k level + (level + 256) \<le> buffer_bytes k"
  proof (cases "buffer_bytes k \<le> level + 256")
    case True
    then have "free_dma_bytes k level = 0" by (simp add: free_dma_bytes_def w)
    with assms(3) show ?thesis by (simp add: push_room_def)
  next
    case False
    then show ?thesis
      using div_times_less_eq_dividend [of "buffer_bytes k - (level + 256)" 16]
      by (simp add: free_dma_bytes_def w)
  qed
  ultimately show ?thesis by simp
qed

section \<open>The writing operations keep the device well formed\<close>

lemma hal_write_keeps:
  assumes k: "good_params k" and len: "length (frames (fst s)) = period_bytes k"
    and e: "even (length e)" "length e * channels k \<le> period_bytes k"
  shows "keeps_device (fst s) (fst (snd (hal_write k m e s)))"
    and "primed k (fst s) \<Longrightarrow> primed k (fst (snd (hal_write k m e s)))"
    and "fst (hal_write k m e s) \<noteq> 0 \<Longrightarrow> state (fst (snd (hal_write k m e s))) = PCM_FAILED"
proof -
  obtain p z where s: "s = (p, z)" by (rule prod.exhaust)
  have f: "\<exists>fr. snd (fill_frames k e p) = p\<lparr>frames := fr\<rparr> \<and> length fr = length (frames p)"
    by (rule fill_frames_eq) (use e len good_channels(1, 3) [OF k] in \<open>auto simp: s\<close>)
  obtain d fr where ff: "fill_frames k e p = (d, p\<lparr>frames := fr\<rparr>)" and fr: "length fr = length (frames p)"
    using f by (cases "fill_frames k e p") auto
  obtain r p1 z1 where w: "write_attempts m d 1 (p\<lparr>frames := fr\<rparr>, z) = (r, (p1, z1))"
    by (rule prod_cases3)
  have k0: "keeps_device p (p\<lparr>frames := fr\<rparr>)" by (simp add: keeps_device_def fr)
  have k1: "keeps_device p p1"
    using kept_write_attempts [of p "(p\<lparr>frames := fr\<rparr>, z)" m d 1] k0 by (simp only: w fst_conv snd_conv)
  have k2: "keeps_device p (p1\<lparr>written := a, prepared_level := b\<rparr>)" "keeps_device p (p1\<lparr>written := a\<rparr>)" for a b
    using k1 by (simp_all add: keeps_device_def)
  define q where "q = p1\<lparr>written := wrap64 (written p1 + length d),
    prepared_level := wrap32 (prepared_level p1 + length d)\<rparr>"
  obtain r2 p2 z2 where c: "check_prepared_level m (q, z1) = (r2, (p2, z2))" by (rule prod_cases3)
  have kq: "keeps_device p q" unfolding q_def by (rule k2(1))
  have k3: "keeps_device p p2"
    using kept_check_prepared_level [of p "(q, z1)" m] kq by (simp only: c fst_conv snd_conv)
  have k4: "keeps_device p (fst (snd (stream_start m (p2, z2))))"
    using k3 by (simp add: kept_stream_start)
  have h: "hal_write k m e s = (if r \<noteq> 0 then (r, (p1, z1))
      else if state p1 \<noteq> PCM_PREPARED then (0, (p1\<lparr>written := wrap64 (written p1 + length d)\<rparr>, z1))
      else if r2 \<noteq> 0 then (- EIO, (p2, z2))
      else if start_bytes k \<le> prepared_level p2 then stream_start m (p2, z2) else (0, (p2, z2)))"
    unfolding hal_write_def s prod.case ff w Let_def using c by (simp add: q_def)
  show "keeps_device (fst s) (fst (snd (hal_write k m e s)))"
    unfolding h using k1 k2(2) k3 k4 by (simp add: s)
  have wf: "r \<noteq> 0 \<Longrightarrow> state p1 = PCM_FAILED"
    using write_attempts_state [of m d 1 "(p\<lparr>frames := fr\<rparr>, z)"] by (simp only: w fst_conv snd_conv) simp
  have cf: "r2 \<noteq> 0 \<Longrightarrow> state p2 = PCM_FAILED"
    using check_prepared_state(1) [of m "(q, z1)"] by (simp only: c fst_conv snd_conv) simp
  show "fst (hal_write k m e s) \<noteq> 0 \<Longrightarrow> state (fst (snd (hal_write k m e s))) = PCM_FAILED"
    unfolding h using wf cf by (auto simp: stream_start_state split: if_splits)
  assume p: "primed k (fst s)"
  have "primed k p1"
    using write_attempts_primed [of k "(p\<lparr>frames := fr\<rparr>, z)" m d 1] p good_channels(2) [OF k]
    by (simp only: w fst_conv snd_conv) (simp add: primed_def s)
  then show "primed k (fst (snd (hal_write k m e s)))"
    unfolding h using cf by (auto simp: primed_def stream_start_state split: if_splits)
qed

definition wf_device :: "pcm_params \<Rightarrow> pcm_device \<Rightarrow> bool" where
  "wf_device k p \<longleftrightarrow> length (staging p) = staging_capacity k \<and> length (frames p) = period_bytes k
     \<and> staged p < input_align k \<and> (hal_open p \<longrightarrow> gain_db p \<in> {DPGA_MIN_DB .. max_gain_db k}) \<and> primed k p"

lemma wf_kept: "wf_device k q \<Longrightarrow> keeps_device q p \<Longrightarrow> primed k p \<Longrightarrow> wf_device k p"
  by (simp add: wf_device_def keeps_device_def)

text \<open>One call of \<open>push_input\<close>, cut into its outcomes.\<close>

definition push_take :: "pcm_params \<Rightarrow> nat \<Rightarrow> pcm_device \<Rightarrow> bytes \<Rightarrow> nat" where
  "push_take k level p src = min (length src) (push_room k level - staged p)"

definition push_emit :: "pcm_params \<Rightarrow> nat \<Rightarrow> pcm_device \<Rightarrow> bytes \<Rightarrow> nat" where
  "push_emit k level p src = (staged p + push_take k level p src) div input_align k * input_align k"

definition push_joined :: "pcm_params \<Rightarrow> nat \<Rightarrow> pcm_device \<Rightarrow> bytes \<Rightarrow> bytes" where
  "push_joined k level p src = take (staged p) (staging p) @ take (push_take k level p src) src"

definition push_ready :: "pcm_params \<Rightarrow> nat \<Rightarrow> pcm_device \<Rightarrow> bytes \<Rightarrow> pcm_device" where
  "push_ready k level p src = p\<lparr>stall_armed := False,
     staging := patch (staging p) (staged p) (take (push_take k level p src) src),
     staged := staged p + push_take k level p src - push_emit k level p src\<rparr>"

lemma push_bounds:
  assumes k: "good_params k" and p: "wf_device k p" and room: "input_align k \<le> push_room k level"
  shows "staged p + push_take k level p src \<le> staging_capacity k"
    and "push_emit k level p src \<le> staged p + push_take k level p src"
    and "staged p + push_take k level p src - push_emit k level p src < input_align k"
    and "push_emit k level p src * channels k \<le> push_room k level * channels k"
    and "even (push_emit k level p src)"
    and "push_take k level p src = min (length src) (wrap32 (push_room k level + (2 ^ 32 - staged p)))"
    and "src \<noteq> [] \<Longrightarrow> 0 < push_take k level p src"
proof -
  have st: "staged p < input_align k" using p by (simp add: wf_device_def)
  note b = push_room_le [of k level] good_channels [OF k]
  from st room show t: "staged p + push_take k level p src \<le> staging_capacity k"
    using b by (simp add: push_take_def)
  show "push_emit k level p src \<le> staged p + push_take k level p src"
    by (simp add: push_emit_def)
  show "staged p + push_take k level p src - push_emit k level p src < input_align k"
    using b by (simp add: push_emit_def minus_div_mult_eq_mod)
  have "push_emit k level p src \<le> push_room k level"
    using st room by (simp add: push_emit_def push_take_def)
      (metis (no_types, lifting) div_times_less_eq_dividend le_trans add_le_imp_le_diff le_add_diff_inverse
        less_imp_le_nat min.cobounded2 nat_add_left_cancel_le order.trans)
  then show "push_emit k level p src * channels k \<le> push_room k level * channels k" by simp
  show "even (push_emit k level p src)" using b by (simp add: push_emit_def)
  have "push_room k level < 2147483648" using b by simp
  then have "wrap32 (push_room k level + (2 ^ 32 - staged p)) = push_room k level - staged p"
    using st room by (simp add: wrap32_def mod_if)
  then show "push_take k level p src = min (length src) (wrap32 (push_room k level + (2 ^ 32 - staged p)))"
    by (simp add: push_take_def)
  assume "src \<noteq> []"
  with st room show "0 < push_take k level p src" by (simp add: push_take_def)
qed

lemma push_input_cases:
  assumes k: "good_params k" and p: "wf_device k (fst s)" and l: "hal_level m s = (r, level, s1)"
  shows "push_input k m src s =
    (if state (fst s) = PCM_FAILED then (- EIO, s)
     else if r \<noteq> 0 then (r, s1)
     else if push_room k level < input_align k then detect_stall k m level (stream_measure m level s1)
     else case user_fault m (snd s1) of (fault, z) \<Rightarrow>
       let q = fst (stream_measure m level s1) in
       if fault then (- EFAULT, (q\<lparr>stall_armed := False\<rparr>, z))
       else if push_emit k level q src = 0 then (int (push_take k level q src), (push_ready k level q src, z))
       else case hal_write k m (take (push_emit k level q src) (push_joined k level q src))
             (push_ready k level q src, z) of (ret, (p, z)) \<Rightarrow>
         if ret \<noteq> 0 then (ret, (p, z))
         else (int (push_take k level q src), (p\<lparr>staging := patch (staging p) 0
                (take (staged p) (drop (push_emit k level q src) (staging p)))\<rparr>, z)))"
proof (cases "state (fst s) = PCM_FAILED \<or> r \<noteq> 0 \<or> push_room k level < input_align k")
  case True
  then show ?thesis
    unfolding push_input_def l prod.case Let_def by auto
next
  case False
  then have room: "input_align k \<le> push_room k level" and r: "r = 0" and f: "state (fst s) \<noteq> PCM_FAILED" by auto
  obtain q z where sm: "stream_measure m level s1 = (q, z)" by (rule prod.exhaust)
  have s1: "fst s1 = fst s" using failed_hal_level(2) [of m s] by (simp add: l r)
  have kq: "keeps_device (fst s) q" using kept_stream_measure [of "fst s" s1 m level] by (simp add: sm s1)
  have "primed k q"
    using p stream_measure_keeps(1,2) [of m level s1] by (simp add: sm s1 primed_def wf_device_def)
  with p kq have wq: "wf_device k q" by (blast intro: wf_kept)
  have z: "z = snd s1" using stream_measure_keeps(3) [of m level s1] by (simp add: sm)
  note b = push_bounds [OF k wq room, of src]
  obtain fault z1 where uf: "user_fault m (snd s1) = (fault, z1)" by (rule prod.exhaust)
  define n where "n = push_take k level q src"
  have n: "min (length src) (wrap32 (push_room k level + (2 ^ 32 - staged q))) = n"
    using b(6) by (simp add: n_def)
  have "staged q + n < 2 ^ 32" using b(1) good_channels(10) [OF k] by (simp add: n_def)
  then have w: "wrap32 (staged q + n) = staged q + n" by (rule wrap32_id)
  have len: "length (take n src) = n" by (simp add: n_def push_take_def)
  have e: "(staged q + n) div input_align k * input_align k = push_emit k level q src"
    by (simp add: push_emit_def n_def)
  have "staged q \<le> length (staging q)" using wq b(1) by (simp add: wf_device_def)
  then have "take (staged q + n) (patch (staging q) (staged q) (take n src)) = push_joined k level q src"
    using take_patch [of "staged q" "staging q" "take n src"] unfolding len push_joined_def n_def [symmetric] by blast
  then have j: "take (push_emit k level q src) (patch (staging q) (staged q) (take n src))
      = take (push_emit k level q src) (push_joined k level q src)"
    using b(2) by (metis n_def min.absorb1 take_take)
  have room': "(push_room k level < input_align k) = False" using room by simp
  show ?thesis
    unfolding push_input_def l prod.case Let_def r f sm fst_conv snd_conv uf z room' n [symmetric]
    by (simp add: n [simplified] w e j push_ready_def n_def [symmetric] split: prod.split)
qed

lemma push_ready_kept:
  assumes k: "good_params k" and q: "wf_device k q" and room: "input_align k \<le> push_room k level"
  shows "wf_device k (push_ready k level q src)" and "in_use (push_ready k level q src) = in_use q"
    and "hal_open (push_ready k level q src) = hal_open q" and "state (push_ready k level q src) = state q"
    and "muted (push_ready k level q src) = muted q" and "ready (push_ready k level q src) = ready q"
proof -
  note b = push_bounds [OF k q room, of src]
  have len: "length (take (push_take k level q src) src) = push_take k level q src"
    by (simp add: push_take_def)
  have "staged q + push_take k level q src \<le> length (staging q)"
    using b(1) q by (simp add: wf_device_def)
  then have "length (staging (push_ready k level q src)) = length (staging q)"
    by (simp add: push_ready_def len)
  moreover have "staged (push_ready k level q src) < input_align k"
    using b(3) by (simp add: push_ready_def)
  moreover have same: "frames (push_ready k level q src) = frames q" "gain_db (push_ready k level q src) = gain_db q"
    "prepared_level (push_ready k level q src) = prepared_level q" "in_use (push_ready k level q src) = in_use q"
    "hal_open (push_ready k level q src) = hal_open q" "state (push_ready k level q src) = state q"
    "muted (push_ready k level q src) = muted q" "ready (push_ready k level q src) = ready q"
    by (simp_all add: push_ready_def)
  ultimately show "wf_device k (push_ready k level q src)"
    using q unfolding wf_device_def primed_def by simp
  show "in_use (push_ready k level q src) = in_use q" "hal_open (push_ready k level q src) = hal_open q"
    "state (push_ready k level q src) = state q" "muted (push_ready k level q src) = muted q"
    "ready (push_ready k level q src) = ready q" by (rule same)+
qed

definition still :: "pcm_device \<Rightarrow> pcm_device \<Rightarrow> bool" where
  "still q p \<longleftrightarrow> in_use p = in_use q \<and> hal_open p = hal_open q \<and> (state q \<noteq> PCM_CLOSED \<longrightarrow> state p \<noteq> PCM_CLOSED)"

lemma still_refl [simp]: "still p p"
  by (simp add: still_def)

lemma still_trans: "still a b \<Longrightarrow> still b c \<Longrightarrow> still a c"
  by (simp add: still_def)

lemma kept_still: "keeps_device q p \<Longrightarrow> still q p"
  by (simp add: keeps_device_def still_def)

lemma detect_stall_primed:
  assumes "0 < start_bytes k" and "primed k (fst s)"
  shows "primed k (fst (snd (detect_stall k m level s)))"
    and "fst (detect_stall k m level s) \<noteq> 0 \<Longrightarrow> state (fst (snd (detect_stall k m level s))) = PCM_FAILED"
    and "fst (detect_stall k m level s) \<in> {0, - EIO}"
proof -
  have "primed k (fst (snd (stream_prepare m s)))" for s
    using assms(1) stream_prepare_state [of m s] by (auto simp: primed_def)
  then show "primed k (fst (snd (detect_stall k m level s)))"
    using assms(2) by (cases s) (simp add: detect_stall_def, simp add: primed_def)
  show "fst (detect_stall k m level s) \<noteq> 0 \<Longrightarrow> state (fst (snd (detect_stall k m level s))) = PCM_FAILED"
    by (cases s) (simp add: detect_stall_def stream_prepare_state split: if_splits)
  show "fst (detect_stall k m level s) \<in> {0, - EIO}"
    by (cases s) (simp add: detect_stall_def stream_prepare_result)
qed

lemma push_input_sound:
  assumes k: "good_params k" and p: "wf_device k (fst s)"
  shows "wf_device k (fst (snd (push_input k m src s))) \<and> still (fst s) (fst (snd (push_input k m src s)))"
proof -
  obtain r level s1 where l: "hal_level m s = (r, level, s1)" by (rule prod_cases3)
  obtain q z where sm: "stream_measure m level s1 = (q, z)" by (rule prod.exhaust)
  obtain fault z1 where uf: "user_fault m (snd s1) = (fault, z1)" by (rule prod.exhaust)
  have start: "0 < start_bytes k" using good_channels(2) [OF k] .
  have k1: "keeps_device (fst s) (fst s1)" using kept_hal_level [of "fst s" s m] by (simp add: l)
  have k2: "keeps_device (fst s) q" using kept_stream_measure [of "fst s" s1 m level] k1 by (simp add: sm)
  have p1: "primed k (fst s1)"
    using failed_hal_level [of m s] p by (cases "r = 0") (simp_all add: l wf_device_def primed_def)
  then have p2: "primed k q" using stream_measure_keeps [of m level s1] by (simp add: sm primed_def)
  have w: "wf_device k (fst s1)" "wf_device k q" using p k1 k2 p1 p2 by (blast intro: wf_kept)+
  have d: "wf_device k (fst (snd (detect_stall k m level (q, z)))) \<and> still (fst s) (fst (snd (detect_stall k m level (q, z))))"
  proof -
    have "keeps_device (fst s) (fst (snd (detect_stall k m level (q, z))))" using k2 by (simp add: kept_detect_stall)
    then show ?thesis
      using p detect_stall_primed(1) [OF start, of "(q, z)" m level] p2 by (simp add: wf_kept kept_still)
  qed
  show ?thesis
  proof (cases "input_align k \<le> push_room k level")
    case False
    then show ?thesis
      using p w(1) k1 d by (simp add: push_input_cases [OF k p l] sm kept_still)
  next
    case True
    let ?rq = "push_ready k level q src" and ?e = "push_emit k level q src"
    note b = push_bounds [OF k w(2) True, of src] and rk = push_ready_kept [OF k w(2) True, of src]
    have jl: "length (push_joined k level q src) = staged q + push_take k level q src"
      using b(1,2) w(2) by (simp add: push_joined_def wf_device_def push_take_def)
    obtain ret p' z' where hw: "hal_write k m (take ?e (push_joined k level q src)) (?rq, z1) = (ret, (p', z'))"
      by (rule prod_cases3)
    have "?e * channels k \<le> period_bytes k"
      using b(2,1) good_channels(7) [OF k] by (metis le_trans mult_le_mono1)
    then have hk: "keeps_device ?rq p'" "primed k p'"
      using hal_write_keeps(1,2) [OF k, of "(?rq, z1)" "take ?e (push_joined k level q src)" m] rk(1) b(5)
      by (simp_all add: hw jl min.absorb2 b(2) wf_device_def)
    then have w': "wf_device k p'" using rk(1) by (blast intro: wf_kept)
    have sq: "still (fst s) ?rq" using rk k2 by (simp add: still_def keeps_device_def)
    have sp: "still (fst s) p'" using sq hk(1) by (blast intro: still_trans kept_still)
    have "staged p' \<le> length (staging p')" using w' good_channels(9) [OF k] by (simp add: wf_device_def)
    then have "wf_device k (p'\<lparr>staging := patch (staging p') 0 (take (staged p') (drop ?e (staging p')))\<rparr>)"
      using w' by (simp add: wf_device_def primed_def)
    moreover have "wf_device k (q\<lparr>stall_armed := False\<rparr>)" "still (fst s) (q\<lparr>stall_armed := False\<rparr>)"
      using w(2) k2 by (simp_all add: wf_device_def primed_def still_def keeps_device_def)
    moreover have "still (fst s) (p'\<lparr>staging := patch (staging p') 0 (take (staged p') (drop ?e (staging p')))\<rparr>)"
      using sp by (simp add: still_def)
    ultimately show ?thesis
      using p w k1 d sq sp w' rk(1) True
      by (simp add: push_input_cases [OF k p l] sm uf hw Let_def kept_still)
  qed
qed

end
