(* ===== verification/Pcm_Driver_Steps.thy ===== *)
theory Pcm_Driver_Steps
  imports Pcm_Driver_Facts
begin

text \<open>
  The speaker driver as a transition system: every critical section keeps the device well formed, a
  step is one critical section or the environment (\<open>pcm_step\<close>), the invariant \<open>pcm_inv\<close> holds in
  every reachable state, and the DMA ring is never overrun under \<open>ring_contract\<close>.
\<close>

section \<open>The other critical sections\<close>

lemma hal_level_sound:
  assumes "wf_device k (fst s)"
  shows "wf_device k (fst (snd (snd (hal_level m s)))) \<and> still (fst s) (fst (snd (snd (hal_level m s))))"
proof -
  have "keeps_device (fst s) (fst (snd (snd (hal_level m s))))" by (simp add: kept_hal_level)
  moreover have "primed k (fst (snd (snd (hal_level m s))))"
    using failed_hal_level [of m s] assms by (cases "fst (hal_level m s) = 0") (simp_all add: wf_device_def primed_def)
  ultimately show ?thesis using assms by (blast intro: wf_kept kept_still)
qed

lemma stream_measure_sound:
  assumes "wf_device k (fst s)"
  shows "wf_device k (fst (stream_measure m l s)) \<and> still (fst s) (fst (stream_measure m l s))"
proof -
  have "keeps_device (fst s) (fst (stream_measure m l s))" by (simp add: kept_stream_measure)
  moreover have "primed k (fst (stream_measure m l s))" using assms by (simp add: wf_device_def primed_def)
  ultimately show ?thesis using assms by (blast intro: wf_kept kept_still)
qed

lemma stream_prepare_sound:
  assumes "good_params k" and "wf_device k (fst s)"
  shows "wf_device k (fst (snd (stream_prepare m s))) \<and> still (fst s) (fst (snd (stream_prepare m s)))"
proof -
  have "keeps_device (fst s) (fst (snd (stream_prepare m s)))" by (simp add: kept_stream_prepare)
  moreover have "primed k (fst (snd (stream_prepare m s)))"
    using stream_prepare_state [of m s] good_channels(2) [OF assms(1)] by (auto simp: primed_def)
  ultimately show ?thesis using assms(2) by (blast intro: wf_kept kept_still)
qed

lemma stream_start_sound:
  assumes "wf_device k (fst s)"
  shows "wf_device k (fst (snd (stream_start m s))) \<and> still (fst s) (fst (snd (stream_start m s)))"
proof -
  have "keeps_device (fst s) (fst (snd (stream_start m s)))" by (simp add: kept_stream_start)
  moreover have "primed k (fst (snd (stream_start m s)))"
    by (simp add: primed_def stream_start_state)
  ultimately show ?thesis using assms by (blast intro: wf_kept kept_still)
qed

lemma still_intro:
  "in_use p = in_use q \<Longrightarrow> hal_open p = hal_open q \<Longrightarrow> (state q \<noteq> PCM_CLOSED \<Longrightarrow> state p \<noteq> PCM_CLOSED) \<Longrightarrow> still q p"
  by (simp add: still_def)

lemma flush_with_silence_sound:
  assumes k: "good_params k" and p: "wf_device k (fst s)"
  shows "wf_device k (fst (snd (flush_with_silence k m s))) \<and> still (fst s) (fst (snd (flush_with_silence k m s)))"
proof -
  obtain r level p1 z1 where l: "hal_level m s = (r, level, (p1, z1))" by (rule prod_cases4)
  have w1: "wf_device k p1" and s1: "still (fst s) p1" using hal_level_sound [OF p, of m] by (simp_all add: l)
  show ?thesis
  proof (cases "r = 0 \<and> input_align k \<le> push_room k level")
    case False
    then show ?thesis
      using w1 s1 good_channels(5) [OF k]
      by (auto simp: flush_with_silence_def l wf_device_def primed_def still_def)
  next
    case True
    let ?room = "push_room k level"
    define n where "n = wrap32 (?room + (2 ^ 32 - staged p1))"
    have "push_room k level < 2147483648" "staged p1 < ?room" "?room \<le> staging_capacity k"
      using push_room_le [of k level] good_channels(10) [OF k] True w1 by (simp_all add: wf_device_def)
    then have n: "n = ?room - staged p1" by (simp add: n_def wrap32_def mod_if)
    define q where "q = p1\<lparr>staging := patch (staging p1) (staged p1) (replicate n 0),
      silence_tail := wrap32 (n * channels k), staged := 0\<rparr>"
    have q: "wf_device k q" "still (fst s) q"
      using w1 s1 good_channels(5) [OF k] n \<open>staged p1 < ?room\<close> \<open>?room \<le> staging_capacity k\<close>
      by (simp_all add: q_def wf_device_def primed_def still_def)
    have len: "length (take ?room (staging q)) = ?room"
      using q(1) \<open>?room \<le> staging_capacity k\<close> by (simp add: wf_device_def)
    have "even ?room" using push_room_aligned [OF k, of level] good_channels(4) [OF k] by (meson dvd_trans)
    moreover have "?room * channels k \<le> period_bytes k"
      using push_room_le [of k level] good_channels(7) [OF k] by (metis mult_le_mono1)
    ultimately have "keeps_device q (fst (snd (hal_write k m (take ?room (staging q)) (q, z1))))"
        "primed k (fst (snd (hal_write k m (take ?room (staging q)) (q, z1))))"
      using hal_write_keeps(1,2) [OF k, of "(q, z1)" "take ?room (staging q)" m] q(1) by (simp_all only: len) (simp_all add: wf_device_def)
    then have "wf_device k (fst (snd (hal_write k m (take ?room (staging q)) (q, z1))))
      \<and> still (fst s) (fst (snd (hal_write k m (take ?room (staging q)) (q, z1))))"
      using q by (blast intro: wf_kept kept_still still_trans)
    then show ?thesis
      using True unfolding flush_with_silence_def l prod.case Let_def q_def n_def by simp
  qed
qed

lemma drain_begin_sound:
  assumes k: "good_params k" and p: "wf_device k (fst s)"
  shows "wf_device k (fst (snd (snd (drain_begin k m s)))) \<and> still (fst s) (fst (snd (snd (drain_begin k m s))))"
proof -
  obtain p z where s: "s = (p, z)" by (rule prod.exhaust)
  let ?p0 = "p\<lparr>silence_tail := 0\<rparr>"
  have p0: "wf_device k ?p0" "still p ?p0" using p by (simp_all add: s wf_device_def primed_def still_def)
  define a where "a = (if state ?p0 = PCM_FAILED then (- EIO, (?p0, z))
           else if state ?p0 = PCM_RUNNING \<or> prepared_level ?p0 \<noteq> 0 \<or> staged ?p0 \<noteq> 0
             then flush_with_silence k m (?p0, z) else (0, (?p0, z)))"
  obtain ret1 p1 z1 where a: "a = (ret1, (p1, z1))" by (rule prod_cases3)
  have w1: "wf_device k p1" "still p p1"
    using a p0 flush_with_silence_sound [OF k, of "(?p0, z)" m]
    by (auto simp: a_def intro: still_trans split: if_splits)
  define b where "b = (if ret1 = 0 \<and> state p1 = PCM_PREPARED \<and> prepared_level p1 \<noteq> 0
           then stream_start m (p1, z1) else (ret1, (p1, z1)))"
  obtain ret2 p2 z2 where b: "b = (ret2, (p2, z2))" by (rule prod_cases3)
  have w2: "wf_device k p2" "still p p2"
    using b w1 stream_start_sound [of k "(p1, z1)" m]
    by (auto simp: b_def intro: still_trans split: if_splits)
  show ?thesis
    unfolding drain_begin_def s prod.case Let_def a_def [symmetric] a b_def [symmetric] b using w2 by simp
qed

lemma drain_round_sound:
  assumes k: "good_params k" and p: "wf_device k (fst s)"
  shows "wf_device k (fst (snd (drain_round m drained deadline s))) \<and> still (fst s) (fst (snd (drain_round m drained deadline s)))"
proof -
  obtain r level s1 where l: "hal_level m s = (r, level, s1)" by (rule prod_cases3)
  let ?s2 = "stream_measure m level s1"
  have w1: "wf_device k (fst s1)" "still (fst s) (fst s1)" using hal_level_sound [OF p, of m] by (simp_all add: l)
  have w2: "wf_device k (fst ?s2)" "still (fst s) (fst ?s2)"
    using stream_measure_sound [OF w1(1), of m level] w1(2) by (auto intro: still_trans)
  have w3: "wf_device k (fst (snd (stream_prepare m ?s2)))" "still (fst s) (fst (snd (stream_prepare m ?s2)))"
    using stream_prepare_sound [OF k w2(1), of m] w2(2) by (auto intro: still_trans)
  show ?thesis
    using p w1 w2 w3 by (simp add: drain_round_def l Let_def split_def)
qed

lemma pcm_stop_sound:
  assumes k: "good_params k" and p: "wf_device k (fst s)"
  shows "wf_device k (fst (snd (pcm_stop m s))) \<and> still (fst s) (fst (snd (pcm_stop m s)))"
proof -
  have w: "wf_device k (fst s\<lparr>staged := 0\<rparr>)" "still (fst s) (fst s\<lparr>staged := 0\<rparr>)"
    using p good_channels(5) [OF k] by (simp_all add: wf_device_def primed_def still_def)
  then show ?thesis
    using stream_prepare_sound [OF k, of "(fst s\<lparr>staged := 0\<rparr>, snd s)" m]
    by (auto simp: pcm_stop_def split_def Let_def intro: still_trans)
qed

lemma apply_gain_sound:
  assumes p: "wf_device k (fst s)"
  shows "wf_device k (fst (snd (apply_gain m s))) \<and> still (fst s) (fst (snd (apply_gain m s)))"
proof -
  have "keeps_device (fst s) (fst (snd (hal_set_gain m db s)))" for db by (simp add: kept_hal_set_gain)
  moreover have "primed k (fst (snd (hal_set_gain m db s)))" for db using p by (simp add: wf_device_def primed_def)
  ultimately have w: "wf_device k (fst (snd (hal_set_gain m db s)))" "still (fst s) (fst (snd (hal_set_gain m db s)))" for db
    using p by (blast intro: wf_kept kept_still)+
  then have "wf_device k (fst (snd (hal_set_gain m db s))\<lparr>state := PCM_FAILED\<rparr>)"
      "still (fst s) (fst (snd (hal_set_gain m db s))\<lparr>state := PCM_FAILED\<rparr>)" for db
    by (simp_all add: wf_device_def primed_def still_def)
  with w p show ?thesis by (simp add: apply_gain_def split_def)
qed

lemma clamp_gain_range:
  "good_params k \<Longrightarrow> clamp_gain k db \<in> {DPGA_MIN_DB .. max_gain_db k}"
  by (auto simp: clamp_gain_def good_params_def)

lemma set_gain_sound:
  assumes k: "good_params k" and p: "wf_device k (fst s)"
  shows "wf_device k (fst (snd (set_gain k m g s))) \<and> still (fst s) (fst (snd (set_gain k m g s)))"
proof -
  have "wf_device k (fst s\<lparr>gain_db := clamp_gain k g\<rparr>)" "still (fst s) (fst s\<lparr>gain_db := clamp_gain k g\<rparr>)"
    using p clamp_gain_range [OF k, of g] by (simp_all add: wf_device_def primed_def still_def)
  then show ?thesis
    using apply_gain_sound [of k "(fst s\<lparr>gain_db := clamp_gain k g\<rparr>, snd s)" m]
    by (auto simp: set_gain_def intro: still_trans)
qed

lemma set_mute_sound:
  assumes p: "wf_device k (fst s)"
  shows "wf_device k (fst (snd (set_mute m v s))) \<and> still (fst s) (fst (snd (set_mute m v s)))"
proof -
  have "wf_device k (fst s\<lparr>muted := v \<noteq> 0\<rparr>)" "still (fst s) (fst s\<lparr>muted := v \<noteq> 0\<rparr>)"
    using p by (simp_all add: wf_device_def primed_def still_def)
  then show ?thesis
    using apply_gain_sound [of k "(fst s\<lparr>muted := v \<noteq> 0\<rparr>, snd s)" m]
    by (auto simp: set_mute_def intro: still_trans)
qed

lemma pcm_poll_sound:
  "wf_device k (fst s) \<Longrightarrow> wf_device k (fst (snd (pcm_poll k m s))) \<and> still (fst s) (fst (snd (pcm_poll k m s)))"
  using hal_level_sound [of k s m] by (auto simp: pcm_poll_def split_def wf_device_def primed_def still_def)

lemma pcm_get_status_sound:
  "wf_device k (fst s) \<Longrightarrow> wf_device k (fst (snd (pcm_get_status k m s))) \<and> still (fst s) (fst (snd (pcm_get_status k m s)))"
  using hal_level_sound [of k s m] by (simp add: pcm_get_status_def split_def Let_def)

section \<open>Opening and closing\<close>

definition pcm_inv :: "pcm_params \<Rightarrow> pcm_device \<Rightarrow> bool" where
  "pcm_inv k p \<longleftrightarrow> wf_device k p \<and> (in_use p \<longleftrightarrow> state p \<noteq> PCM_CLOSED) \<and> (hal_open p \<longleftrightarrow> in_use p)"

lemma still_inv: "pcm_inv k q \<Longrightarrow> in_use q \<Longrightarrow> wf_device k p \<and> still q p \<Longrightarrow> pcm_inv k p"
  by (auto simp: pcm_inv_def still_def)

lemma open_hal_sound:
  assumes k: "good_params k" and p: "wf_device k (fst s)" "state (fst s) = PCM_CLOSED" "\<not> hal_open (fst s)"
  shows "wf_device k (fst (snd (open_hal k m s))) \<and> in_use (fst (snd (open_hal k m s))) = in_use (fst s)
    \<and> (if fst (open_hal k m s) = 0
       then hal_open (fst (snd (open_hal k m s))) \<and> state (fst (snd (open_hal k m s))) \<in> {PCM_PREPARED, PCM_FAILED}
       else \<not> hal_open (fst (snd (open_hal k m s))) \<and> state (fst (snd (open_hal k m s))) = PCM_CLOSED)"
proof -
  obtain p z where s: "s = (p, z)" by (rule prod.exhaust)
  let ?p = "reset_stream k p"
  have p0: "wf_device k ?p" "state ?p = PCM_CLOSED" "\<not> hal_open ?p" "in_use ?p = in_use p"
    using p good_channels(5) [OF k] by (simp_all add: s wf_device_def primed_def reset_stream_def)
  obtain r1 z1 where 1: "mhal_init m z = (r1, z1)" by (rule prod.exhaust)
  obtain r2 p2 z2 where 2: "hal_set_gain m DPGA_MIN_DB (?p, z1) = (r2, (p2, z2))" by (rule prod_cases3)
  have "keeps_device ?p p2" using kept_hal_set_gain [of ?p "(?p, z1)" m DPGA_MIN_DB] by (simp only: 2 fst_conv snd_conv) simp
  moreover have st2: "state p2 = PCM_CLOSED"
    using hal_set_gain_keeps(1) [of m DPGA_MIN_DB "(?p, z1)"] p0(2) by (simp only: 2 fst_conv snd_conv)
  moreover have "gain_db ?p \<in> {DPGA_MIN_DB .. max_gain_db k}"
    using clamp_gain_range [OF k] by (simp add: reset_stream_def)
  ultimately have p2: "wf_device k p2" "\<not> hal_open p2" "in_use p2 = in_use p" "gain_db p2 \<in> {DPGA_MIN_DB .. max_gain_db k}"
    using p0 by (simp_all add: wf_device_def primed_def keeps_device_def)
  have level0: "prepared_level p2 = 0"
    using hal_set_gain_keeps(2) [of m DPGA_MIN_DB "(?p, z1)"] by (simp only: 2 fst_conv snd_conv) (simp add: reset_stream_def)
  obtain r3 z3 where 3: "mhal_config m (pcm_cfg k p2) z2 = (r3, z3)" by (rule prod.exhaust)
  obtain r4 z4 where 4: "mhal_open m z3 = (r4, z4)" by (rule prod.exhaust)
  let ?p4 = "p2\<lparr>hal_open := True, state := PCM_PREPARED\<rparr>"
  have p4: "wf_device k ?p4" "in_use ?p4 = in_use p"
    using p2 level0 good_channels(2) [OF k] by (simp_all add: wf_device_def primed_def)
  obtain r5 level p5 z5 where 5: "hal_level m (?p4, z4) = (r5, level, (p5, z5))" by (rule prod_cases4)
  have p5: "wf_device k p5" "still ?p4 p5" using hal_level_sound [of k "(?p4, z4)" m] p4 by (simp_all add: 5)
  have st5: "r5 \<noteq> 0 \<longrightarrow> state p5 = PCM_FAILED" "r5 = 0 \<longrightarrow> p5 = ?p4"
    using failed_hal_level [of m "(?p4, z4)"] by (auto simp: 5)
  show ?thesis
    unfolding open_hal_def s prod.case Let_def 1 2 3 4 5
    using p p0 p2 st2 p4 p5 st5
    by (auto simp: s wf_device_def primed_def still_def)
qed

lemma close_hal_sound:
  assumes "wf_device k (fst s)"
  shows "wf_device k (fst (close_hal m s)) \<and> in_use (fst (close_hal m s)) = in_use (fst s)
    \<and> state (fst (close_hal m s)) = PCM_CLOSED \<and> \<not> hal_open (fst (close_hal m s))"
  using assms kept_hal_quiet [of "fst s" s m]
  by (auto simp: close_hal_def split_def wf_device_def primed_def keeps_device_def)

lemma pcm_open_sound:
  assumes k: "good_params k" and p: "pcm_inv k (fst s)"
  shows "pcm_inv k (fst (snd (pcm_open k m s)))"
    and "fst (pcm_open k m s) = 0 \<Longrightarrow> \<not> in_use (fst s) \<and> state (fst (snd (pcm_open k m s))) = PCM_PREPARED"
    and "in_use (fst s) \<Longrightarrow> pcm_open k m s = (- EBUSY, s)"
proof -
  obtain p z where s: "s = (p, z)" by (rule prod.exhaust)
  show busy: "in_use (fst s) \<Longrightarrow> pcm_open k m s = (- EBUSY, s)" by (simp add: pcm_open_def s)
  let ?p = "p\<lparr>in_use := True\<rparr>"
  obtain err p1 z1 where o: "open_hal k m (?p, z) = (err, (p1, z1))" by (rule prod_cases3)
  obtain p2 z2 where c: "close_hal m (p1, z1) = (p2, z2)" by (rule prod.exhaust)
  have free: "pcm_inv k (fst (snd (pcm_open k m s)))
      \<and> (fst (pcm_open k m s) = 0 \<longrightarrow> state (fst (snd (pcm_open k m s))) = PCM_PREPARED)" if f: "\<not> in_use p"
  proof -
    have "wf_device k ?p" "state ?p = PCM_CLOSED" "\<not> hal_open ?p"
      using p f by (simp_all add: s pcm_inv_def wf_device_def primed_def)
    then have o': "wf_device k p1" "in_use p1" "if err = 0 then hal_open p1 \<and> state p1 \<in> {PCM_PREPARED, PCM_FAILED}
        else \<not> hal_open p1 \<and> state p1 = PCM_CLOSED"
      using open_hal_sound [OF k, of "(?p, z)" m, unfolded o fst_conv snd_conv] by (simp_all cong: if_cong)
    have c': "wf_device k p2" "state p2 = PCM_CLOSED" "\<not> hal_open p2"
      using close_hal_sound [of k "(p1, z1)" m] o'(1) by (simp_all add: c)
    show ?thesis
      using f o' c' by (auto simp: pcm_open_def s o c pcm_inv_def wf_device_def primed_def split: if_splits)
  qed
  show "pcm_inv k (fst (snd (pcm_open k m s)))"
    using free p busy by (cases "in_use p") (simp_all add: s)
  show "fst (pcm_open k m s) = 0 \<Longrightarrow> \<not> in_use (fst s) \<and> state (fst (snd (pcm_open k m s))) = PCM_PREPARED"
    using free busy by (cases "in_use p") (simp_all add: s)
qed

lemma release_end_sound:
  assumes "wf_device k (fst s)"
  shows "pcm_inv k (fst (release_end m s))"
proof -
  have "wf_device k (fst s\<lparr>wake_timer := False\<rparr>)" using assms by (simp add: wf_device_def primed_def)
  then show ?thesis
    using close_hal_sound [of k "(fst s\<lparr>wake_timer := False\<rparr>, snd s)" m]
    by (auto simp: release_end_def split_def pcm_inv_def wf_device_def primed_def)
qed

section \<open>Interleavings\<close>

text \<open>
  One step is one critical section of one thread, or the environment moving on its own. The drain's
  deadline and level and the bytes written are the thread's own and arbitrary here.
\<close>

inductive pcm_step :: "pcm_params \<Rightarrow> 'z hal \<Rightarrow> ('z \<Rightarrow> 'z \<Rightarrow> bool) \<Rightarrow> 'z pcm \<Rightarrow> 'z pcm \<Rightarrow> bool"
  for k m env where
  open_step: "pcm_step k m env s (snd (pcm_open k m s))"
| push_step: "in_use (fst s) \<Longrightarrow> pcm_step k m env s (snd (push_input k m src s))"
| drain_step: "in_use (fst s) \<Longrightarrow> pcm_step k m env s (snd (snd (drain_begin k m s)))"
| wait_step: "in_use (fst s) \<Longrightarrow> pcm_step k m env s (snd (drain_round m drained deadline s))"
| stop_step: "in_use (fst s) \<Longrightarrow> pcm_step k m env s (snd (pcm_stop m s))"
| gain_step: "in_use (fst s) \<Longrightarrow> pcm_step k m env s (snd (set_gain k m gain s))"
| mute_step: "in_use (fst s) \<Longrightarrow> pcm_step k m env s (snd (set_mute m v s))"
| poll_step: "in_use (fst s) \<Longrightarrow> pcm_step k m env s (snd (pcm_poll k m s))"
| status_step: "in_use (fst s) \<Longrightarrow> pcm_step k m env s (snd (pcm_get_status k m s))"
| close_step: "in_use (fst s) \<Longrightarrow> pcm_step k m env s (release_end m s)"
| environment: "env z z' \<Longrightarrow> pcm_step k m env (p, z) (p, z')"

inductive_cases pcm_step_elim: "pcm_step k m env s t"

lemma pcm_step_inv:
  assumes k: "good_params k" and "pcm_step k m env s t" and p: "pcm_inv k (fst s)"
  shows "pcm_inv k (fst t)"
  using assms(2)
proof cases
  case open_step
  then show ?thesis using pcm_open_sound(1) [OF k p, of m] by simp
next
  case (push_step src)
  then show ?thesis using still_inv [OF p] push_input_sound [OF k, of s m src] p by (simp add: pcm_inv_def)
next
  case drain_step
  then show ?thesis using still_inv [OF p] drain_begin_sound [OF k, of s m] p by (simp add: pcm_inv_def)
next
  case (wait_step drained deadline)
  then show ?thesis using still_inv [OF p] drain_round_sound [OF k, of s m drained deadline] p by (simp add: pcm_inv_def)
next
  case stop_step
  then show ?thesis using still_inv [OF p] pcm_stop_sound [OF k, of s m] p by (simp add: pcm_inv_def)
next
  case (gain_step gain)
  then show ?thesis using still_inv [OF p] set_gain_sound [OF k, of s m gain] p by (simp add: pcm_inv_def)
next
  case (mute_step v)
  then show ?thesis using still_inv [OF p] set_mute_sound [of k s m v] p by (simp add: pcm_inv_def)
next
  case poll_step
  then show ?thesis using still_inv [OF p] pcm_poll_sound [of k s m] p by (simp add: pcm_inv_def)
next
  case status_step
  then show ?thesis using still_inv [OF p] pcm_get_status_sound [of k s m] p by (simp add: pcm_inv_def)
next
  case close_step
  then show ?thesis using release_end_sound [of k s m] p by (simp add: pcm_inv_def)
next
  case (environment z z' p')
  then show ?thesis using p by simp
qed

section \<open>What the vendor calls may do to the environment\<close>

text \<open>
  \<open>calls_within m R\<close>: every operation of the environment but the write moves it within the preorder
  \<open>R\<close>. An operation of the driver that writes nothing then does too.
\<close>

definition calls_within :: "'z hal \<Rightarrow> ('z \<Rightarrow> 'z \<Rightarrow> bool) \<Rightarrow> bool" where
  "calls_within m R \<longleftrightarrow> (\<forall>z. R z z) \<and> (\<forall>a b c. R a b \<longrightarrow> R b c \<longrightarrow> R a c)
     \<and> (\<forall>z. R z (snd (mhal_init m z))) \<and> (\<forall>z c. R z (snd (mhal_config m c z)))
     \<and> (\<forall>z. R z (snd (mhal_open m z))) \<and> (\<forall>z. R z (snd (mhal_close m z)))
     \<and> (\<forall>z. R z (snd (mhal_start m z))) \<and> (\<forall>z. R z (snd (mhal_stop m z)))
     \<and> (\<forall>z. R z (snd (mhal_restart m z))) \<and> (\<forall>z db c. R z (snd (mhal_gain m db c z)))
     \<and> (\<forall>z. R z (snd (snd (mhal_level m z)))) \<and> (\<forall>z us. R z (pause_us m us z))
     \<and> (\<forall>z j. R z (nap m j z)) \<and> (\<forall>z. R z (snd (user_fault m z)))"

named_theorems within

lemma within_refl [simp]: "calls_within m R \<Longrightarrow> R z z"
  by (simp add: calls_within_def)

lemma within_trans: "calls_within m R \<Longrightarrow> R a b \<Longrightarrow> R b c \<Longrightarrow> R a c"
  unfolding calls_within_def by blast

lemma within_calls [within]:
  assumes "calls_within m R" and "R z a"
  shows "R z (snd (mhal_init m a))" and "R z (snd (mhal_config m c a))" and "R z (snd (mhal_open m a))"
    and "R z (snd (mhal_close m a))" and "R z (snd (mhal_start m a))" and "R z (snd (mhal_stop m a))"
    and "R z (snd (mhal_restart m a))" and "R z (snd (mhal_gain m db i a))" and "R z (snd (snd (mhal_level m a)))"
    and "R z (pause_us m us a)" and "R z (nap m j a)" and "R z (snd (user_fault m a))"
  using assms unfolding calls_within_def by blast+

lemma within_hal_fail [within]: "R z (snd s) \<Longrightarrow> R z (snd (snd (hal_fail r s)))"
  by (cases s) (simp add: hal_fail_def)

lemma within_hal_level [within]:
  "calls_within m R \<Longrightarrow> R z (snd s) \<Longrightarrow> R z (snd (snd (snd (hal_level m s))))"
  by (cases s) (simp add: hal_level_def split_def within)

lemma within_set_gain_channels:
  "calls_within m R \<Longrightarrow> R z (snd s) \<Longrightarrow> R z (snd (snd (set_gain_channels m db cs s)))"
  by (induction cs arbitrary: s) (auto simp: split_def within)

lemma within_hal_set_gain [within]:
  "calls_within m R \<Longrightarrow> R z (snd s) \<Longrightarrow> R z (snd (snd (hal_set_gain m db s)))"
  unfolding hal_set_gain_def by (rule within_set_gain_channels)

lemma within_hal_quiet [within]: "calls_within m R \<Longrightarrow> R z (snd s) \<Longrightarrow> R z (snd (hal_quiet m s))"
  by (simp add: hal_quiet_def split_def within)

lemma within_stream_start [within]:
  "calls_within m R \<Longrightarrow> R z (snd s) \<Longrightarrow> R z (snd (snd (stream_start m s)))"
  by (simp add: stream_start_def split_def within)

lemma within_stream_prepare [within]:
  "calls_within m R \<Longrightarrow> R z (snd s) \<Longrightarrow> R z (snd (snd (stream_prepare m s)))"
  by (simp add: stream_prepare_def split_def within)

lemma within_settle_level [within]:
  "calls_within m R \<Longrightarrow> R z (snd s) \<Longrightarrow> R z (snd (snd (snd (settle_level m n l s))))"
  by (induction n arbitrary: s l) (auto simp: split_def within)

lemma within_check_prepared [within]:
  assumes "calls_within m R" and "R z (snd s)"
  shows "R z (snd (snd (check_prepared_level m s)))"
proof -
  obtain r l p z1 where e: "settle_level m 10 0 s = (r, l, (p, z1))" by (rule prod_cases4)
  have "R z z1" using within_settle_level [OF assms, of 10 0] by (simp only: e snd_conv)
  then show ?thesis
    unfolding check_prepared_level_def e prod.case Let_def
    by (cases "r = 0"; cases "l = prepared_level p"; cases "level_logged p") simp_all
qed

lemma within_detect_stall [within]:
  "calls_within m R \<Longrightarrow> R z (snd s) \<Longrightarrow> R z (snd (snd (detect_stall k m l s)))"
  by (simp add: detect_stall_def split_def within)

lemma within_apply_gain [within]:
  "calls_within m R \<Longrightarrow> R z (snd s) \<Longrightarrow> R z (snd (snd (apply_gain m s)))"
  by (simp add: apply_gain_def split_def within)

lemma within_close_hal [within]: "calls_within m R \<Longrightarrow> R z (snd s) \<Longrightarrow> R z (snd (close_hal m s))"
  by (simp add: close_hal_def split_def within)

lemma within_open_hal [within]:
  "calls_within m R \<Longrightarrow> R z (snd s) \<Longrightarrow> R z (snd (snd (open_hal k m s)))"
  by (simp add: open_hal_def split_def Let_def within)

lemma within_pcm_open [within]:
  "calls_within m R \<Longrightarrow> R z (snd s) \<Longrightarrow> R z (snd (snd (pcm_open k m s)))"
  by (simp add: pcm_open_def split_def Let_def within)

lemma within_release_end [within]:
  "calls_within m R \<Longrightarrow> R z (snd s) \<Longrightarrow> R z (snd (release_end m s))"
  by (simp add: release_end_def split_def within)

lemma within_drain_round [within]:
  "calls_within m R \<Longrightarrow> R z (snd s) \<Longrightarrow> R z (snd (snd (drain_round m d t s)))"
  by (simp add: drain_round_def split_def Let_def within)

lemma within_pcm_stop [within]:
  "calls_within m R \<Longrightarrow> R z (snd s) \<Longrightarrow> R z (snd (snd (pcm_stop m s)))"
  by (simp add: pcm_stop_def split_def Let_def within)

lemma within_set_gain [within]:
  "calls_within m R \<Longrightarrow> R z (snd s) \<Longrightarrow> R z (snd (snd (set_gain k m g s)))"
  by (simp add: set_gain_def within)

lemma within_set_mute [within]:
  "calls_within m R \<Longrightarrow> R z (snd s) \<Longrightarrow> R z (snd (snd (set_mute m v s)))"
  by (simp add: set_mute_def within)

lemma within_pcm_poll [within]:
  "calls_within m R \<Longrightarrow> R z (snd s) \<Longrightarrow> R z (snd (snd (pcm_poll k m s)))"
  by (simp add: pcm_poll_def split_def within)

lemma within_pcm_get_status [within]:
  "calls_within m R \<Longrightarrow> R z (snd s) \<Longrightarrow> R z (snd (snd (pcm_get_status k m s)))"
  by (simp add: pcm_get_status_def split_def Let_def within)

section \<open>The ring is never overrun\<close>

text \<open>
  The documented behaviour of the ring: \<open>fill z\<close> bytes are queued. The level call reports at least
  what is still queued, and no more than the ring holds; a successful restart empties it; a write that
  leaves the guard free adds at most its bytes and does no harm; everything else only lets the DMA
  play bytes out.
\<close>

definition ring_contract :: "pcm_params \<Rightarrow> 'z hal \<Rightarrow> ('z \<Rightarrow> nat) \<Rightarrow> ('z \<Rightarrow> bool) \<Rightarrow> bool" where
  "ring_contract k m fill safe \<longleftrightarrow>
     calls_within m (\<lambda>z z'. safe z \<longrightarrow> safe z' \<and> fill z' \<le> fill z)
     \<and> (\<forall>z. fst (mhal_level m z) = 0 \<longrightarrow>
          fill (snd (snd (mhal_level m z))) \<le> unat (fst (snd (mhal_level m z)))
          \<and> unat (fst (snd (mhal_level m z))) \<le> buffer_bytes k)
     \<and> (\<forall>z. fst (mhal_restart m z) = 0 \<longrightarrow> fill (snd (mhal_restart m z)) = 0)
     \<and> (\<forall>z d. safe z \<longrightarrow> fill z + length d + GUARD_BYTES \<le> buffer_bytes k \<longrightarrow>
          safe (snd (mhal_write m d z)) \<and> fill (snd (mhal_write m d z)) \<le> fill z + length d)"

lemma stream_prepare_empties:
  assumes "ring_contract k m fill safe" and "fst (stream_prepare m s) = 0"
  shows "fill (snd (snd (stream_prepare m s))) = 0"
  using assms by (auto simp: stream_prepare_def ring_contract_def split_def hal_fail_def split: if_splits)

lemma write_attempts_safe:
  assumes c: "ring_contract k m fill safe"
  shows "safe (snd s) \<Longrightarrow> fill (snd s) + length d + GUARD_BYTES \<le> buffer_bytes k
    \<Longrightarrow> safe (snd (snd (write_attempts m d n s)))"
proof (induction n arbitrary: s)
  case 0
  then show ?case using c by (cases s) (auto simp: ring_contract_def split_def hal_fail_def)
next
  case (Suc n)
  obtain p z where s: "s = (p, z)" by (rule prod.exhaust)
  obtain ret z1 where w: "mhal_write m d z = (ret, z1)" by (rule prod.exhaust)
  have z1: "safe z1" using Suc.prems c unfolding ring_contract_def s by (metis snd_conv w)
  let ?q = "p\<lparr>underruns := wrap32 (Suc (underruns p))\<rparr>"
  obtain r p2 z2 where pr: "stream_prepare m (?q, z1) = (r, (p2, z2))" by (rule prod_cases3)
  have "calls_within m (\<lambda>z z'. safe z \<longrightarrow> safe z' \<and> fill z' \<le> fill z)" using c by (simp add: ring_contract_def)
  then have z2: "safe z2"
    using within_stream_prepare [of m "\<lambda>z z'. safe z \<longrightarrow> safe z' \<and> fill z' \<le> fill z" z1 "(?q, z1)"] z1 by (simp add: pr)
  have "r = 0 \<Longrightarrow> fill z2 = 0"
    using stream_prepare_empties [OF c, of "(?q, z1)"] by (simp add: pr)
  then have "r = 0 \<Longrightarrow> safe (snd (snd (write_attempts m d n (p2, z2))))"
    using Suc z2 by simp
  with z1 z2 show ?case by (simp add: s w pr hal_fail_def)
qed

lemma hal_write_safe:
  assumes c: "ring_contract k m fill safe" and safe: "safe (snd s)"
    and room: "fill (snd s) + length (fst (fill_frames k e (fst s))) + GUARD_BYTES \<le> buffer_bytes k"
  shows "safe (snd (snd (hal_write k m e s)))"
proof -
  obtain p z where s: "s = (p, z)" by (rule prod.exhaust)
  obtain d p0 where ff: "fill_frames k e p = (d, p0)" by (rule prod.exhaust)
  obtain r p1 z1 where w: "write_attempts m d 1 (p0, z) = (r, (p1, z1))" by (rule prod_cases3)
  have z1: "safe z1"
    using write_attempts_safe [OF c, of "(p0, z)" d 1] safe room by (simp only: w s ff fst_conv snd_conv)
  have q: "calls_within m (\<lambda>z z'. safe z \<longrightarrow> safe z' \<and> fill z' \<le> fill z)" using c by (simp add: ring_contract_def)
  define p2 where "p2 = p1\<lparr>written := wrap64 (written p1 + length d),
    prepared_level := wrap32 (prepared_level p1 + length d)\<rparr>"
  obtain r3 p3 z3 where cp: "check_prepared_level m (p2, z1) = (r3, (p3, z3))" by (rule prod_cases3)
  have z3: "safe z3"
    using within_check_prepared [OF q, of z1 "(p2, z1)"] z1 by (simp only: cp snd_conv) simp
  have z4: "safe (snd (snd (stream_start m (p3, z3))))"
    using within_stream_start [OF q, of z3 "(p3, z3)"] z3 by simp
  show ?thesis
    unfolding hal_write_def s prod.case ff w Let_def using cp z1 z3 z4 by (simp add: p2_def)
qed

lemma level_read:
  assumes "ring_contract k m fill safe" and "hal_level m s = (0, level, s1)"
  shows "fill (snd s1) \<le> level" and "level \<le> buffer_bytes k"
proof -
  obtain p z where s: "s = (p, z)" by (rule prod.exhaust)
  obtain ret w z1 where m: "mhal_level m z = (ret, w, z1)" by (rule prod_cases3)
  have e: "ret = 0" "level = unat w" "s1 = (p, z1)"
    using assms(2) unfolding hal_level_def s prod.case m hal_fail_def by (simp_all split: if_splits)
  have "fst (mhal_level m z) = 0 \<longrightarrow> fill (snd (snd (mhal_level m z))) \<le> unat (fst (snd (mhal_level m z)))
      \<and> unat (fst (snd (mhal_level m z))) \<le> buffer_bytes k"
    using assms(1) unfolding ring_contract_def by blast
  then show "fill (snd s1) \<le> level" and "level \<le> buffer_bytes k" by (simp_all add: m e)
qed

lemma push_input_safe:
  assumes k: "good_params k" and p: "wf_device k (fst s)" and c: "ring_contract k m fill safe" and z: "safe (snd s)"
  shows "safe (snd (snd (push_input k m src s)))"
proof -
  have q: "calls_within m (\<lambda>z z'. safe z \<longrightarrow> safe z' \<and> fill z' \<le> fill z)" using c by (simp add: ring_contract_def)
  obtain r level s1 where l: "hal_level m s = (r, level, s1)" by (rule prod_cases3)
  obtain q1 z1 where sm: "stream_measure m level s1 = (q1, z1)" by (rule prod.exhaust)
  obtain fault z2 where uf: "user_fault m (snd s1) = (fault, z2)" by (rule prod.exhaust)
  have s1: "safe (snd s1)"
    using within_hal_level [OF q, of "snd s" s] z by (simp add: l)
  have z1: "z1 = snd s1" using stream_measure_keeps(3) [of m level s1] by (simp add: sm)
  have z2: "safe z2" "fill z2 \<le> fill (snd s1)"
    using within_calls(12) [OF q, of "snd s1" "snd s1"] s1 by (simp_all add: uf)
  have d: "safe (snd (snd (detect_stall k m level (q1, z1))))"
    using within_detect_stall [OF q, of z1 "(q1, z1)"] s1 by (simp add: z1)
  show ?thesis
  proof (cases "r = 0 \<and> input_align k \<le> push_room k level")
    case False
    then show ?thesis using z s1 d by (auto simp: push_input_cases [OF k p l] sm)
  next
    case True
    have lv: "fill (snd s1) \<le> level" "level \<le> buffer_bytes k"
      using level_read [OF c, of s level] True l by simp_all
    have "keeps_device (fst s) (fst s1)" using kept_hal_level [of "fst s" s m] by (simp add: l)
    then have k2: "keeps_device (fst s) q1" using kept_stream_measure [of "fst s" s1 m level] by (simp add: sm)
    have "primed k q1"
      using stream_measure_keeps(1,2) [of m level s1] p True failed_hal_level(2) [of m s]
      by (simp add: sm l wf_device_def primed_def)
    then have wq: "wf_device k q1" using p k2 by (blast intro: wf_kept)
    let ?rq = "push_ready k level q1 src" and ?e = "push_emit k level q1 src"
    note b = push_bounds [OF k wq, of level src] and rk = push_ready_kept [OF k wq, of level src]
    have "length (push_joined k level q1 src) = staged q1 + push_take k level q1 src"
      using b(1,2) wq True by (simp add: push_joined_def wf_device_def push_take_def)
    then have len: "length (take ?e (push_joined k level q1 src)) = ?e" using b(2) True by simp
    have e: "even ?e" "?e * channels k \<le> push_room k level * channels k" using b(4,5) True by simp_all
    moreover have "push_room k level * channels k \<le> period_bytes k"
      using push_room_le [of k level] good_channels(7) [OF k] by (metis mult_le_mono1)
    ultimately have "?e * channels k \<le> period_bytes k" by linarith
    then have "?e * channels k \<le> length (frames ?rq)" "length (frames ?rq) < 2 ^ 32"
      using rk(1) True good_channels(3) [OF k] by (simp_all only: wf_device_def)
    then have "fst (fill_frames k (take ?e (push_joined k level q1 src)) ?rq)
        = dma_frames k (muted ?rq) (take ?e (push_joined k level q1 src))"
      by (intro fill_frames_eq(1)) (simp_all only: len e(1) good_channels(1) [OF k])
    then have "length (fst (fill_frames k (take ?e (push_joined k level q1 src)) ?rq)) = ?e * channels k"
      using length_dma_frames [of "take ?e (push_joined k level q1 src)" k] e(1) good_channels(1) [OF k] by (simp only: len)
    moreover have "level + push_room k level * channels k + GUARD_BYTES \<le> buffer_bytes k"
      using push_room_fits [OF k lv(2)] True good_channels(5) [OF k] by simp
    ultimately have "safe (snd (snd (hal_write k m (take ?e (push_joined k level q1 src)) (?rq, z2))))"
      using hal_write_safe [OF c, of "(?rq, z2)" "take ?e (push_joined k level q1 src)"] z2 lv(1) e(2) by simp
    moreover obtain ret p' z' where hw: "hal_write k m (take ?e (push_joined k level q1 src)) (?rq, z2) = (ret, (p', z'))"
      by (rule prod_cases3)
    ultimately show ?thesis
      using z s1 z2(1) d by (simp add: push_input_cases [OF k p l] sm uf hw Let_def)
  qed
qed

lemma flush_with_silence_safe:
  assumes k: "good_params k" and p: "wf_device k (fst s)" and c: "ring_contract k m fill safe" and z: "safe (snd s)"
  shows "safe (snd (snd (flush_with_silence k m s)))"
proof -
  have q: "calls_within m (\<lambda>z z'. safe z \<longrightarrow> safe z' \<and> fill z' \<le> fill z)" using c by (simp add: ring_contract_def)
  obtain r level p1 z1 where l: "hal_level m s = (r, level, (p1, z1))" by (rule prod_cases4)
  have z1: "safe z1" using within_hal_level [OF q, of "snd s" s] z by (simp add: l)
  have w1: "wf_device k p1" using hal_level_sound [OF p, of m] by (simp add: l)
  show ?thesis
  proof (cases "r = 0 \<and> input_align k \<le> push_room k level")
    case False
    then show ?thesis using z1 by (auto simp: flush_with_silence_def l)
  next
    case True
    let ?room = "push_room k level"
    have lv: "fill z1 \<le> level" "level \<le> buffer_bytes k"
      using level_read [OF c, of s level] True l by simp_all
    define n where "n = wrap32 (?room + (2 ^ 32 - staged p1))"
    define u where "u = p1\<lparr>staging := patch (staging p1) (staged p1) (replicate n 0),
      silence_tail := wrap32 (n * channels k), staged := 0\<rparr>"
    have "?room < 2147483648" "staged p1 < ?room" "?room \<le> staging_capacity k"
      using push_room_le [of k level] good_channels(10) [OF k] True w1 by (simp_all add: wf_device_def)
    then have "n = ?room - staged p1" by (simp add: n_def wrap32_def mod_if)
    then have u: "length (staging u) = staging_capacity k" "length (frames u) = period_bytes k"
      using w1 \<open>staged p1 < ?room\<close> \<open>?room \<le> staging_capacity k\<close> by (simp_all add: u_def wf_device_def)
    have len: "length (take ?room (staging u)) = ?room" using u \<open>?room \<le> staging_capacity k\<close> by simp
    have e: "even ?room" using push_room_aligned [OF k, of level] good_channels(4) [OF k] by (meson dvd_trans)
    have "?room * channels k \<le> period_bytes k"
      using push_room_le [of k level] good_channels(7) [OF k] by (metis mult_le_mono1)
    then have "length (fst (fill_frames k (take ?room (staging u)) u)) = ?room * channels k"
      using fill_frames_eq(1) [of "take ?room (staging u)" k u] length_dma_frames [of "take ?room (staging u)" k "muted u"]
        e u good_channels(1,3) [OF k] by (simp only: len)
    moreover have "level + ?room * channels k + GUARD_BYTES \<le> buffer_bytes k"
      using push_room_fits [OF k lv(2)] True good_channels(5) [OF k] by simp
    ultimately have "safe (snd (snd (hal_write k m (take ?room (staging u)) (u, z1))))"
      using hal_write_safe [OF c, of "(u, z1)" "take ?room (staging u)"] z1 lv(1) by simp
    then show ?thesis
      using True unfolding flush_with_silence_def l prod.case Let_def u_def n_def by simp
  qed
qed

lemma drain_begin_safe:
  assumes k: "good_params k" and p: "wf_device k (fst s)" and c: "ring_contract k m fill safe" and z: "safe (snd s)"
  shows "safe (snd (snd (snd (drain_begin k m s))))"
proof -
  have q: "calls_within m (\<lambda>z z'. safe z \<longrightarrow> safe z' \<and> fill z' \<le> fill z)" using c by (simp add: ring_contract_def)
  obtain p z0 where s: "s = (p, z0)" by (rule prod.exhaust)
  let ?p0 = "p\<lparr>silence_tail := 0\<rparr>"
  have p0: "wf_device k ?p0" using p by (simp add: s wf_device_def primed_def)
  define a where "a = (if state ?p0 = PCM_FAILED then (- EIO, (?p0, z0))
           else if state ?p0 = PCM_RUNNING \<or> prepared_level ?p0 \<noteq> 0 \<or> staged ?p0 \<noteq> 0
             then flush_with_silence k m (?p0, z0) else (0, (?p0, z0)))"
  obtain ret1 p1 z1 where a: "a = (ret1, (p1, z1))" by (rule prod_cases3)
  have z1: "safe z1"
    using a z p0 flush_with_silence_safe [OF k _ c, of "(?p0, z0)"] by (auto simp: a_def s split: if_splits)
  define b where "b = (if ret1 = 0 \<and> state p1 = PCM_PREPARED \<and> prepared_level p1 \<noteq> 0
           then stream_start m (p1, z1) else (ret1, (p1, z1)))"
  obtain ret2 p2 z2 where b: "b = (ret2, (p2, z2))" by (rule prod_cases3)
  have "safe z2"
    using b z1 within_stream_start [OF q, of z1 "(p1, z1)"] by (auto simp: b_def split: if_splits)
  then show ?thesis
    unfolding drain_begin_def s prod.case Let_def a_def [symmetric] a b_def [symmetric] b by simp
qed

lemma pcm_step_safe:
  assumes k: "good_params k" and c: "ring_contract k m fill safe"
    and env: "\<And>z z'. env z z' \<Longrightarrow> safe z \<Longrightarrow> safe z'"
    and "pcm_step k m env s t" and p: "wf_device k (fst s)" and z: "safe (snd s)"
  shows "safe (snd t)"
proof -
  have q: "calls_within m (\<lambda>z z'. safe z \<longrightarrow> safe z' \<and> fill z' \<le> fill z)" using c by (simp add: ring_contract_def)
  from \<open>pcm_step k m env s t\<close> show ?thesis
  proof cases
    case open_step then show ?thesis using within_pcm_open [OF q, of "snd s" s] z q by simp
  next
    case (push_step src) then show ?thesis using push_input_safe [OF k p c z] by simp
  next
    case drain_step then show ?thesis using drain_begin_safe [OF k p c z] by simp
  next
    case (wait_step drained deadline)
    then show ?thesis using within_drain_round [OF q, of "snd s" s] z by simp
  next
    case stop_step then show ?thesis using within_pcm_stop [OF q, of "snd s" s] z by simp
  next
    case (gain_step gain) then show ?thesis using within_set_gain [OF q, of "snd s" s] z by simp
  next
    case (mute_step v) then show ?thesis using within_set_mute [OF q, of "snd s" s] z by simp
  next
    case poll_step then show ?thesis using within_pcm_poll [OF q, of "snd s" s] z by simp
  next
    case status_step then show ?thesis using within_pcm_get_status [OF q, of "snd s" s] z by simp
  next
    case close_step then show ?thesis using within_release_end [OF q, of "snd s" s] z by simp
  next
    case (environment z1 z2 p1) then show ?thesis using env z by simp
  qed
qed

lemma pcm_reachable_inv:
  assumes "(pcm_step k m env)\<^sup>*\<^sup>* s t" and "good_params k" and "pcm_inv k (fst s)"
  shows "pcm_inv k (fst t)"
  using assms(1)
proof (induction rule: rtranclp_induct)
  case (step t u)
  then show ?case using pcm_step_inv [OF assms(2)] by blast
qed (rule assms(3))

lemma pcm_reachable_safe:
  assumes "(pcm_step k m env)\<^sup>*\<^sup>* s t" and "good_params k" and "pcm_inv k (fst s)"
    and "ring_contract k m fill safe" and "\<And>z z'. env z z' \<Longrightarrow> safe z \<Longrightarrow> safe z'" and "safe (snd s)"
  shows "safe (snd t)"
  using assms(1)
proof (induction rule: rtranclp_induct)
  case (step t u)
  show ?case
  proof (rule pcm_step_safe [OF assms(2,4) _ step.hyps(2)])
    show "wf_device k (fst t)" using pcm_reachable_inv [OF step.hyps(1) assms(2,3)] by (simp add: pcm_inv_def)
    show "safe z'" if "env z z'" and "safe z" for z z' using that by (rule assms(5))
  qed (rule step.IH)
qed (rule assms(6))

end
