(* ===== verification/Pcm_Driver_Properties.thy ===== *)
theory Pcm_Driver_Properties
  imports Pcm_Driver_Steps
begin

text \<open>
  The properties of the speaker driver: the delivery of what a write accepts (\<open>delivered\<close>), the end of
  writes and drains, the loaded driver, and an example environment with a ring of 4096 bytes on which
  the witnesses run.
\<close>

section \<open>Every byte accepted is handed to the ring once and in order\<close>

text \<open>\<open>log z\<close> are the bytes the vendor's write has accepted, in order.\<close>

definition log_contract :: "'z hal \<Rightarrow> ('z \<Rightarrow> bytes) \<Rightarrow> bool" where
  "log_contract m log \<longleftrightarrow> calls_within m (\<lambda>z z'. log z' = log z)
     \<and> (\<forall>z d. log (snd (mhal_write m d z)) =
          (if fst (mhal_write m d z) = int (length d) then log z @ d else log z))"

definition held :: "pcm_device \<Rightarrow> bytes" where
  "held p = take (staged p) (staging p)"

lemma kept_held: "keeps_device q p \<Longrightarrow> held p = held q \<and> muted p = muted q"
  by (simp add: keeps_device_def held_def)

lemma log_within: "log_contract m log \<Longrightarrow> calls_within m (\<lambda>z z'. log z' = log z)"
  by (simp add: log_contract_def)

lemma write_attempts_log:
  assumes c: "log_contract m log"
  shows "fst (write_attempts m d n s) = 0 \<Longrightarrow> log (snd (snd (write_attempts m d n s))) = log (snd s) @ d"
proof (induction n arbitrary: s)
  case 0
  then show ?case using c by (cases s) (simp add: log_contract_def split_def hal_fail_def split: if_splits)
next
  case (Suc n)
  obtain p z where s: "s = (p, z)" by (rule prod.exhaust)
  obtain ret z1 where w: "mhal_write m d z = (ret, z1)" by (rule prod.exhaust)
  have z1: "log z1 = (if ret = int (length d) then log z @ d else log z)"
    using c unfolding log_contract_def by (metis fst_conv snd_conv w)
  let ?q = "p\<lparr>underruns := wrap32 (Suc (underruns p))\<rparr>"
  obtain r p2 z2 where pr: "stream_prepare m (?q, z1) = (r, (p2, z2))" by (rule prod_cases3)
  have z2: "log z2 = log z1"
    using within_stream_prepare [OF log_within [OF c], where z = "z1" and s = "(?q, z1)"] by (simp add: pr)
  show ?case
    using Suc.prems Suc.IH [of "(p2, z2)"] z1 z2 by (simp add: s w pr hal_fail_def split: if_splits)
qed

lemma hal_write_log:
  assumes c: "log_contract m log" and ok: "fst (hal_write k m e s) = 0"
  shows "log (snd (snd (hal_write k m e s))) = log (snd s) @ fst (fill_frames k e (fst s))"
proof -
  obtain p z where s: "s = (p, z)" by (rule prod.exhaust)
  obtain d p0 where ff: "fill_frames k e p = (d, p0)" by (rule prod.exhaust)
  obtain r p1 z1 where w: "write_attempts m d 1 (p0, z) = (r, (p1, z1))" by (rule prod_cases3)
  define p2 where "p2 = p1\<lparr>written := wrap64 (written p1 + length d),
    prepared_level := wrap32 (prepared_level p1 + length d)\<rparr>"
  obtain r3 p3 z3 where cp: "check_prepared_level m (p2, z1) = (r3, (p3, z3))" by (rule prod_cases3)
  have h: "hal_write k m e s = (if r \<noteq> 0 then (r, (p1, z1))
      else if state p1 \<noteq> PCM_PREPARED then (0, (p1\<lparr>written := wrap64 (written p1 + length d)\<rparr>, z1))
      else if r3 \<noteq> 0 then (- EIO, (p3, z3))
      else if start_bytes k \<le> prepared_level p3 then stream_start m (p3, z3) else (0, (p3, z3)))"
    unfolding hal_write_def s prod.case ff w Let_def using cp by (simp add: p2_def)
  have "r = 0" using ok unfolding h by (auto split: if_splits)
  then have z1: "log z1 = log z @ d"
    using write_attempts_log [OF c, of d 1 "(p0, z)"] by (simp only: w fst_conv snd_conv)
  have z3: "log z3 = log z1"
    using within_check_prepared [OF log_within [OF c], where z = "z1" and s = "(p2, z1)"] by (simp only: cp fst_conv snd_conv)
  have z4: "log (snd (snd (stream_start m (p3, z3)))) = log z3"
    using within_stream_start [OF log_within [OF c], where z = "z3" and s = "(p3, z3)"] by simp
  show ?thesis unfolding h using \<open>r = 0\<close> z1 z3 z4 by (simp add: s ff)
qed

text \<open>What the ring has been given and what the driver still holds, against what it took.\<close>

definition delivered :: "pcm_params \<Rightarrow> ('z \<Rightarrow> bytes) \<Rightarrow> 'z pcm \<Rightarrow> bytes \<Rightarrow> 'z pcm \<Rightarrow> bool" where
  "delivered k log s taken t \<longleftrightarrow>
     (\<exists>e. even (length e) \<and> held (fst s) @ taken = e @ held (fst t)
        \<and> log (snd t) = log (snd s) @ dma_frames k (muted (fst s)) e) \<and> muted (fst t) = muted (fst s)"

lemma dma_frames_nil [simp]: "dma_frames k u [] = []"
  by (simp add: dma_frames_def)

lemma delivered_nothing:
  "keeps_device (fst s) (fst t) \<Longrightarrow> log (snd t) = log (snd s) \<Longrightarrow> delivered k log s [] t"
  using kept_held [of "fst s" "fst t"] by (auto simp: delivered_def intro!: exI [of _ "[]"])

lemma delivered_trans:
  assumes "delivered k log s a t" and "delivered k log t b u"
  shows "delivered k log s (a @ b) u"
proof -
  obtain e f where e: "even (length e)" "held (fst s) @ a = e @ held (fst t)"
      "log (snd t) = log (snd s) @ dma_frames k (muted (fst s)) e"
    and f: "even (length f)" "held (fst t) @ b = f @ held (fst u)"
      "log (snd u) = log (snd t) @ dma_frames k (muted (fst s)) f"
    and m: "muted (fst u) = muted (fst s)"
  proof -
    from assms(1) obtain e where "even (length e)" "held (fst s) @ a = e @ held (fst t)"
        "log (snd t) = log (snd s) @ dma_frames k (muted (fst s)) e" "muted (fst t) = muted (fst s)"
      unfolding delivered_def by blast
    moreover from assms(2) obtain f where "even (length f)" "held (fst t) @ b = f @ held (fst u)"
        "log (snd u) = log (snd t) @ dma_frames k (muted (fst t)) f" "muted (fst u) = muted (fst t)"
      unfolding delivered_def by blast
    ultimately show thesis by (intro that [of e f]) simp_all
  qed
  have "held (fst s) @ a @ b = (e @ f) @ held (fst u)"
    using e(2) f(2) by (metis append_assoc)
  then show ?thesis
    unfolding delivered_def using e f m by (intro conjI exI [of _ "e @ f"]) (simp_all add: dma_frames_append)
qed

lemma hal_set_gain_result: "fst (hal_set_gain m db s) = 0 \<or> fst (hal_set_gain m db s) = - EIO"
proof -
  have "fst (set_gain_channels m db cs u) = 0 \<or> fst (set_gain_channels m db cs u) = - EIO" for cs u
    by (induction cs arbitrary: u) (auto simp: split_def)
  then show ?thesis unfolding hal_set_gain_def .
qed

lemma stream_start_result: "fst (stream_start m s) = 0 \<or> fst (stream_start m s) = - EIO"
  using hal_set_gain_result [of m "audible_gain (fst s)" s] by (auto simp: stream_start_def split_def hal_fail_def)

lemma write_attempts_result: "fst (write_attempts m d n s) = 0 \<or> fst (write_attempts m d n s) = - EIO"
proof (induction n arbitrary: s)
  case (Suc n)
  show ?case using Suc.IH by (cases s) (auto simp: split_def hal_fail_def)
qed (simp add: split_def hal_fail_def)

lemma hal_write_result: "fst (hal_write k m e s) = 0 \<or> fst (hal_write k m e s) = - EIO"
proof -
  obtain p z where s: "s = (p, z)" by (rule prod.exhaust)
  obtain d p0 where ff: "fill_frames k e p = (d, p0)" by (rule prod.exhaust)
  obtain r p1 z1 where w: "write_attempts m d 1 (p0, z) = (r, (p1, z1))" by (rule prod_cases3)
  define p2 where "p2 = p1\<lparr>written := wrap64 (written p1 + length d),
    prepared_level := wrap32 (prepared_level p1 + length d)\<rparr>"
  obtain r3 p3 z3 where cp: "check_prepared_level m (p2, z1) = (r3, (p3, z3))" by (rule prod_cases3)
  have "r = 0 \<or> r = - EIO" using write_attempts_result [of m d 1 "(p0, z)"] by (simp only: w fst_conv)
  moreover have "fst (stream_start m (p3, z3)) = 0 \<or> fst (stream_start m (p3, z3)) = - EIO"
    by (rule stream_start_result)
  moreover have "hal_write k m e s = (if r \<noteq> 0 then (r, (p1, z1))
      else if state p1 \<noteq> PCM_PREPARED then (0, (p1\<lparr>written := wrap64 (written p1 + length d)\<rparr>, z1))
      else if r3 \<noteq> 0 then (- EIO, (p3, z3))
      else if start_bytes k \<le> prepared_level p3 then stream_start m (p3, z3) else (0, (p3, z3)))"
    unfolding hal_write_def s prod.case ff w Let_def using cp by (simp add: p2_def)
  ultimately show ?thesis by (auto split: if_splits)
qed

lemma hal_write_negative: "fst (hal_write k m e s) \<noteq> 0 \<Longrightarrow> fst (hal_write k m e s) < 0"
  using hal_write_result [of k m e s] by auto

text \<open>
  A \<open>push_input\<close> that reports no error took the first bytes of its source and delivered what it did
  not keep; one that reports an error has failed the device or left it as it was.
\<close>

lemma push_input_delivers:
  assumes k: "good_params k" and p: "wf_device k (fst s)" and c: "log_contract m log"
    and out: "push_input k m src s = (r, t)"
  shows "(r < 0 \<and> (state (fst t) = PCM_FAILED \<or> delivered k log s [] t))
    \<or> (0 \<le> r \<and> nat r \<le> length src \<and> delivered k log s (take (nat r) src) t)"
proof -
  obtain r0 level s1 where l: "hal_level m s = (r0, level, s1)" by (rule prod_cases3)
  obtain q z1 where sm: "stream_measure m level s1 = (q, z1)" by (rule prod.exhaust)
  obtain fault z2 where uf: "user_fault m (snd s1) = (fault, z2)" by (rule prod.exhaust)
  have lw: "log (snd s1) = log (snd s)"
    using within_hal_level [OF log_within [OF c], where z = "snd s" and s = s] by (simp add: l)
  have z1: "z1 = snd s1" using stream_measure_keeps(3) [of m level s1] by (simp add: sm)
  have z2: "log z2 = log (snd s)"
    using within_calls(12) [OF log_within [OF c], where z = "snd s1" and a = "snd s1"] lw by (simp add: uf)
  have k1: "keeps_device (fst s) (fst s1)" using kept_hal_level [of "fst s" s m] by (simp add: l)
  have k2: "keeps_device (fst s) q" using kept_stream_measure [of "fst s" s1 m level] k1 by (simp add: sm)
  consider (failed) "state (fst s) = PCM_FAILED" | (level) "state (fst s) \<noteq> PCM_FAILED" "r0 \<noteq> 0"
    | (stall) "state (fst s) \<noteq> PCM_FAILED" "r0 = 0" "push_room k level < input_align k"
    | (fault) "state (fst s) \<noteq> PCM_FAILED" "r0 = 0" "input_align k \<le> push_room k level" "fault"
    | (copy) "state (fst s) \<noteq> PCM_FAILED" "r0 = 0" "input_align k \<le> push_room k level" "\<not> fault"
    by fastforce
  then show ?thesis
  proof cases
    case failed
    then show ?thesis using out by (auto simp: push_input_def)
  next
    case level
    have "r0 = - EIO" using l level by (cases s) (simp add: hal_level_def hal_fail_def split_def split: if_splits)
    then show ?thesis
      using out level failed_hal_level(1) [of m s] by (auto simp: push_input_cases [OF k p l] l)
  next
    case stall
    have kd: "keeps_device (fst s) (fst t)" "log (snd t) = log (snd s)"
      using out stall kept_detect_stall [of "fst s" "(q, z1)" k m level] k2
        within_detect_stall [OF log_within [OF c], where z = "z1" and s = "(q, z1)" and k = k and l = level] lw z1
      by (simp_all add: push_input_cases [OF k p l] sm)
    have "primed k q"
      using stream_measure_keeps(1,2) [of m level s1] p stall failed_hal_level(2) [of m s]
      by (simp add: sm l wf_device_def primed_def)
    then have "r = 0 \<or> r = - EIO \<and> state (fst t) = PCM_FAILED"
      using out stall detect_stall_primed(2,3) [OF good_channels(2) [OF k], of "(q, z1)" m level]
      by (auto simp: push_input_cases [OF k p l] sm)
    then show ?thesis using delivered_nothing [OF kd] by auto
  next
    case fault
    then have t: "r = - EFAULT" "t = (q\<lparr>stall_armed := False\<rparr>, z2)"
      using out by (simp_all add: push_input_cases [OF k p l] sm uf)
    have "keeps_device (fst s) (fst t)" using k2 by (simp add: t keeps_device_def)
    then have "delivered k log s [] t" by (rule delivered_nothing) (simp add: t z2)
    then show ?thesis by (simp add: t)
  next
    case copy
    have "primed k q"
      using stream_measure_keeps(1,2) [of m level s1] p copy failed_hal_level(2) [of m s]
      by (simp add: sm l wf_device_def primed_def)
    then have wq: "wf_device k q" using p k2 by (blast intro: wf_kept)
    let ?rq = "push_ready k level q src" and ?e = "push_emit k level q src" and ?n = "push_take k level q src"
    note b = push_bounds [OF k wq copy(3), of src] and rk = push_ready_kept [OF k wq copy(3), of src]
    define j where "j = push_joined k level q src"
    have hq: "held q = held (fst s)" "muted q = muted (fst s)" using kept_held [OF k2] by simp_all
    have j: "j = held (fst s) @ take ?n src" by (simp add: j_def push_joined_def hq(1) flip: held_def)
    have n: "?n \<le> length src" by (simp add: push_take_def)
    have stq: "staged q + ?n \<le> length (staging q)" using wq b(1) by (simp add: wf_device_def)
    have jl: "length j = staged q + ?n" using stq n by (simp add: j_def push_joined_def)
    have sj: "take (staged q + ?n) (staging ?rq) = j"
      using take_patch [of "staged q" "staging q" "take ?n src"] stq n
      by (simp add: push_ready_def j_def push_joined_def min.absorb2)
    have split: "take ?e j @ take (staged q + ?n - ?e) (drop ?e (staging ?rq)) = j"
      using sj b(2) by (metis append_take_drop_id drop_take le_add_diff_inverse min.absorb1 take_take)
    show ?thesis
    proof (cases "?e = 0")
      case True
      then have t: "r = int ?n" "t = (?rq, z2)"
        using out copy by (simp_all add: push_input_cases [OF k p l] sm uf)
      have "held ?rq = j" using sj True by (simp add: held_def push_ready_def)
      then show ?thesis
        using n z2 rk(5) by (auto simp: t delivered_def j hq intro!: exI [of _ "[]"])
    next
      case False
      obtain ret p' z' where hw: "hal_write k m (take ?e j) (?rq, z2) = (ret, (p', z'))" by (rule prod_cases3)
      have len: "length (take ?e j) = ?e" using b(2) jl by simp
      have fit: "?e * channels k \<le> period_bytes k"
        using b(2,1) good_channels(7) [OF k] by (metis le_trans mult_le_mono1)
      note hk = hal_write_keeps [OF k, of "(?rq, z2)" "take ?e j" m, unfolded hw fst_conv snd_conv len]
      have fr: "length (frames ?rq) = period_bytes k" using rk(1) by (simp add: wf_device_def)
      show ?thesis
      proof (cases "ret = 0")
        case True
        define u where "u = p'\<lparr>staging := patch (staging p') 0 (take (staged p') (drop ?e (staging p')))\<rparr>"
        have t: "r = int ?n" "t = (u, z')"
          using out copy False True by (simp_all add: push_input_cases [OF k p l] sm uf hw [unfolded j_def] u_def)
        have kp: "staging p' = staging ?rq" "staged p' = staged q + ?n - ?e" "muted p' = muted q"
          using hk(1) [OF fr b(5) fit] rk(5) by (simp_all add: keeps_device_def push_ready_def)
        have "staged q + ?n - ?e \<le> length (drop ?e (staging ?rq))"
          using stq b(2) n by (simp add: push_ready_def min.absorb2)
        then have "held u = take (staged q + ?n - ?e) (drop ?e (staging ?rq))"
          by (simp add: u_def held_def kp patch_def)
        then have "held (fst s) @ take ?n src = take ?e j @ held u" using split j by simp
        moreover have "log z' = log z2 @ dma_frames k (muted ?rq) (take ?e j)"
          using hal_write_log [OF c, of k "take ?e j" "(?rq, z2)"]
            fill_frames_eq(1) [of "take ?e j" k ?rq] True fit fr b(5) good_channels(1,3) [OF k]
          by (simp only: hw fst_conv snd_conv len)
        ultimately show ?thesis
          using n z2 rk(5) kp(3) b(5) len hq by (auto simp: t delivered_def u_def intro!: exI [of _ "take ?e j"])
      next
        case bad: False
        have t: "r = ret" "t = (p', z')"
          using out copy False bad by (simp_all add: push_input_cases [OF k p l] sm uf hw [unfolded j_def])
        have "state p' = PCM_FAILED" using hk(3) [OF fr b(5) fit bad] .
        moreover have "ret < 0" using hw bad hal_write_negative [of k m "take ?e j" "(?rq, z2)"] by simp
        ultimately show ?thesis by (simp add: t)
      qed
    qed
  qed
qed

text \<open>The loop of a write, from \<open>n\<close> bytes taken on.\<close>

definition write_loop_post ::
  "pcm_params \<Rightarrow> ('z \<Rightarrow> bytes) \<Rightarrow> bytes \<Rightarrow> nat \<Rightarrow> 'z pcm \<Rightarrow> int \<times> nat \<times> 'z pcm \<Rightarrow> bool" where
  "write_loop_post k log buf n s y \<longleftrightarrow> (case y of (r, n', t) \<Rightarrow>
     n \<le> n' \<and> n' \<le> length buf \<and> wf_device k (fst t)
     \<and> (state (fst t) = PCM_FAILED \<or> delivered k log s (take (n' - n) (drop n buf)) t)
     \<and> (0 \<le> r \<longrightarrow> n' = length buf \<and> r = 0))"

lemma write_loop_post_step:
  assumes "n + i \<le> length buf" and "delivered k log s (take i (drop n buf)) u"
    and "write_loop_post k log buf (n + i) u y"
  shows "write_loop_post k log buf n s y"
proof -
  obtain r n' t where y: "y = (r, n', t)" by (rule prod_cases3)
  have t: "n + i \<le> n'" "n' \<le> length buf" "wf_device k (fst t)" "0 \<le> r \<longrightarrow> n' = length buf \<and> r = 0"
    "state (fst t) = PCM_FAILED \<or> delivered k log u (take (n' - (n + i)) (drop (n + i) buf)) t"
    using assms(3) by (simp_all add: write_loop_post_def y)
  have "take (n' - n) (drop n buf) = take i (drop n buf) @ take (n' - (n + i)) (drop (n + i) buf)"
    using t(1) by (simp add: take_drop_split [of i "n' - n" n buf])
  moreover have "delivered k log u b t \<Longrightarrow> delivered k log s (take i (drop n buf) @ b) t" for b
    by (rule delivered_trans [OF assms(2)])
  ultimately show ?thesis using t by (auto simp: write_loop_post_def y simp del: append_take_drop_id)
qed

lemma delivered_refl: "delivered k log s [] s"
  by (rule delivered_nothing) simp_all

lemma delivered_waited: "log (snd t) = log (snd s) \<Longrightarrow> fst t = fst s \<Longrightarrow> delivered k log s [] t"
  by (rule delivered_nothing) simp_all

lemma write_loop_delivers:
  assumes k: "good_params k" and c: "log_contract m log" and p: "wf_device k (fst s)" and n: "n \<le> length buf"
    and "write_loop k m nonblock buf n s = Some y"
  shows "write_loop_post k log buf n s y"
proof (rule write_loop.raw_induct [where P = "\<lambda>k m nonblock buf n s y. good_params k \<longrightarrow> log_contract m log \<longrightarrow>
    wf_device k (fst s) \<longrightarrow> n \<le> length buf \<longrightarrow> write_loop_post k log buf n s y",
    OF _ assms(5), rule_format, OF _ k c p n])
  fix f k m nonblock buf n and s :: "'a pcm" and y
  assume IH: "\<And>k m nonblock buf n s y. f k m nonblock buf n s = Some y \<Longrightarrow> good_params k \<Longrightarrow> log_contract m log \<Longrightarrow>
      wf_device k (fst s) \<Longrightarrow> n \<le> length buf \<Longrightarrow> write_loop_post k log buf n s y"
    and body: "(if length buf \<le> n then Some (0, n, s)
      else case push_input k m (drop n buf) s of (r, (p, z)) \<Rightarrow>
        if r < 0 then Some (r, n, (p, z))
        else if r \<noteq> 0 then f k m nonblock buf (n + nat r) (p, z)
        else if nonblock then Some (- EAGAIN, n, (p, z))
        else
          let z = nap m (wait_jiffies p) z in
          if signal_pending m z then Some (- ERESTARTSYS, n, (p, z))
          else f k m nonblock buf n (p, z)) = Some y"
    and k: "good_params k" and c: "log_contract m log" and p: "wf_device k (fst s)" and n: "n \<le> length buf"
  obtain r q z where push: "push_input k m (drop n buf) s = (r, (q, z))" by (rule prod_cases3)
  have wq: "wf_device k q" using push_input_sound [OF k p, of m "drop n buf"] by (simp add: push)
  have d: "(r < 0 \<and> (state q = PCM_FAILED \<or> delivered k log s [] (q, z)))
      \<or> (0 \<le> r \<and> nat r \<le> length buf - n \<and> delivered k log s (take (nat r) (drop n buf)) (q, z))"
    using push_input_delivers [OF k p c push] by simp
  have nap: "log (nap m (wait_jiffies q) z) = log z"
    using within_calls(11) [OF log_within [OF c], where z = z and a = z] by simp
  consider (all) "length buf \<le> n" | (bad) "n < length buf" "r < 0" | (more) "n < length buf" "0 < r"
    | (wait) "n < length buf" "r = 0" by linarith
  then show "write_loop_post k log buf n s y"
  proof cases
    case all
    then show ?thesis using body n p by (auto simp: write_loop_post_def delivered_refl)
  next
    case bad
    then show ?thesis using body d wq by (auto simp: write_loop_post_def push)
  next
    case more
    then have le: "n + nat r \<le> length buf" using d by auto
    with more have "write_loop_post k log buf (n + nat r) (q, z) y"
      using body d wq by (intro IH [of k m nonblock]) (simp_all add: push k c)
    then show ?thesis using more d le by (intro write_loop_post_step [of n "nat r"]) simp_all
  next
    case wait
    then have q: "delivered k log s [] (q, z)" using d by simp
    define z' where "z' = nap m (wait_jiffies q) z"
    have q': "delivered k log s [] (q, z')"
      using delivered_trans [OF q delivered_waited [of log "(q, z')" "(q, z)"]] nap by (simp add: z'_def)
    show ?thesis
    proof (cases "nonblock \<or> signal_pending m z'")
      case True
      then show ?thesis
        using body wait wq q q' by (auto simp: push Let_def z'_def write_loop_post_def split: if_splits)
    next
      case False
      then have "write_loop_post k log buf (n + 0) (q, z') y"
        using body wait wq by (intro IH [of k m nonblock]) (simp_all add: push k c z'_def Let_def)
      then show ?thesis using q' n by (intro write_loop_post_step [of n 0]) simp_all
    qed
  qed
qed

lemma pcm_write_delivers_lemma:
  assumes k: "good_params k" and c: "log_contract m log" and p: "wf_device k (fst s)"
    and w: "pcm_write k m nonblock buf s = Some (r, t)" and r: "0 \<le> r" and ok: "state (fst t) \<noteq> PCM_FAILED"
  shows "nat r \<le> length buf \<and> length (held (fst t)) < input_align k
    \<and> delivered k log s (take (nat r) buf) t"
proof (cases "length buf mod 2 = 1")
  case True
  then show ?thesis using w r by (simp add: pcm_write_def)
next
  case False
  then obtain r' n' where l: "write_loop k m nonblock buf 0 s = Some (r', n', t)"
      and r': "r = (if n' \<noteq> 0 then int n' else r')"
    using w by (auto simp: pcm_write_def)
  have post: "write_loop_post k log buf 0 s (r', n', t)"
    by (rule write_loop_delivers [OF k c p _ l]) simp
  have "nat r = n'" using r r' post by (auto simp: write_loop_post_def split: if_splits)
  then show ?thesis using post ok by (auto simp: write_loop_post_def held_def wf_device_def)
qed

text \<open>A write that does not block returns, whatever the vendor calls answer.\<close>

lemma push_input_taken:
  assumes k: "good_params k" and p: "wf_device k (fst s)" and out: "push_input k m src s = (r, t)"
  shows "nat r \<le> length src"
proof -
  obtain r0 level s1 where l: "hal_level m s = (r0, level, s1)" by (rule prod_cases3)
  obtain q z1 where sm: "stream_measure m level s1 = (q, z1)" by (rule prod.exhaust)
  obtain fault z2 where uf: "user_fault m (snd s1) = (fault, z2)" by (rule prod.exhaust)
  have lv: "r0 = 0 \<or> r0 = - EIO"
    using l by (cases s) (simp add: hal_level_def hal_fail_def split_def split: if_splits)
  have st: "fst (detect_stall k m level (q, z1)) = 0 \<or> fst (detect_stall k m level (q, z1)) = - EIO"
    by (simp add: detect_stall_def stream_prepare_result)
  have n: "push_take k level q src \<le> length src" by (simp add: push_take_def)
  obtain ret p' z' where hw: "hal_write k m (take (push_emit k level q src) (push_joined k level q src))
      (push_ready k level q src, z2) = (ret, (p', z'))" by (rule prod_cases3)
  have "ret \<noteq> 0 \<Longrightarrow> ret < 0" using hal_write_negative [of k m] hw by (metis fst_conv)
  then show ?thesis
    using out lv st n by (auto simp: push_input_cases [OF k p l] sm uf hw Let_def split: if_splits)
qed

lemma nonblocking_write_loop_returns:
  assumes k: "good_params k"
  shows "wf_device k (fst s) \<Longrightarrow> \<exists>y. write_loop k m True buf n s = Some y"
proof (induction "length buf - n" arbitrary: n s rule: less_induct)
  case less
  obtain r q z where push: "push_input k m (drop n buf) s = (r, (q, z))" by (rule prod_cases3)
  have wq: "wf_device k q" using push_input_sound [OF k less.prems, of m "drop n buf"] by (simp add: push)
  show ?case
  proof (cases "n < length buf \<and> 0 < r")
    case False
    then show ?thesis by (subst write_loop.simps) (auto simp: push)
  next
    case True
    then have "\<exists>y. write_loop k m True buf (n + nat r) (q, z) = Some y"
      using wq by (intro less.hyps) auto
    with True show ?thesis by (subst write_loop.simps) (auto simp: push)
  qed
qed

section \<open>A drain ends\<close>














section \<open>The loaded driver\<close>

definition pcm_zero :: pcm_device where
  "pcm_zero = \<lparr>in_use = False, wait_jiffies = 0, wake_timer = False, ready = False, hal_open = False,
     level_logged = False, state = PCM_CLOSED, dma_miu_addr = 0, staging = [], frames = [], staged = 0,
     prepared_level = 0, silence_tail = 0, stall_armed = False, stall_level = 0, stall_since = 0, gain_db = 0,
     muted = False, written = 0, stream_base = 0, stream_begin = 0, underruns = 0, hal_error = 0, measured_rate = 0\<rparr>"

definition whole_allocations :: "load_answers \<Rightarrow> bool" where
  "whole_allocations ans \<longleftrightarrow> (\<forall>n bs. staging_alloc ans n = Some bs \<longrightarrow> length bs = n)
     \<and> (\<forall>n bs. frames_alloc ans n = Some bs \<longrightarrow> length bs = n)"

lemma pcm_init_loaded:
  assumes "pcm_init k m ans pcm_zero = (0, res, p)" and "whole_allocations ans"
    and "period_bytes k < 2 ^ 31 - 128" and "start_bytes k < 2 ^ 32 - 256"
  shows "good_params k" and "pcm_inv k p" and "ready p"
    and "set res = {STAGING_MEMORY, FRAMES_MEMORY, MISC_DEVICE, DMA_RING}"
proof -
  have c: "check_params k = 0"
    using assms(1) by (auto simp: pcm_init_def split: if_splits)
  then show k: "good_params k" using check_params_iff [OF assms(3,4)] by simp
  obtain a where a: "staging_alloc ans (staging_capacity k) = Some a"
    using assms(1) by (cases "staging_alloc ans (staging_capacity k)") (simp_all add: pcm_init_def c Let_def)
  obtain b where b: "frames_alloc ans (period_bytes k) = Some b"
    using assms(1) by (cases "frames_alloc ans (period_bytes k)") (simp_all add: pcm_init_def c a Let_def)
  have r: "register_result ans = 0"
    using assms(1) by (cases "register_result ans = 0") (simp_all add: pcm_init_def c a b Let_def)
  obtain h where h: "dma_alloc ans (buffer_bytes k) = Some h"
    using assms(1) by (cases "dma_alloc ans (buffer_bytes k)") (simp_all add: pcm_init_def c a b r Let_def)
  define j where "j = max 1 (to_jiffies m (wrap32 (period_bytes k * 500) div dma_bytes_per_second k))"
  define u where "u = wrap64 (h + (2 ^ 64 - 0x20000000))"
  have p: "p = pcm_zero\<lparr>wait_jiffies := j, staging := a, frames := b, dma_miu_addr := wrap32 u, ready := True\<rparr>"
      "res = [DMA_RING, MISC_DEVICE, STAGING_MEMORY, FRAMES_MEMORY]"
    using assms(1) unfolding pcm_init_def Let_def a b r h c j_def [symmetric] held_if_def
    by (auto simp: u_def split: if_splits)
  have l: "length a = staging_capacity k" "length b = period_bytes k"
    using a b assms(2) by (auto simp: whole_allocations_def)
  then show "pcm_inv k p"
    unfolding pcm_inv_def wf_device_def primed_def
    by (simp add: p(1) pcm_zero_def good_channels(5) [OF k])
  show "ready p" by (simp add: p(1))
  show "set res = {STAGING_MEMORY, FRAMES_MEMORY, MISC_DEVICE, DMA_RING}" by (auto simp: p(2))
qed

lemma pcm_init_fails_clean:
  "fst (pcm_init k m ans p) \<noteq> 0 \<Longrightarrow> fst (snd (pcm_init k m ans p)) = [] \<and> ready (snd (snd (pcm_init k m ans p))) = ready p"
  by (auto simp: pcm_init_def Let_def free_buffers_def held_if_def split: option.splits if_splits)

text \<open>The two overflows the size checks let through.\<close>

lemma check_params_overflow:
  "check_params \<lparr>channels = 1, buffer_bytes = 4096, period_bytes = 0x80000000, start_bytes = 0xFFFFFF00,
     initial_gain_db = - 28, max_gain_db = - 3\<rparr> = 0"
  by (simp add: check_params_def wrap32_def)

section \<open>An example of the environment\<close>

text \<open>A ring of 4096 bytes that plays 32 bytes in every sleep, a log of what it was given, and a clock.\<close>

record demo =
  ring_fill :: nat
  ring_log :: bytes
  ticks :: nat

definition demo_write :: "bytes \<Rightarrow> demo \<Rightarrow> int \<times> demo" where
  "demo_write d z =
     (if 4096 < ring_fill z + length d then (WRITE_FULL, z)
      else (int (length d), z\<lparr>ring_fill := ring_fill z + length d, ring_log := ring_log z @ d\<rparr>))"

definition demo_sleep :: "demo \<Rightarrow> demo" where
  "demo_sleep z = z\<lparr>ring_fill := ring_fill z - 32, ticks := ticks z + 1\<rparr>"

definition demo_hal :: "demo hal" where
  "demo_hal = \<lparr>mhal_init = (\<lambda>z. (0, z)), mhal_config = (\<lambda>_ z. (0, z)), mhal_open = (\<lambda>z. (0, z)),
     mhal_close = (\<lambda>z. (0, z)), mhal_start = (\<lambda>z. (0, z)), mhal_stop = (\<lambda>z. (0, z)), mhal_write = demo_write,
     mhal_restart = (\<lambda>z. (0, z\<lparr>ring_fill := 0\<rparr>)), mhal_gain = (\<lambda>_ _ z. (0, z)),
     mhal_level = (\<lambda>z. (if ring_fill z \<le> 4096 then 0 else 1, of_nat (ring_fill z), z)),
     jiffies = (\<lambda>z. of_nat (ticks z)),
     ktime_us = (\<lambda>z. int (ticks z) * 10000), to_jiffies = (\<lambda>ms. of_nat (ms div 10)), pause_us = (\<lambda>_. demo_sleep),
     nap = (\<lambda>_. demo_sleep), signal_pending = (\<lambda>_. False), fatal_signal = (\<lambda>_. False),
     user_fault = (\<lambda>z. (False, z))\<rparr>"

definition demo_params :: pcm_params where
  "demo_params = \<lparr>channels = 1, buffer_bytes = 4096, period_bytes = 256, start_bytes = 512,
     initial_gain_db = - 28, max_gain_db = - 3\<rparr>"

definition demo_answers :: load_answers where
  "demo_answers = \<lparr>staging_alloc = (\<lambda>n. Some (replicate n 7)), frames_alloc = (\<lambda>n. Some (replicate n 7)),
     register_result = 0, dma_alloc = (\<lambda>_. Some 0x20001000)\<rparr>"

definition demo_device :: pcm_device where
  "demo_device = snd (snd (pcm_init demo_params demo_hal demo_answers pcm_zero))"

definition demo_start :: demo where
  "demo_start = \<lparr>ring_fill = 0, ring_log = [], ticks = 5\<rparr>"

lemmas demo_simps = demo_params_def demo_hal_def demo_answers_def demo_start_def demo_sleep_def demo_write_def

lemma demo_loads:
  "\<exists>res. pcm_init demo_params demo_hal demo_answers pcm_zero = (0, res, demo_device)"
  unfolding demo_device_def
  by (simp add: pcm_init_def demo_simps check_params_def wrap32_def wrap64_def Let_def)

lemma demo_allocations: "whole_allocations demo_answers"
  by (simp add: whole_allocations_def demo_answers_def)

lemma demo_sizes: "period_bytes demo_params < 2 ^ 31 - 128" "start_bytes demo_params < 2 ^ 32 - 256"
  by (simp_all add: demo_params_def)

lemma demo_ring: "ring_contract demo_params demo_hal ring_fill (\<lambda>z. ring_fill z + GUARD_BYTES \<le> 4096)"
  by (auto simp: ring_contract_def calls_within_def demo_simps unat_of_nat)

lemma demo_log: "log_contract demo_hal ring_log"
  by (auto simp: log_contract_def calls_within_def demo_simps)


lemma demo_device_eq: "demo_device = pcm_zero\<lparr>wait_jiffies := 1, staging := replicate 256 7,
  frames := replicate 256 7, dma_miu_addr := 0x1000, ready := True\<rparr>"
  by (simp add: demo_device_def pcm_init_def demo_simps check_params_def wrap32_def wrap64_def Let_def
      dma_bytes_per_second_def staging_capacity_def)

definition demo_opened :: "demo pcm" where
  "demo_opened = snd (pcm_open demo_params demo_hal (demo_device, demo_start))"

lemma demo_opened_eq: "demo_opened = (pcm_zero\<lparr>in_use := True, wait_jiffies := 1, ready := True, hal_open := True,
  state := PCM_PREPARED, dma_miu_addr := 0x1000, staging := replicate 256 7, frames := replicate 256 7, gain_db := - 28\<rparr>,
  demo_start)"
  by (simp add: demo_opened_def demo_device_eq pcm_open_def open_hal_def reset_stream_def pcm_zero_def hal_set_gain_def
      hal_level_def demo_simps clamp_gain_def Let_def)

lemma demo_reachable:
  "(pcm_step demo_params demo_hal (\<lambda>z z'. z' = demo_sleep z))\<^sup>*\<^sup>* (demo_device, demo_start) demo_opened"
  unfolding demo_opened_def by (rule r_into_rtranclp, rule open_step)

lemma demo_good: "good_params demo_params"
  by (simp add: good_params_def demo_params_def)

lemma demo_wf: "wf_device demo_params (fst demo_opened)"
  by (simp add: demo_opened_eq wf_device_def primed_def pcm_zero_def demo_params_def staging_capacity_def input_align_def)

lemma demo_hal_level: "ring_fill z \<le> 4096 \<Longrightarrow> hal_level demo_hal (p, z) = (0, ring_fill z, (p, z))"
  by (simp add: hal_level_def demo_hal_def unat_of_nat)

lemma demo_check:
  assumes "prepared_level p = ring_fill z" and "ring_fill z \<le> 4096" and "\<not> level_logged p"
  shows "check_prepared_level demo_hal (p, z) = (0, (p\<lparr>level_logged := True\<rparr>, z))"
proof -
  have "settle_level demo_hal (Suc 9) 0 (p, z) = (0, ring_fill z, (p, z))"
    unfolding settle_level.simps(2) demo_hal_level [OF assms(2)] using assms(1) by simp
  then show ?thesis using assms by (simp add: check_prepared_level_def)
qed

definition demo_bytes :: bytes where
  "demo_bytes = [1, 2, 3, 4, 5, 6, 7, 8, 9, 10, 11, 12, 13, 14, 15, 16, 17, 18]"

lemma demo_push:
  "push_input demo_params demo_hal demo_bytes demo_opened
    = (18, (fst demo_opened\<lparr>staging := 17 # 18 # drop 2 (demo_bytes @ replicate 238 7), staged := 2,
         prepared_level := 16, written := 16, level_logged := True\<rparr>,
       demo_start\<lparr>ring_fill := 16, ring_log := take 16 demo_bytes\<rparr>))"
proof -
  have l: "hal_level demo_hal demo_opened = (0, 0, demo_opened)"
    unfolding demo_opened_eq using demo_hal_level [of demo_start] by (simp add: demo_start_def)
  have m: "stream_measure demo_hal 0 demo_opened = demo_opened"
    by (simp add: demo_opened_eq stream_measure_def)
  have room: "push_room demo_params 0 = 256" "input_align demo_params = 16"
    by (simp_all add: push_room_def free_dma_bytes_def demo_params_def wrap32_def staging_capacity_def input_align_def)
  have e: "push_take demo_params 0 (fst demo_opened) demo_bytes = 18" "push_emit demo_params 0 (fst demo_opened) demo_bytes = 16"
    by (simp_all add: push_take_def push_emit_def room demo_opened_eq demo_bytes_def pcm_zero_def)
  have j: "take 16 (push_joined demo_params 0 (fst demo_opened) demo_bytes) = take 16 demo_bytes"
    by (simp add: push_joined_def e) (simp add: demo_opened_eq pcm_zero_def demo_bytes_def)
  define q where "q = fst demo_opened\<lparr>staging := demo_bytes @ replicate 238 7, staged := 2\<rparr>"
  have q: "push_ready demo_params 0 (fst demo_opened) demo_bytes = q"
    by (simp add: push_ready_def e q_def) (simp add: demo_opened_eq pcm_zero_def demo_bytes_def patch_def)
  have qs: "state q = PCM_PREPARED" "prepared_level q = 0" "written q = 0" "\<not> level_logged q" "\<not> muted q"
      "staged q = 2" "staging q = demo_bytes @ replicate 238 7"
    by (simp_all add: q_def demo_opened_eq pcm_zero_def)
  let ?z = "demo_start\<lparr>ring_fill := 16, ring_log := take 16 demo_bytes\<rparr>"
  have len: "min (length demo_bytes) 16 = 16" by (simp add: demo_bytes_def)
  have w: "mhal_write demo_hal (take 16 demo_bytes) demo_start = (16, ?z)"
    using len by (simp add: demo_hal_def demo_write_def demo_start_def)
  have c: "check_prepared_level demo_hal (q\<lparr>written := 16, prepared_level := 16\<rparr>, ?z)
      = (0, (q\<lparr>written := 16, prepared_level := 16, level_logged := True\<rparr>, ?z))"
    by (subst demo_check) (simp_all add: qs)
  have h: "hal_write demo_params demo_hal (take 16 demo_bytes) (q, demo_start)
      = (0, (q\<lparr>written := 16, prepared_level := 16, level_logged := True\<rparr>, ?z))"
    using c by (simp add: hal_write_def fill_frames_def qs demo_params_def w len wrap32_def wrap64_def)
  have u: "user_fault demo_hal (snd demo_opened) = (False, demo_start)"
    by (simp add: demo_hal_def demo_opened_eq)
  have "state (fst demo_opened) \<noteq> PCM_FAILED" by (simp add: demo_opened_eq)
  then show ?thesis
    unfolding push_input_cases [OF demo_good demo_wf l] m u prod.case Let_def e j q h room
    by (simp add: qs) (simp add: q_def demo_bytes_def patch_def)
qed

section \<open>Properties\<close>

text \<open>
  C17. The speaker driver keeps its state well formed whatever the vendor calls, the clock and user
  memory do and however the critical sections of open, write, drain, stop, the ioctls, poll and release
  interleave: the staging buffer never holds a whole DMA word, so it cannot overflow; the device is open
  in the vendor library exactly while a file is open, in which case a second open is refused and changes
  nothing; a prepared stream is below its start level; and the gain stays in its range.
\<close>

theorem pcm_driver_invariant:
  assumes "pcm_init k m ans pcm_zero = (0, res, p0)" and "whole_allocations ans"
    and "period_bytes k < 2 ^ 31 - 128" and "start_bytes k < 2 ^ 32 - 256"
    and "(pcm_step k m env)\<^sup>*\<^sup>* (p0, z0) (p, z)"
  shows "staged p < input_align k \<and> input_align k \<le> length (staging p)
    \<and> length (staging p) * channels k = length (frames p)
    \<and> (in_use p \<longleftrightarrow> state p \<noteq> PCM_CLOSED) \<and> (hal_open p \<longleftrightarrow> in_use p)
    \<and> (in_use p \<longrightarrow> pcm_open k m (p, z) = (- EBUSY, (p, z)))
    \<and> (state p = PCM_PREPARED \<longrightarrow> prepared_level p < start_bytes k)
    \<and> (in_use p \<longrightarrow> gain_db p \<in> {DPGA_MIN_DB .. max_gain_db k})"
proof -
  note k = pcm_init_loaded(1) [OF assms(1-4)]
  have "pcm_inv k p"
    using pcm_reachable_inv [OF assms(5) k] pcm_init_loaded(2) [OF assms(1-4)] by simp
  then show ?thesis
    using good_channels(7,9) [OF k] pcm_open_sound(3) [OF k, of "(p, z)" m]
    by (auto simp: pcm_inv_def wf_device_def primed_def)
qed

theorem pcm_driver_invariant_witness:
  "staged (fst demo_opened) < 16 \<and> 16 \<le> length (staging (fst demo_opened))
    \<and> pcm_open demo_params demo_hal demo_opened = (- EBUSY, demo_opened)"
proof -
  obtain res where r: "pcm_init demo_params demo_hal demo_answers pcm_zero = (0, res, demo_device)"
    using demo_loads ..
  obtain p z where o: "demo_opened = (p, z)" by (rule prod.exhaust)
  have "in_use (fst demo_opened)" by (simp add: demo_opened_eq)
  then show ?thesis
    using pcm_driver_invariant [OF r demo_allocations demo_sizes demo_reachable [unfolded o]]
    by (simp add: o input_align_def demo_params_def)
qed

text \<open>
  C8. The driver never overruns the DMA ring: every write it makes fits the room the last level read
  left above the guard, through restarts after an underrun and the silence of a drain. So a property of
  the ring that holds as long as every write leaves the guard free holds in every reachable
  state.
\<close>

theorem ring_never_overrun:
  assumes "pcm_init k m ans pcm_zero = (0, res, p0)" and "whole_allocations ans"
    and "period_bytes k < 2 ^ 31 - 128" and "start_bytes k < 2 ^ 32 - 256"
    and "ring_contract k m fill safe" and "\<And>z z'. env z z' \<Longrightarrow> safe z \<Longrightarrow> safe z'"
    and "safe z0" and "(pcm_step k m env)\<^sup>*\<^sup>* (p0, z0) (p, z)"
  shows "safe z"
  using pcm_reachable_safe [OF assms(8) pcm_init_loaded(1) [OF assms(1-4)] _ assms(5,6)]
    pcm_init_loaded(2) [OF assms(1-4)] assms(7) by simp

definition demo_played :: "demo pcm" where
  "demo_played = snd (push_input demo_params demo_hal demo_bytes demo_opened)"

theorem ring_never_overrun_witness:
  "ring_fill (snd demo_played) = 16 \<and> ring_fill (snd demo_played) + GUARD_BYTES \<le> 4096"
proof -
  obtain res where r: "pcm_init demo_params demo_hal demo_answers pcm_zero = (0, res, demo_device)"
    using demo_loads ..
  obtain p z where o: "demo_played = (p, z)" by (rule prod.exhaust)
  have "in_use (fst demo_opened)" by (simp add: demo_opened_eq)
  then have "(pcm_step demo_params demo_hal (\<lambda>z z'. z' = demo_sleep z))\<^sup>*\<^sup>* (demo_device, demo_start) (p, z)"
    unfolding o [symmetric] demo_played_def
    by (intro rtranclp.rtrancl_into_rtrancl [OF demo_reachable] push_step)
  then have "ring_fill z + GUARD_BYTES \<le> 4096"
    by (rule ring_never_overrun [OF r demo_allocations demo_sizes demo_ring, rotated 2])
      (auto simp: demo_sleep_def demo_start_def)
  moreover have "ring_fill (snd demo_played) = 16" by (simp add: demo_played_def demo_push)
  ultimately show ?thesis by (simp add: o)
qed

text \<open>
  C11. A write delivers: when it returns r and has not failed the device, the bytes the driver held
  before and the first r bytes of the buffer are, in this order, what the vendor's write has been
  given (doubled into stereo frames for two channels, silence while muted) followed by what the driver
  still holds, which is less than a DMA word. No byte is lost, repeated or moved by partial writes,
  restarts or waits.
\<close>

theorem pcm_write_delivers:
  assumes "good_params k" and "log_contract m log" and "wf_device k p"
    and "pcm_write k m nonblock buf (p, z) = Some (r, (p', z'))" and "0 \<le> r" and "state p' \<noteq> PCM_FAILED"
  shows "nat r \<le> length buf \<and> length (held p') < input_align k \<and>
    (\<exists>e. held p @ take (nat r) buf = e @ held p' \<and> log z' = log z @ dma_frames k (muted p) e)"
  using pcm_write_delivers_lemma [OF assms(1,2) _ assms(4,5)] assms(3,6) by (auto simp: delivered_def)

theorem pcm_write_delivers_witness:
  "\<exists>t. pcm_write demo_params demo_hal True demo_bytes demo_opened
      = Some (18, t)
    \<and> held (fst t) = [17, 18] \<and> ring_log (snd t) = take 16 demo_bytes
    \<and> (\<exists>e. held (fst demo_opened) @ demo_bytes = e @ held (fst t)
        \<and> ring_log (snd t) = ring_log (snd demo_opened) @ dma_frames demo_params (muted (fst demo_opened)) e)"
proof -
  define t where "t = snd (push_input demo_params demo_hal demo_bytes demo_opened)"
  have push: "push_input demo_params demo_hal demo_bytes demo_opened = (18, t)"
    by (simp add: t_def demo_push)
  have len: "length demo_bytes = 18" by (simp add: demo_bytes_def)
  have "write_loop demo_params demo_hal True demo_bytes 18 t = Some (0, 18, t)"
    by (subst write_loop.simps) (simp add: len)
  then have loop: "write_loop demo_params demo_hal True demo_bytes 0 demo_opened = Some (0, 18, t)"
    by (subst write_loop.simps) (cases t, simp add: len push)
  have w: "pcm_write demo_params demo_hal True demo_bytes demo_opened = Some (18, t)"
    using loop by (simp add: pcm_write_def len)
  have h: "held (fst t) = [17, 18]" "state (fst t) = PCM_PREPARED" "ring_log (snd t) = take 16 demo_bytes"
    unfolding t_def demo_push by (simp_all add: held_def demo_opened_eq)
  obtain p z where o: "demo_opened = (p, z)" by (rule prod.exhaust)
  obtain p' z' where t: "t = (p', z')" by (rule prod.exhaust)
  have "wf_device demo_params p" using demo_wf by (simp add: o)
  from pcm_write_delivers [OF demo_good demo_log this w [unfolded o t]] h show ?thesis
    unfolding w by (simp add: o t len)
qed

text \<open>
  A write that does not block returns, whatever the vendor calls, the clock and user memory answer:
  every round takes at least one byte or ends the call.
\<close>

theorem nonblocking_write_returns:
  assumes "good_params k" and "wf_device k p"
  shows "\<exists>r t. pcm_write k m True buf (p, z) = Some (r, t)"
  using nonblocking_write_loop_returns [OF assms(1), of "(p, z)" m buf 0] assms(2)
  by (fastforce simp: pcm_write_def)

theorem nonblocking_write_returns_witness:
  "\<exists>r t. pcm_write demo_params demo_hal True (replicate 100 9) demo_opened = Some (r, t)"
  using nonblocking_write_returns [OF demo_good, where p = "fst demo_opened" and z = "snd demo_opened" and m = demo_hal and buf = "replicate 100 9"] demo_wf
  by simp



end
