(* ===== verification/Speaker_Path.thy ===== *)
theory Speaker_Path
  imports Pcm_Backend_Facts Audio_Helper_Properties Pcm_Driver_Properties
begin

text \<open>
  The path of the sound from the helper to the DMA ring: the system calls of the speaker backend
  answered by the speaker driver (\<open>driver_ops\<close>), which provides both contracts of the backend. The
  clock and the socket stay parameters.
\<close>

section \<open>The driver behind the descriptor\<close>

definition no_status :: pcm_status where
  "no_status = \<lparr>st_state = 0, st_buffer = 0, st_period = 0, st_queued = 0, st_written = 0, st_underruns = 0,
     st_gain = 0, st_muted = 0, st_hal_error = 0, st_measured = 0\<rparr>"

text \<open>
  The descriptor does not block. A call of the driver that does not return is answered by an error:
  no call the backend makes is one (\<open>nonblocking_write_loop_returns\<close>).
\<close>

definition driver_ops :: "pcm_params \<Rightarrow> 'z hal \<Rightarrow> ('z \<Rightarrow> int) \<Rightarrow> (bytes \<Rightarrow> 'z \<Rightarrow> int \<times> 'z) \<Rightarrow> 'z pcm ap_ops" where
  "driver_ops k m clock sock =
     \<lparr>clock_ms = (\<lambda>s. (clock (snd s), s)),
      send_message = (\<lambda>data s. case sock data (snd s) of (r, z) \<Rightarrow> (r, (fst s, z))),
      sys_ioctl = (\<lambda>q s.
        if q = GET_STATUS then (case pcm_get_status k m s of (r, s) \<Rightarrow>
          (case r of Inl e \<Rightarrow> (e, no_status, s) | Inr st \<Rightarrow> (0, st, s)))
        else (case pcm_ioctl k m q s of Some (r, s) \<Rightarrow> (r, no_status, s) | None \<Rightarrow> (- EIO, no_status, s))),
      sys_write = (\<lambda>data s. case pcm_write k m True data s of Some y \<Rightarrow> y | None \<Rightarrow> (- EIO, s))\<rparr>"

section \<open>What the driver answers\<close>

lemma apply_gain_result: "fst (apply_gain m s) = 0 \<or> fst (apply_gain m s) = - EIO"
  using hal_set_gain_result [of m "audible_gain (fst s)" s] by (auto simp: apply_gain_def split_def)

lemma pcm_ioctl_answers:
  assumes "q \<noteq> DRAIN"
  shows "\<exists>r t. pcm_ioctl k m q s = Some (r, t) \<and> r \<noteq> - EINTR"
proof (cases q)
  case (SET_GAIN g)
  then show ?thesis
    using apply_gain_result [of m "(fst s\<lparr>gain_db := clamp_gain k g\<rparr>, snd (user_fault m (snd s)))"]
    by (auto simp: pcm_ioctl_def set_gain_def split_def prod_eq_iff)
next
  case (SET_MUTE v)
  then show ?thesis
    using apply_gain_result [of m "(fst s\<lparr>muted := v \<noteq> 0\<rparr>, snd (user_fault m (snd s)))"]
    by (auto simp: pcm_ioctl_def set_mute_def split_def prod_eq_iff)
next
  case STOP
  then show ?thesis
    using stream_prepare_result [of m "(fst s\<lparr>staged := 0\<rparr>, snd s)"]
    by (auto simp: pcm_ioctl_def pcm_stop_def split_def Let_def prod_eq_iff)
next
  case GET_STATUS
  then show ?thesis by (auto simp: pcm_ioctl_def pcm_get_status_def split_def Let_def)
qed (use assms in \<open>simp_all add: pcm_ioctl_def\<close>)

lemma push_input_result:
  "fst (push_input k m src s) \<in> {- EIO, - EFAULT} \<or> (\<exists>n \<le> length src. fst (push_input k m src s) = int n)"
proof -
  obtain r0 level s1 where l: "hal_level m s = (r0, level, s1)" by (rule prod_cases3)
  have lv: "r0 = 0 \<or> r0 = - EIO" using l by (cases s) (simp add: hal_level_def hal_fail_def split_def split: if_splits)
  obtain q z1 where sm: "stream_measure m level s1 = (q, z1)" by (rule prod.exhaust)
  have st: "fst (detect_stall k m level (q, z1)) = 0 \<or> fst (detect_stall k m level (q, z1)) = - EIO"
    by (simp add: detect_stall_def stream_prepare_result)
  consider "state (fst s) = PCM_FAILED" | "r0 \<noteq> 0" | "state (fst s) \<noteq> PCM_FAILED" "r0 = 0" "push_room k level < input_align k"
    | (go) "state (fst s) \<noteq> PCM_FAILED" "r0 = 0" "\<not> push_room k level < input_align k" by blast
  then show ?thesis
  proof cases
    case go
    define n where "n = min (length src) (wrap32 (push_room k level + (2 ^ 32 - staged (q\<lparr>stall_armed := False\<rparr>))))"
    have n: "n \<le> length src" by (simp add: n_def)
    obtain fault z2 where uf: "user_fault m z1 = (fault, z2)" by (rule prod.exhaust)
    have "fst (push_input k m src s) \<in> {- EFAULT, int n} \<or> (\<exists>e t. fst (push_input k m src s) = fst (hal_write k m e t))"
      unfolding push_input_def l prod.case sm Let_def n_def [symmetric] uf using go by (auto simp: split_def)
    then show ?thesis using n hal_write_result [of k m] by fastforce
  qed (use lv st in \<open>auto simp: push_input_def l sm Let_def intro!: exI [of _ 0]\<close>)
qed

definition write_answer_ok :: "bytes \<Rightarrow> int \<times> nat \<times> 'z pcm \<Rightarrow> bool" where
  "write_answer_ok buf y \<longleftrightarrow> fst (snd y) \<le> length buf \<and> fst y \<le> 0 \<and> fst y \<noteq> - EINTR"

lemma write_loop_answers:
  assumes "n \<le> length buf" and "write_loop k m nonblock buf n s = Some y"
  shows "write_answer_ok buf y"
proof -
  have "n \<le> length buf \<longrightarrow> write_answer_ok buf y"
  proof (rule write_loop.raw_induct [where P = "\<lambda>k m nonblock buf n s y. n \<le> length buf \<longrightarrow> write_answer_ok buf y",
      OF _ assms(2)], rule impI)
    fix f k m nonblock buf n and s :: "'a pcm" and y
    assume IH: "\<And>k m nonblock buf n s y. f k m nonblock buf n s = Some y \<Longrightarrow> n \<le> length buf \<longrightarrow> write_answer_ok buf y"
      and body: "(if length buf \<le> n then Some (0, n, s)
        else case push_input k m (drop n buf) s of (r, (p, z)) \<Rightarrow>
          if r < 0 then Some (r, n, (p, z))
          else if r \<noteq> 0 then f k m nonblock buf (n + nat r) (p, z)
          else if nonblock then Some (- EAGAIN, n, (p, z))
          else
            let z = nap m (wait_jiffies p) z in
            if signal_pending m z then Some (- ERESTARTSYS, n, (p, z))
            else f k m nonblock buf n (p, z)) = Some y"
      and n: "n \<le> length buf"
    obtain r p z where push: "push_input k m (drop n buf) s = (r, (p, z))" by (rule prod_cases3)
    have r: "r \<in> {- EIO, - EFAULT} \<or> 0 \<le> r \<and> nat r \<le> length buf - n"
      using push_input_result [of k m "drop n buf" s] n by (auto simp: push)
    show "write_answer_ok buf y"
    proof (cases "length buf \<le> n \<or> r < 0")
      case True
      then show ?thesis using body r n by (auto simp: push write_answer_ok_def split: if_splits)
    next
      case False
      then have "f k m nonblock buf (n + nat r) (p, z) = Some y \<or> y = (- EAGAIN, n, (p, z))
          \<or> (\<exists>z. y = (- ERESTARTSYS, n, (p, z)) \<or> f k m nonblock buf n (p, z) = Some y)"
        using body by (auto simp: push Let_def split: if_splits)
      then show ?thesis using IH r False n by (fastforce simp: write_answer_ok_def)
    qed
  qed
  with assms(1) show ?thesis by simp
qed

lemma pcm_write_answers:
  assumes "pcm_write k m nonblock buf s = Some (r, t)"
  shows "r \<le> int (length buf) \<and> r \<noteq> - EINTR"
proof (cases "length buf mod 2 = 1")
  case True
  then show ?thesis using assms by (simp add: pcm_write_def)
next
  case False
  then obtain r' n' where l: "write_loop k m nonblock buf 0 s = Some (r', n', t)" and r: "r = (if n' \<noteq> 0 then int n' else r')"
    using assms by (auto simp: pcm_write_def)
  have "write_answer_ok buf (r', n', t)" using write_loop_answers [OF _ l] by simp
  then show ?thesis using r by (auto simp: write_answer_ok_def split: if_splits)
qed

interpretation speaker: speaker_device "driver_ops k m clock sock" "\<lambda>_. 0" for k m clock sock
proof
  fix q and s t :: "'a pcm" and st
  assume "q \<noteq> DRAIN" and "sys_ioctl (driver_ops k m clock sock) q s = (- EINTR, st, t)"
  then show "(0 :: nat) < 0"
    using pcm_ioctl_answers [of q k m s]
    by (auto simp: driver_ops_def pcm_get_status_def Let_def split: if_splits prod.splits)
next
  fix data and s t :: "'a pcm"
  assume "sys_write (driver_ops k m clock sock) data s = (- EINTR, t)"
  then show "(0 :: nat) < 0"
    using pcm_write_answers [of k m True data s] by (auto simp: driver_ops_def split: option.splits)
qed

section \<open>From the backend to the ring\<close>

text \<open>
  Between two states of the driver the bytes \<open>x\<close> were taken: unless it failed, they are what the
  vendor's write was given and what the driver now holds.
\<close>

definition ring_taken :: "pcm_params \<Rightarrow> 'z hal \<Rightarrow> ('z \<Rightarrow> bytes) \<Rightarrow> 'z pcm \<Rightarrow> bytes \<Rightarrow> 'z pcm \<Rightarrow> bool" where
  "ring_taken k m log s x t \<longleftrightarrow> (good_params k \<longrightarrow> log_contract m log \<longrightarrow> wf_device k (fst s) \<longrightarrow>
     wf_device k (fst t) \<and> (state (fst s) = PCM_FAILED \<longrightarrow> state (fst t) = PCM_FAILED)
     \<and> (state (fst t) \<noteq> PCM_FAILED \<longrightarrow> delivered k log s x t))"

lemma ring_taken_trans: "ring_taken k m log a x b \<Longrightarrow> ring_taken k m log b y c \<Longrightarrow> ring_taken k m log a (x @ y) c"
  unfolding ring_taken_def using delivered_trans by blast

lemma ring_taken_write:
  assumes w: "pcm_write k m True data s = Some (r, t)"
  shows "ring_taken k m log s (take (nat r) data) t"
  unfolding ring_taken_def
proof (intro impI)
  assume k: "good_params k" and c: "log_contract m log" and p: "wf_device k (fst s)"
  show "wf_device k (fst t) \<and> (state (fst s) = PCM_FAILED \<longrightarrow> state (fst t) = PCM_FAILED)
     \<and> (state (fst t) \<noteq> PCM_FAILED \<longrightarrow> delivered k log s (take (nat r) data) t)"
  proof (cases "length data mod 2 = 1")
    case True
    then show ?thesis using w p delivered_refl [of k log s] by (auto simp: pcm_write_def)
  next
    case False
    then obtain r' n' where l: "write_loop k m True data 0 s = Some (r', n', t)" and r: "r = (if n' \<noteq> 0 then int n' else r')"
      using w by (auto simp: pcm_write_def)
    have post: "write_loop_post k log data 0 s (r', n', t)" by (rule write_loop_delivers [OF k c p _ l]) simp
    have "r' \<le> 0" using write_loop_answers [OF _ l] by (simp add: write_answer_ok_def)
    then have "nat r = n'" using r by simp
    moreover have "state (fst s) = PCM_FAILED \<longrightarrow> state (fst t) = PCM_FAILED"
      using l by (subst (asm) write_loop.simps) (auto simp: push_input_def split: if_splits prod.splits)
    ultimately show ?thesis using post unfolding write_loop_post_def by auto
  qed
qed

lemma ring_taken_quiet:
  assumes "wf_device k (fst s) \<Longrightarrow> wf_device k (fst t)" and "state (fst s) = PCM_FAILED \<Longrightarrow> state (fst t) = PCM_FAILED"
    and "held (fst t) = held (fst s) \<and> muted (fst t) = muted (fst s)"
    and "log_contract m log \<Longrightarrow> log (snd t) = log (snd s)"
  shows "ring_taken k m log s [] t"
  using assms unfolding ring_taken_def delivered_def by (auto intro!: exI [of _ "[]"])

lemma ring_taken_status: "ring_taken k m log s [] (snd (pcm_get_status k m s))"
proof (rule ring_taken_quiet)
  show "wf_device k (fst s) \<Longrightarrow> wf_device k (fst (snd (pcm_get_status k m s)))" using pcm_get_status_sound by blast
  show "log_contract m log \<Longrightarrow> log (snd (snd (pcm_get_status k m s))) = log (snd s)"
    using within_pcm_get_status [OF log_within, where z = "snd s" and s = s] by simp
  show "state (fst s) = PCM_FAILED \<Longrightarrow> state (fst (snd (pcm_get_status k m s))) = PCM_FAILED"
    by (simp add: pcm_get_status_def split_def Let_def)
  have "keeps_device (fst s) (fst (snd (pcm_get_status k m s)))"
    using kept_hal_level [of "fst s" s m] by (simp add: pcm_get_status_def split_def Let_def)
  then show "held (fst (snd (pcm_get_status k m s))) = held (fst s) \<and> muted (fst (snd (pcm_get_status k m s))) = muted (fst s)"
    by (rule kept_held)
qed

lemma ring_taken_gain: "ring_taken k m log s [] (snd (the (pcm_ioctl k m (SET_GAIN g) s)))"
proof -
  define z where "z = snd (user_fault m (snd s))"
  have z: "log_contract m log \<Longrightarrow> log z = log (snd s)"
    using within_calls(12) [OF log_within, where z = "snd s" and a = "snd s"] by (simp add: z_def)
  define t where "t = snd (set_gain k m g (fst s, z))"
  have fault: "ring_taken k m log s [] (fst s, z)" by (rule ring_taken_quiet) (simp_all add: z)
  have "ring_taken k m log s [] t"
    unfolding ring_taken_def
  proof (intro impI)
    assume k: "good_params k" and c: "log_contract m log" and p: "wf_device k (fst s)"
    let ?q = "(fst s\<lparr>gain_db := clamp_gain k g\<rparr>, z)"
    have "held (fst (snd (hal_set_gain m db u))) = held (fst u) \<and> muted (fst (snd (hal_set_gain m db u))) = muted (fst u)" for db u
      by (rule kept_held) (simp add: kept_hal_set_gain)
    then have h: "held (fst t) = held (fst s) \<and> muted (fst t) = muted (fst s)"
      by (simp add: t_def set_gain_def apply_gain_def split_def held_def)
    moreover have "log (snd t) = log (snd s)"
      using within_set_gain [OF log_within [OF c], where z = z and s = "(fst s, z)"] z [OF c] by (simp add: t_def)
    ultimately have "delivered k log s [] t" by (simp add: delivered_def)
    moreover have "wf_device k (fst t)" using set_gain_sound [OF k, of "(fst s, z)" m g] p by (simp add: t_def)
    moreover have "state (fst s) = PCM_FAILED \<longrightarrow> state (fst t) = PCM_FAILED"
      by (simp add: t_def set_gain_def apply_gain_def)
    ultimately show "wf_device k (fst t) \<and> (state (fst s) = PCM_FAILED \<longrightarrow> state (fst t) = PCM_FAILED)
        \<and> (state (fst t) \<noteq> PCM_FAILED \<longrightarrow> delivered k log s [] t)" by blast
  qed
  with fault show ?thesis by (simp add: pcm_ioctl_def split_def z_def t_def)
qed

interpretation ring_sink: byte_sink "driver_ops k m clock sock" "ring_taken k m log" "\<lambda>q. q = GET_STATUS \<or> (\<exists>g. q = SET_GAIN g)"
  for k m clock sock log
proof
  fix data n and s t :: "'a pcm"
  assume w: "sys_write (driver_ops k m clock sock) data s = (n, t)"
  show "n \<le> int (length data) \<and> ring_taken k m log s (take (nat n) data) t"
  proof (cases "pcm_write k m True data s")
    case None
    then have "n = - EIO" "t = s" using w by (simp_all add: driver_ops_def)
    then show ?thesis by (simp add: ring_taken_quiet)
  next
    case (Some y)
    then have "pcm_write k m True data s = Some (n, t)" using w by (simp add: driver_ops_def)
    then show ?thesis using pcm_write_answers ring_taken_write by blast
  qed
next
  fix q r st and s t :: "'a pcm"
  assume "q = GET_STATUS \<or> (\<exists>g. q = SET_GAIN g)" and w: "sys_ioctl (driver_ops k m clock sock) q s = (r, st, t)"
  then show "ring_taken k m log s [] t"
  proof (elim disjE exE)
    assume "q = GET_STATUS"
    then have "t = snd (pcm_get_status k m s)" using w by (auto simp: driver_ops_def split: prod.splits sum.splits)
    then show ?thesis using ring_taken_status by simp
  next
    fix g assume q: "q = SET_GAIN g"
    obtain r' t' where "pcm_ioctl k m q s = Some (r', t')" using pcm_ioctl_answers [of q k m s] q by auto
    then have "t = snd (the (pcm_ioctl k m (SET_GAIN g) s))" using w q by (simp add: driver_ops_def)
    then show ?thesis using ring_taken_gain by simp
  qed
next
  fix s t :: "'a pcm" and now
  assume "clock_ms (driver_ops k m clock sock) s = (now, t)"
  then show "ring_taken k m log s [] t" by (simp add: driver_ops_def ring_taken_quiet)
qed (simp_all add: ring_taken_quiet ring_taken_trans)

section \<open>Properties\<close>

lemma backend_query_words:
  assumes "dev_call (backend_ops ops) AH_QUERY data v z = (a, z')" and "status_law ops" and "ans_result a = 0"
  shows "\<not> queue_words_bad (ans_size a) (ans_free a) (ans_busy a)"
proof -
  obtain c c' where z: "z = Some c" "bridge_call ops AH_QUERY data v c = Some (a, c')"
    using assms(1,3) by (auto simp: backend_ops_def answer_def split: option.splits bind_splits)
  then have "ap_query ops c = Some (a, c')" by (cases c) (simp add: bridge_call_def)
  then show ?thesis using ap_query_words assms(2,3) by blast
qed

lemma playing_delivers:
  assumes k: "good_params k" and c: "log_contract m log" and p: "wf_device k p0"
    and start: "carry_ok h0" "pending h0 = []" "held p0 = []"
    and run: "playing_run (driver_ops k m clock sock) (h0, (p0, z0)) acc (h, (p, z))" and ok: "state p \<noteq> PCM_FAILED"
  shows "carry_ok h \<and> wf_device k p \<and> (\<exists>e. acc = e @ held p @ pending h \<and> log z = log z0 @ dma_frames k (muted p0) e)"
proof -
  have "carry_ok h0 \<longrightarrow> carry_ok h \<and> (\<exists>x. ring_taken k m log (p0, z0) x (p, z) \<and> pending h0 @ acc = x @ pending h)"
    using ring_sink.playing_sink [OF run, where log = log] by simp
  then obtain x where x: "carry_ok h" "ring_taken k m log (p0, z0) x (p, z)" "acc = x @ pending h" using start by auto
  have "wf_device k p" "delivered k log (p0, z0) x (p, z)" using x(2) k c p ok by (simp_all add: ring_taken_def)
  then show ?thesis using x(1,3) start(3) by (auto simp: delivered_def)
qed

text \<open>
  C10. From the helper to the ring, through the backend and the driver: while a stream plays (blocks,
  queries and changes of the volume in any order, whatever is refused or taken in part), the bytes of
  the accepted blocks are, in order, what the DMA ring was given (each sample doubled into a frame, or
  silence while muted), then less than a DMA word the driver holds, then at most one block in the
  backend's carry. Nothing is lost, doubled or reordered unless the driver failed.
\<close>

theorem speaker_path:
  assumes "good_params k" and "log_contract m log" and "wf_device k p0"
    and "carry_ok h0" and "pending h0 = []" and "held p0 = []"
    and "playing_run (driver_ops k m clock sock) (h0, (p0, z0)) acc (h, (p, z))" and "state p \<noteq> PCM_FAILED"
  shows "\<exists>e. acc = e @ held p @ pending h \<and> log z = log z0 @ dma_frames k (muted p0) e
     \<and> length (held p) < input_align k \<and> length (pending h) \<le> BLOCK_BYTES"
proof -
  have "carry_ok h \<and> wf_device k p \<and> (\<exists>e. acc = e @ held p @ pending h \<and> log z = log z0 @ dma_frames k (muted p0) e)"
    by (rule playing_delivers [OF assms])
  then show ?thesis by (auto simp: carry_ok_def pending_def held_def wf_device_def)
qed

text \<open>The example of the driver: nine samples in one block.\<close>

definition demo_ops :: "demo pcm ap_ops" where
  "demo_ops = driver_ops demo_params demo_hal (\<lambda>_. 0) (\<lambda>_ z. (1, z))"

definition demo_samples :: "int list" where
  "demo_samples = [0x201, 0x403, 0x605, 0x807, 0xa09, 0xc0b, 0xe0d, 0x100f, 0x1211]"

lemma demo_sample_bytes: "sample_bytes demo_samples = demo_bytes"
  by (simp add: sample_bytes_def demo_samples_def demo_bytes_def le16_def)

lemma demo_sent:
  "bridge_call demo_ops AH_SEND demo_samples 18 (backend_init, demo_opened)
     = Some (answer 0, (backend_init, snd (push_input demo_params demo_hal demo_bytes demo_opened)))"
proof -
  define t where "t = snd (push_input demo_params demo_hal demo_bytes demo_opened)"
  have push: "push_input demo_params demo_hal demo_bytes demo_opened = (18, t)" by (simp add: t_def demo_push)
  have len: "length demo_bytes = 18" by (simp add: demo_bytes_def)
  have "write_loop demo_params demo_hal True demo_bytes 18 t = Some (0, 18, t)"
    by (subst write_loop.simps) (simp add: len)
  then have "write_loop demo_params demo_hal True demo_bytes 0 demo_opened = Some (0, 18, t)"
    by (subst write_loop.simps) (cases t, simp add: len push)
  then have "sys_write demo_ops demo_bytes demo_opened = (18, t)"
    by (simp add: demo_ops_def driver_ops_def pcm_write_def len)
  then have "device_write demo_ops demo_bytes demo_opened = Some (18, t)" by (subst device_write.simps) simp
  then show ?thesis
    by (simp add: bridge_call_def ap_send_block_def flush_carry_def backend_init_def demo_sample_bytes len flip: t_def)
qed

lemma demo_run: "playing_run demo_ops (backend_init, demo_opened) demo_bytes
    (backend_init, snd (push_input demo_params demo_hal demo_bytes demo_opened))"
proof -
  have "accepted AH_SEND demo_samples 18 (ans_result (answer 0)) [] = demo_bytes"
    by (simp add: accepted_def answer_def demo_sample_bytes) (simp add: demo_bytes_def)
  moreover have "AH_SEND \<noteq> AH_CLEAR \<and> AH_SEND \<noteq> AH_SET_MUTE" by simp
  ultimately show ?thesis using playing_call [OF playing_start _ demo_sent] by (simp only: simp_thms)
qed

theorem speaker_path_witness:
  "let t = snd (push_input demo_params demo_hal demo_bytes demo_opened) in
   \<exists>e. demo_bytes = e @ held (fst t) @ pending backend_init
     \<and> ring_log (snd t) = ring_log (snd demo_opened) @ dma_frames demo_params (muted (fst demo_opened)) e
     \<and> length (held (fst t)) < input_align demo_params \<and> length (pending backend_init) \<le> BLOCK_BYTES"
proof -
  obtain p z where t: "snd (push_input demo_params demo_hal demo_bytes demo_opened) = (p, z)" by (rule prod.exhaust)
  obtain p0 z0 where o: "demo_opened = (p0, z0)" by (rule prod.exhaust)
  have "state p0 \<noteq> PCM_FAILED" "held p0 = []"
    using demo_opened_eq by (simp_all add: o pcm_zero_def held_def)
  moreover from this have "state p \<noteq> PCM_FAILED" using t unfolding demo_push by (auto simp: o)
  moreover have "wf_device demo_params p0" using demo_wf by (simp add: o)
  moreover have "carry_ok backend_init" "pending backend_init = []"
    by (simp_all add: carry_ok_def backend_init_def pending_def)
  moreover have "playing_run demo_ops (backend_init, (p0, z0)) demo_bytes (backend_init, (p, z))"
    using demo_run [unfolded t, unfolded o] .
  ultimately show ?thesis
    using speaker_path [OF demo_good demo_log, of p0 backend_init "\<lambda>_. 0" "\<lambda>_ z. (1, z)" z0 demo_bytes backend_init p z]
    unfolding t unfolding o by (simp add: demo_ops_def)
qed

text \<open>
  The answers of the backend to a query satisfy the checks the core makes on them, whatever level
  the device reports and whatever is in the carry: the core never fails on the words of a query, only
  on an error of the device.
\<close>

theorem query_never_malformed:
  assumes "status_law ops" and "query (backend_ops ops) (s, z) = (g, (s', z'))" and "astate s \<noteq> AUDIO_FAILED" and "\<not> g"
  shows "astate s' = AUDIO_FAILED \<and> aerror s' = ERROR_VENDOR \<and> vendor_result s' \<noteq> 0"
proof -
  obtain a z1 where d: "dev_call (backend_ops ops) AH_QUERY [] 0 z = (a, z1)" by (rule prod.exhaust)
  have n: "astate (note_underruns n s) = astate s" for n by simp
  show ?thesis
    using assms(2-4) backend_query_words [OF d assms(1)] n
    by (auto simp: query_def device_call_def d ah_fail_def mark_dirty_def Let_def split: if_splits)
qed

definition dead_ops :: "unit ap_ops" where
  "dead_ops = \<lparr>clock_ms = (\<lambda>d. (0, d)), send_message = (\<lambda>_ d. (1, d)),
     sys_ioctl = (\<lambda>_ d. (- EIO, no_status\<lparr>st_hal_error := - 7\<rparr>, d)), sys_write = (\<lambda>_ d. (- EAGAIN, d))\<rparr>"

theorem query_never_malformed_witness:
  "\<exists>s' z'. query (backend_ops dead_ops) (ah_started, Some (backend_init, ())) = (False, (s', z'))
     \<and> aerror s' = ERROR_VENDOR \<and> vendor_result s' = - EIO"
proof -
  have i: "device_ioctl dead_ops q () = Some (- EIO, no_status\<lparr>st_hal_error := - 7\<rparr>, ())" for q
    by (subst device_ioctl.simps) (simp add: dead_ops_def)
  have "dev_call (backend_ops dead_ops) AH_QUERY [] 0 (Some (backend_init, ())) = (answer (- EIO), Some (backend_init, ()))"
    by (simp add: backend_ops_def bridge_call_def ap_query_def flush_carry_def backend_init_def i failure_def Let_def)
  then have q: "query (backend_ops dead_ops) (ah_started, Some (backend_init, ()))
      = (False, (ah_fail ERROR_VENDOR (- EIO) ah_started, Some (backend_init, ())))"
    by (simp add: query_def device_call_def answer_def note_underruns_def)
  have "status_law dead_ops" by (simp add: status_law_def dead_ops_def no_status_def)
  from query_never_malformed [OF this q] q show ?thesis
    by (auto simp: ah_started_def ah_fail_def ah_init_def mark_dirty_def)
qed

text \<open>
  C40. Every call of the core, and the start of the helper, returns: a system call that signals
  interrupt is made again, and with a device that is not interrupted forever the loops end.
\<close>

theorem backend_calls_return:
  assumes "\<And>q d st d'. q \<noteq> DRAIN \<Longrightarrow> sys_ioctl ops q d = (- EINTR, st, d') \<Longrightarrow> patience d' < (patience d :: nat)"
    and "\<And>data d d'. sys_write ops data d = (- EINTR, d') \<Longrightarrow> patience d' < patience d"
  shows "(\<exists>a c'. bridge_call ops which data v c = Some (a, c')) \<and> (\<exists>y. ap_start ops d = Some y)"
proof -
  have "speaker_device ops patience" by unfold_locales (use assms in blast)+
  from speaker_device.call_returns [OF this] speaker_device.start_returns [OF this] show ?thesis
    by (auto simp: returns_def)
qed

text \<open>A device whose writes are interrupted as often as its state says.\<close>

definition busy_ops :: "nat ap_ops" where
  "busy_ops = \<lparr>clock_ms = (\<lambda>d. (0, d)), send_message = (\<lambda>_ d. (1, d)), sys_ioctl = (\<lambda>_ d. (0, no_status, d)),
     sys_write = (\<lambda>data d. if 0 < d then (- EINTR, d - 1) else (int (length data), d))\<rparr>"

theorem backend_calls_return_witness:
  "(\<exists>a c'. bridge_call busy_ops AH_SEND [1, 2] 4 (backend_init, 3) = Some (a, c')) \<and> (\<exists>y. ap_start busy_ops 3 = Some y)"
  by (rule backend_calls_return [where patience = id]) (auto simp: busy_ops_def split: if_splits)

end
