(* ===== verification/Audio_Process.thy ===== *)
theory Audio_Process
  imports C_Strings Audio_Owner Speaker_Path
begin

text \<open>
  The process around the helper's core, \<^verbatim>\<open>tc002/audio/helper/audio_process.c\<close> and
  \<^verbatim>\<open>tc002/audio/pcm/pcm_helper_main.c\<close>: its socket, the loop that serves it, and the program from its
  arguments to its exit code. ppoll, recv and the clock are parameters, operations of the environment
  that may fail to return (None); the alarms, which end the process, are left out.
\<close>

section \<open>The start of the process\<close>

abbreviation (input) EXIT_CLEAN :: int where "EXIT_CLEAN \<equiv> 0"
abbreviation (input) EXIT_FAILED :: int where "EXIT_FAILED \<equiv> 1"
abbreviation (input) EXIT_USAGE :: int where "EXIT_USAGE \<equiv> 2"
abbreviation (input) EXIT_PREFLIGHT :: int where "EXIT_PREFLIGHT \<equiv> 3"
abbreviation (input) EXIT_DEVICE :: int where "EXIT_DEVICE \<equiv> 4"
abbreviation (input) EXIT_START :: int where "EXIT_START \<equiv> 5"

abbreviation (input) ENOBUFS :: int where "ENOBUFS \<equiv> 105"

text \<open>What the kernel says of a descriptor.\<close>

record socket_host =
  is_socket :: "nat \<Rightarrow> bool"
  is_seqpacket :: "nat \<Rightarrow> bool"
  is_unix :: "nat \<Rightarrow> bool"
  flags_set :: "nat \<Rightarrow> bool"

text \<open>strtol of digits alone: a value out of the range of a long is out of the range of descriptors.\<close>

definition ah_parse_socket :: "socket_host \<Rightarrow> string list \<Rightarrow> int" where
  "ah_parse_socket host argv =
     (if length argv \<noteq> 3 \<or> argv ! 1 \<noteq> ''--socket-fd'' then - 1
      else
        let fd = digits_value 10 (argv ! 2) in
        if \<not> ah_numeric (argv ! 2) \<or> fd < 3 \<or> 1023 < fd then - 1
        else if \<not> is_socket host fd then - 1
        else if \<not> is_seqpacket host fd then - 1
        else if \<not> is_unix host fd then - 1
        else if \<not> flags_set host fd then - 1
        else int fd)"

definition board_model :: bytes where
  "board_model = ascii ''PIONEER3 SSC021A-S01A-S''"

definition ah_board_matches :: "proc_fs \<Rightarrow> bool" where
  "ah_board_matches fs =
     (case ah_read_small (open_file fs ''/proc/device-tree/model'') 128 0 of (ok, model, _) \<Rightarrow>
        ok \<and> (length model = length board_model \<or> length model = length board_model + 1)
          \<and> take (length board_model) model = board_model
          \<and> (length model = length board_model \<or> last model = 0))"

partial_function (option) ah_send_datagram :: "(bytes \<Rightarrow> 'z \<Rightarrow> int \<times> 'z) \<Rightarrow> bytes \<Rightarrow> 'z \<Rightarrow> (int \<times> 'z) option" where
  "ah_send_datagram send data z = (case send data z of (n, z) \<Rightarrow>
     if n = int (length data) then Some (1, z)
     else if n = - EINTR then ah_send_datagram send data z
     else if n = - EAGAIN \<or> n = - ENOBUFS then Some (0, z)
     else Some (- 1, z))"

definition ah_report_failure :: "'z ah_ops \<Rightarrow> bytes \<Rightarrow> audio_error \<Rightarrow> int \<Rightarrow> 'z \<Rightarrow> 'z core" where
  "ah_report_failure ops message e r z = ah_flush ops message (ah_fail e r ah_init, z)"

section \<open>The loop\<close>

text \<open>
  The answer of ppoll: its result (an errno negated when it failed), whether a stop signal was seen,
  whether the socket has any event and an error event, and whether the device has an error event.
\<close>

record poll_answer =
  poll_ready :: int
  poll_stop :: bool
  poll_socket :: bool
  poll_socket_error :: bool
  poll_device_error :: bool

record 'z loop_ops =
  do_poll :: "bool \<Rightarrow> int \<Rightarrow> 'z \<Rightarrow> (poll_answer \<times> 'z) option"
  do_recv :: "'z \<Rightarrow> ((int + bytes) \<times> 'z) option"
  now_ms :: "'z \<Rightarrow> int \<times> 'z"

text \<open>0 at the end of the socket, 1 to keep going, -1 on an error of the socket.\<close>

partial_function (option) receive_all :: "'z ah_ops \<Rightarrow> 'z loop_ops \<Rightarrow> int \<Rightarrow> 'z core \<Rightarrow> (int \<times> 'z core) option" where
  "receive_all ops lops now c = (case c of (s, z) \<Rightarrow>
     case do_recv lops z of
       None \<Rightarrow> None
     | Some (Inl e, z) \<Rightarrow>
         if e = - EINTR then receive_all ops lops now (s, z)
         else Some (if e = - EAGAIN then 1 else - 1, (s, z))
     | Some (Inr message, z) \<Rightarrow>
         if message = [] then Some (0, (s, z))
         else case ah_receive ops (if MAX_MESSAGE < length message then [] else message) now (s, z) of (s, z) \<Rightarrow>
           if astate s = AUDIO_FAILED then Some (1, (s, z)) else receive_all ops lops now (s, z))"

definition device_error :: "('z core \<Rightarrow> 'z core) \<Rightarrow> 'z core \<Rightarrow> 'z core" where
  "device_error device_failed c = (case device_failed c of (s, z) \<Rightarrow>
     (if astate s \<noteq> AUDIO_FAILED then ah_fail ERROR_VENDOR (- EIO) s else s, z))"

definition after_poll :: "'z ah_ops \<Rightarrow> 'z loop_ops \<Rightarrow> bool \<Rightarrow> ('z core \<Rightarrow> 'z core) \<Rightarrow> poll_answer \<Rightarrow> 'z core \<Rightarrow> int \<times> 'z core" where
  "after_poll ops lops watched device_failed a c =
     (let c = (if 0 < poll_ready a \<and> watched \<and> poll_device_error a then device_error device_failed c else c) in
      case c of (s, z) \<Rightarrow>
        if astate s = AUDIO_FAILED then (- 1, (s, z))
        else case now_ms lops z of (now, z) \<Rightarrow> ah_service ops now (s, z))"

partial_function (option) run_loop ::
  "'z ah_ops \<Rightarrow> 'z loop_ops \<Rightarrow> bool \<Rightarrow> ('z core \<Rightarrow> 'z core) \<Rightarrow> bytes \<Rightarrow> int \<Rightarrow> 'z core \<Rightarrow> (int \<times> 'z core) option" where
  "run_loop ops lops watched device_failed message wait c =
     (case ah_flush ops message c of (s, z) \<Rightarrow>
        if broken s \<or> astate s = AUDIO_FAILED then Some (EXIT_FAILED, (s, z))
        else case do_poll lops (hello_pending s \<or> status_dirty s) wait z of
          None \<Rightarrow> None
        | Some (a, z) \<Rightarrow>
            if poll_stop a then Some (EXIT_CLEAN, (s, z))
            else if poll_ready a < 0 \<and> poll_ready a \<noteq> - EINTR then Some (EXIT_FAILED, (s, z))
            else if 0 < poll_ready a \<and> (\<not> watched \<or> poll_socket a) then
              (case now_ms lops z of (now, z) \<Rightarrow>
                 case receive_all ops lops now (s, z) of
                   None \<Rightarrow> None
                 | Some (r, (s, z)) \<Rightarrow>
                     if r < 0 then Some (EXIT_FAILED, (s, z))
                     else if r = 0 then Some (EXIT_CLEAN, (s, z))
                     else if poll_socket_error a then Some (EXIT_FAILED, (s, z))
                     else case after_poll ops lops watched device_failed a (s, z) of (wait, c) \<Rightarrow>
                       run_loop ops lops watched device_failed message wait c)
            else case after_poll ops lops watched device_failed a (s, z) of (wait, c) \<Rightarrow>
              run_loop ops lops watched device_failed message wait c)"

definition ah_run ::
  "'z ah_ops \<Rightarrow> 'z loop_ops \<Rightarrow> bool \<Rightarrow> ('z core \<Rightarrow> 'z core) \<Rightarrow> bytes \<Rightarrow> 'z core \<Rightarrow> (int \<times> 'z core) option" where
  "ah_run ops lops watched device_failed message c = run_loop ops lops watched device_failed message (- 1) c"

section \<open>The program\<close>

text \<open>Nobody else holds the output: no stock GUI, and no interrupt of the audio DMA.\<close>

definition output_free :: "proc_fs \<Rightarrow> bool" where
  "output_free fs \<longleftrightarrow> ah_stock_gui_absent fs ''/proc''
     \<and> ah_file_contains (open_file fs ''/proc/interrupts'') (ascii ''aio_dma'') = 0"

definition open_device :: "int \<Rightarrow> bool \<Rightarrow> int" where
  "open_device fd is_char_device = (if fd < 0 then fd else if \<not> is_char_device then - ENODEV else fd)"

record main_host =
  environment_empty :: bool
  signals_installed :: bool
  sockets :: socket_host
  stdio_silenced :: bool
  is_root :: bool
  files :: proc_fs
  device_fd :: int
  device_is_char :: bool

text \<open>The callback of the loop, over the environment of the core.\<close>

definition pcm_device_failed :: "'d ap_ops \<Rightarrow> 'd backend option core \<Rightarrow> 'd backend option core" where
  "pcm_device_failed ops c = (case c of (s, z) \<Rightarrow>
     case Option.bind z (\<lambda>b. ap_device_failed ops (s, b)) of None \<Rightarrow> (s, None) | Some (s, b) \<Rightarrow> (s, Some b))"

text \<open>
  How the program ends: before it used the socket, after a report of its failure, or with the device
  it opened shut down and closed; the report has the socket only.
\<close>

datatype 'd main_end = Unused 'd | Reported "'d core" | Closed "ah_state \<times> 'd backend"

definition socket_ops :: "'d ap_ops \<Rightarrow> 'd ah_ops" where
  "socket_ops ops = \<lparr>dev_call = (\<lambda>_ _ _ d. (answer 0, d)), sock_send = send_message ops\<rparr>"

text \<open>close(device): what it does to the device is an operation of the environment, as the calls of \<open>ap_ops\<close> are.\<close>

definition pcm_main ::
  "'d ap_ops \<Rightarrow> ('d \<Rightarrow> 'd option) \<Rightarrow> 'd backend option loop_ops \<Rightarrow> bytes \<Rightarrow> main_host \<Rightarrow> string list \<Rightarrow> 'd
     \<Rightarrow> (int \<times> 'd main_end) option" where
  "pcm_main ops close_device lops message host argv d =
     (if \<not> environment_empty host then Some (EXIT_USAGE, Unused d)
      else if \<not> signals_installed host then Some (EXIT_USAGE, Unused d)
      else if ah_parse_socket (sockets host) argv < 0 \<or> \<not> stdio_silenced host then Some (EXIT_USAGE, Unused d)
      else if \<not> is_root host \<or> \<not> ah_board_matches (files host) \<or> \<not> output_free (files host)
        then Some (EXIT_PREFLIGHT, Reported (ah_report_failure (socket_ops ops) message ERROR_PREFLIGHT 0 d))
      else if open_device (device_fd host) (device_is_char host) < 0
        then Some (EXIT_DEVICE, Reported (ah_report_failure (socket_ops ops) message ERROR_VENDOR
          (open_device (device_fd host) (device_is_char host)) d))
      else
        do { (started, s, b) \<leftarrow> ap_start ops d;
             (code, s, z) \<leftarrow>
               (if \<not> started then (case ah_flush (backend_ops ops) message (s, Some b) of (s, z) \<Rightarrow> Some (EXIT_START, s, z))
                else ah_run (backend_ops ops) lops True (pcm_device_failed ops) message (s, Some b));
             b \<leftarrow> z;
             (failures, s, h, d) \<leftarrow> ap_shutdown ops (s, b);
             d \<leftarrow> close_device d;
             Some (if failures \<noteq> 0 \<and> code = EXIT_CLEAN then EXIT_FAILED else code, Closed (s, (h, d))) })"

end
