(* ===== verification/Audio_Process_Properties.thy ===== *)
theory Audio_Process_Properties
  imports Audio_Process
begin

text \<open>
  The properties of the helper's process: its loop only does what a run of the core does, a clean exit
  means a helper that had not failed, and the program with exit code 0 leaves the speaker muted and
  its ring empty.
\<close>

section \<open>The loop is a run of the core\<close>

definition reachable :: "'z ah_ops \<Rightarrow> 'z core \<Rightarrow> bool" where
  "reachable ops c \<longleftrightarrow> (\<exists>acc. helper_run ops acc c)"

lemma reachable_event: "reachable ops c \<Longrightarrow> reachable ops (helper_do ops ev c)"
  unfolding reachable_def using run_event by blast

lemma reachable_outside: "reachable ops (s, z) \<Longrightarrow> reachable ops (s, z')"
  unfolding reachable_def by (auto intro: run_outside)

text \<open>A callback that at most reports the failure of the device.\<close>

definition only_fails :: "('z core \<Rightarrow> 'z core) \<Rightarrow> bool" where
  "only_fails df \<longleftrightarrow> (\<forall>c. fst (df c) = fst c \<or> (\<exists>r. fst (df c) = ah_fail ERROR_VENDOR r (fst c)))"

lemma receive_all_sound:
  assumes "receive_all ops lops now c = Some (r, c')" and "reachable ops c" and "astate (fst c) \<noteq> AUDIO_FAILED"
  shows "reachable ops c' \<and> (r \<le> 0 \<longrightarrow> astate (fst c') \<noteq> AUDIO_FAILED)"
proof -
  have "reachable ops c \<longrightarrow> astate (fst c) \<noteq> AUDIO_FAILED \<longrightarrow>
      reachable ops (snd (r, c')) \<and> (fst (r, c') \<le> 0 \<longrightarrow> astate (fst (snd (r, c'))) \<noteq> AUDIO_FAILED)"
  proof (rule receive_all.raw_induct [where P = "\<lambda>ops lops now c y. reachable ops c \<longrightarrow> astate (fst c) \<noteq> AUDIO_FAILED \<longrightarrow>
      reachable ops (snd y) \<and> (fst y \<le> 0 \<longrightarrow> astate (fst (snd y)) \<noteq> AUDIO_FAILED)", OF _ assms(1)], intro impI)
    fix f ops lops now and c :: "'a core" and y :: "int \<times> 'a core"
    assume IH: "\<And>ops lops now c y. f ops lops now c = Some y \<Longrightarrow> reachable ops c \<longrightarrow> astate (fst c) \<noteq> AUDIO_FAILED \<longrightarrow>
          reachable ops (snd y) \<and> (fst y \<le> 0 \<longrightarrow> astate (fst (snd y)) \<noteq> AUDIO_FAILED)"
      and body: "(case c of (s, z) \<Rightarrow>
         case do_recv lops z of
           None \<Rightarrow> None
         | Some (Inl e, z) \<Rightarrow>
             if e = - EINTR then f ops lops now (s, z)
             else Some (if e = - EAGAIN then 1 else - 1, (s, z))
         | Some (Inr message, z) \<Rightarrow>
             if message = [] then Some (0, (s, z))
             else case ah_receive ops (if MAX_MESSAGE < length message then [] else message) now (s, z) of (s, z) \<Rightarrow>
               if astate s = AUDIO_FAILED then Some (1, (s, z)) else f ops lops now (s, z)) = Some y"
      and r: "reachable ops c" and st: "astate (fst c) \<noteq> AUDIO_FAILED"
    obtain s z where c: "c = (s, z)" by (rule prod.exhaust)
    obtain a z1 where recv: "do_recv lops z = Some (a, z1)" using body by (auto simp: c split: option.splits)
    have r1: "reachable ops (s, z1)" using r reachable_outside by (simp add: c)
    show "reachable ops (snd y) \<and> (fst y \<le> 0 \<longrightarrow> astate (fst (snd y)) \<noteq> AUDIO_FAILED)"
    proof (cases a)
      case (Inl e)
      then show ?thesis using body IH [of ops lops now "(s, z1)" y] r1 st by (auto simp: c recv split: if_splits)
    next
      case (Inr message)
      obtain t y1 where m: "ah_receive ops (if MAX_MESSAGE < length message then [] else message) now (s, z1) = (t, y1)"
        by (rule prod.exhaust)
      have "reachable ops (t, y1)"
        using reachable_event [OF r1, of "Received (if MAX_MESSAGE < length message then [] else message) now"] m by simp
      then show ?thesis using body IH [of ops lops now "(t, y1)" y] r1 st Inr m by (auto simp: c recv split: if_splits)
    qed
  qed
  with assms(2,3) show ?thesis by simp
qed

lemma after_poll_reachable:
  assumes "reachable ops (s, z)" and df: "only_fails df"
  shows "reachable ops (snd (after_poll ops lops watched df a (s, z)))"
proof -
  define c where "c = (if 0 < poll_ready a \<and> watched \<and> poll_device_error a then device_error df (s, z) else (s, z))"
  have fail: "reachable ops (ah_fail e r s, z')" if "e = ERROR_VENDOR" for e r z'
    using reachable_event [OF assms(1), of "Device_lost r"] that reachable_outside by auto
  have "fst (df (s, z)) = s \<or> (\<exists>r. fst (df (s, z)) = ah_fail ERROR_VENDOR r s)"
    using df unfolding only_fails_def by (metis fst_conv)
  then have "reachable ops (device_error df (s, z))"
    using fail reachable_outside [OF assms(1)] by (cases "df (s, z)") (auto simp: device_error_def ah_fail_def mark_dirty_def)
  then have c: "reachable ops c" using assms(1) by (simp add: c_def)
  obtain s1 z1 where c1: "c = (s1, z1)" by (rule prod.exhaust)
  obtain now z2 where n: "now_ms lops z1 = (now, z2)" by (rule prod.exhaust)
  have "reachable ops (snd (ah_service ops now (s1, z2)))"
    using reachable_event [OF reachable_outside, of ops s1 z1 "Served now" z2] c by (simp add: c1)
  then show ?thesis
    using c unfolding after_poll_def Let_def c_def [symmetric] by (simp add: c1 n)
qed

definition run_post :: "'z ah_ops \<Rightarrow> int \<times> 'z core \<Rightarrow> bool" where
  "run_post ops y \<longleftrightarrow> reachable ops (snd y) \<and> fst y \<in> {EXIT_CLEAN, EXIT_FAILED}
     \<and> (fst y = EXIT_CLEAN \<longrightarrow> astate (fst (snd y)) \<noteq> AUDIO_FAILED)"

lemma run_loop_sound:
  assumes "run_loop ops lops watched df message wait c = Some y" and "reachable ops c" and "only_fails df"
  shows "run_post ops y"
proof -
  have "reachable ops c \<longrightarrow> only_fails df \<longrightarrow> run_post ops y"
  proof (rule run_loop.raw_induct [where P = "\<lambda>ops lops watched df message wait c y.
      reachable ops c \<longrightarrow> only_fails df \<longrightarrow> run_post ops y", OF _ assms(1)], intro impI)
    fix f ops lops watched df message wait and c :: "'a core" and y :: "int \<times> 'a core"
    assume IH: "\<And>ops lops watched df message wait c y. f ops lops watched df message wait c = Some y \<Longrightarrow>
        reachable ops c \<longrightarrow> only_fails df \<longrightarrow> run_post ops y"
      and body: "(case ah_flush ops message c of (s, z) \<Rightarrow>
        if broken s \<or> astate s = AUDIO_FAILED then Some (EXIT_FAILED, (s, z))
        else case do_poll lops (hello_pending s \<or> status_dirty s) wait z of
          None \<Rightarrow> None
        | Some (a, z) \<Rightarrow>
            if poll_stop a then Some (EXIT_CLEAN, (s, z))
            else if poll_ready a < 0 \<and> poll_ready a \<noteq> - EINTR then Some (EXIT_FAILED, (s, z))
            else if 0 < poll_ready a \<and> (\<not> watched \<or> poll_socket a) then
              (case now_ms lops z of (now, z) \<Rightarrow>
                 case receive_all ops lops now (s, z) of
                   None \<Rightarrow> None
                 | Some (r, (s, z)) \<Rightarrow>
                     if r < 0 then Some (EXIT_FAILED, (s, z))
                     else if r = 0 then Some (EXIT_CLEAN, (s, z))
                     else if poll_socket_error a then Some (EXIT_FAILED, (s, z))
                     else case after_poll ops lops watched df a (s, z) of (wait, c) \<Rightarrow>
                       f ops lops watched df message wait c)
            else case after_poll ops lops watched df a (s, z) of (wait, c) \<Rightarrow>
              f ops lops watched df message wait c) = Some y"
      and r: "reachable ops c" and df: "only_fails df"
    obtain s z where fl: "ah_flush ops message c = (s, z)" by (rule prod.exhaust)
    have r0: "reachable ops (s, z)" using reachable_event [OF r, of "Flushed message"] by (simp add: fl)
    have go: "run_post ops y" if "reachable ops (t, x)" "f ops lops watched df message (fst (after_poll ops lops watched df a (t, x)))
        (snd (after_poll ops lops watched df a (t, x))) = Some y" for t x a
      using IH [OF that(2)] after_poll_reachable [OF that(1) df] df by blast
    show "run_post ops y"
    proof (cases "broken s \<or> astate s = AUDIO_FAILED")
      case True
      then show ?thesis using body r0 by (auto simp: fl run_post_def)
    next
      case False
      then have st: "astate s \<noteq> AUDIO_FAILED" by simp
      obtain a z1 where p: "do_poll lops (hello_pending s \<or> status_dirty s) wait z = Some (a, z1)"
        using body False by (auto simp: fl split: option.splits)
      have r1: "reachable ops (s, z')" for z' by (rule reachable_outside [OF r0])
      consider "poll_stop a" | "\<not> poll_stop a" "poll_ready a < 0 \<and> poll_ready a \<noteq> - EINTR"
        | (recv) "\<not> poll_stop a" "\<not> (poll_ready a < 0 \<and> poll_ready a \<noteq> - EINTR)" "0 < poll_ready a \<and> (\<not> watched \<or> poll_socket a)"
        | (on) "\<not> poll_stop a" "\<not> (poll_ready a < 0 \<and> poll_ready a \<noteq> - EINTR)" "\<not> (0 < poll_ready a \<and> (\<not> watched \<or> poll_socket a))"
        by blast
      then show ?thesis
      proof cases
        case recv
        obtain now z2 where n: "now_ms lops z1 = (now, z2)" by (rule prod.exhaust)
        obtain x t z3 where q: "receive_all ops lops now (s, z2) = Some (x, (t, z3))"
          using body False recv by (auto simp: fl p n split: option.splits)
        have t: "reachable ops (t, z3)" "x \<le> 0 \<longrightarrow> astate t \<noteq> AUDIO_FAILED"
          using receive_all_sound [OF q r1] st by simp_all
        show ?thesis
        proof (cases "x \<le> 0 \<or> poll_socket_error a")
          case True
          then show ?thesis using body False recv t by (auto simp: fl p n q run_post_def split: if_splits)
        next
          case go_on: False
          then have "f ops lops watched df message (fst (after_poll ops lops watched df a (t, z3)))
              (snd (after_poll ops lops watched df a (t, z3))) = Some y"
            using body False recv by (auto simp: fl p n q split_def split: if_splits)
          then show ?thesis by (rule go [OF t(1)])
        qed
      next
        case on
        then have "f ops lops watched df message (fst (after_poll ops lops watched df a (s, z1)))
            (snd (after_poll ops lops watched df a (s, z1))) = Some y"
          using body False by (auto simp: fl p split_def split: if_splits)
        then show ?thesis by (rule go [OF r1])
      qed (use body False st r1 in \<open>auto simp: fl p run_post_def split: if_splits\<close>)
    qed
  qed
  with assms(2,3) show ?thesis by simp
qed

lemma pcm_device_failed_only: "only_fails (pcm_device_failed ops)"
proof -
  have "fst (pcm_device_failed ops c) = fst c \<or> (\<exists>r. fst (pcm_device_failed ops c) = ah_fail ERROR_VENDOR r (fst c))" for c
    by (auto simp: pcm_device_failed_def ap_device_failed_def bind_eq_Some_conv split: prod.splits option.splits)
  then show ?thesis by (simp add: only_fails_def)
qed

section \<open>The speaker that is left\<close>

lemma device_ioctl_driver:
  assumes "q \<noteq> DRAIN" and "q \<noteq> GET_STATUS"
  shows "device_ioctl (driver_ops k m clock sock) q s =
    Some (fst (the (pcm_ioctl k m q s)), no_status, snd (the (pcm_ioctl k m q s)))"
proof -
  obtain r t where r: "pcm_ioctl k m q s = Some (r, t)" "r \<noteq> - EINTR" using pcm_ioctl_answers [OF assms(1)] by blast
  show ?thesis using assms(2) by (subst device_ioctl.simps) (simp add: driver_ops_def r)
qed

definition silent :: "pcm_device \<Rightarrow> bool" where
  "silent p \<longleftrightarrow> muted p \<and> staged p = 0 \<and> state p = PCM_PREPARED \<and> prepared_level p = 0"

lemma stop_silences:
  assumes "fst (pcm_stop m s) = 0" and "muted (fst s)"
  shows "silent (fst (snd (pcm_stop m s)))"
proof -
  let ?q = "(fst s\<lparr>staged := 0\<rparr>, snd s)"
  have e: "pcm_stop m s = (if state (fst s) = PCM_FAILED then (- EIO, ?q) else stream_prepare m ?q)"
    by (simp add: pcm_stop_def split_def Let_def)
  then have ok: "fst (stream_prepare m ?q) = 0" "pcm_stop m s = stream_prepare m ?q" using assms(1) by (auto split: if_splits)
  have "keeps_device (fst ?q) (fst (snd (stream_prepare m ?q)))" by (rule kept_stream_prepare) simp
  then show ?thesis
    using stream_prepare_state [of m ?q] ok assms(2) by (simp add: silent_def keeps_device_def)
qed

lemma mute_mutes: "pcm_ioctl k m (SET_MUTE 1) s = Some (0, t) \<Longrightarrow> muted (fst t)"
proof -
  assume r: "pcm_ioctl k m (SET_MUTE 1) s = Some (0, t)"
  define z where "z = snd (user_fault m (snd s))"
  let ?q = "(fst s\<lparr>muted := True\<rparr>, z)"
  have "keeps_device (fst ?q) (fst (snd (hal_set_gain m g ?q)))" for g by (rule kept_hal_set_gain) simp
  then have "muted (fst (snd (apply_gain m ?q)))" by (simp add: apply_gain_def split_def keeps_device_def)
  moreover have "t = snd (apply_gain m ?q)"
    using r by (auto simp: pcm_ioctl_def set_mute_def split_def z_def split: if_splits)
  ultimately show ?thesis by simp
qed

lemma shutdown_silences:
  assumes "ap_shutdown (driver_ops k m clock sock) (s, (h, d)) = Some (0, (s', (h', d')))"
  shows "silent (fst d') \<and> pending h' = []"
proof -
  obtain r t where r: "pcm_ioctl k m (SET_MUTE 1) d = Some (r, t)" using pcm_ioctl_answers [of "SET_MUTE 1"] by blast
  obtain r2 t2 where r2: "pcm_ioctl k m STOP t = Some (r2, t2)" using pcm_ioctl_answers [of STOP] by blast
  have d': "r = 0" "r2 = 0" "d' = t2" "h' = h\<lparr>carry_offset := 0, carry_length := 0\<rparr>"
    using assms r2 by (auto simp: ap_shutdown_def device_ioctl_driver r [simplified] split: if_splits)
  have "muted (fst t)" using mute_mutes r d'(1) by simp
  moreover have "pcm_stop m t = (0, d')" using r2 d'(2,3) by (simp add: pcm_ioctl_def)
  ultimately show ?thesis using stop_silences [of m t] d'(4) by (simp add: pending_def)
qed

section \<open>Properties\<close>

text \<open>
  C25. The loop that serves the helper only does what a run of its core does, whatever arrives on the
  socket, in whatever order ppoll reports it, with signals and interrupted calls anywhere: when it
  ends the core is sound and its account of the stream holds, and it ends cleanly only when the core
  had not failed.
\<close>

theorem ah_run_sound:
  assumes "ah_run ops lops watched df message c = Some (code, c')" and "helper_run ops acc c" and "only_fails df"
  shows "\<exists>acc'. helper_run ops acc' c' \<and> core_ok (fst c') \<and> accounted acc' (fst c')
     \<and> (code = EXIT_CLEAN \<or> code = EXIT_FAILED) \<and> (code = EXIT_CLEAN \<longrightarrow> astate (fst c') \<noteq> AUDIO_FAILED)"
proof -
  have "reachable ops c" using assms(2) by (auto simp: reachable_def)
  then have "run_post ops (code, c')" using run_loop_sound assms(1,3) by (simp add: ah_run_def) blast
  then obtain acc' where acc': "helper_run ops acc' c'" "code = EXIT_CLEAN \<or> code = EXIT_FAILED"
      "code = EXIT_CLEAN \<longrightarrow> astate (fst c') \<noteq> AUDIO_FAILED"
    by (auto simp: run_post_def reachable_def)
  then show ?thesis using run_sound [OF acc'(1)] by blast
qed

definition stop_polls :: "'z loop_ops" where
  "stop_polls = \<lparr>do_poll = (\<lambda>_ _ z. Some (\<lparr>poll_ready = - EINTR, poll_stop = True, poll_socket = False,
     poll_socket_error = False, poll_device_error = False\<rparr>, z)), do_recv = (\<lambda>z. Some (Inr [], z)), now_ms = (\<lambda>z. (0, z))\<rparr>"

lemma run_stops:
  assumes "ah_flush ops message c = (s, z)" and "\<not> broken s" and "astate s \<noteq> AUDIO_FAILED"
  shows "ah_run ops stop_polls w df message c = Some (EXIT_CLEAN, (s, z))"
  using assms by (simp add: ah_run_def run_loop.simps stop_polls_def)

lemma started_flush:
  assumes "\<And>m. sock_send ops m z = (1, z)"
  shows "ah_flush ops message (ah_started, z) = (ah_started\<lparr>hello_pending := False, status_dirty := False\<rparr>, z)"
  using assms by (simp add: ah_flush_def ah_started_def ah_init_def Let_def)

theorem ah_run_sound_witness:
  "core_ok (ah_started\<lparr>hello_pending := False, status_dirty := False\<rparr>)"
proof -
  have "ah_run easy_ops stop_polls True id [] (ah_started, ())
      = Some (0, (ah_started\<lparr>hello_pending := False, status_dirty := False\<rparr>, ()))"
    by (rule run_stops [OF started_flush]) (simp_all add: easy_ops_def ah_started_def ah_init_def)
  from ah_run_sound [OF this run_start] show ?thesis by (auto simp: only_fails_def)
qed

text \<open>The last close of a device that is muted, stopped and prepared anew: its drain has nothing to wait for.\<close>

definition driver_close :: "pcm_params \<Rightarrow> 'z hal \<Rightarrow> 'z pcm \<Rightarrow> 'z pcm option" where
  "driver_close k m d = map_option snd (pcm_release k m d)"

definition let_go :: "pcm_device \<Rightarrow> bool" where
  "let_go p \<longleftrightarrow> state p = PCM_CLOSED \<and> \<not> in_use p \<and> \<not> hal_open p \<and> muted p \<and> staged p = 0"

lemma release_end_lets_go:
  assumes "muted (fst s)" and "staged (fst s) = 0"
  shows "let_go (fst (release_end m s))"
proof -
  have "keeps_device (fst (fst s\<lparr>wake_timer := False\<rparr>, snd s)) (fst (hal_quiet m (fst s\<lparr>wake_timer := False\<rparr>, snd s)))"
    by (rule kept_hal_quiet) simp
  then show ?thesis using assms
    by (auto simp: release_end_def close_hal_def split_def let_go_def keeps_device_def)
qed

lemma silent_close:
  assumes "driver_close k m d = Some d'" and "silent (fst d)"
  shows "let_go (fst d') \<and> (d' = release_end m d \<or> d' = release_end m (fst d\<lparr>silence_tail := 0\<rparr>, snd d))"
proof -
  let ?q = "(fst d\<lparr>silence_tail := 0\<rparr>, snd d)"
  have "drain_begin k m d = (0, 0, ?q)" using assms(2) by (simp add: drain_begin_def split_def silent_def Let_def)
  moreover have "drain_loop m False 0 t ?q = Some (0, ?q)" for t
    using assms(2) by (subst drain_loop.simps) (simp add: drain_round_def silent_def)
  ultimately have "pcm_drain k m False d = Some (0, ?q)" by (simp add: pcm_drain_def)
  then have "d' = release_end m d \<or> d' = release_end m ?q"
    using assms(1) by (auto simp: driver_close_def pcm_release_def split: if_splits)
  moreover have "let_go (fst (release_end m d))" "let_go (fst (release_end m ?q))"
    using assms(2) by (auto intro!: release_end_lets_go simp: silent_def)
  ultimately show ?thesis by auto
qed

text \<open>
  C26. The speaker program over the driver, from its start to the close of the device: exit code 0 means
  that it ran as root on its board, that nobody else was seen to hold the output, that the device was
  muted, stopped and empty when it was closed, so that the drain of the driver's release plays nothing of
  the stream, and that it is left closed and free for the next program, with nothing held in the driver or in
  the backend's carry.
\<close>

theorem pcm_main_leaves_silence:
  assumes "pcm_main (driver_ops k m clock sock) (driver_close k m) lops message host argv d = Some (0, e)"
  shows "is_root host \<and> ah_board_matches (files host) \<and> output_free (files host)
     \<and> (\<exists>s h p z p' z'. e = Closed (s, (h, (p', z'))) \<and> let_go p' \<and> pending h = [] \<and> amuted s
         \<and> silent p \<and> ((p', z') = release_end m (p, z) \<or> (p', z') = release_end m (p\<lparr>silence_tail := 0\<rparr>, z)))"
proof -
  let ?ops = "driver_ops k m clock sock"
  have host: "is_root host" "ah_board_matches (files host)" "output_free (files host)"
    using assms by (auto simp: pcm_main_def split: if_splits)
  obtain code s b failures s' h' d' d'' where sh: "ap_shutdown ?ops (s, b) = Some (failures, (s', (h', d')))"
    and cl: "driver_close k m d' = Some d''"
    and res: "(if failures \<noteq> 0 \<and> code = EXIT_CLEAN then EXIT_FAILED else code) = 0" "e = Closed (s', (h', d''))"
    using assms by (auto simp: pcm_main_def bind_eq_Some_conv split: if_splits)
  have f: "failures = 0" using res(1) by (auto split: if_splits)
  obtain h d0 where b: "b = (h, d0)" by (rule prod.exhaust)
  have "amuted s'" using sh by (auto simp: ap_shutdown_def bind_eq_Some_conv b)
  moreover note quiet = shutdown_silences [OF sh [unfolded b f]]
  ultimately show ?thesis using host res(2) silent_close [OF cl] by (cases d'; cases d'') auto
qed

text \<open>An example: the driver of the examples with a ring of 16384 bytes, on a board nobody else uses.\<close>

definition wide_params :: pcm_params where
  "wide_params = demo_params\<lparr>buffer_bytes := 16384\<rparr>"

definition wide_ops :: "demo pcm ap_ops" where
  "wide_ops = driver_ops wide_params demo_hal (\<lambda>_. 0) (\<lambda>_ z. (1, z))"

definition quiet_board :: main_host where
  "quiet_board = \<lparr>environment_empty = True, signals_installed = True,
     sockets = \<lparr>is_socket = (\<lambda>_. True), is_seqpacket = (\<lambda>_. True), is_unix = (\<lambda>_. True), flags_set = (\<lambda>_. True)\<rparr>,
     stdio_silenced = True, is_root = True,
     files = \<lparr>open_file = (\<lambda>path. Inr \<lparr>content = if path = ''/proc/interrupts'' then [] else board_model, answers = []\<rparr>),
       read_link = (\<lambda>_. Inl ENOENT), open_dir = (\<lambda>_. Inr ([], 0))\<rparr>,
     device_fd = 3, device_is_char = True\<rparr>"

lemma quiet_board_ready:
  "ah_board_matches (files quiet_board)" "output_free (files quiet_board)"
  "ah_parse_socket (sockets quiet_board) [''pcm'', ''--socket-fd'', ''12''] = 12"
proof -
  have l: "length board_model = 23" by (simp add: board_model_def ascii_def)
  have "small_loop \<lparr>content = board_model, answers = []\<rparr> 128 [] 0 = (True, board_model, 0)"
    by (subst small_loop.simps, simp add: l, subst small_loop.simps, simp add: l)

  then show "ah_board_matches (files quiet_board)"
    by (simp add: ah_board_matches_def quiet_board_def ah_read_small_def)
  have "contains_loop (ascii ''aio_dma'') \<lparr>content = [], answers = []\<rparr> [] = 0"
    by (subst contains_loop.simps) simp
  then show "output_free (files quiet_board)"
    by (simp add: output_free_def quiet_board_def ah_stock_gui_absent_def ah_file_contains_def) (simp add: ascii_def)
  show "ah_parse_socket (sockets quiet_board) [''pcm'', ''--socket-fd'', ''12''] = 12"
    by (simp add: ah_parse_socket_def quiet_board_def ah_numeric_def digits_value_def digit_value_def Let_def)
qed

text \<open>The driver of the examples, prepared and idle, with gain \<open>g\<close> and mute \<open>b\<close>.\<close>

definition idle_device :: "bool \<Rightarrow> int \<Rightarrow> pcm_device" where
  "idle_device b g = fst demo_opened\<lparr>muted := b, gain_db := g\<rparr>"

definition idle_status :: "bool \<Rightarrow> int \<Rightarrow> pcm_status" where
  "idle_status b g = \<lparr>st_state = pcm_state_code PCM_PREPARED, st_buffer = 16384, st_period = 256, st_queued = 0,
     st_written = 0, st_underruns = 0, st_gain = g, st_muted = (if b then 1 else 0), st_hal_error = 0, st_measured = 0\<rparr>"

lemma idle_fields: "state (idle_device b g) = PCM_PREPARED" "staged (idle_device b g) = 0" "written (idle_device b g) = 0"
    "underruns (idle_device b g) = 0" "hal_error (idle_device b g) = 0" "measured_rate (idle_device b g) = 0"
    "muted (idle_device b g) = b" "gain_db (idle_device b g) = g"
  by (simp_all add: idle_device_def demo_opened_eq pcm_zero_def)

lemma idle_status_read: "device_ioctl wide_ops GET_STATUS (idle_device b g, demo_start)
    = Some (0, idle_status b g, (idle_device b g, demo_start))"
proof -
  have l: "hal_level demo_hal (idle_device b g, demo_start) = (0, 0, (idle_device b g, demo_start))"
    using demo_hal_level [of demo_start] by (simp add: demo_start_def)
  have u: "user_fault demo_hal z = (False, z)" for z by (simp add: demo_hal_def)
  have "pcm_get_status wide_params demo_hal (idle_device b g, demo_start) = (Inr (idle_status b g), (idle_device b g, demo_start))"
    by (simp add: pcm_get_status_def idle_fields l u idle_status_def wide_params_def demo_params_def wrap32_def)
  then show ?thesis by (subst device_ioctl.simps) (simp add: wide_ops_def driver_ops_def)
qed

lemma idle_ioctl:
  "device_ioctl wide_ops (SET_MUTE v) (idle_device b g, demo_start) = Some (0, no_status, (idle_device (v \<noteq> 0) g, demo_start))"
  "device_ioctl wide_ops (SET_GAIN x) (idle_device b g, demo_start)
     = Some (0, no_status, (idle_device b (clamp_gain wide_params x), demo_start))"
  "fst (the (pcm_ioctl wide_params demo_hal STOP (idle_device b g, demo_start))) = 0"
proof -
  have u: "user_fault demo_hal z = (False, z)" and r: "mhal_restart demo_hal z = (0, z\<lparr>ring_fill := 0\<rparr>)" for z
    by (simp_all add: demo_hal_def)
  have i: "(idle_device b g)\<lparr>muted := c\<rparr> = idle_device c g" "(idle_device b g)\<lparr>gain_db := c'\<rparr> = idle_device b c'" for c c'
    by (simp_all add: idle_device_def)
  show "device_ioctl wide_ops (SET_MUTE v) (idle_device b g, demo_start) = Some (0, no_status, (idle_device (v \<noteq> 0) g, demo_start))"
    unfolding wide_ops_def by (simp add: device_ioctl_driver pcm_ioctl_def u set_mute_def apply_gain_def i idle_fields)
  show "device_ioctl wide_ops (SET_GAIN x) (idle_device b g, demo_start)
     = Some (0, no_status, (idle_device b (clamp_gain wide_params x), demo_start))"
    unfolding wide_ops_def by (simp add: device_ioctl_driver pcm_ioctl_def u set_gain_def apply_gain_def i idle_fields)
  show "fst (the (pcm_ioctl wide_params demo_hal STOP (idle_device b g, demo_start))) = 0"
    by (simp add: pcm_ioctl_def pcm_stop_def stream_prepare_def idle_fields r)
qed

lemma quiet_start: "ap_start wide_ops demo_opened = Some (True, ah_started, (backend_init, (idle_device True (- 60), demo_start)))"
proof -
  have o: "demo_opened = (idle_device False (- 28), demo_start)"
    by (simp add: idle_device_def demo_opened_eq pcm_zero_def)
  have v: "audio_volume_db 0 = - 60" "clamp_gain wide_params (- 60) = - 60"
    by (simp_all add: audio_volume_db_def awtrix_volume_db_def volume_table_def clamp_gain_def wide_params_def demo_params_def)
  have "\<not> start_refused (idle_status False (- 28))" by (simp add: start_refused_def idle_status_def)
  then show ?thesis
    by (simp add: ap_start_def o idle_status_read idle_ioctl control_def v Let_def)
       (simp add: idle_status_def backend_init_def ah_started_def)
qed

theorem pcm_main_leaves_silence_witness:
  "\<exists>s h p z. pcm_main wide_ops (driver_close wide_params demo_hal) stop_polls [] quiet_board
       [''pcm'', ''--socket-fd'', ''12''] demo_opened = Some (0, Closed (s, (h, (p, z))))
     \<and> let_go p \<and> pending h = []"
proof -
  let ?b = "(backend_init, (idle_device True (- 60), demo_start))"
  let ?s = "ah_started\<lparr>hello_pending := False, status_dirty := False\<rparr>"
  have send: "sock_send (backend_ops wide_ops) m (Some ?b) = (1, Some ?b)" for m
    by (simp add: backend_ops_def wide_ops_def driver_ops_def)
  have run: "ah_run (backend_ops wide_ops) stop_polls True df [] (ah_started, Some ?b) = Some (EXIT_CLEAN, (?s, Some ?b))" for df
    by (rule run_stops [OF started_flush [OF send]]) (simp_all add: ah_started_def ah_init_def)
  have stop: "\<exists>t. device_ioctl wide_ops STOP (idle_device True (- 60), demo_start) = Some (0, no_status, t)"
    using idle_ioctl(3) [of True "- 60"] unfolding wide_ops_def by (simp add: device_ioctl_driver)
  then have "\<exists>e. ap_shutdown wide_ops (?s, ?b) = Some (0, e)"
    by (auto simp: ap_shutdown_def idle_ioctl)
  then obtain s h q where shut: "ap_shutdown wide_ops (?s, ?b) = Some (0, (s, (h, q)))" by auto
  have "silent (fst q)" using shutdown_silences shut unfolding wide_ops_def by metis
  then have "drain_begin wide_params demo_hal q = (0, 0, (fst q\<lparr>silence_tail := 0\<rparr>, snd q))"
    by (simp add: drain_begin_def split_def silent_def Let_def)
  then have "\<exists>y. driver_close wide_params demo_hal q = Some y"
    using \<open>silent (fst q)\<close> by (simp add: driver_close_def pcm_release_def pcm_drain_def drain_loop.simps drain_round_def silent_def)
  then obtain q' where close: "driver_close wide_params demo_hal q = Some q'" ..
  have board: "environment_empty quiet_board" "signals_installed quiet_board" "stdio_silenced quiet_board" "is_root quiet_board"
      "device_fd quiet_board = 3" "device_is_char quiet_board"
    by (simp_all add: quiet_board_def)
  have main: "pcm_main wide_ops (driver_close wide_params demo_hal) stop_polls [] quiet_board
      [''pcm'', ''--socket-fd'', ''12''] demo_opened = Some (0, Closed (s, (h, q')))"
    by (simp add: pcm_main_def board quiet_board_ready quiet_start run shut close open_device_def)
  from pcm_main_leaves_silence [OF main [unfolded wide_ops_def]] main show ?thesis by (cases q') auto
qed

end
