(* ===== verification/App_Host.thy ===== *)
theory App_Host
  imports Main
begin

text \<open>
  The rotation of the apps on the panel, \<^verbatim>\<open>core/apps/AppHost.cpp\<close>: the list of the apps in the loop, the
  one on screen, and the transition to the next. Apps are names; the gate says which of them take their
  turn now. An index is an int as in the source, -1 for none; the time is in milliseconds.
\<close>

section \<open>Code\<close>

datatype app_phase = Fixed | InTransition

record app_host =
  rot_apps :: "string list"
  rot_current :: int
  rot_target :: int
  rot_direction :: int
  rot_phase :: app_phase
  rot_start :: int
  rot_started :: bool

definition new_host :: app_host where
  "new_host = \<lparr>rot_apps = [], rot_current = 0, rot_target = - 1, rot_direction = 1, rot_phase = Fixed,
     rot_start = 0, rot_started = False\<rparr>"

definition in_apps :: "string list \<Rightarrow> int \<Rightarrow> bool" where
  "in_apps ids i \<longleftrightarrow> 0 \<le> i \<and> i < int (length ids)"

fun index_from :: "int \<Rightarrow> string \<Rightarrow> string list \<Rightarrow> int" where
  "index_from i x [] = - 1"
| "index_from i x (y # ys) = (if y = x then i else index_from (i + 1) x ys)"

definition index_of :: "string list \<Rightarrow> string \<Rightarrow> int" where
  "index_of ids x = (if x = [] then - 1 else index_from 0 x ids)"

definition set_apps :: "string list \<Rightarrow> app_host \<Rightarrow> app_host" where
  "set_apps ids h =
     (if ids = rot_apps h then h
      else
        let keep = (if in_apps (rot_apps h) (rot_current h) then rot_apps h ! nat (rot_current h) else []);
            keep_target = (if rot_phase h = InTransition \<and> in_apps (rot_apps h) (rot_target h)
              then rot_apps h ! nat (rot_target h) else []);
            found = index_of ids keep;
            current = (if 0 \<le> found then found
              else if int (length ids) \<le> rot_current h then (if ids = [] then 0 else int (length ids) - 1)
              else rot_current h);
            target = (if 0 \<le> found then index_of ids keep_target else - 1);
            h = h\<lparr>rot_apps := ids, rot_current := current\<rparr>
        in if 0 \<le> target \<and> target \<noteq> current then h\<lparr>rot_target := target\<rparr>
           else h\<lparr>rot_phase := Fixed, rot_target := - 1\<rparr>)"

definition current_id :: "app_host \<Rightarrow> string" where
  "current_id h = (if in_apps (rot_apps h) (rot_current h) then rot_apps h ! nat (rot_current h) else [])"

definition incoming_id :: "app_host \<Rightarrow> string" where
  "incoming_id h =
     (if rot_phase h \<noteq> InTransition then []
      else if \<not> in_apps (rot_apps h) (rot_target h) then []
      else rot_apps h ! nat (rot_target h))"

text \<open>\<open>(a % n + n) % n\<close> of the source is the \<open>mod\<close> of the integers, which is never negative here.\<close>

definition pick :: "(string \<Rightarrow> bool) \<Rightarrow> string list \<Rightarrow> int \<Rightarrow> int \<Rightarrow> int" where
  "pick gate ids from dir =
     (case find (\<lambda>i. gate (ids ! nat i)) (map (\<lambda>step. (from + dir * int step) mod int (length ids)) [1..<length ids]) of
        Some i \<Rightarrow> i | None \<Rightarrow> - 1)"

definition start_phase :: "app_phase \<Rightarrow> int \<Rightarrow> app_host \<Rightarrow> app_host" where
  "start_phase phase now h = h\<lparr>rot_phase := phase, rot_start := now, rot_started := True\<rparr>"

definition settle :: "int \<Rightarrow> app_host \<Rightarrow> app_host" where
  "settle now h =
     (if rot_phase h \<noteq> InTransition then h
      else
        let h = (if in_apps (rot_apps h) (rot_target h) then h\<lparr>rot_current := rot_target h\<rparr> else h)
        in start_phase Fixed now (h\<lparr>rot_target := - 1, rot_direction := 1\<rparr>))"

definition begin_transition :: "(string \<Rightarrow> bool) \<Rightarrow> int \<Rightarrow> int \<Rightarrow> app_host \<Rightarrow> app_host" where
  "begin_transition gate dir now h =
     (if length (rot_apps h) < 2 then h
      else
        let h = settle now h; t = pick gate (rot_apps h) (rot_current h) dir
        in if t < 0 then start_phase Fixed now h
           else start_phase InTransition now (h\<lparr>rot_direction := dir, rot_target := t\<rparr>))"

definition host_tick :: "(string \<Rightarrow> bool) \<Rightarrow> int \<Rightarrow> int \<Rightarrow> int \<Rightarrow> bool \<Rightarrow> app_host \<Rightarrow> app_host" where
  "host_tick gate now dwell transition auto h =
     (if rot_apps h = [] then h
      else
        let h = (if \<not> rot_started h then start_phase (rot_phase h) now h else h)
        in if rot_phase h = Fixed
           then if auto \<and> 2 \<le> length (rot_apps h) \<and> dwell \<le> now - rot_start h
                then begin_transition gate (rot_direction h) now h else h
           else if transition \<le> now - rot_start h then settle now h else h)"

definition host_next :: "(string \<Rightarrow> bool) \<Rightarrow> int \<Rightarrow> app_host \<Rightarrow> app_host" where
  "host_next gate now h = begin_transition gate 1 now h"

definition host_previous :: "(string \<Rightarrow> bool) \<Rightarrow> int \<Rightarrow> app_host \<Rightarrow> app_host" where
  "host_previous gate now h = begin_transition gate (- 1) now h"

definition restart_turn :: "int \<Rightarrow> app_host \<Rightarrow> app_host" where
  "restart_turn now h = (if rot_phase h = Fixed then start_phase Fixed now h else h)"

definition switch_to :: "string \<Rightarrow> int \<Rightarrow> app_host \<Rightarrow> bool \<times> app_host" where
  "switch_to x now h =
     (let i = index_from 0 x (rot_apps h)
      in if i < 0 then (False, h)
         else (True, start_phase Fixed now (h\<lparr>rot_current := i, rot_target := - 1\<rparr>)))"

definition transition_to :: "string \<Rightarrow> int \<Rightarrow> app_host \<Rightarrow> bool \<times> app_host" where
  "transition_to x now h =
     (let i = index_of (rot_apps h) x
      in if i < 0 then (False, h)
         else if rot_phase h = InTransition \<and> i = rot_target h then (True, h)
         else
           let h = settle now h
           in if i = rot_current h then (True, h)
              else (True, start_phase InTransition now (h\<lparr>rot_direction := 1, rot_target := i\<rparr>)))"

section \<open>Facts\<close>

lemma in_apps_nat [simp]: "in_apps ids i \<Longrightarrow> nat i < length ids"
  by (auto simp: in_apps_def)

lemma index_from_cases:
  "(index_from i x ids = - 1 \<and> x \<notin> set ids)
     \<or> (\<exists>k < length ids. index_from i x ids = i + int k \<and> ids ! k = x \<and> x \<notin> set (take k ids))" if "0 \<le> i"
  using that
proof (induction ids arbitrary: i)
  case (Cons y ys)
  show ?case
  proof (cases "y = x")
    case False
    from Cons.IH [of "i + 1"] Cons.prems have "(index_from (i + 1) x ys = - 1 \<and> x \<notin> set ys)
        \<or> (\<exists>k < length ys. index_from (i + 1) x ys = i + 1 + int k \<and> ys ! k = x \<and> x \<notin> set (take k ys))" by simp
    then show ?thesis
    proof (elim disjE exE conjE)
      fix k assume "k < length ys" "index_from (i + 1) x ys = i + 1 + int k" "ys ! k = x" "x \<notin> set (take k ys)"
      then show ?thesis using False by (intro disjI2 exI [of _ "Suc k"]) auto
    qed (use False in simp)
  qed auto
qed simp

lemma index_of_in: "0 \<le> index_of ids x \<Longrightarrow> in_apps ids (index_of ids x) \<and> ids ! nat (index_of ids x) = x"
  using index_from_cases [of 0 x ids] by (auto simp: index_of_def in_apps_def split: if_splits)

lemma index_of_out: "index_of ids x < 0 \<longleftrightarrow> x = [] \<or> x \<notin> set ids"
  using index_from_cases [of 0 x ids] by (auto simp: index_of_def dest: nth_mem)

lemma switch_to_id:
  "switch_to x now h = (if x \<in> set (rot_apps h)
     then (True, start_phase Fixed now (h\<lparr>rot_current := index_from 0 x (rot_apps h), rot_target := - 1\<rparr>)) else (False, h))"
  using index_from_cases [of 0 x "rot_apps h"] by (auto simp: switch_to_def Let_def dest: nth_mem)

section \<open>The rotation is well formed\<close>

definition wf_host :: "app_host \<Rightarrow> bool" where
  "wf_host h \<longleftrightarrow>
     (if rot_apps h = [] then rot_current h = 0 \<and> rot_phase h = Fixed else in_apps (rot_apps h) (rot_current h))
     \<and> (if rot_phase h = InTransition then in_apps (rot_apps h) (rot_target h) \<and> rot_target h \<noteq> rot_current h
        else rot_target h = - 1)
     \<and> (rot_direction h = 1 \<or> rot_direction h = - 1)"

lemma two_apps: "2 \<le> length ids \<Longrightarrow> ids \<noteq> []"
  by (cases ids) auto

lemma wf_current: "wf_host h \<Longrightarrow> rot_apps h \<noteq> [] \<Longrightarrow> in_apps (rot_apps h) (rot_current h)"
  by (simp add: wf_host_def)

lemma wf_new_host: "wf_host new_host"
  by (simp add: wf_host_def new_host_def)

lemma wf_start_phase: "wf_host h \<Longrightarrow> wf_host (start_phase (rot_phase h) now h)"
  by (simp add: wf_host_def start_phase_def)

lemma settle_settled:
  assumes "wf_host h"
  shows "wf_host (settle now h) \<and> rot_phase (settle now h) = Fixed \<and> rot_apps (settle now h) = rot_apps h
    \<and> rot_current (settle now h) = (if rot_phase h = InTransition then rot_target h else rot_current h)"
proof -
  have "rot_phase h = Fixed" if "rot_phase h \<noteq> InTransition" using that by (cases "rot_phase h") auto
  then show ?thesis using assms by (auto simp: settle_def wf_host_def start_phase_def in_apps_def Let_def)
qed

text \<open>The places of the loop in the order they are tried.\<close>

definition place :: "string list \<Rightarrow> int \<Rightarrow> int \<Rightarrow> nat \<Rightarrow> int" where
  "place ids from dir step = (from + dir * int step) mod int (length ids)"

lemma place_in: "ids \<noteq> [] \<Longrightarrow> in_apps ids (place ids from dir step)"
  by (simp add: place_def in_apps_def)

lemma place_reaches:
  assumes "in_apps ids i" and "in_apps ids from" and "i \<noteq> from" and "dir = 1 \<or> dir = - 1"
  shows "\<exists>step. 1 \<le> step \<and> step < length ids \<and> place ids from dir step = i"
proof -
  let ?n = "int (length ids)"
  define d where "d = (dir * (i - from)) mod ?n"
  have n: "0 < ?n" using assms(1) by (auto simp: in_apps_def)
  have d: "0 \<le> d" "d < ?n" using n by (simp_all add: d_def)
  have "(from + dir * d) mod ?n = (from + dir * (dir * (i - from))) mod ?n"
    unfolding d_def by (metis mod_add_right_eq mod_mult_right_eq)
  also have "dir * (dir * (i - from)) = i - from" using assms(4) by auto
  finally have i: "(from + dir * d) mod ?n = i" using assms(1) by (simp add: in_apps_def)
  have "d \<noteq> 0" using i assms(2,3) by (auto simp: in_apps_def)
  then show ?thesis using d i by (intro exI [of _ "nat d"]) (auto simp: place_def)
qed

lemma place_leaves:
  assumes "in_apps ids from" and "1 \<le> step" and "step < length ids" and "dir = 1 \<or> dir = - 1"
  shows "place ids from dir step \<noteq> from"
proof
  let ?n = "int (length ids)"
  assume "place ids from dir step = from"
  then have "(from + dir * int step) mod ?n = from mod ?n" using assms(1) by (simp add: place_def in_apps_def)
  then have "?n dvd dir * int step" by (metis add_diff_cancel_left' mod_eq_dvd_iff)
  then have "?n dvd int step" using assms(4) by auto
  then show False using assms(2,3) by (auto dest: zdvd_imp_le)
qed

lemma pick_place: "pick gate ids from dir =
  (case find (\<lambda>step. gate (ids ! nat (place ids from dir step))) [1..<length ids] of
     Some step \<Rightarrow> place ids from dir step | None \<Rightarrow> - 1)"
proof -
  have "find P (map f xs) = map_option f (find (\<lambda>x. P (f x)) xs)" for P and f :: "nat \<Rightarrow> int" and xs
    by (induction xs) auto
  then show ?thesis by (simp add: pick_def place_def split: option.splits)
qed

lemma find_upt:
  assumes "find P [a..<b] = Some (i :: nat)"
  shows "a \<le> i \<and> i < b \<and> P i \<and> (\<forall>j. a \<le> j \<longrightarrow> j < i \<longrightarrow> \<not> P j)"
proof -
  obtain k where k: "k < b - a" "P (a + k)" "i = a + k" "\<forall>j<k. \<not> P (a + j)"
    using assms by (auto simp: find_Some_iff)
  have "\<not> P j" if "a \<le> j" "j < i" for j
    using k(4) [rule_format, of "j - a"] that k(3) by simp
  then show ?thesis using k by auto
qed

lemma pick_cases:
  assumes "in_apps ids from" and "dir = 1 \<or> dir = - 1"
  obtains (none) "pick gate ids from dir = - 1" "\<And>i. in_apps ids i \<Longrightarrow> i \<noteq> from \<Longrightarrow> \<not> gate (ids ! nat i)"
  | (some) step where "1 \<le> step" "step < length ids" "pick gate ids from dir = place ids from dir step"
      "gate (ids ! nat (place ids from dir step))"
      "\<And>s. 1 \<le> s \<Longrightarrow> s < step \<Longrightarrow> \<not> gate (ids ! nat (place ids from dir s))"
proof (cases "find (\<lambda>step. gate (ids ! nat (place ids from dir step))) [1..<length ids]")
  case None
  have "\<not> gate (ids ! nat i)" if "in_apps ids i" "i \<noteq> from" for i
    using place_reaches [OF that(1) assms(1) that(2) assms(2)] None by (auto simp: find_None_iff)
  then show ?thesis using None none by (simp add: pick_place)
next
  case (Some step)
  then show ?thesis using some find_upt [OF Some] by (auto simp: pick_place)
qed

lemma begin_transition_cases:
  assumes "wf_host h" and "dir = 1 \<or> dir = - 1"
  obtains (short) "length (rot_apps h) < 2" "begin_transition gate dir now h = h"
  | (alone) "2 \<le> length (rot_apps h)" "begin_transition gate dir now h = start_phase Fixed now (settle now h)"
      "\<And>i. in_apps (rot_apps h) i \<Longrightarrow> i \<noteq> rot_current (settle now h) \<Longrightarrow> \<not> gate (rot_apps h ! nat i)"
  | (leaves) step where "2 \<le> length (rot_apps h)" "1 \<le> step" "step < length (rot_apps h)"
      "begin_transition gate dir now h = start_phase InTransition now ((settle now h)\<lparr>rot_direction := dir,
         rot_target := place (rot_apps h) (rot_current (settle now h)) dir step\<rparr>)"
      "gate (rot_apps h ! nat (place (rot_apps h) (rot_current (settle now h)) dir step))"
      "\<And>s. 1 \<le> s \<Longrightarrow> s < step \<Longrightarrow> \<not> gate (rot_apps h ! nat (place (rot_apps h) (rot_current (settle now h)) dir s))"
proof (cases "length (rot_apps h) < 2")
  case True
  then show ?thesis using short by (simp add: begin_transition_def)
next
  case False
  let ?s = "settle now h"
  have s: "wf_host ?s" "rot_apps ?s = rot_apps h" using settle_settled [OF assms(1)] by auto
  have ne: "rot_apps h \<noteq> []" using False by auto
  have cur: "in_apps (rot_apps h) (rot_current ?s)" using s ne by (auto simp: wf_host_def)
  show ?thesis
  proof (cases rule: pick_cases [OF cur assms(2), of gate])
    case 1
    then show ?thesis using False alone by (simp add: begin_transition_def s Let_def)
  next
    case (2 step)
    have "\<not> pick gate (rot_apps h) (rot_current ?s) dir < 0"
      using place_in [OF ne, of "rot_current ?s" dir step] 2(3) by (simp add: in_apps_def)
    then show ?thesis using False 2 leaves by (simp add: begin_transition_def s Let_def)
  qed
qed

lemma wf_begin_transition:
  assumes "wf_host h" and "dir = 1 \<or> dir = - 1"
  shows "wf_host (begin_transition gate dir now h) \<and> rot_apps (begin_transition gate dir now h) = rot_apps h"
proof -
  have s: "wf_host (settle now h)" "rot_phase (settle now h) = Fixed" "rot_apps (settle now h) = rot_apps h"
    using settle_settled [OF assms(1)] by auto
  show ?thesis
  proof (cases rule: begin_transition_cases [OF assms, of gate now])
    case 1
    then show ?thesis using assms(1) by simp
  next
    case 2
    then show ?thesis using s by (auto simp: wf_host_def start_phase_def)
  next
    case (3 step)
    have ne: "rot_apps h \<noteq> []" using 3(1) by auto
    then have "in_apps (rot_apps h) (rot_current (settle now h))" using s by (auto simp: wf_host_def)
    then show ?thesis
      using s 3 assms(2) ne place_in [OF ne] place_leaves [OF _ 3(2,3) assms(2)]
      by (simp add: wf_host_def start_phase_def)
  qed
qed

lemma wf_set_apps: "wf_host h \<Longrightarrow> wf_host (set_apps ids h) \<and> rot_apps (set_apps ids h) = ids"
proof -
  assume h: "wf_host h"
  define keep where "keep = (if in_apps (rot_apps h) (rot_current h) then rot_apps h ! nat (rot_current h) else [])"
  define target where "target = (if 0 \<le> index_of ids keep then index_of ids (if rot_phase h = InTransition
    \<and> in_apps (rot_apps h) (rot_target h) then rot_apps h ! nat (rot_target h) else []) else - 1)"
  define current where "current = (if 0 \<le> index_of ids keep then index_of ids keep
    else if int (length ids) \<le> rot_current h then (if ids = [] then 0 else int (length ids) - 1) else rot_current h)"
  show ?thesis
  proof (cases "ids = rot_apps h")
    case False
    then have e: "set_apps ids h = (if 0 \<le> target \<and> target \<noteq> current
        then h\<lparr>rot_apps := ids, rot_current := current, rot_target := target\<rparr>
        else h\<lparr>rot_apps := ids, rot_current := current, rot_phase := Fixed, rot_target := - 1\<rparr>)"
      unfolding set_apps_def Let_def keep_def [symmetric] target_def [symmetric] current_def [symmetric] by simp
    have c0: "0 \<le> rot_current h" using h by (auto simp: wf_host_def in_apps_def split: if_splits)
    have cur: "if ids = [] then current = 0 else in_apps ids current"
    proof (cases "0 \<le> index_of ids keep")
      case True
      then show ?thesis using index_of_in [OF True] by (auto simp: current_def in_apps_def)
    next
      case False
      then show ?thesis using c0 by (auto simp: current_def in_apps_def)
    qed
    have tgt: "in_apps ids target \<and> rot_phase h = InTransition" if "0 \<le> target"
    proof -
      have i: "0 \<le> index_of ids keep" using that by (simp add: target_def split: if_splits)
      show ?thesis
      proof (cases "rot_phase h = InTransition \<and> in_apps (rot_apps h) (rot_target h)")
        case True
        then show ?thesis using that i index_of_in [of ids "rot_apps h ! nat (rot_target h)"] by (simp add: target_def)
      next
        case False
        then have "target = - 1" unfolding target_def if_P [OF i] if_not_P [OF False] by (simp add: index_of_def)
        then show ?thesis using that by simp
      qed
    qed
    have nonempty: "ids \<noteq> []" if "0 \<le> target" using tgt [OF that] by (auto simp: in_apps_def)
    show ?thesis
    proof (cases "0 \<le> target \<and> target \<noteq> current")
      case True
      then show ?thesis using e h cur tgt nonempty by (simp add: wf_host_def)
    next
      case False
      then have "set_apps ids h = h\<lparr>rot_apps := ids, rot_current := current, rot_phase := Fixed, rot_target := - 1\<rparr>"
        unfolding e by (rule if_not_P)
      then show ?thesis using h cur by (simp add: wf_host_def)
    qed
  qed (use h in \<open>simp add: set_apps_def\<close>)
qed

lemma wf_host_tick: "wf_host h \<Longrightarrow> wf_host (host_tick gate now dwell tr auto h) \<and> rot_apps (host_tick gate now dwell tr auto h) = rot_apps h"
proof -
  assume h: "wf_host h"
  let ?b = "if \<not> rot_started h then start_phase (rot_phase h) now h else h"
  have b: "wf_host ?b" "rot_apps ?b = rot_apps h" using h wf_start_phase [OF h] by (auto simp: start_phase_def)
  have d: "rot_direction ?b = 1 \<or> rot_direction ?b = - 1" using b(1) by (simp add: wf_host_def)
  show ?thesis
    using h b wf_begin_transition [OF b(1) d, of gate now] settle_settled [OF b(1), of now]
    unfolding host_tick_def Let_def by (simp split del: if_split) (auto split: if_split)
qed

lemma wf_restart_turn: "wf_host h \<Longrightarrow> wf_host (restart_turn now h) \<and> rot_apps (restart_turn now h) = rot_apps h"
  using wf_start_phase [of h now] by (cases "rot_phase h") (auto simp: restart_turn_def start_phase_def)

lemma wf_switch_to: "wf_host h \<Longrightarrow> wf_host (snd (switch_to x now h)) \<and> rot_apps (snd (switch_to x now h)) = rot_apps h"
  using index_from_cases [of 0 x "rot_apps h"]
  by (auto simp: switch_to_def wf_host_def start_phase_def in_apps_def Let_def split: if_splits)

lemma wf_transition_to:
  assumes "wf_host h"
  shows "wf_host (snd (transition_to x now h)) \<and> rot_apps (snd (transition_to x now h)) = rot_apps h"
proof -
  have s: "wf_host (settle now h)" "rot_phase (settle now h) = Fixed" "rot_apps (settle now h) = rot_apps h"
    using settle_settled [OF assms] by auto
  consider "index_of (rot_apps h) x < 0" | "0 \<le> index_of (rot_apps h) x" by linarith
  then show ?thesis
  proof cases
    case 2
    note i = index_of_in [OF 2]
    have "rot_apps h \<noteq> []" using i by (auto simp: in_apps_def)
    then show ?thesis using assms s i
      by (auto simp: transition_to_def Let_def wf_host_def start_phase_def split: if_splits)
  qed (use assms in \<open>simp add: transition_to_def Let_def\<close>)
qed

section \<open>The frames of the panel\<close>

definition begun :: "int \<Rightarrow> app_host \<Rightarrow> app_host" where
  "begun now h = (if \<not> rot_started h then start_phase (rot_phase h) now h else h)"

definition due :: "int \<Rightarrow> int \<Rightarrow> int \<Rightarrow> app_host \<Rightarrow> bool" where
  "due dwell tr now h \<longleftrightarrow> (if rot_phase h = Fixed then dwell else tr) \<le> now - rot_start (begun now h)"

lemma begun_fields [simp]: "rot_apps (begun now h) = rot_apps h" "rot_current (begun now h) = rot_current h"
  "rot_target (begun now h) = rot_target h" "rot_direction (begun now h) = rot_direction h"
  "rot_phase (begun now h) = rot_phase h" "rot_started (begun now h)"
  by (simp_all add: begun_def start_phase_def)

lemma wf_begun: "wf_host h \<Longrightarrow> wf_host (begun now h)"
  by (simp add: begun_def wf_start_phase)

lemma host_tick_due:
  assumes "2 \<le> length (rot_apps h)"
  shows "host_tick gate now dwell tr True h =
    (if due dwell tr now h
     then if rot_phase h = Fixed then begin_transition gate (rot_direction h) now (begun now h) else settle now (begun now h)
     else begun now h)"
proof -
  have "rot_apps h \<noteq> []" using assms by (rule two_apps)
  then show ?thesis
    using assms unfolding host_tick_def begun_def [symmetric] Let_def by (simp add: due_def)
qed

text \<open>The host at each frame, the clock being read once per frame.\<close>

primrec host_frames :: "(string \<Rightarrow> bool) \<Rightarrow> (nat \<Rightarrow> int) \<Rightarrow> int \<Rightarrow> int \<Rightarrow> app_host \<Rightarrow> nat \<Rightarrow> app_host" where
  "host_frames gate clock dwell tr h 0 = h"
| "host_frames gate clock dwell tr h (Suc i) = host_tick gate (clock i) dwell tr True (host_frames gate clock dwell tr h i)"

lemma wf_host_frames: "wf_host h \<Longrightarrow> wf_host (host_frames gate clock dwell tr h i) \<and> rot_apps (host_frames gate clock dwell tr h i) = rot_apps h"
  by (induction i) (simp_all add: wf_host_tick)

text \<open>A phase ends: some frame comes at which the time of the page or of the transition is over.\<close>

lemma phase_ends:
  fixes clock :: "nat \<Rightarrow> int"
  assumes two: "2 \<le> length (rot_apps h)" and w: "wf_host h" and endless: "\<And>t. \<exists>i. \<forall>j \<ge> i. t \<le> clock j"
  shows "\<exists>i \<ge> k. due dwell tr (clock i) (host_frames gate clock dwell tr h i)
    \<and> (host_frames gate clock dwell tr h i = host_frames gate clock dwell tr h k
       \<or> host_frames gate clock dwell tr h i = begun (clock k) (host_frames gate clock dwell tr h k))"
proof -
  let ?f = "host_frames gate clock dwell tr h"
  have step: "?f (Suc i) = begun (clock i) (?f i)" if "\<not> due dwell tr (clock i) (?f i)" for i
    using that two wf_host_frames [OF w] by (simp add: host_tick_due)
  have same: "?f (k + Suc m) = begun (clock k) (?f k)" if "\<forall>i. k \<le> i \<longrightarrow> i < k + Suc m \<longrightarrow> \<not> due dwell tr (clock i) (?f i)" for m
    using that
  proof (induction m)
    case 0
    then show ?case using step [of k] by simp
  next
    case (Suc m)
    then have "?f (k + Suc m) = begun (clock k) (?f k)" by simp
    moreover have "begun t (begun u g) = begun u g" for t u g by (simp add: begun_def start_phase_def)
    moreover have "\<not> due dwell tr (clock (k + Suc m)) (?f (k + Suc m))" by (rule Suc.prems [rule_format]) simp_all
    ultimately show ?case using step [of "k + Suc m"] by (metis add_Suc_right)
  qed
  have ex: "\<exists>i \<ge> k. due dwell tr (clock i) (?f i)"
  proof (rule ccontr)
    assume "\<not> ?thesis"
    then have never: "\<not> due dwell tr (clock i) (?f i)" if "k \<le> i" for i using that by auto
    define g where "g = begun (clock k) (?f k)"
    obtain i where i: "\<forall>j \<ge> i. rot_start g + max dwell tr \<le> clock j" using endless by blast
    define j where "j = k + Suc i"
    have "?f j = g" using same [of i] never by (simp add: j_def g_def)
    moreover have "begun (clock j) g = g" by (simp add: g_def begun_def start_phase_def)
    ultimately have "due dwell tr (clock j) (?f j)" using i [rule_format, of j] by (auto simp: due_def j_def)
    with never [of j] show False by (simp add: j_def del: host_frames.simps)
  qed
  define i where "i = (LEAST i. k \<le> i \<and> due dwell tr (clock i) (?f i))"
  have i: "k \<le> i" "due dwell tr (clock i) (?f i)" using ex LeastI_ex [of "\<lambda>i. k \<le> i \<and> due dwell tr (clock i) (?f i)"]
    by (auto simp: i_def)
  have before: "\<not> due dwell tr (clock j) (?f j)" if "k \<le> j" "j < i" for j
    using not_less_Least [of j "\<lambda>i. k \<le> i \<and> due dwell tr (clock i) (?f i)"] that by (auto simp: i_def)
  have "?f i = ?f k \<or> ?f i = begun (clock k) (?f k)"
  proof (cases "i = k")
    case False
    then obtain m where "i = k + Suc m" using i(1) by (metis le_neq_implies_less less_imp_Suc_add add_Suc_right)
    then show ?thesis using same [of m] before by simp
  qed simp
  then show ?thesis using i by auto
qed

lemma transition_settles:
  assumes "2 \<le> length (rot_apps h)" and "wf_host h" and "\<And>t. \<exists>i. \<forall>j \<ge> i. t \<le> clock j"
    and "rot_phase (host_frames gate clock dwell tr h k) = InTransition"
  shows "\<exists>i > k. rot_phase (host_frames gate clock dwell tr h i) = Fixed
    \<and> rot_current (host_frames gate clock dwell tr h i) = rot_target (host_frames gate clock dwell tr h k)
    \<and> rot_direction (host_frames gate clock dwell tr h i) = 1"
proof -
  let ?f = "host_frames gate clock dwell tr h"
  obtain i where i: "k \<le> i" "due dwell tr (clock i) (?f i)" "?f i = ?f k \<or> ?f i = begun (clock k) (?f k)"
    using phase_ends [OF assms(1-3)] by blast
  have "rot_phase (?f i) = InTransition \<and> rot_target (?f i) = rot_target (?f k)" using i(3) assms(4) by auto
  moreover from this have "in_apps (rot_apps h) (rot_target (?f i))"
    using wf_host_frames [OF assms(2), of gate clock dwell tr i] by (auto simp: wf_host_def)
  ultimately have "?f (Suc i) = start_phase Fixed (clock i) ((begun (clock i) (?f i))
      \<lparr>rot_current := rot_target (?f k), rot_target := - 1, rot_direction := 1\<rparr>)"
    using i(2) assms(1) wf_host_frames [OF assms(2)] by (simp add: host_tick_due settle_def)
  then show ?thesis using i(1) by (intro exI [of _ "Suc i"]) (simp add: start_phase_def)
qed

text \<open>The page is left for the next place, in the direction of the rotation, whose app takes its turn.\<close>

lemma page_left:
  assumes "2 \<le> length (rot_apps h)" and "wf_host h" and "\<And>t. \<exists>i. \<forall>j \<ge> i. t \<le> clock j"
    and "rot_phase (host_frames gate clock dwell tr h k) = Fixed"
    and "in_apps (rot_apps h) j" and "gate (rot_apps h ! nat j)" and "rot_current (host_frames gate clock dwell tr h k) \<noteq> j"
  shows "\<exists>i > k. \<exists>step. rot_phase (host_frames gate clock dwell tr h i) = InTransition
    \<and> rot_target (host_frames gate clock dwell tr h i)
        = place (rot_apps h) (rot_current (host_frames gate clock dwell tr h k))
            (rot_direction (host_frames gate clock dwell tr h k)) step
    \<and> 1 \<le> step
    \<and> (\<forall>s. 1 \<le> s \<longrightarrow> s < step \<longrightarrow> \<not> gate (rot_apps h ! nat (place (rot_apps h)
        (rot_current (host_frames gate clock dwell tr h k)) (rot_direction (host_frames gate clock dwell tr h k)) s)))"
proof -
  let ?f = "host_frames gate clock dwell tr h"
  obtain i where i: "k \<le> i" "due dwell tr (clock i) (?f i)" "?f i = ?f k \<or> ?f i = begun (clock k) (?f k)"
    using phase_ends [OF assms(1-3)] by blast
  have same: "rot_phase (?f i) = Fixed" "rot_current (?f i) = rot_current (?f k)" "rot_direction (?f i) = rot_direction (?f k)"
    using i(3) assms(4) by auto
  let ?b = "begun (clock i) (?f i)"
  have apps: "rot_apps (?f i) = rot_apps h" and wf: "wf_host ?b" using wf_host_frames [OF assms(2)] wf_begun by auto
  have settled: "settle (clock i) ?b = ?b" using same by (simp add: settle_def)
  have dir: "rot_direction (?f i) = 1 \<or> rot_direction (?f i) = - 1" using wf by (simp add: wf_host_def)
  have moved: "?f (Suc i) = begin_transition gate (rot_direction (?f i)) (clock i) ?b"
    using i(2) same apps assms(1) by (simp add: host_tick_due)
  show ?thesis
  proof (cases rule: begin_transition_cases [OF wf dir, of gate "clock i"])
    case 1
    then show ?thesis using assms(1) apps by simp
  next
    case 2
    then show ?thesis using assms(5-7) apps settled same by auto
  next
    case (3 step)
    then show ?thesis using moved i(1) apps settled same
      by (intro exI [of _ "Suc i"]) (auto simp: start_phase_def)
  qed
qed

lemma frames_current:
  assumes "wf_host h" and "rot_apps h \<noteq> []"
  shows "in_apps (rot_apps h) (rot_current (host_frames gate clock dwell tr h i))"
  using wf_current [of "host_frames gate clock dwell tr h i"] wf_host_frames [OF assms(1), of gate clock dwell tr i] assms(2) by simp

lemma place_closer:
  assumes "in_apps ids from" and "in_apps ids j" and "j \<noteq> from" and "gate (ids ! nat j)" and "1 \<le> step"
    and "\<forall>s. 1 \<le> s \<longrightarrow> s < step \<longrightarrow> \<not> gate (ids ! nat (place ids from 1 s))"
  shows "(j - place ids from 1 step) mod int (length ids) < (j - from) mod int (length ids)"
proof -
  let ?n = "int (length ids)"
  define d where "d = (j - from) mod ?n"
  have n: "0 < ?n" using assms(1) by (auto simp: in_apps_def)
  have d: "0 \<le> d" "d < ?n" using n by (simp_all add: d_def)
  have "(from + d) mod ?n = j" using assms(2) by (simp add: d_def mod_add_right_eq in_apps_def)
  then have reach: "place ids from 1 (nat d) = j" using d by (simp add: place_def)
  have "d \<noteq> 0" using \<open>(from + d) mod ?n = j\<close> assms(1,3) by (auto simp: in_apps_def)
  then have "step \<le> nat d" using assms(4,6) reach d by (metis leI less_one nat_0_iff linorder_not_le order_antisym)
  moreover have "(j - place ids from 1 step) mod ?n = (d - int step) mod ?n"
    unfolding d_def place_def by (metis diff_diff_eq mod_diff_left_eq mod_diff_right_eq mult_1)
  ultimately show ?thesis using d assms(5) unfolding d_def [symmetric] by (simp add: mod_pos_pos_trivial)
qed

lemma forward_reaches:
  assumes two: "2 \<le> length (rot_apps h)" and w: "wf_host h" and endless: "\<And>t. \<exists>i. \<forall>j \<ge> i. t \<le> clock j"
    and j: "in_apps (rot_apps h) j" "gate (rot_apps h ! nat j)"
  shows "rot_phase (host_frames gate clock dwell tr h k) = Fixed \<Longrightarrow> rot_direction (host_frames gate clock dwell tr h k) = 1
    \<Longrightarrow> \<exists>i \<ge> k. rot_current (host_frames gate clock dwell tr h i) = j"
proof (induction "nat ((j - rot_current (host_frames gate clock dwell tr h k)) mod int (length (rot_apps h)))"
    arbitrary: k rule: less_induct)
  case less
  let ?f = "host_frames gate clock dwell tr h"
  let ?n = "int (length (rot_apps h))"
  show ?case
  proof (cases "rot_current (?f k) = j")
    case False
    obtain i step where i: "k < i" "rot_phase (?f i) = InTransition"
      "rot_target (?f i) = place (rot_apps h) (rot_current (?f k)) 1 step" "1 \<le> step"
      "\<forall>s. 1 \<le> s \<longrightarrow> s < step \<longrightarrow> \<not> gate (rot_apps h ! nat (place (rot_apps h) (rot_current (?f k)) 1 s))"
      using page_left [OF two w endless less.prems(1) j False] unfolding less.prems(2) by blast
    obtain i' where i': "i < i'" "rot_phase (?f i') = Fixed" "rot_current (?f i') = rot_target (?f i)" "rot_direction (?f i') = 1"
      using transition_settles [OF two w endless i(2)] by blast
    have start: "in_apps (rot_apps h) (rot_current (?f k))"
      by (rule frames_current [OF w two_apps [OF two]])
    have "(j - rot_current (?f i')) mod ?n < (j - rot_current (?f k)) mod ?n"
      unfolding i'(3) i(3) by (rule place_closer [OF start j(1) _ j(2) i(4,5)]) (use False in simp)
    moreover have "0 < ?n" using two by linarith
    ultimately have "nat ((j - rot_current (?f i')) mod ?n) < nat ((j - rot_current (?f k)) mod ?n)"
      by (metis pos_mod_sign nat_less_eq_zless)
    from less.hyps [OF this i'(2,4)] obtain i'' where "i' \<le> i''" "rot_current (?f i'') = j" by blast
    then show ?thesis using i(1) i'(1) by (intro exI [of _ i'']) simp
  qed auto
qed

lemma current_id_at: "in_apps (rot_apps h) (rot_current h) \<Longrightarrow> current_id h = rot_apps h ! nat (rot_current h)"
  by (simp add: current_id_def)

section \<open>Properties\<close>

text \<open>
  C18. No app of the loop starves: with the rotation on and the clock running, every app that takes its
  turn comes on screen again and again, whichever page or transition is running, forwards or backwards,
  and however many apps decline their turn.
\<close>

theorem rotation_is_fair:
  assumes "wf_host h" and "\<And>t. \<exists>i. \<forall>j \<ge> i. t \<le> clock j" and "x \<in> set (rot_apps h)" and "gate x"
  shows "\<exists>i \<ge> k. current_id (host_frames gate clock dwell tr h i) = x"
proof -
  let ?f = "host_frames gate clock dwell tr h"
  obtain m where m: "m < length (rot_apps h)" "rot_apps h ! m = x" using assms(3) by (auto simp: in_set_conv_nth)
  define j where "j = int m"
  have j: "in_apps (rot_apps h) j" "gate (rot_apps h ! nat j)" using m assms(4) by (simp_all add: j_def in_apps_def)
  have wf: "wf_host (?f i)" "rot_apps (?f i) = rot_apps h" for i using wf_host_frames [OF assms(1)] by auto
  have cur: "in_apps (rot_apps h) (rot_current (?f i))" for i
    by (rule frames_current [OF assms(1)]) (use m(1) in auto)
  have "\<exists>i \<ge> k. rot_current (?f i) = j"
  proof (cases "rot_current (?f k) = j")
    case False
    then have two: "2 \<le> length (rot_apps h)" using cur [of k] j(1) by (auto simp: in_apps_def)
    have "\<exists>i \<ge> k. rot_phase (?f i) = InTransition"
    proof (cases "rot_phase (?f k)")
      case Fixed
      from page_left [OF two assms(1,2) this j False] show ?thesis by (metis less_imp_le)
    qed auto
    then obtain i where i: "k \<le> i" "rot_phase (?f i) = InTransition" by blast
    obtain i' where "i < i'" "rot_phase (?f i') = Fixed" "rot_direction (?f i') = 1"
      using transition_settles [OF two assms(1,2) i(2)] by blast
    with forward_reaches [where gate = gate, OF two assms(1,2) j, of dwell tr i'] i(1) show ?thesis by (meson le_trans less_imp_le)
  qed auto
  then obtain i where "k \<le> i" "rot_current (?f i) = j" by blast
  then show ?thesis using cur [of i] wf [of i] m by (intro exI [of _ i]) (auto simp: current_id_def j_def)
qed

theorem rotation_is_fair_witness:
  "\<exists>i \<ge> 7. current_id (host_frames (\<lambda>x. x \<noteq> ''humidity'') (\<lambda>i. 40 * int i) 7000 500
     (set_apps [''time'', ''humidity'', ''washer''] new_host) i) = ''washer''"
proof (rule rotation_is_fair)
  show "wf_host (set_apps [''time'', ''humidity'', ''washer''] new_host)" using wf_set_apps [OF wf_new_host] by blast
  show "\<exists>i. \<forall>j \<ge> i. t \<le> 40 * int j" for t :: int by (rule exI [of _ "nat t"]) auto
  show "''washer'' \<in> set (rot_apps (set_apps [''time'', ''humidity'', ''washer''] new_host))"
    using wf_set_apps [OF wf_new_host] by simp
qed simp

text \<open>
  C24. A new list of apps does not disturb the panel: the app on screen stays, with its turn as far as it
  is, wherever the list now has it; a running transition goes on when both of its apps stay, and is
  dropped when the incoming one left.
\<close>

theorem set_apps_keeps_page:
  assumes "wf_host h" and "current_id h \<noteq> []" and "current_id h \<in> set ids"
  shows "current_id (set_apps ids h) = current_id h \<and> rot_start (set_apps ids h) = rot_start h
    \<and> (incoming_id h \<in> set ids \<and> incoming_id h \<noteq> [] \<and> incoming_id h \<noteq> current_id h \<longrightarrow>
         rot_phase (set_apps ids h) = InTransition \<and> incoming_id (set_apps ids h) = incoming_id h)
    \<and> (incoming_id h \<notin> set ids \<longrightarrow> rot_phase (set_apps ids h) = Fixed)"
proof (cases "ids = rot_apps h")
  case True
  have "incoming_id h \<in> set ids \<or> rot_phase h = Fixed"
    using assms(1) True by (cases "rot_phase h") (auto simp: incoming_id_def wf_host_def in_apps_def)
  moreover have "rot_phase h = InTransition" if "incoming_id h \<noteq> []" using that by (auto simp: incoming_id_def split: if_splits)
  ultimately show ?thesis using True by (auto simp: set_apps_def)
next
  case False
  define found where "found = index_of ids (current_id h)"
  define target where "target = index_of ids (incoming_id h)"
  have f: "0 \<le> found" using assms(2,3) index_of_out [of ids "current_id h"] by (auto simp: found_def)
  note fi = index_of_in [OF f [unfolded found_def], folded found_def]
  have e: "set_apps ids h = (if 0 \<le> target \<and> target \<noteq> found
      then h\<lparr>rot_apps := ids, rot_current := found, rot_target := target\<rparr>
      else h\<lparr>rot_apps := ids, rot_current := found, rot_phase := Fixed, rot_target := - 1\<rparr>)"
  proof -
    have "(if rot_phase h = InTransition \<and> in_apps (rot_apps h) (rot_target h) then rot_apps h ! nat (rot_target h) else [])
        = incoming_id h" by (simp add: incoming_id_def)
    then show ?thesis
      using False f unfolding set_apps_def Let_def current_id_def [symmetric] found_def target_def by simp
  qed
  show ?thesis
  proof (cases "0 \<le> target \<and> target \<noteq> found")
    case True
    note ti = index_of_in [OF True [THEN conjunct1, unfolded target_def], folded target_def]
    have "incoming_id h \<noteq> []" "incoming_id h \<in> set ids"
      using True index_of_out [of ids "incoming_id h"] by (auto simp: target_def)
    then have "rot_phase h = InTransition" by (auto simp: incoming_id_def split: if_splits)
    then show ?thesis using e True fi ti \<open>incoming_id h \<in> set ids\<close> by (simp add: current_id_def incoming_id_def)
  next
    case False
    have "target = found" if "incoming_id h \<in> set ids" "incoming_id h \<noteq> []"
      using that False index_of_out [of ids "incoming_id h"] by (auto simp: target_def)
    moreover have "incoming_id h = current_id h" if "target = found"
      using that index_of_in [of ids "incoming_id h"] f fi by (simp add: target_def)
    ultimately have same: "incoming_id h \<in> set ids \<Longrightarrow> incoming_id h \<noteq> [] \<Longrightarrow> incoming_id h = current_id h" by blast
    have fixed: "set_apps ids h = h\<lparr>rot_apps := ids, rot_current := found, rot_phase := Fixed, rot_target := - 1\<rparr>"
      unfolding e using False by (rule if_not_P)
    have "current_id (set_apps ids h) = current_id h" using fi by (simp add: fixed current_id_def [of "h\<lparr>rot_apps := _\<rparr>"])
        (simp add: current_id_def)
    then show ?thesis using same by (simp add: fixed) blast
  qed
qed

theorem set_apps_keeps_page_witness:
  "let h = host_next (\<lambda>_. True) 10 (set_apps [''a'', ''b'', ''c''] new_host);
       h' = set_apps [''z'', ''a'', ''b''] h
   in current_id h' = ''a'' \<and> rot_phase h' = InTransition \<and> incoming_id h' = ''b''"
proof -
  define h where "h = host_next (\<lambda>_. True) 10 (set_apps [''a'', ''b'', ''c''] new_host)"
  have w: "wf_host h" unfolding h_def host_next_def using wf_begin_transition wf_set_apps [OF wf_new_host] by blast
  have "current_id h = ''a''" "incoming_id h = ''b''" 
    by (simp_all add: h_def host_next_def begin_transition_def settle_def set_apps_def new_host_def pick_def start_phase_def
      current_id_def incoming_id_def in_apps_def index_of_def upt_rec)
  with set_apps_keeps_page [OF w, of "[''z'', ''a'', ''b'']"] show ?thesis by (simp add: Let_def flip: h_def)
qed

text \<open>
  A jump leaves the direction of the transition it cuts short as it was, unlike the end of a transition:
  after \<open>previous\<close> the next automatic turn goes backwards, too.
\<close>

lemma jump_keeps_direction:
  "rot_direction (snd (switch_to x now h)) = rot_direction h" "rot_direction (set_apps ids h) = rot_direction h"
  by (auto simp: switch_to_def set_apps_def start_phase_def Let_def)

lemma turn_goes_backwards:
  "let h = host_previous (\<lambda>_. True) 0 (set_apps [''a'', ''b'', ''c''] new_host);
       h = snd (switch_to ''b'' 100 h)
   in incoming_id (host_tick (\<lambda>_. True) 7100 7000 500 True h) = ''a''"
  by (simp add: host_previous_def begin_transition_def settle_def set_apps_def new_host_def pick_def start_phase_def
    switch_to_def host_tick_def incoming_id_def in_apps_def index_of_def upt_rec)

text \<open>
  A gate that turns the rotation itself, as a script can that is asked: it goes to \<open>b\<close> and on, and then
  lets \<open>b\<close> through; the outer turn, which chose its target from the place it started at, now leads from
  \<open>b\<close> to \<open>b\<close>.
\<close>

lemma gate_that_turns:
  "let h = set_apps [''a'', ''b'', ''c''] new_host;
       h = snd (transition_to ''b'' 0 h);
       h = begin_transition (\<lambda>_. True) 1 0 h;
       h = start_phase InTransition 0 (h\<lparr>rot_direction := 1, rot_target := pick (\<lambda>_. True) [''a'', ''b'', ''c''] 0 1\<rparr>)
   in current_id h = ''b'' \<and> incoming_id h = ''b''"
  by code_simp

end
