(* ===== verification/Notifications.thy ===== *)
theory Notifications
  imports Prelude
begin

text \<open>
  What an app or a notification asks of the engine (\<^verbatim>\<open>core/payload/AppSpec.h\<close>, the fields the engine
  reads) and the queue of notifications, \<^verbatim>\<open>core/notify/NotificationManager.cpp\<close>. Prepared content behind
  an app is an object of an extension; its operations are a record of parameters.
\<close>

section \<open>Pages\<close>

datatype lifetime_expiry = Remove | Mark

record 'c page_spec =
  sp_name :: string
  sp_repeat :: int
  sp_duration :: int
  sp_lifetime :: int
  sp_expiry :: lifetime_expiry
  sp_ended :: bool
  sp_hold :: bool
  sp_stack :: bool
  sp_sound :: string
  sp_sound_script :: string
  sp_content :: "'c option"

text \<open>\<open>PageContent\<close>: what an extension provides for the pages it draws.\<close>

record 'c page_content =
  pc_restart :: "'c \<Rightarrow> 'c"
  pc_invalidate :: "'c \<Rightarrow> 'c"
  pc_inherit :: "'c \<Rightarrow> 'c \<Rightarrow> 'c"
  pc_repeats :: "'c \<Rightarrow> bool"
  pc_revision :: "'c \<Rightarrow> nat"

text \<open>The content starts over, after new assets or from the beginning.\<close>

definition content_reset :: "'c page_content \<Rightarrow> bool \<Rightarrow> 'c page_spec \<Rightarrow> 'c page_spec" where
  "content_reset pc assets p =
     p\<lparr>sp_content := map_option (if assets then pc_invalidate pc else pc_restart pc) (sp_content p)\<rparr>"

section \<open>The queue\<close>

record 'c notification_queue =
  n_queue :: "'c page_spec list"
  n_capacity :: nat
  n_start :: int
  n_generation :: nat

definition new_notifications :: "nat \<Rightarrow> 'c notification_queue" where
  "new_notifications capacity = \<lparr>n_queue = [], n_capacity = capacity, n_start = 0, n_generation = 0\<rparr>"

text \<open>The front of the queue changed.\<close>

definition fronted :: "int \<Rightarrow> 'c notification_queue \<Rightarrow> 'c notification_queue" where
  "fronted now q = q\<lparr>n_start := now, n_generation := wrap32 (n_generation q + 1)\<rparr>"

definition invalidate_content :: "'c page_content \<Rightarrow> bool \<Rightarrow> 'c notification_queue \<Rightarrow> 'c notification_queue" where
  "invalidate_content pc assets q = q\<lparr>n_queue := map (content_reset pc assets) (n_queue q)\<rparr>"

definition n_push :: "'c page_spec \<Rightarrow> int \<Rightarrow> 'c notification_queue \<Rightarrow> bool \<times> 'c notification_queue" where
  "n_push n now q =
     (if \<not> sp_stack n then
        (True, fronted now (q\<lparr>n_queue := (case n_queue q of [] \<Rightarrow> [n] | _ # rest \<Rightarrow> n # rest)\<rparr>))
      else if n_capacity q \<le> length (n_queue q) then (False, q)
      else
        let q' = q\<lparr>n_queue := n_queue q @ [n]\<rparr>
        in (True, if n_queue q = [] then fronted now q' else q'))"

definition n_dismiss :: "int \<Rightarrow> 'c notification_queue \<Rightarrow> 'c notification_queue" where
  "n_dismiss now q = (if n_queue q = [] then q else fronted now (q\<lparr>n_queue := tl (n_queue q)\<rparr>))"

fun remove_named :: "string \<Rightarrow> 'c page_spec list \<Rightarrow> 'c page_spec list option" where
  "remove_named name [] = None"
| "remove_named name (n # ns) = (if sp_name n \<noteq> name then map_option ((#) n) (remove_named name ns) else Some ns)"

definition n_dismiss_named :: "string \<Rightarrow> int \<Rightarrow> 'c notification_queue \<Rightarrow> bool \<times> 'c notification_queue" where
  "n_dismiss_named name now q =
     (if name = [] then (False, q)
      else case remove_named name (n_queue q) of
        None \<Rightarrow> (False, q)
      | Some ns \<Rightarrow>
          (True, (if sp_name (hd (n_queue q)) = name then fronted now else id) (q\<lparr>n_queue := ns\<rparr>)))"

definition n_update :: "int \<Rightarrow> int \<Rightarrow> bool \<Rightarrow> bool \<Rightarrow> 'c notification_queue \<Rightarrow> 'c notification_queue" where
  "n_update now default_duration hold passes_done q = (case n_queue q of
     [] \<Rightarrow> q
   | n # ns \<Rightarrow>
       if sp_hold n \<or> hold then q
       else
         let duration = (if passes_done then sp_duration n
               else if 0 < sp_duration n then sp_duration n else default_duration)
         in if duration \<le> now - n_start q then fronted now (q\<lparr>n_queue := ns\<rparr>) else q)"

definition n_clear :: "'c notification_queue \<Rightarrow> 'c notification_queue" where
  "n_clear q = q\<lparr>n_queue := []\<rparr>"

section \<open>Runs of the queue\<close>

definition n_current :: "'c notification_queue \<Rightarrow> 'c page_spec option" where
  "n_current q = (case n_queue q of [] \<Rightarrow> None | n # _ \<Rightarrow> Some n)"

datatype 'c note_event = NPush "'c page_spec" int | NDismiss int | NDismissNamed string int | NUpdate int int bool bool
  | NInvalidate bool | NClear

fun note_do :: "'c page_content \<Rightarrow> 'c note_event \<Rightarrow> 'c notification_queue \<Rightarrow> 'c notification_queue" where
  "note_do pc (NPush n now) q = snd (n_push n now q)"
| "note_do pc (NDismiss now) q = n_dismiss now q"
| "note_do pc (NDismissNamed name now) q = snd (n_dismiss_named name now q)"
| "note_do pc (NUpdate now d hold passed) q = n_update now d hold passed q"
| "note_do pc (NInvalidate assets) q = invalidate_content pc assets q"
| "note_do pc NClear q = n_clear q"

text \<open>What the invalidations among the events make of a notification that stays.\<close>

primrec refreshed :: "'c page_content \<Rightarrow> 'c note_event list \<Rightarrow> 'c page_spec \<Rightarrow> 'c page_spec" where
  "refreshed pc [] n = n"
| "refreshed pc (e # es) n = refreshed pc es (case e of NInvalidate assets \<Rightarrow> content_reset pc assets n | _ \<Rightarrow> n)"

definition note_ok :: "'c notification_queue \<Rightarrow> bool" where
  "note_ok q \<longleftrightarrow> length (n_queue q) \<le> max 1 (n_capacity q) \<and> n_generation q < 2 ^ 32"

lemma remove_named_cases:
  "(remove_named name ns = None \<and> name \<notin> sp_name ` set ns)
     \<or> (\<exists>pre n post. ns = pre @ n # post \<and> sp_name n = name \<and> name \<notin> sp_name ` set pre \<and> remove_named name ns = Some (pre @ post))"
proof (induction ns)
  case (Cons n ns)
  show ?case
  proof (cases "sp_name n = name")
    case True
    then show ?thesis by (intro disjI2 exI [of _ "[]"] exI [of _ n] exI [of _ ns]) simp
  next
    case False
    from Cons.IH show ?thesis
    proof (elim disjE exE conjE)
      fix pre m post
      assume "ns = pre @ m # post" "sp_name m = name" "name \<notin> sp_name ` set pre" "remove_named name ns = Some (pre @ post)"
      then show ?thesis using False by (intro disjI2 exI [of _ "n # pre"] exI [of _ m] exI [of _ post]) auto
    qed (use False in auto)
  qed
qed simp

text \<open>
  An event changes the front and counts it, or leaves the notification at the front with its content
  started over, or empties the queue.
\<close>

definition counted :: "'c page_content \<Rightarrow> 'c note_event \<Rightarrow> 'c notification_queue \<Rightarrow> 'c notification_queue \<Rightarrow> bool" where
  "counted pc e q r \<longleftrightarrow> n_capacity r = n_capacity q \<and> length (n_queue r) \<le> max (length (n_queue q)) (max 1 (n_capacity q))
     \<and> ((n_generation r = n_generation q
           \<and> (n_current r = map_option (refreshed pc [e]) (n_current q) \<or> e = NClear \<and> n_current r = None))
        \<or> n_generation r = wrap32 (n_generation q + 1))"

lemma counted_same: "(\<And>n. refreshed pc [e] n = n) \<Longrightarrow> counted pc e q q"
  by (cases "n_current q") (simp_all add: counted_def del: refreshed.simps)

lemma counted_fronted:
  "length ns \<le> max (length (n_queue q)) (max 1 (n_capacity q)) \<Longrightarrow> counted pc e q (fronted now (q\<lparr>n_queue := ns\<rparr>))"
  by (simp add: counted_def fronted_def)

lemma note_do_counted: "counted pc e q (note_do pc e q)"
proof (cases e)
  case (NPush n now)
  show ?thesis
  proof (cases "sp_stack n")
    case True
    then show ?thesis
      by (cases "n_queue q") (auto simp: NPush n_push_def counted_def fronted_def n_current_def Let_def)
  next
    case False
    then show ?thesis
      by (simp add: NPush n_push_def) (rule counted_fronted, simp split: list.splits)
  qed
next
  case (NDismiss now)
  then show ?thesis by (auto simp: n_dismiss_def counted_same intro!: counted_fronted)
next
  case (NDismissNamed name now)
  show ?thesis
  proof (cases "name = [] \<or> remove_named name (n_queue q) = None")
    case True
    then show ?thesis by (auto simp: NDismissNamed n_dismiss_named_def counted_same)
  next
    case False
    then obtain pre n post where q: "n_queue q = pre @ n # post" "sp_name n = name" "name \<notin> sp_name ` set pre"
        "remove_named name (n_queue q) = Some (pre @ post)"
      using remove_named_cases [of name "n_queue q"] by auto
    show ?thesis
    proof (cases pre)
      case Nil
      then show ?thesis using False q by (simp add: NDismissNamed n_dismiss_named_def counted_fronted)
    next
      case (Cons a prae)
      then have "sp_name a \<noteq> name" using q(3) by auto
      then show ?thesis using False q Cons
        by (simp add: NDismissNamed n_dismiss_named_def counted_def n_current_def)
    qed
  qed
next
  case (NUpdate now d hold passed)
  then show ?thesis
    by (cases "n_queue q") (simp_all add: n_update_def counted_same counted_fronted Let_def)
next
  case (NInvalidate assets)
  then show ?thesis
    by (cases "n_queue q") (simp_all add: invalidate_content_def counted_def n_current_def)
qed (simp add: n_clear_def counted_def n_current_def)

lemma note_do_ok: "note_ok q \<Longrightarrow> note_ok (note_do pc e q)"
  using note_do_counted [of pc e q] wrap32_less [of "n_generation q + 1"] by (auto simp: note_ok_def counted_def max_def split: if_splits)

lemma generation_counts:
  "\<exists>k \<le> length es. n_generation (fold (note_do pc) es q) mod 2 ^ 32 = (n_generation q + k) mod 2 ^ 32
     \<and> (k = 0 \<longrightarrow> n_current (fold (note_do pc) es q) = map_option (refreshed pc es) (n_current q)
         \<or> NClear \<in> set es \<and> n_current (fold (note_do pc) es q) = None)"
proof (induction es arbitrary: q)
  case Nil
  then show ?case by (simp add: option.map_ident)
next
  case (Cons e es)
  define r where "r = note_do pc e q"
  obtain k where k: "k \<le> length es"
      "n_generation (fold (note_do pc) es r) mod 2 ^ 32 = (n_generation r + k) mod 2 ^ 32"
      "k = 0 \<longrightarrow> n_current (fold (note_do pc) es r) = map_option (refreshed pc es) (n_current r)
         \<or> NClear \<in> set es \<and> n_current (fold (note_do pc) es r) = None"
    using Cons.IH by blast
  have split: "map_option (refreshed pc (e # es)) x = map_option (refreshed pc es) (map_option (refreshed pc [e]) x)" for x
    by (cases x) simp_all
  have c: "counted pc e q r" unfolding r_def by (rule note_do_counted)
  show ?case
  proof (cases "n_generation r = wrap32 (n_generation q + 1)")
    case True
    then show ?thesis using k(1,2) by (intro exI [of _ "Suc k"]) (simp add: wrap32_def mod_simps flip: r_def)
  next
    case False
    then have "n_generation r = n_generation q"
        "n_current r = map_option (refreshed pc [e]) (n_current q) \<or> e = NClear \<and> n_current r = None"
      using c unfolding counted_def by blast+
    then show ?thesis using k unfolding split fold_Cons comp_apply r_def [symmetric] by (intro exI [of _ k]) auto
  qed
qed

section \<open>Properties\<close>

text \<open>
  C22. The number the renderer tells notifications apart by is exact: as long as fewer than 2^32 things
  happen to the queue, the same number means the same notification on screen, its content at most started
  over by the invalidations among them. Only emptying the queue takes the notification away without
  counting. The queue never grows past its capacity.
\<close>

theorem generation_names_current:
  assumes "note_ok q" and "length es < 2 ^ 32"
  shows "(n_generation (fold (note_do pc) es q) = n_generation q \<longrightarrow>
      n_current (fold (note_do pc) es q) = map_option (refreshed pc es) (n_current q)
      \<or> NClear \<in> set es \<and> n_current (fold (note_do pc) es q) = None)
    \<and> note_ok (fold (note_do pc) es q)"
proof -
  obtain k where k: "k \<le> length es" "n_generation (fold (note_do pc) es q) mod 2 ^ 32 = (n_generation q + k) mod 2 ^ 32"
      "k = 0 \<longrightarrow> n_current (fold (note_do pc) es q) = map_option (refreshed pc es) (n_current q)
         \<or> NClear \<in> set es \<and> n_current (fold (note_do pc) es q) = None"
    using generation_counts by blast
  have "k = 0" if "n_generation (fold (note_do pc) es q) = n_generation q"
  proof -
    have "(n_generation q + k) mod 2 ^ 32 = n_generation q mod 2 ^ 32" using k(2) that by simp
    then have "2 ^ 32 dvd k" by (metis add_diff_cancel_left' le_add1 mod_eq_dvd_iff_nat)
    then show ?thesis using k(1) assms(2) by (auto dest: dvd_imp_le)
  qed
  moreover have "note_ok (fold (note_do pc) es q)"
    using assms(1) by (induction es arbitrary: q) (auto simp: note_do_ok)
  ultimately show ?thesis using k(3) by blast
qed

definition example_note :: "string \<Rightarrow> bool \<Rightarrow> unit page_spec" where
  "example_note name stack = \<lparr>sp_name = name, sp_repeat = 0, sp_duration = 2000, sp_lifetime = 0, sp_expiry = Remove,
     sp_ended = False, sp_hold = False, sp_stack = stack, sp_sound = [], sp_sound_script = [], sp_content = None\<rparr>"

definition plain_pages :: "unit page_content" where
  "plain_pages = \<lparr>pc_restart = id, pc_invalidate = id, pc_inherit = (\<lambda>c _. c), pc_repeats = (\<lambda>_. False), pc_revision = (\<lambda>_. 0)\<rparr>"

theorem generation_names_current_witness:
  "let q = fold (note_do plain_pages) [NPush (example_note ''door'' True) 0] (new_notifications 32);
       r = fold (note_do plain_pages) [NPush (example_note ''mail'' True) 10, NInvalidate True, NUpdate 1000 7000 False False] q
   in n_generation r = n_generation q \<and> n_current r = Some (example_note ''door'' True)"
proof -
  define q where "q = fold (note_do plain_pages) [NPush (example_note ''door'' True) 0] (new_notifications 32)"
  define es where "es = [NPush (example_note ''mail'' True) 10, NInvalidate True, NUpdate 1000 7000 False False]"
  have q: "q = \<lparr>n_queue = [example_note ''door'' True], n_capacity = 32, n_start = 0, n_generation = 1\<rparr>"
    by (simp add: q_def n_push_def new_notifications_def fronted_def example_note_def wrap32_def)
  have "n_generation (fold (note_do plain_pages) es q) = n_generation q"
    by (simp add: es_def q n_push_def n_update_def example_note_def invalidate_content_def content_reset_def)
  moreover have "note_ok q" "length es < 2 ^ 32" by (simp_all add: note_ok_def q es_def)
  moreover have "n_current q = Some (example_note ''door'' True)" by (simp add: q n_current_def)
  moreover have "refreshed plain_pages es (example_note ''door'' True) = example_note ''door'' True" "NClear \<notin> set es"
    by (simp_all add: es_def content_reset_def example_note_def)
  ultimately show ?thesis
    using generation_names_current [of q es plain_pages] unfolding Let_def q_def [symmetric] es_def [symmetric] by simp
qed

end
