(* ===== verification/Command_Ring.thy ===== *)
theory Command_Ring
  imports Main
begin

text \<open>
  Commands (\<^verbatim>\<open>core/Command.h\<close>) and the ring that holds those that wait for the next tick,
  \<^verbatim>\<open>core/CommandBus.h\<close>. The locale \<open>waiting_line\<close> is what the engine relies on: what is accepted comes out
  once and in order. It is interpreted on the ring.
\<close>

section \<open>Commands\<close>

datatype command_type = No_Command | Notify | DismissNotify | SetPushedApp | SetAppOrder | SwitchApp | NextApp
  | PreviousApp | SetSettings | SetIndicator | Moodlight | SetDisplay | Sleep | PlayAudio | StopAudio | Reboot
  | FactoryReset | ResetSettings | SendScreen | ScriptSet | ScriptConfigSet | ScriptRemove | DeleteApp
  | SetRadioStations | ScriptUpdate | ScriptDataSet | BuiltinAppConfigSet | SetAppEnabled

datatype command_source = Source_Mqtt | Source_Http | Source_Menu | Source_Internal

record command =
  cmd_type :: command_type
  cmd_name :: string
  cmd_payload :: string
  cmd_arg :: int
  cmd_clear :: bool
  cmd_source :: command_source

definition no_command :: command where
  "no_command = \<lparr>cmd_type = No_Command, cmd_name = [], cmd_payload = [], cmd_arg = 0, cmd_clear = False,
     cmd_source = Source_Internal\<rparr>"

datatype dispatch_result = Ok | ParseError | ValidationError | NotFound | Capacity | Busy | Unavailable | Failed
  | Unknown | Conflict

section \<open>The ring\<close>

record command_ring =
  cr_slots :: "command list option"
  cr_capacity :: nat
  cr_head :: nat
  cr_tail :: nat
  cr_count :: nat

definition new_ring :: "nat \<Rightarrow> command_ring" where
  "new_ring capacity = \<lparr>cr_slots = None, cr_capacity = capacity, cr_head = 0, cr_tail = 0, cr_count = 0\<rparr>"

text \<open>\<open>memory\<close>: there is memory for the slots, if they have to be made.\<close>

definition ring_push :: "bool \<Rightarrow> command \<Rightarrow> command_ring \<Rightarrow> bool \<times> command_ring" where
  "ring_push memory c r =
     (if cr_count r = cr_capacity r then (False, r)
      else case (case cr_slots r of
             None \<Rightarrow> if memory then Some (replicate (cr_capacity r) no_command) else None
           | Some slots \<Rightarrow> Some slots) of
        None \<Rightarrow> (False, r)
      | Some slots \<Rightarrow>
          (True, r\<lparr>cr_slots := Some (slots[cr_head r := c]), cr_head := (cr_head r + 1) mod cr_capacity r,
             cr_count := cr_count r + 1\<rparr>))"

definition ring_pop :: "command_ring \<Rightarrow> (command \<times> command_ring) option" where
  "ring_pop r =
     (if cr_count r = 0 then None
      else case cr_slots r of
        None \<Rightarrow> None
      | Some slots \<Rightarrow>
          Some (slots ! cr_tail r, r\<lparr>cr_slots := Some (slots[cr_tail r := no_command]),
            cr_tail := (cr_tail r + 1) mod cr_capacity r, cr_count := cr_count r - 1\<rparr>))"

section \<open>A line of waiting commands\<close>

locale waiting_line =
  fixes waiting :: "'q \<Rightarrow> 'a list" and put :: "'a \<Rightarrow> 'q \<Rightarrow> bool \<times> 'q" and call :: "'q \<Rightarrow> ('a \<times> 'q) option"
    and ok :: "'q \<Rightarrow> bool"
  assumes put_ok: "ok q \<Longrightarrow> ok (snd (put x q))"
    and put_waits: "ok q \<Longrightarrow> waiting (snd (put x q)) = (if fst (put x q) then waiting q @ [x] else waiting q)"
    and call_none: "ok q \<Longrightarrow> call q = None \<longleftrightarrow> waiting q = []"
    and call_some: "ok q \<Longrightarrow> call q = Some (x, q') \<Longrightarrow> waiting q = x # waiting q' \<and> ok q'"
begin

lemma calls_next: "ok q \<Longrightarrow> waiting q = x # xs \<Longrightarrow> \<exists>q'. call q = Some (x, q') \<and> waiting q' = xs \<and> ok q'"
  using call_none [of q] call_some [of q] by (cases "call q") auto

end

section \<open>The ring is a waiting line\<close>

definition bus_ok :: "command_ring \<Rightarrow> bool" where
  "bus_ok r \<longleftrightarrow> cr_count r \<le> cr_capacity r \<and> (0 < cr_capacity r \<longrightarrow> cr_tail r < cr_capacity r)
     \<and> (0 < cr_capacity r \<longrightarrow> cr_head r = (cr_tail r + cr_count r) mod cr_capacity r)
     \<and> (case cr_slots r of None \<Rightarrow> cr_count r = 0 | Some slots \<Rightarrow> length slots = cr_capacity r)"

definition ring_waiting :: "command_ring \<Rightarrow> command list" where
  "ring_waiting r = map (\<lambda>i. the (cr_slots r) ! ((cr_tail r + i) mod cr_capacity r)) [0..<cr_count r]"

lemma slot_apart: "i < m \<Longrightarrow> j < m \<Longrightarrow> (t + i) mod m = (t + j) mod m \<Longrightarrow> i = (j :: nat)"
  by (simp add: nat_mod_eq_iff) (metis nat_mod_eq_iff mod_less mod_add_left_eq add_left_cancel)

lemma ring_push_waits:
  assumes "bus_ok r"
  shows "bus_ok (snd (ring_push memory c r))
    \<and> ring_waiting (snd (ring_push memory c r)) = (if fst (ring_push memory c r) then ring_waiting r @ [c] else ring_waiting r)"
proof (cases "cr_count r = cr_capacity r \<or> cr_slots r = None \<and> \<not> memory")
  case True
  then show ?thesis using assms by (auto simp: ring_push_def split: option.splits)
next
  case False
  let ?n = "cr_capacity r"
  have n: "cr_count r < ?n" using assms False by (auto simp: bus_ok_def)
  define slots where "slots = (case cr_slots r of None \<Rightarrow> replicate ?n no_command | Some slots \<Rightarrow> slots)"
  have e: "ring_push memory c r = (True, r\<lparr>cr_slots := Some (slots[cr_head r := c]), cr_head := (cr_head r + 1) mod ?n,
      cr_count := cr_count r + 1\<rparr>)"
    using False by (auto simp: ring_push_def slots_def split: option.splits)
  have len: "length slots = ?n" using assms by (auto simp: slots_def bus_ok_def split: option.splits)
  have head: "cr_head r = (cr_tail r + cr_count r) mod ?n" and tail: "cr_tail r < ?n"
    using assms n by (auto simp: bus_ok_def)
  have "slots[cr_head r := c] ! ((cr_tail r + i) mod ?n) = slots ! ((cr_tail r + i) mod ?n)" if "i < cr_count r" for i
    using slot_apart [of i ?n "cr_count r" "cr_tail r"] that n head by (intro nth_list_update_neq) auto
  moreover have "slots[cr_head r := c] ! ((cr_tail r + cr_count r) mod ?n) = c" using len n head by simp
  moreover have "the (cr_slots r) = slots" if "0 < cr_count r"
    using assms that by (auto simp: slots_def bus_ok_def split: option.splits)
  ultimately have w: "map (\<lambda>i. slots[cr_head r := c] ! ((cr_tail r + i) mod ?n)) [0..<cr_count r] @ [c] = ring_waiting r @ [c]"
    unfolding ring_waiting_def by (cases "cr_count r = 0") (auto intro!: map_cong)
  have "ring_waiting (snd (ring_push memory c r))
      = map (\<lambda>i. slots[cr_head r := c] ! ((cr_tail r + i) mod ?n)) [0..<cr_count r] @ [slots[cr_head r := c] ! ((cr_tail r + cr_count r) mod ?n)]"
    by (simp add: e ring_waiting_def)
  then have "ring_waiting (snd (ring_push memory c r)) = ring_waiting r @ [c]"
    using w \<open>slots[cr_head r := c] ! ((cr_tail r + cr_count r) mod ?n) = c\<close> by simp
  moreover have "bus_ok (snd (ring_push memory c r))"
    using n tail len head by (simp add: e bus_ok_def mod_simps)
  ultimately show ?thesis by (simp add: e)
qed

lemma ring_pop_none: "bus_ok r \<Longrightarrow> ring_pop r = None \<longleftrightarrow> ring_waiting r = []"
  by (auto simp: ring_pop_def bus_ok_def ring_waiting_def split: option.splits)

lemma ring_pop_some:
  assumes "bus_ok r" and "ring_pop r = Some (c, r')"
  shows "ring_waiting r = c # ring_waiting r' \<and> bus_ok r'"
proof -
  let ?n = "cr_capacity r"
  obtain slots where s: "cr_slots r = Some slots" "0 < cr_count r" "c = slots ! cr_tail r"
      "r' = r\<lparr>cr_slots := Some (slots[cr_tail r := no_command]), cr_tail := (cr_tail r + 1) mod ?n, cr_count := cr_count r - 1\<rparr>"
    using assms(2) by (auto simp: ring_pop_def split: if_splits option.splits)
  have n: "cr_count r \<le> ?n" "0 < ?n" "cr_tail r < ?n" "length slots = ?n" "cr_head r = (cr_tail r + cr_count r) mod ?n"
    using assms(1) s by (auto simp: bus_ok_def)
  have later: "slots[cr_tail r := no_command] ! (((cr_tail r + 1) mod ?n + i) mod ?n) = slots ! ((cr_tail r + Suc i) mod ?n)"
    if "i < cr_count r - 1" for i
  proof -
    have "Suc i < ?n" using that n(1) by linarith
    then have "(cr_tail r + Suc i) mod ?n \<noteq> (cr_tail r + 0) mod ?n"
      using slot_apart [of "Suc i" ?n 0 "cr_tail r"] n(2) by blast
    then show ?thesis using n(3) by (simp add: mod_simps)
  qed
  have "[0..<cr_count r] = 0 # map Suc [0..<cr_count r - 1]" 
    using s(2) by (cases "cr_count r") (simp_all add: upt_conv_Cons map_Suc_upt del: upt_Suc)
  then have "ring_waiting r = c # map (\<lambda>i. slots ! ((cr_tail r + Suc i) mod ?n)) [0..<cr_count r - 1]"
    using s n by (simp add: ring_waiting_def)
  also have "map (\<lambda>i. slots ! ((cr_tail r + Suc i) mod ?n)) [0..<cr_count r - 1] = ring_waiting r'"
    using later by (auto simp: ring_waiting_def s(4) intro!: map_cong)
  finally have w: "ring_waiting r = c # ring_waiting r'" .
  have "((cr_tail r + 1) mod ?n + (cr_count r - 1)) mod ?n = (cr_tail r + cr_count r) mod ?n"
  proof (cases "cr_count r")
    case (Suc m)
    then show ?thesis by (simp add: mod_simps)
  qed (use s(2) in simp)
  then have "bus_ok r'" using n by (simp add: s(4) bus_ok_def)
  with w show ?thesis by simp
qed

interpretation bus: waiting_line ring_waiting "ring_push memory" ring_pop bus_ok for memory
  by unfold_locales (use ring_push_waits ring_pop_none ring_pop_some in \<open>blast+\<close>)

lemma new_ring_ok: "bus_ok (new_ring n)" "ring_waiting (new_ring n) = []"
  by (simp_all add: bus_ok_def new_ring_def ring_waiting_def)

end
