(* ===== verification/Core_Engine.thy ===== *)
theory Core_Engine
  imports App_Host Notifications Command_Ring C_Strings "HOL-Library.List_Lexorder" "HOL-Library.Char_ord"
    "HOL-Library.Monad_Syntax"
begin

text \<open>
  The engine, \<^verbatim>\<open>core/CoreEngine.cpp\<close>, with the part of \<^verbatim>\<open>core/Dispatcher.cpp\<close> that calls it: the apps
  that exist, their arrangement in the loop, pushed apps and their lifetimes, sessions, notifications,
  and the tick of the main loop. A state of the engine comes with a state \<open>'v\<close> of what is around it. The
  parsing of JSON, the settings and the script service are parameters; the service is given the engine,
  as scripts call back into it while they run.
\<close>

section \<open>State\<close>

text \<open>Enumeration values are kept as numbers.\<close>

record scroll_defaults =
  sd_mode :: nat
  sd_direction :: nat
  sd_entry :: nat
  sd_when_fits :: nat
  sd_speed :: int
  sd_gap :: int
  sd_hold :: int

record engine_settings =
  app_duration :: int
  transition_duration :: int
  auto_transition :: bool
  scroll_defaults :: scroll_defaults

record 'c pushed_app =
  pa_name :: string
  pa_spec :: "'c page_spec"
  pa_received :: int
  pa_base :: string
  pa_arrival :: nat

record 'c engine =
  e_host :: app_host
  e_notes :: "'c notification_queue"
  e_bus :: command_ring
  e_pushed :: "'c pushed_app list"
  e_next_arrival :: nat
  e_script_apps :: "string list"
  e_on_demand :: "string list"
  e_session :: string
  e_session_return :: string
  e_session_end :: bool
  e_builtins :: "string list"
  e_order :: "string list"
  e_disabled :: "string list"
  e_rotation_hold :: bool
  e_note_hold :: bool
  e_passes_done :: bool
  e_passes_gen :: nat
  e_done_page :: string
  e_done_revision :: nat
  e_script_paused :: bool
  e_now :: int
  e_settings :: engine_settings
  e_seen_scroll :: scroll_defaults
  e_temperature :: bool
  e_humidity :: bool
  e_battery :: bool

type_synonym ('c, 'v) world = "'c engine \<times> 'v"

text \<open>
  \<open>IScriptService\<close>, as far as the engine calls it. \<open>wants_show\<close>, \<open>launch\<close>, \<open>unload\<close> and the commands run the
  code of scripts, which calls back into the engine; the other questions are answered from what the
  service has stored.
\<close>

record ('c, 'v) script_service =
  wants_show :: "string \<Rightarrow> ('c, 'v) world \<Rightarrow> bool \<times> ('c, 'v) world"
  script_duration :: "'v \<Rightarrow> string \<Rightarrow> int"
  scroll_holds :: "'v \<Rightarrow> string \<Rightarrow> bool"
  is_headless :: "'v \<Rightarrow> string \<Rightarrow> bool"
  is_parked :: "'v \<Rightarrow> string \<Rightarrow> bool"
  script_on_demand :: "'v \<Rightarrow> string \<Rightarrow> bool"
  set_running :: "string list \<Rightarrow> 'v \<Rightarrow> 'v"
  launch :: "string \<Rightarrow> ('c, 'v) world \<Rightarrow> dispatch_result \<times> ('c, 'v) world"
  unload :: "string \<Rightarrow> ('c, 'v) world \<Rightarrow> ('c, 'v) world"
  script_command :: "command \<Rightarrow> ('c, 'v) world \<Rightarrow> dispatch_result \<times> ('c, 'v) world"

text \<open>A JSON text by its shape: an array has None for what is not an object.\<close>

datatype json_shape = Malformed | Object string | Array "string option list" | Other_Value

record ('c, 'v) surroundings =
  pages :: "'c page_content"
  scripts :: "('c, 'v) script_service option"
  save_order :: "(string \<Rightarrow> 'v \<Rightarrow> 'v) option"
  json_string :: "string \<Rightarrow> string"
  ring_memory :: "'v \<Rightarrow> bool"
  drops_retired :: bool
  json_shape_of :: "string \<Rightarrow> json_shape"
  read_spec :: "string \<Rightarrow> 'c page_spec option"
  read_note :: "'v \<Rightarrow> string \<Rightarrow> dispatch_result + 'c page_spec"
  read_order :: "string \<Rightarrow> (string list option \<times> string list) option"
  read_switch :: "string \<Rightarrow> string \<times> bool"
  read_on :: "string \<Rightarrow> bool option"
  empty_object :: "string \<Rightarrow> bool"
  read_settings :: "string \<Rightarrow> engine_settings \<Rightarrow> dispatch_result + engine_settings"
  patch_builtin :: "string \<Rightarrow> string \<Rightarrow> engine_settings \<Rightarrow> dispatch_result \<times> engine_settings \<times> bool"
  elsewhere :: "command \<Rightarrow> 'v \<Rightarrow> dispatch_result \<times> 'v"

abbreviation (input) MAX_PUSHED :: nat where "MAX_PUSHED \<equiv> 50"
abbreviation (input) QUEUE_DEPTH :: nat where "QUEUE_DEPTH \<equiv> 16"
abbreviation (input) MAX_NOTES :: nat where "MAX_NOTES \<equiv> 32"

section \<open>Pushed apps\<close>

text \<open>\<open>std::lower_bound\<close> over the names.\<close>

definition pushed_lower :: "string \<Rightarrow> 'c pushed_app list \<Rightarrow> nat" where
  "pushed_lower name es = length (takeWhile (\<lambda>a. pa_name a < name) es)"

definition pushed_at :: "string \<Rightarrow> 'c pushed_app list \<Rightarrow> 'c pushed_app option" where
  "pushed_at name es =
     (let i = pushed_lower name es in if i = length es \<or> pa_name (es ! i) \<noteq> name then None else Some (es ! i))"

definition pushed_app :: "'c engine \<Rightarrow> string \<Rightarrow> 'c page_spec option" where
  "pushed_app e name = map_option pa_spec (pushed_at name (e_pushed e))"

section \<open>Apps and the loop\<close>

definition sensor_present :: "'c engine \<Rightarrow> string \<Rightarrow> bool" where
  "sensor_present e app =
     (if app = ''Temperature'' then e_temperature e else if app = ''Humidity'' then e_humidity e
      else if app = ''Battery'' then e_battery e else True)"

definition has_builtin :: "'c engine \<Rightarrow> string \<Rightarrow> bool" where
  "has_builtin e name \<longleftrightarrow> name \<in> set (e_builtins e) \<and> sensor_present e name \<and> pushed_app e name = None"

definition known_apps :: "'c engine \<Rightarrow> string list" where
  "known_apps e = filter (has_builtin e) (e_builtins e) @ map pa_name (sort_key pa_arrival (e_pushed e)) @ e_script_apps e"

definition remember :: "string list \<Rightarrow> string list \<Rightarrow> string list" where
  "remember names k = fold (\<lambda>n k. if n \<in> set k then k else k @ [n]) names k"

definition all_apps :: "'c engine \<Rightarrow> string list" where
  "all_apps e = remember (e_disabled e) (remember (e_order e) (known_apps e))"

definition is_enabled :: "'c engine \<Rightarrow> string \<Rightarrow> bool" where
  "is_enabled e name \<longleftrightarrow> name \<notin> set (e_disabled e)"

definition is_script_app :: "'c engine \<Rightarrow> string \<Rightarrow> bool" where
  "is_script_app e name \<longleftrightarrow> name \<in> set (e_script_apps e) \<or> name \<in> set (e_on_demand e)"

definition commas :: "string list \<Rightarrow> string" where
  "commas xs = concat (case xs of [] \<Rightarrow> [] | y # ys \<Rightarrow> y # map (\<lambda>x. '','' @ x) ys)"

definition app_order_json :: "(string \<Rightarrow> string) \<Rightarrow> 'c engine \<Rightarrow> string" where
  "app_order_json q e =
     (let quoted = (\<lambda>s. CHR 0x22 # s @ [CHR 0x22])
      in ''{'' @ quoted ''order'' @ '':['' @ commas (map q (e_order e)) @ ''],'' @ quoted ''disabled'' @ '':[''
           @ commas (map q (e_disabled e)) @ '']}'')"

definition save_arrangement :: "('c, 'v) surroundings \<Rightarrow> ('c, 'v) world \<Rightarrow> ('c, 'v) world" where
  "save_arrangement env w = (case w of (e, v) \<Rightarrow>
     (e, case save_order env of None \<Rightarrow> v | Some save \<Rightarrow> save (app_order_json (json_string env) e) v))"

text \<open>A script app may decline its turn; asking it runs its \<open>should_show\<close>.\<close>

definition show_gate :: "('c, 'v) surroundings \<Rightarrow> string \<Rightarrow> ('c, 'v) world \<Rightarrow> bool \<times> ('c, 'v) world" where
  "show_gate env name w = (case scripts env of
     None \<Rightarrow> (True, w)
   | Some s \<Rightarrow> if \<not> is_script_app (fst w) name then (True, w) else wants_show s name w)"

text \<open>
  The turns of the rotation with this gate: \<open>AppHost::pick\<close>, \<open>beginTransition\<close> and \<open>tick\<close> as in \<open>App_Host\<close>,
  over the whole engine, because the scripts that are asked act on it. The place a turn starts from and
  the number of apps are read once, the apps as they are when they are asked.
\<close>

definition on_host :: "(app_host \<Rightarrow> app_host) \<Rightarrow> ('c, 'v) world \<Rightarrow> ('c, 'v) world" where
  "on_host f w = apfst (\<lambda>e. e\<lparr>e_host := f (e_host e)\<rparr>) w"

primrec turn_pick :: "('c, 'v) surroundings \<Rightarrow> int \<Rightarrow> int \<Rightarrow> nat \<Rightarrow> nat list \<Rightarrow> ('c, 'v) world \<Rightarrow> int \<times> ('c, 'v) world" where
  "turn_pick env from dir n [] w = (- 1, w)"
| "turn_pick env from dir n (step # steps) w =
     (let i = (from + dir * int step) mod int n
      in case show_gate env (rot_apps (e_host (fst w)) ! nat i) w of (shown, w) \<Rightarrow>
           if shown then (i, w) else turn_pick env from dir n steps w)"

definition turn :: "('c, 'v) surroundings \<Rightarrow> int \<Rightarrow> int \<Rightarrow> ('c, 'v) world \<Rightarrow> ('c, 'v) world" where
  "turn env dir now w =
     (if length (rot_apps (e_host (fst w))) < 2 then w
      else
        let w = on_host (settle now) w; n = length (rot_apps (e_host (fst w)))
        in case turn_pick env (rot_current (e_host (fst w))) dir n [1..<n] w of (t, w) \<Rightarrow>
             on_host (\<lambda>h. if t < 0 then start_phase Fixed now h
               else start_phase InTransition now (h\<lparr>rot_direction := dir, rot_target := t\<rparr>)) w)"

definition turn_tick :: "('c, 'v) surroundings \<Rightarrow> int \<Rightarrow> int \<Rightarrow> int \<Rightarrow> bool \<Rightarrow> ('c, 'v) world \<Rightarrow> ('c, 'v) world" where
  "turn_tick env now dwell transition auto w =
     (if rot_apps (e_host (fst w)) = [] then w
      else
        let w = on_host (\<lambda>h. if \<not> rot_started h then start_phase (rot_phase h) now h else h) w; h = e_host (fst w)
        in if rot_phase h = Fixed
           then if auto \<and> 2 \<le> length (rot_apps h) \<and> dwell \<le> now - rot_start h
                then turn env (rot_direction h) now w else w
           else if transition \<le> now - rot_start h then on_host (settle now) w else w)"

text \<open>The enabled apps: the arranged ones in their order, then the others.\<close>

definition running_apps :: "'c engine \<Rightarrow> string list" where
  "running_apps e =
     (let known = known_apps e
      in fold (\<lambda>n running. if is_enabled e n \<and> n \<notin> set running then running @ [n] else running) known
           (filter (\<lambda>n. n \<in> set known \<and> is_enabled e n) (e_order e)))"

definition rebuild_app_list :: "('c, 'v) surroundings \<Rightarrow> ('c, 'v) world \<Rightarrow> ('c, 'v) world" where
  "rebuild_app_list env w = (case w of (e, v) \<Rightarrow>
     let running = running_apps e;
         drawn = (case scripts env of
             None \<Rightarrow> running | Some s \<Rightarrow> filter (\<lambda>n. \<not> is_headless s v n \<and> \<not> is_parked s v n) running);
         (running, drawn) = (if e_session e \<noteq> [] then (running @ [e_session e], [e_session e]) else (running, drawn))
     in (e\<lparr>e_host := set_apps drawn (e_host e)\<rparr>,
         case scripts env of None \<Rightarrow> v | Some s \<Rightarrow> set_running s running v))"

section \<open>Prepared content\<close>

definition ends_on_passes :: "'c page_content \<Rightarrow> 'c engine \<Rightarrow> 'c page_spec \<Rightarrow> bool \<Rightarrow> bool" where
  "ends_on_passes pc e p notification =
     (let repeats = (0 < sp_repeat p \<or> (case sp_content p of None \<Rightarrow> False | Some c \<Rightarrow> pc_repeats pc c))
      in if \<not> repeats \<or> 0 < sp_duration p then False
         else if notification then \<not> sp_hold p
         else auto_transition (e_settings e) \<and> \<not> e_script_paused e \<and> 1 < length (rot_apps (e_host e)))"

definition hold_unfinished_page :: "'c page_content \<Rightarrow> 'c page_spec \<Rightarrow> 'c engine \<Rightarrow> 'c engine" where
  "hold_unfinished_page pc p e =
     e\<lparr>e_done_page := [], e_done_revision := 0, e_rotation_hold := ends_on_passes pc e p False\<rparr>"

definition reset_content_completion :: "'c page_content \<Rightarrow> bool \<Rightarrow> 'c engine \<Rightarrow> 'c engine" where
  "reset_content_completion pc assets e =
     (let pushed = map (\<lambda>a. a\<lparr>pa_spec := content_reset pc assets (pa_spec a)\<rparr>) (e_pushed e);
          e = fold (\<lambda>a e. if sp_content (pa_spec a) \<noteq> None \<and> pa_name a = current_id (e_host e)
                then hold_unfinished_page pc (pa_spec a) e else e) pushed (e\<lparr>e_pushed := pushed\<rparr>);
          e = (case n_current (e_notes e) of
              None \<Rightarrow> e
            | Some n \<Rightarrow> if sp_content n = None then e
                else e\<lparr>e_passes_done := False, e_note_hold := ends_on_passes pc e n True\<rparr>)
      in e\<lparr>e_notes := invalidate_content pc assets (e_notes e)\<rparr>)"

text \<open>The engine's own listener to a change of the settings.\<close>

definition settings_changed :: "'c page_content \<Rightarrow> 'c engine \<Rightarrow> 'c engine" where
  "settings_changed pc e =
     (let next = scroll_defaults (e_settings e);
          e = (if e_seen_scroll e \<noteq> next then reset_content_completion pc False e else e)
      in e\<lparr>e_seen_scroll := next\<rparr>)"

definition new_engine :: "string list \<Rightarrow> engine_settings \<Rightarrow> 'c engine" where
  "new_engine builtins settings =
     \<lparr>e_host = new_host, e_notes = new_notifications MAX_NOTES, e_bus = new_ring QUEUE_DEPTH, e_pushed = [],
      e_next_arrival = 0, e_script_apps = [], e_on_demand = [], e_session = [], e_session_return = [],
      e_session_end = False, e_builtins = builtins, e_order = [], e_disabled = [], e_rotation_hold = False,
      e_note_hold = False, e_passes_done = False, e_passes_gen = 0, e_done_page = [], e_done_revision = 0,
      e_script_paused = False, e_now = 0, e_settings = settings, e_seen_scroll = scroll_defaults settings,
      e_temperature = True, e_humidity = True, e_battery = True\<rparr>"

section \<open>Sessions and script apps\<close>

definition forget_session :: "'c engine \<Rightarrow> 'c engine" where
  "forget_session e = e\<lparr>e_session := [], e_session_return := [], e_session_end := False\<rparr>"

definition leave_session :: "('c, 'v) surroundings \<Rightarrow> ('c, 'v) world \<Rightarrow> ('c, 'v) world" where
  "leave_session env w = (case w of (e, v) \<Rightarrow>
     let back = e_session_return e
     in case rebuild_app_list env ((forget_session e)\<lparr>e_script_paused := False\<rparr>, v) of (e, v) \<Rightarrow>
          (e\<lparr>e_host := snd (switch_to back (e_now e) (e_host e))\<rparr>, v))"

definition end_session :: "('c, 'v) surroundings \<Rightarrow> ('c, 'v) world \<Rightarrow> ('c, 'v) world" where
  "end_session env w =
     (if e_session (fst w) = [] then w
      else leave_session env (case scripts env of None \<Rightarrow> w | Some s \<Rightarrow> unload s (e_session (fst w)) w))"

definition start_session :: "('c, 'v) surroundings \<Rightarrow> string \<Rightarrow> ('c, 'v) world \<Rightarrow> dispatch_result \<times> ('c, 'v) world" where
  "start_session env name w = (case scripts env of
     None \<Rightarrow> (NotFound, w)
   | Some s \<Rightarrow>
       if name \<notin> set (e_on_demand (fst w)) then (NotFound, w)
       else if e_session (fst w) = name then (Ok, w)
       else case end_session env w of (e, v) \<Rightarrow>
         case launch s name (e\<lparr>e_session_return := current_id (e_host e), e_session := name\<rparr>, v) of (r, (e, v)) \<Rightarrow>
           if r \<noteq> Ok then (r, (forget_session e, v))
           else case rebuild_app_list env (e\<lparr>e_script_paused := False\<rparr>, v) of (e, v) \<Rightarrow>
             (Ok, (e\<lparr>e_host := snd (switch_to name (e_now e) (e_host e))\<rparr>, v)))"

definition request_session_end :: "string \<Rightarrow> 'c engine \<Rightarrow> bool \<times> 'c engine" where
  "request_session_end name e = (if name = [] \<or> name \<noteq> e_session e then (False, e) else (True, e\<lparr>e_session_end := True\<rparr>))"

definition forget_arrangement :: "string \<Rightarrow> 'c engine \<Rightarrow> bool \<times> 'c engine" where
  "forget_arrangement name e =
     (name \<in> set (e_order e) \<or> name \<in> set (e_disabled e),
      e\<lparr>e_order := removeAll name (e_order e), e_disabled := removeAll name (e_disabled e)\<rparr>)"

definition sync_script_app :: "('c, 'v) surroundings \<Rightarrow> string \<Rightarrow> ('c, 'v) world \<Rightarrow> ('c, 'v) world" where
  "sync_script_app env name w = (case w of (e, v) \<Rightarrow>
     if name = [] then (e, v)
     else
       let on_demand = (case scripts env of None \<Rightarrow> False | Some s \<Rightarrow> script_on_demand s v name);
           into = (\<lambda>xs. if name \<in> set xs then xs else xs @ [name]);
           e = (if on_demand
             then e\<lparr>e_script_apps := removeAll name (e_script_apps e), e_on_demand := into (e_on_demand e)\<rparr>
             else e\<lparr>e_on_demand := removeAll name (e_on_demand e), e_script_apps := into (e_script_apps e)\<rparr>);
           e = (if \<not> on_demand \<and> e_session e = name then forget_session e else e);
           (arranged, e) = (if on_demand then forget_arrangement name e else (False, e));
           w = rebuild_app_list env (e, v)
       in if arranged then save_arrangement env w else w)"

definition remove_script_app :: "('c, 'v) surroundings \<Rightarrow> string \<Rightarrow> ('c, 'v) world \<Rightarrow> ('c, 'v) world" where
  "remove_script_app env name w = (case w of (e, v) \<Rightarrow>
     if name \<in> set (e_on_demand e) then
       let e = e\<lparr>e_on_demand := remove1 name (e_on_demand e)\<rparr>
       in if e_session e = name then leave_session env (e, v) else (e, v)
     else if name \<notin> set (e_script_apps e) then (e, v)
     else case forget_arrangement name (e\<lparr>e_script_apps := remove1 name (e_script_apps e)\<rparr>) of (arranged, e) \<Rightarrow>
       let w = rebuild_app_list env (e, v) in if arranged then save_arrangement env w else w)"

end
