(* ===== verification/Engine_Commands.thy ===== *)
theory Engine_Commands
  imports Core_Engine
begin

text \<open>
  What commands do to the engine (\<^verbatim>\<open>core/CoreEngine.cpp\<close>, \<^verbatim>\<open>core/Dispatcher.cpp\<close>) and the tick of the main
  loop. Commands that only reach the display, the sound, the indicators or the system are answered from
  the surroundings (\<open>elsewhere\<close>).
\<close>

section \<open>Pushed apps\<close>

text \<open>The name, the base name of an array, and the page of each app of a payload.\<close>

type_synonym 'c parsed_app = "string \<times> string \<times> 'c page_spec"

definition parse_one :: "('c, 'v) surroundings \<Rightarrow> string \<Rightarrow> string \<Rightarrow> string \<Rightarrow> 'c parsed_app option" where
  "parse_one env key obj base = map_option (\<lambda>p. (key, base, p\<lparr>sp_name := key\<rparr>)) (read_spec env obj)"

fun parse_elements :: "('c, 'v) surroundings \<Rightarrow> string \<Rightarrow> nat \<Rightarrow> string option list \<Rightarrow> 'c parsed_app list option" where
  "parse_elements env name idx [] = Some []"
| "parse_elements env name idx (None # xs) = parse_elements env name idx xs"
| "parse_elements env name idx (Some obj # xs) =
     do { p \<leftarrow> parse_one env (name @ print_nat 10 idx) obj name;
          ps \<leftarrow> parse_elements env name (idx + 1) xs;
          Some (p # ps) }"

definition parse_pushed :: "('c, 'v) surroundings \<Rightarrow> string \<Rightarrow> string \<Rightarrow> dispatch_result + 'c parsed_app list" where
  "parse_pushed env name json = (case json_shape_of env json of
     Malformed \<Rightarrow> Inl ParseError
   | Array xs \<Rightarrow> (case parse_elements env name 0 xs of None \<Rightarrow> Inl ValidationError | Some ps \<Rightarrow> Inr ps)
   | Object obj \<Rightarrow> (case parse_one env name obj [] of None \<Rightarrow> Inl ValidationError | Some p \<Rightarrow> Inr [p])
   | Other_Value \<Rightarrow> Inl ParseError)"

definition inherit_content :: "'c page_content \<Rightarrow> 'c page_spec \<Rightarrow> 'c page_spec \<Rightarrow> 'c page_spec" where
  "inherit_content pc old p = (case (sp_content p, sp_content old) of
     (Some c, Some c') \<Rightarrow> p\<lparr>sp_content := Some (pc_inherit pc c c')\<rparr> | _ \<Rightarrow> p)"

definition store_parsed :: "'c page_content \<Rightarrow> 'c parsed_app \<Rightarrow> 'c engine \<Rightarrow> 'c engine" where
  "store_parsed pc parsed e = (case parsed of (key, base, p) \<Rightarrow>
     let es = e_pushed e; i = pushed_lower key es
     in if i < length es \<and> pa_name (es ! i) = key then
          let old = pa_spec (es ! i);
              p = inherit_content pc old p;
              e = (if key = current_id (e_host e) \<and> (sp_content p \<noteq> None \<or> sp_content old \<noteq> None)
                then hold_unfinished_page pc p e else e)
          in e\<lparr>e_pushed := es[i := (es ! i)\<lparr>pa_spec := p, pa_received := e_now e, pa_base := base\<rparr>]\<rparr>
        else
          e\<lparr>e_pushed := take i es @ \<lparr>pa_name = key, pa_spec = p, pa_received = e_now e, pa_base = base,
              pa_arrival = e_next_arrival e\<rparr> # drop i es,
            e_next_arrival := wrap32 (e_next_arrival e + 1)\<rparr>)"

definition set_pushed_app :: "('c, 'v) surroundings \<Rightarrow> string \<Rightarrow> string \<Rightarrow> ('c, 'v) world \<Rightarrow> dispatch_result \<times> ('c, 'v) world" where
  "set_pushed_app env name json w = (case w of (e, v) \<Rightarrow>
     case parse_pushed env name json of
       Inl r \<Rightarrow> (r, w)
     | Inr parsed \<Rightarrow>
         let free = (if MAX_PUSHED \<le> length (e_pushed e) then 0 else MAX_PUSHED - length (e_pushed e));
             needed = length (filter (\<lambda>(key, _). pushed_app e key = None) parsed)
         in if free < needed then (Capacity, w)
            else (Ok, rebuild_app_list env (fold (store_parsed (pages env)) parsed e, v)))"

definition delete_pushed_app :: "('c, 'v) surroundings \<Rightarrow> string \<Rightarrow> ('c, 'v) world \<Rightarrow> ('c, 'v) world" where
  "delete_pushed_app env name w = (case w of (e, v) \<Rightarrow>
     rebuild_app_list env (e\<lparr>e_pushed := filter (\<lambda>a. \<not> (pa_name a = name \<or> pa_base a = name)) (e_pushed e)\<rparr>, v))"

section \<open>The arrangement\<close>

text \<open>\<open>retiredBuiltin\<close> of the platform; the ESP32 retires nothing.\<close>

definition builtin_names :: "string list" where
  "builtin_names = [''Time'', ''Date'', ''Temperature'', ''Humidity'', ''Battery'']"

definition retired_builtin :: "bool \<Rightarrow> string \<Rightarrow> string list \<Rightarrow> bool" where
  "retired_builtin drops name current \<longleftrightarrow> drops \<and> name \<notin> set current \<and> name \<in> set builtin_names"

definition drop_retired :: "bool \<Rightarrow> 'c engine \<Rightarrow> string list \<Rightarrow> string list" where
  "drop_retired drops e names =
     filter (\<lambda>n. \<not> (retired_builtin drops n (e_builtins e) \<and> pushed_app e n = None \<and> n \<notin> set (e_script_apps e))) names"

definition read_names :: "bool \<Rightarrow> string list \<Rightarrow> string list option" where
  "read_names once xs =
     (if [] \<in> set xs then None
      else Some (fold (\<lambda>n out. if \<not> once \<or> n \<notin> set out then out @ [n] else out) xs []))"

definition set_app_order :: "('c, 'v) surroundings \<Rightarrow> string \<Rightarrow> ('c, 'v) world \<Rightarrow> bool \<times> ('c, 'v) world" where
  "set_app_order env json w = (case w of (e, v) \<Rightarrow>
     case read_order env json of
       None \<Rightarrow> (False, w)
     | Some (named, off) \<Rightarrow>
         case (case named of None \<Rightarrow> Some (e_order e) | Some on \<Rightarrow> read_names False on) of
           None \<Rightarrow> (False, w)
         | Some order \<Rightarrow>
             case read_names True off of
               None \<Rightarrow> (False, w)
             | Some disabled \<Rightarrow>
                 let drop_old = drop_retired (drops_retired env) e
                 in (True, save_arrangement env
                      (rebuild_app_list env (e\<lparr>e_order := drop_old order, e_disabled := drop_old disabled\<rparr>, v))))"

definition set_app_enabled :: "('c, 'v) surroundings \<Rightarrow> string \<Rightarrow> bool \<Rightarrow> ('c, 'v) world \<Rightarrow> ('c, 'v) world" where
  "set_app_enabled env name enabled w = (case w of (e, v) \<Rightarrow>
     if drop_retired (drops_retired env) e [name] = [] then w
     else if is_enabled e name = enabled then w
     else save_arrangement env (rebuild_app_list env
       (e\<lparr>e_disabled := (if enabled then remove1 name (e_disabled e) else e_disabled e @ [name])\<rparr>, v)))"

section \<open>Navigation and notifications\<close>

definition switch_app :: "('c, 'v) surroundings \<Rightarrow> string \<Rightarrow> ('c, 'v) world \<Rightarrow> dispatch_result \<times> ('c, 'v) world" where
  "switch_app env text w = (case w of (e, v) \<Rightarrow>
     let e = e\<lparr>e_script_paused := False\<rparr>;
         (name, fast) = (case text of CHR ''{'' # _ \<Rightarrow> read_switch env text | _ \<Rightarrow> (text, False))
     in if name \<in> set (e_on_demand e) then start_session env name (e, v)
        else case end_session env (e, v) of (e, v) \<Rightarrow>
          case (if fast then switch_to else transition_to) name (e_now e) (e_host e) of (found, h) \<Rightarrow>
            (if found then Ok else NotFound, (e\<lparr>e_host := h\<rparr>, v)))"

definition next_app :: "('c, 'v) surroundings \<Rightarrow> ('c, 'v) world \<Rightarrow> ('c, 'v) world" where
  "next_app env w = (case end_session env w of (e, v) \<Rightarrow> turn env 1 (e_now e) (e\<lparr>e_script_paused := False\<rparr>, v))"

definition previous_app :: "('c, 'v) surroundings \<Rightarrow> ('c, 'v) world \<Rightarrow> ('c, 'v) world" where
  "previous_app env w = (case end_session env w of (e, v) \<Rightarrow> turn env (- 1) (e_now e) (e\<lparr>e_script_paused := False\<rparr>, v))"

definition push_notification :: "('c, 'v) surroundings \<Rightarrow> string \<Rightarrow> string \<Rightarrow> ('c, 'v) world \<Rightarrow> dispatch_result \<times> ('c, 'v) world" where
  "push_notification env json script w = (case w of (e, v) \<Rightarrow>
     case read_note env v json of
       Inl r \<Rightarrow> (r, w)
     | Inr p \<Rightarrow>
         let p = (if script \<noteq> [] \<and> sp_sound p \<noteq> [] then p\<lparr>sp_sound_script := script\<rparr> else p)
         in case n_push p (e_now e) (e_notes e) of (taken, q) \<Rightarrow>
              (if taken then Ok else Capacity, (e\<lparr>e_notes := q\<rparr>, v)))"

definition set_builtin_app_config :: "('c, 'v) surroundings \<Rightarrow> string \<Rightarrow> string \<Rightarrow> ('c, 'v) world \<Rightarrow> dispatch_result \<times> ('c, 'v) world" where
  "set_builtin_app_config env name json w = (case w of (e, v) \<Rightarrow>
     if \<not> has_builtin e name then (NotFound, w)
     else case patch_builtin env name json (e_settings e) of (r, settings, changed) \<Rightarrow>
       let e = e\<lparr>e_settings := settings\<rparr>
       in (r, (if changed then settings_changed (pages env) e else e, v)))"

definition apply_settings :: "('c, 'v) surroundings \<Rightarrow> string \<Rightarrow> ('c, 'v) world \<Rightarrow> dispatch_result \<times> ('c, 'v) world" where
  "apply_settings env json w = (case w of (e, v) \<Rightarrow>
     case read_settings env json (e_settings e) of
       Inl r \<Rightarrow> (r, w)
     | Inr settings \<Rightarrow> (Ok, (settings_changed (pages env) (e\<lparr>e_settings := settings\<rparr>), v)))"

section \<open>Dispatch\<close>

definition dispatch_script :: "('c, 'v) surroundings \<Rightarrow> command \<Rightarrow> ('c, 'v) world \<Rightarrow> dispatch_result \<times> ('c, 'v) world" where
  "dispatch_script env c w = (case scripts env of
     None \<Rightarrow> (if cmd_type c = DeleteApp then Ok else if cmd_type c = ScriptUpdate then Unavailable else Failed, w)
   | Some s \<Rightarrow> (case script_command s c w of (r, w) \<Rightarrow>
       (if cmd_type c = ScriptRemove \<or> cmd_type c = DeleteApp then Ok else r, w)))"

definition dispatch :: "('c, 'v) surroundings \<Rightarrow> command \<Rightarrow> ('c, 'v) world \<Rightarrow> dispatch_result \<times> ('c, 'v) world" where
  "dispatch env c w = (case cmd_type c of
     Notify \<Rightarrow> push_notification env (cmd_payload c) [] w
   | DismissNotify \<Rightarrow>
       if cmd_name c = [] then (Ok, apfst (\<lambda>e. e\<lparr>e_notes := n_dismiss (e_now e) (e_notes e)\<rparr>) w)
       else (case n_dismiss_named (cmd_name c) (e_now (fst w)) (e_notes (fst w)) of (found, q) \<Rightarrow>
         (if found then Ok else NotFound, apfst (e_notes_update (\<lambda>_. q)) w))
   | SetPushedApp \<Rightarrow>
       if cmd_clear c \<or> empty_object env (cmd_payload c) then (Ok, delete_pushed_app env (cmd_name c) w)
       else set_pushed_app env (cmd_name c) (cmd_payload c) w
   | SetAppOrder \<Rightarrow> (case set_app_order env (cmd_payload c) w of (ok, w) \<Rightarrow> (if ok then Ok else ParseError, w))
   | SetAppEnabled \<Rightarrow> (case read_on env (cmd_payload c) of
       None \<Rightarrow> (ValidationError, w) | Some on \<Rightarrow> (Ok, set_app_enabled env (cmd_name c) on w))
   | SwitchApp \<Rightarrow> switch_app env (if cmd_name c = [] then cmd_payload c else cmd_name c) w
   | NextApp \<Rightarrow> (Ok, next_app env w)
   | PreviousApp \<Rightarrow> (Ok, previous_app env w)
   | SetSettings \<Rightarrow> apply_settings env (cmd_payload c) w
   | BuiltinAppConfigSet \<Rightarrow> set_builtin_app_config env (cmd_name c) (cmd_payload c) w
   | DeleteApp \<Rightarrow> dispatch_script env c (delete_pushed_app env (cmd_name c) w)
   | No_Command \<Rightarrow> (Unknown, w)
   | t \<Rightarrow> if t \<in> {ScriptSet, ScriptUpdate, ScriptConfigSet, ScriptDataSet, ScriptRemove} then dispatch_script env c w
       else (case elsewhere env c (snd w) of (r, v) \<Rightarrow> (r, (fst w, v))))"

definition submit :: "('c, 'v) surroundings \<Rightarrow> command \<Rightarrow> ('c, 'v) world \<Rightarrow> bool \<times> ('c, 'v) world" where
  "submit env c w = (case ring_push (ring_memory env (snd w)) c (e_bus (fst w)) of (taken, r) \<Rightarrow>
     (taken, apfst (e_bus_update (\<lambda>_. r)) w))"

section \<open>The tick\<close>

text \<open>The commands that wait, and those they leave behind; None if there is no end of them.\<close>

partial_function (option) serve_commands :: "('c, 'v) surroundings \<Rightarrow> ('c, 'v) world \<Rightarrow> ('c, 'v) world option" where
  "serve_commands env w = (case ring_pop (e_bus (fst w)) of
     None \<Rightarrow> Some w
   | Some (c, r) \<Rightarrow> serve_commands env (snd (dispatch env c (apfst (e_bus_update (\<lambda>_. r)) w))))"

definition expired :: "int \<Rightarrow> 'c pushed_app \<Rightarrow> bool" where
  "expired now a \<longleftrightarrow> 0 < sp_lifetime (pa_spec a) \<and> sp_lifetime (pa_spec a) \<le> now - pa_received a"

definition dead :: "int \<Rightarrow> 'c pushed_app \<Rightarrow> bool" where
  "dead now a \<longleftrightarrow> expired now a \<and> sp_expiry (pa_spec a) = Remove"

definition age_apps :: "('c, 'v) surroundings \<Rightarrow> int \<Rightarrow> ('c, 'v) world \<Rightarrow> ('c, 'v) world" where
  "age_apps env now w = (case w of (e, v) \<Rightarrow>
     let marked = map (\<lambda>a. if expired now a \<and> sp_expiry (pa_spec a) \<noteq> Remove
           then a\<lparr>pa_spec := (pa_spec a)\<lparr>sp_ended := True\<rparr>\<rparr> else a) (e_pushed e)
     in if list_ex (dead now) (e_pushed e)
        then rebuild_app_list env (e\<lparr>e_pushed := filter (\<lambda>a. \<not> dead now a) marked\<rparr>, v)
        else (e\<lparr>e_pushed := marked\<rparr>, v))"

definition dwell_of :: "('c, 'v) surroundings \<Rightarrow> ('c, 'v) world \<Rightarrow> int" where
  "dwell_of env w = (case w of (e, v) \<Rightarrow>
     let cur = current_id (e_host e); base = app_duration (e_settings e)
     in case pushed_app e cur of
          Some p \<Rightarrow>
            if 0 < sp_duration p then sp_duration p
            else if cur \<noteq> [] \<and> e_done_page e = cur
              \<and> (case sp_content p of None \<Rightarrow> True | Some c \<Rightarrow> pc_revision (pages env) c = e_done_revision e) then 0
            else base
        | None \<Rightarrow> (case scripts env of
            None \<Rightarrow> base
          | Some s \<Rightarrow> if is_script_app e cur \<and> 0 < script_duration s v cur then script_duration s v cur else base))"

definition rotation_holds :: "('c, 'v) surroundings \<Rightarrow> ('c, 'v) world \<Rightarrow> bool" where
  "rotation_holds env w = (case w of (e, v) \<Rightarrow>
     e_rotation_hold e \<or> e_script_paused e
     \<or> (case scripts env of None \<Rightarrow> False
        | Some s \<Rightarrow> is_script_app e (current_id (e_host e)) \<and> scroll_holds s v (current_id (e_host e))))"

definition after_commands :: "('c, 'v) surroundings \<Rightarrow> int \<Rightarrow> ('c, 'v) world \<Rightarrow> ('c, 'v) world" where
  "after_commands env now w =
     (let w = (if e_session_end (fst w) then end_session env w else w)
      in case age_apps env now w of (e, v) \<Rightarrow>
        let e = e\<lparr>e_notes := n_update now (app_duration (e_settings e)) (e_note_hold e)
              (e_passes_done e \<and> e_passes_gen e = n_generation (e_notes e)) (e_notes e)\<rparr>
        in turn_tick env now (dwell_of env (e, v)) (transition_duration (e_settings e))
             (auto_transition (e_settings e) \<and> \<not> rotation_holds env (e, v)) (e, v))"

definition engine_tick :: "('c, 'v) surroundings \<Rightarrow> int \<Rightarrow> ('c, 'v) world \<Rightarrow> ('c, 'v) world option" where
  "engine_tick env now w =
     map_option (after_commands env now) (serve_commands env (apfst (\<lambda>e. e\<lparr>e_now := now\<rparr>) w))"

section \<open>Reports to the engine\<close>

text \<open>The sensors that were found, one setter each.\<close>

datatype sensor = Temperature | Humidity | Battery

definition set_sensor :: "('c, 'v) surroundings \<Rightarrow> sensor \<Rightarrow> bool \<Rightarrow> ('c, 'v) world \<Rightarrow> ('c, 'v) world" where
  "set_sensor env sensor there w = (case w of (e, v) \<Rightarrow>
     rebuild_app_list env (case sensor of
         Temperature \<Rightarrow> e\<lparr>e_temperature := there\<rparr>
       | Humidity \<Rightarrow> e\<lparr>e_humidity := there\<rparr>
       | Battery \<Rightarrow> e\<lparr>e_battery := there\<rparr>, v))"

text \<open>What the renderer reports once per frame.\<close>

definition set_note_passes :: "nat \<Rightarrow> bool \<Rightarrow> 'c engine \<Rightarrow> 'c engine" where
  "set_note_passes generation passed e = e\<lparr>e_passes_done := passed, e_passes_gen := generation\<rparr>"

definition set_rotation_passes :: "string \<Rightarrow> bool \<Rightarrow> nat \<Rightarrow> 'c engine \<Rightarrow> 'c engine" where
  "set_rotation_passes app passed revision e =
     e\<lparr>e_done_page := (if passed then app else []), e_done_revision := revision\<rparr>"

definition set_holds :: "bool \<Rightarrow> bool \<Rightarrow> 'c engine \<Rightarrow> 'c engine" where
  "set_holds rotation note e = e\<lparr>e_rotation_hold := rotation, e_note_hold := note\<rparr>"

end
