(* ===== verification/Engine_Facts.thy ===== *)
theory Engine_Facts
  imports Engine_Commands
begin

text \<open>
  Facts of the engine: the sorted list of pushed apps is a map from names, what a script may do while it
  is asked (\<open>gate_step\<close>) and while it runs (\<open>script_step\<close>), the turns of the rotation under it, and what
  every operation keeps (\<open>engine_ok\<close>), together with what it leaves in the loop (\<open>loop_ok\<close>).
\<close>

section \<open>The pushed apps are a map\<close>

definition pushed_ok :: "'c pushed_app list \<Rightarrow> bool" where
  "pushed_ok es \<longleftrightarrow> sorted_wrt (<) (map pa_name es)"

lemma pushed_split:
  assumes "pushed_ok es"
  shows "\<forall>a \<in> set (take (pushed_lower name es) es). pa_name a < name"
    and "\<forall>a \<in> set (drop (pushed_lower name es) es). name \<le> pa_name a"
proof -
  have t: "take (pushed_lower name es) es = takeWhile (\<lambda>a. pa_name a < name) es"
    and d: "drop (pushed_lower name es) es = dropWhile (\<lambda>a. pa_name a < name) es"
    unfolding pushed_lower_def by (rule takeWhile_eq_take [symmetric], rule dropWhile_eq_drop [symmetric])
  show "\<forall>a \<in> set (take (pushed_lower name es) es). pa_name a < name"
    by (auto simp: t dest: set_takeWhileD)
  have "pushed_ok es \<Longrightarrow> \<forall>a \<in> set (dropWhile (\<lambda>a. pa_name a < name) es). name \<le> pa_name a" for es :: "'a pushed_app list"
  proof (induction es)
    case (Cons a es)
    show ?case
    proof (cases "pa_name a < name")
      case True
      then show ?thesis using Cons by (simp add: pushed_ok_def)
    next
      case False
      then have a: "name \<le> pa_name a" by (rule leI)
      have "pa_name a < pa_name b" if "b \<in> set es" for b using Cons.prems that by (simp add: pushed_ok_def)
      then have "name \<le> pa_name b" if "b \<in> set es" for b using order_trans [OF a less_imp_le] that by blast
      then show ?thesis using False a by simp
    qed
  qed simp
  then show "\<forall>a \<in> set (drop (pushed_lower name es) es). name \<le> pa_name a" using assms by (simp add: d)
qed

lemma pushed_lower_le: "pushed_lower name es \<le> length es"
  by (simp add: pushed_lower_def length_takeWhile_le)

lemma pushed_lower_found:
  assumes "pushed_ok es"
  shows "(pushed_lower name es < length es \<and> pa_name (es ! pushed_lower name es) = name) \<longleftrightarrow> name \<in> pa_name ` set es"
proof
  assume "name \<in> pa_name ` set es"
  then obtain a where a: "a \<in> set es" "pa_name a = name" by auto
  let ?i = "pushed_lower name es"
  have "a \<in> set (take ?i es) \<or> a \<in> set (drop ?i es)" using a(1) by (metis append_take_drop_id set_append Un_iff)
  then have in_drop: "a \<in> set (drop ?i es)" using pushed_split(1) [OF assms, of name] a(2) by auto
  then have i: "?i < length es" by (auto simp: not_le [symmetric])
  then have d: "drop ?i es = es ! ?i # drop (Suc ?i) es" by (simp add: Cons_nth_drop_Suc)
  have ge: "name \<le> pa_name (es ! ?i)" using pushed_split(2) [OF assms, of name] d by auto
  have "sorted_wrt (<) (map pa_name (drop ?i es))"
    using assms by (simp add: pushed_ok_def drop_map [symmetric] sorted_wrt_drop)
  then have "pa_name (es ! ?i) \<le> name" using in_drop a(2) unfolding d by auto
  then show "?i < length es \<and> pa_name (es ! ?i) = name" using i ge by simp
qed (metis imageI nth_mem)

lemma pushed_at_map:
  assumes "pushed_ok es"
  shows "pushed_at name es = map_of (map (\<lambda>a. (pa_name a, a)) es) name"
proof (cases "name \<in> pa_name ` set es")
  case True
  then have i: "pushed_lower name es < length es" "pa_name (es ! pushed_lower name es) = name"
    using pushed_lower_found [OF assms] by blast+
  have "distinct (map pa_name es)" using assms by (simp add: pushed_ok_def strict_sorted_iff)
  then have "map_of (map (\<lambda>a. (pa_name a, a)) es) name = Some (es ! pushed_lower name es)"
    using i by (auto simp: map_of_eq_Some_iff comp_def image_iff intro!: bexI [of _ "es ! pushed_lower name es"])
  then show ?thesis using i by (simp add: pushed_at_def)
next
  case False
  then have "pushed_lower name es = length es \<or> pa_name (es ! pushed_lower name es) \<noteq> name"
    using pushed_lower_found [OF assms, of name] pushed_lower_le [of name es] by auto
  then have "pushed_at name es = None" by (auto simp: pushed_at_def Let_def)
  moreover have "map_of (map (\<lambda>a. (pa_name a, a)) es) name = None" using False by (simp add: map_of_eq_None_iff image_image)
  ultimately show ?thesis by simp
qed

lemma pushed_at_none: "pushed_ok es \<Longrightarrow> pushed_at name es = None \<longleftrightarrow> name \<notin> pa_name ` set es"
  by (auto simp: pushed_at_map map_of_eq_None_iff image_iff)

text \<open>Storing an app: the names stay sorted, and the map is updated.\<close>

lemma pushed_insert:
  assumes "pushed_ok es" and "pa_name a \<notin> pa_name ` set es"
  shows "pushed_ok (take (pushed_lower (pa_name a) es) es @ a # drop (pushed_lower (pa_name a) es) es)"
proof -
  let ?i = "pushed_lower (pa_name a) es"
  have "\<forall>b \<in> set (drop ?i es). pa_name a < pa_name b"
    using pushed_split(2) [OF assms(1), of "pa_name a"] assms(2) by (metis image_eqI in_set_dropD order_le_imp_less_or_eq)
  moreover have "\<forall>b \<in> set (take ?i es). pa_name b < pa_name a" using pushed_split(1) [OF assms(1)] .
  moreover have "sorted_wrt (<) (map pa_name (take ?i es) @ map pa_name (drop ?i es))"
    using assms(1) by (simp add: pushed_ok_def flip: map_append)
  ultimately show ?thesis by (fastforce simp: pushed_ok_def sorted_wrt_append)
qed

lemma pushed_replace:
  assumes "pushed_ok es" and "i < length es" and "pa_name a = pa_name (es ! i)"
  shows "pushed_ok (es[i := a])"
proof -
  have "map pa_name (es[i := a]) = map pa_name es"
    using assms(2,3) by (metis list_update_id map_update)
  then show ?thesis using assms(1) by (simp add: pushed_ok_def)
qed

lemma pushed_filter: "pushed_ok es \<Longrightarrow> pushed_ok (filter P es)"
  by (induction es) (auto simp: pushed_ok_def)

lemma pushed_map: "map pa_name fs = map pa_name es \<Longrightarrow> pushed_ok es \<Longrightarrow> pushed_ok fs"
  by (simp add: pushed_ok_def)

lemma pushed_names_distinct: "pushed_ok es \<Longrightarrow> distinct (map pa_name es)"
  by (simp add: pushed_ok_def strict_sorted_iff)

lemma pushed_at_some: "pushed_ok es \<Longrightarrow> pushed_at name es = Some a \<longleftrightarrow> a \<in> set es \<and> pa_name a = name"
proof -
  assume es: "pushed_ok es"
  have "distinct (map fst (map (\<lambda>a. (pa_name a, a)) es))" using pushed_names_distinct [OF es] by (simp add: comp_def)
  from map_of_eq_Some_iff [OF this, of name a] show ?thesis by (auto simp: pushed_at_map [OF es])
qed

lemma option_same: "(\<And>b. x = Some b \<longleftrightarrow> y = Some b) \<Longrightarrow> x = y"
  by (cases x; cases y) auto

lemma pushed_at_insert:
  assumes "pushed_ok es" and "pa_name a \<notin> pa_name ` set es"
  shows "pushed_at n (take (pushed_lower (pa_name a) es) es @ a # drop (pushed_lower (pa_name a) es) es)
    = (if n = pa_name a then Some a else pushed_at n es)"
proof -
  let ?fs = "take (pushed_lower (pa_name a) es) es @ a # drop (pushed_lower (pa_name a) es) es"
  have ok: "pushed_ok ?fs" by (rule pushed_insert [OF assms])
  have "set (take (pushed_lower (pa_name a) es) es) \<union> set (drop (pushed_lower (pa_name a) es) es) = set es"
    by (metis append_take_drop_id set_append)
  then have s: "set ?fs = insert a (set es)" by auto
  have "pushed_at n ?fs = Some b \<longleftrightarrow> (if n = pa_name a then Some a else pushed_at n es) = Some b" for b
    unfolding pushed_at_some [OF ok] s using assms(2) by (auto simp: pushed_at_some [OF assms(1)] image_iff)
  then show ?thesis by (rule option_same)
qed

lemma replaced_names:
  "distinct (map f es) \<Longrightarrow> es = xs @ c # ys \<Longrightarrow> f a = f c \<Longrightarrow> b \<in> set (xs @ a # ys) \<longleftrightarrow> b = a \<or> b \<in> set es \<and> f b \<noteq> f a"
  by (auto simp: image_iff)

lemma pushed_at_replace:
  assumes "pushed_ok es" and "i < length es" and "pa_name a = pa_name (es ! i)"
  shows "pushed_at n (es[i := a]) = (if n = pa_name a then Some a else pushed_at n es)"
proof -
  have ok: "pushed_ok (es[i := a])" by (rule pushed_replace [OF assms])
  have s: "b \<in> set (es[i := a]) \<longleftrightarrow> b = a \<or> b \<in> set es \<and> pa_name b \<noteq> pa_name a" for b
  proof -
    have e: "es = take i es @ es ! i # drop (Suc i) es" by (rule id_take_nth_drop [OF assms(2)])
    show ?thesis
      unfolding upd_conv_take_nth_drop [OF assms(2)] by (rule replaced_names [OF pushed_names_distinct [OF assms(1)] e assms(3)])
  qed
  have "pushed_at n (es[i := a]) = Some b \<longleftrightarrow> (if n = pa_name a then Some a else pushed_at n es) = Some b" for b
    unfolding pushed_at_some [OF ok] s by (auto simp: pushed_at_some [OF assms(1)])
  then show ?thesis by (rule option_same)
qed

lemma hold_unfinished_fields [simp]:
  "e_host (hold_unfinished_page pc p e) = e_host e" "e_pushed (hold_unfinished_page pc p e) = e_pushed e"
  "e_now (hold_unfinished_page pc p e) = e_now e" "e_next_arrival (hold_unfinished_page pc p e) = e_next_arrival e"
  by (simp_all add: hold_unfinished_page_def)

lemma store_parsed_map:
  assumes "pushed_ok (e_pushed e)"
  shows "pushed_ok (e_pushed (store_parsed pc (key, base, p) e))
    \<and> pushed_app (store_parsed pc (key, base, p) e) = (pushed_app e)(key \<mapsto>
        (case pushed_app e key of None \<Rightarrow> p | Some old \<Rightarrow> inherit_content pc old p))
    \<and> length (e_pushed (store_parsed pc (key, base, p) e)) = length (e_pushed e) + (if pushed_app e key = None then 1 else 0)"
proof -
  let ?es = "e_pushed e"
  let ?i = "pushed_lower key ?es"
  show ?thesis
  proof (cases "key \<in> pa_name ` set ?es")
    case True
    then have i: "?i < length ?es" "pa_name (?es ! ?i) = key" using pushed_lower_found [OF assms] by blast+
    have at: "pushed_at key ?es = Some (?es ! ?i)" using i by (simp add: pushed_at_def)
    define a where "a = (?es ! ?i)\<lparr>pa_spec := inherit_content pc (pa_spec (?es ! ?i)) p, pa_received := e_now e, pa_base := base\<rparr>"
    have a: "pa_name a = pa_name (?es ! ?i)" "pa_spec a = inherit_content pc (pa_spec (?es ! ?i)) p" by (simp_all add: a_def)
    have e: "e_pushed (store_parsed pc (key, base, p) e) = ?es[?i := a]"
      using i by (simp add: store_parsed_def Let_def a_def)
    have "pushed_app (store_parsed pc (key, base, p) e) n = ((pushed_app e)(key \<mapsto> pa_spec a)) n" for n
      using pushed_at_replace [OF assms i(1) a(1), of n] i(2) a(1) by (simp add: pushed_app_def e)
    moreover have "pushed_app e key = Some (pa_spec (?es ! ?i))" by (simp add: pushed_app_def at)
    ultimately show ?thesis using pushed_replace [OF assms i(1) a(1)] by (auto simp: e a(2))
  next
    case False
    then have i: "\<not> (?i < length ?es \<and> pa_name (?es ! ?i) = key)" using pushed_lower_found [OF assms] by blast
    define a where "a = \<lparr>pa_name = key, pa_spec = p, pa_received = e_now e, pa_base = base, pa_arrival = e_next_arrival e\<rparr>"
    have a: "pa_name a = key" "pa_spec a = p" by (simp_all add: a_def)
    have e: "e_pushed (store_parsed pc (key, base, p) e) = take ?i ?es @ a # drop ?i ?es"
      unfolding store_parsed_def Let_def prod.case if_not_P [OF i] by (simp add: a_def)
    have new: "pa_name a \<notin> pa_name ` set ?es" using False a by simp
    have "pushed_app (store_parsed pc (key, base, p) e) n = ((pushed_app e)(key \<mapsto> p)) n" for n
      using pushed_at_insert [OF assms new, of n] by (simp add: pushed_app_def e a)
    moreover have "pushed_app e key = None" using pushed_at_none [OF assms] False by (simp add: pushed_app_def)
    moreover have "length (take ?i ?es @ a # drop ?i ?es) = length ?es + 1" using pushed_lower_le [of key ?es] by simp
    ultimately show ?thesis using pushed_insert [OF assms new] by (auto simp: e a)
  qed
qed

section \<open>The engine is well formed\<close>

definition engine_ok :: "'c engine \<Rightarrow> bool" where
  "engine_ok e \<longleftrightarrow> wf_host (e_host e) \<and> note_ok (e_notes e) \<and> n_capacity (e_notes e) = MAX_NOTES
     \<and> bus_ok (e_bus e) \<and> cr_capacity (e_bus e) = QUEUE_DEPTH
     \<and> pushed_ok (e_pushed e) \<and> length (e_pushed e) \<le> MAX_PUSHED
     \<and> distinct (e_script_apps e) \<and> distinct (e_on_demand e) \<and> set (e_script_apps e) \<inter> set (e_on_demand e) = {}
     \<and> [] \<notin> set (e_on_demand e)
     \<and> (if e_session e = [] then \<not> e_session_end e else e_session e \<in> set (e_on_demand e))"

text \<open>Who may be in the loop, and that nobody else is; a session has the panel to itself.\<close>

definition may_loop :: "'c engine \<Rightarrow> string set" where
  "may_loop e = {n \<in> set (known_apps e). is_enabled e n}"

definition loop_ok :: "'c engine \<Rightarrow> bool" where
  "loop_ok e \<longleftrightarrow> (if e_session e = [] then set (rot_apps (e_host e)) \<subseteq> may_loop e
     else rot_apps (e_host e) = [e_session e])"

lemma set_known_apps:
  assumes "pushed_ok (e_pushed e)"
  shows "set (known_apps e) = {n \<in> set (e_builtins e). sensor_present e n \<and> n \<notin> pa_name ` set (e_pushed e)}
    \<union> pa_name ` set (e_pushed e) \<union> set (e_script_apps e)"
  using pushed_at_none [OF assms] by (auto simp: known_apps_def has_builtin_def pushed_app_def)

definition same_loop :: "'c engine \<Rightarrow> 'c engine \<Rightarrow> bool" where
  "same_loop e e' \<longleftrightarrow> pa_name ` set (e_pushed e') = pa_name ` set (e_pushed e) \<and> e_script_apps e' = e_script_apps e
     \<and> e_builtins e' = e_builtins e \<and> sensor_present e' = sensor_present e \<and> e_disabled e' = e_disabled e
     \<and> e_session e' = e_session e \<and> rot_apps (e_host e') = rot_apps (e_host e)"

lemma same_loop_ok:
  assumes "loop_ok e" and "same_loop e e'" and "engine_ok e" and "engine_ok e'"
  shows "loop_ok e'"
proof -
  have "pushed_ok (e_pushed e)" "pushed_ok (e_pushed e')" using assms(3,4) by (simp_all add: engine_ok_def)
  then have "set (known_apps e') = set (known_apps e)"
    using assms(2) by (simp add: set_known_apps same_loop_def)
  then have "may_loop e' = may_loop e" using assms(2) by (simp add: may_loop_def is_enabled_def same_loop_def)
  then show ?thesis using assms(1,2) by (simp add: loop_ok_def same_loop_def)
qed

section \<open>Rebuilding the loop\<close>

lemma set_running_apps: "set (running_apps e) = may_loop e"
proof -
  have "set (fold (\<lambda>n running. if is_enabled e n \<and> n \<notin> set running then running @ [n] else running) known rs)
      = set rs \<union> {n \<in> set known. is_enabled e n}" for known and rs :: "string list"
    by (induction known arbitrary: rs) auto
  then show ?thesis by (auto simp: running_apps_def may_loop_def Let_def)
qed

definition rebuilt :: "'c engine \<Rightarrow> 'c engine \<Rightarrow> bool" where
  "rebuilt e e' \<longleftrightarrow> (\<exists>ids. e' = e\<lparr>e_host := set_apps ids (e_host e)\<rparr>
     \<and> (if e_session e = [] then set ids \<subseteq> may_loop e else ids = [e_session e]))"

lemma rebuild_rebuilt: "rebuilt (fst w) (fst (rebuild_app_list env w))"
proof -
  obtain e v where w: "w = (e, v)" by (rule prod.exhaust)
  define drawn where "drawn = (case scripts env of
      None \<Rightarrow> running_apps e | Some s \<Rightarrow> filter (\<lambda>n. \<not> is_headless s v n \<and> \<not> is_parked s v n) (running_apps e))"
  have "set drawn \<subseteq> may_loop e" using set_running_apps [of e] by (auto simp: drawn_def split: option.splits)
  moreover have "fst (rebuild_app_list env w) = e\<lparr>e_host := set_apps (if e_session e \<noteq> [] then [e_session e] else drawn) (e_host e)\<rparr>"
    by (simp add: w rebuild_app_list_def Let_def drawn_def)
  ultimately show ?thesis unfolding rebuilt_def w fst_conv by (intro exI [of _ "if e_session e \<noteq> [] then [e_session e] else drawn"]) simp
qed

lemma may_loop_host [simp]: "may_loop (e\<lparr>e_host := h\<rparr>) = may_loop e"
  by (simp add: may_loop_def known_apps_def has_builtin_def pushed_app_def is_enabled_def sensor_present_def cong: filter_cong)

lemma engine_ok_new_host: "engine_ok e \<Longrightarrow> wf_host h \<Longrightarrow> engine_ok (e\<lparr>e_host := h\<rparr>)"
  by (simp add: engine_ok_def)

lemma rebuilt_ok:
  assumes "engine_ok e" and "rebuilt e e'"
  shows "engine_ok e' \<and> loop_ok e'"
proof -
  obtain ids where e': "e' = e\<lparr>e_host := set_apps ids (e_host e)\<rparr>"
      and ids: "if e_session e = [] then set ids \<subseteq> may_loop e else ids = [e_session e]"
    using assms(2) by (auto simp: rebuilt_def)
  have h: "wf_host (set_apps ids (e_host e))" "rot_apps (set_apps ids (e_host e)) = ids"
    using wf_set_apps [of "e_host e" ids] assms(1) by (auto simp: engine_ok_def)
  have "engine_ok e'" unfolding e' by (rule engine_ok_new_host [OF assms(1) h(1)])
  moreover have "loop_ok e'" using ids h(2) by (cases "e_session e = []") (simp_all add: loop_ok_def e')
  ultimately show ?thesis by blast
qed

lemma rebuild_ok: "engine_ok (fst w) \<Longrightarrow> engine_ok (fst (rebuild_app_list env w)) \<and> loop_ok (fst (rebuild_app_list env w))"
  using rebuilt_ok rebuild_rebuilt by blast

text \<open>After the loop is rebuilt, the rotation may move on.\<close>

lemma host_moves:
  assumes "engine_ok e" and "loop_ok e" and "wf_host h" and "rot_apps h = rot_apps (e_host e)"
  shows "engine_ok (e\<lparr>e_host := h\<rparr>) \<and> loop_ok (e\<lparr>e_host := h\<rparr>)"
  using engine_ok_new_host [OF assms(1,3)] assms(2,4) by (simp add: loop_ok_def)

section \<open>What scripts do while they run\<close>

text \<open>
  The calls of a script into the engine (\<open>EngineScriptApplication\<close>): it raises notifications, asks for
  settings and the display to change, holds the rotation or starts its turn over, and ends its own
  session; between the calls the surroundings move on. This is all that a script does that is asked
  whether it wants to be shown.
\<close>

inductive gate_step :: "('c, 'v) surroundings \<Rightarrow> ('c, 'v) world \<Rightarrow> ('c, 'v) world \<Rightarrow> bool" for env where
  runs: "gate_step env (e, v) (e, v')"
| raises: "gate_step env w (snd (push_notification env json script w))"
| asks: "cmd_type c = SetSettings \<or> cmd_type c = SetDisplay \<Longrightarrow> gate_step env w (snd (submit env c w))"
| pauses: "gate_step env (e, v) (e\<lparr>e_script_paused := b\<rparr>, v)"
| starts_over: "gate_step env w (on_host (restart_turn (e_now (fst w))) w)"
| closes: "gate_step env (e, v) (snd (request_session_end name e), v)"

text \<open>Any other script also turns the rotation, and the scripts it meets on the way are asked.\<close>

inductive script_step :: "('c, 'v) surroundings \<Rightarrow> ('c, 'v) world \<Rightarrow> ('c, 'v) world \<Rightarrow> bool" for env where
  plain: "gate_step env w w' \<Longrightarrow> script_step env w w'"
| turns: "script_step env w (turn env 1 (e_now (fst w)) w)"
| turns_back: "script_step env w (turn env (- 1) (e_now (fst w)) w)"
| goes_to: "script_step env w (on_host (\<lambda>h. snd (transition_to name (e_now (fst w)) h)) w)"

inductive_cases script_step_elim: "script_step env w w'"

text \<open>Installing, updating and removing a script also files it with the engine.\<close>

inductive install_step :: "('c, 'v) surroundings \<Rightarrow> ('c, 'v) world \<Rightarrow> ('c, 'v) world \<Rightarrow> bool" for env where
  script: "script_step env w w' \<Longrightarrow> install_step env w w'"
| filed: "install_step env w (sync_script_app env name w)"
| dropped: "install_step env w (remove_script_app env name w)"

definition scripts_behave :: "('c, 'v) surroundings \<Rightarrow> bool" where
  "scripts_behave env \<longleftrightarrow> (case scripts env of None \<Rightarrow> True | Some s \<Rightarrow>
     (\<forall>name w. (script_step env)\<^sup>*\<^sup>* w (snd (launch s name w)) \<and> (script_step env)\<^sup>*\<^sup>* w (unload s name w)
        \<and> (gate_step env)\<^sup>*\<^sup>* w (snd (wants_show s name w)))
     \<and> (\<forall>c w. (install_step env)\<^sup>*\<^sup>* w (snd (script_command s c w))))"

text \<open>A script only moves the rotation, the notifications, the queue, its hold and its own end.\<close>

definition script_frame :: "'c engine \<Rightarrow> 'c engine \<Rightarrow> bool" where
  "script_frame e e' \<longleftrightarrow> (\<exists>h q b p s. e' = e\<lparr>e_host := h, e_notes := q, e_bus := b, e_script_paused := p, e_session_end := s\<rparr>
     \<and> rot_apps h = rot_apps (e_host e) \<and> (e_session e = [] \<longrightarrow> s = e_session_end e)
     \<and> (wf_host (e_host e) \<longrightarrow> wf_host h)
     \<and> (note_ok (e_notes e) \<longrightarrow> note_ok q) \<and> n_capacity q = n_capacity (e_notes e)
     \<and> (bus_ok (e_bus e) \<longrightarrow> bus_ok b) \<and> cr_capacity b = cr_capacity (e_bus e))"

lemma script_frame_refl: "script_frame e e"
  unfolding script_frame_def
  by (intro exI [of _ "e_host e"] exI [of _ "e_notes e"] exI [of _ "e_bus e"] exI [of _ "e_script_paused e"]
      exI [of _ "e_session_end e"]) simp

lemma script_frame_trans:
  assumes "script_frame a b" and "script_frame b c"
  shows "script_frame a c"
proof -
  obtain h q r p s where b: "b = a\<lparr>e_host := h, e_notes := q, e_bus := r, e_script_paused := p, e_session_end := s\<rparr>"
    "rot_apps h = rot_apps (e_host a)" "e_session a = [] \<longrightarrow> s = e_session_end a" "wf_host (e_host a) \<longrightarrow> wf_host h"
    "note_ok (e_notes a) \<longrightarrow> note_ok q" "n_capacity q = n_capacity (e_notes a)"
    "bus_ok (e_bus a) \<longrightarrow> bus_ok r" "cr_capacity r = cr_capacity (e_bus a)"
    using assms(1) unfolding script_frame_def by blast
  obtain h' q' r' p' s' where c: "c = b\<lparr>e_host := h', e_notes := q', e_bus := r', e_script_paused := p', e_session_end := s'\<rparr>"
    "rot_apps h' = rot_apps (e_host b)" "e_session b = [] \<longrightarrow> s' = e_session_end b" "wf_host (e_host b) \<longrightarrow> wf_host h'"
    "note_ok (e_notes b) \<longrightarrow> note_ok q'" "n_capacity q' = n_capacity (e_notes b)"
    "bus_ok (e_bus b) \<longrightarrow> bus_ok r'" "cr_capacity r' = cr_capacity (e_bus b)"
    using assms(2) unfolding script_frame_def by blast
  have e: "c = a\<lparr>e_host := h', e_notes := q', e_bus := r', e_script_paused := p', e_session_end := s'\<rparr>"
    unfolding c(1) b(1) by simp
  have f: "e_host b = h" "e_notes b = q" "e_bus b = r" "e_session b = e_session a" "e_session_end b = s"
    unfolding b(1) by simp_all
  show ?thesis
    unfolding script_frame_def
    by (rule exI [of _ h'], rule exI [of _ q'], rule exI [of _ r'], rule exI [of _ p'], rule exI [of _ s'], intro conjI, rule e)
      (use b(2-) c(2-) in \<open>simp_all add: f\<close>)
qed

lemma frame_host:
  "rot_apps h = rot_apps (e_host e) \<Longrightarrow> (wf_host (e_host e) \<Longrightarrow> wf_host h) \<Longrightarrow> script_frame e (e\<lparr>e_host := h\<rparr>)"
  unfolding script_frame_def
  by (intro exI [of _ h] exI [of _ "e_notes e"] exI [of _ "e_bus e"] exI [of _ "e_script_paused e"] exI [of _ "e_session_end e"]) simp

lemma on_host_fst [simp]: "fst (on_host f w) = (fst w)\<lparr>e_host := f (e_host (fst w))\<rparr>"
  by (cases w) (simp add: on_host_def)

text \<open>A script that is asked leaves the rotation where it stands.\<close>

definition same_place :: "app_host \<Rightarrow> app_host \<Rightarrow> bool" where
  "same_place h h' \<longleftrightarrow> rot_apps h' = rot_apps h \<and> rot_current h' = rot_current h \<and> rot_target h' = rot_target h
     \<and> rot_direction h' = rot_direction h \<and> rot_phase h' = rot_phase h"

lemma same_place_wf: "same_place h h' \<Longrightarrow> wf_host h' = wf_host h"
  by (simp add: same_place_def wf_host_def)

definition gate_frame :: "'c engine \<Rightarrow> 'c engine \<Rightarrow> bool" where
  "gate_frame e e' \<longleftrightarrow> script_frame e e' \<and> same_place (e_host e) (e_host e')"

lemma gate_frame_refl: "gate_frame e e"
  by (simp add: gate_frame_def script_frame_refl same_place_def)

lemma gate_frame_trans: "gate_frame a b \<Longrightarrow> gate_frame b c \<Longrightarrow> gate_frame a c"
  using script_frame_trans by (auto simp: gate_frame_def same_place_def)

lemma gate_step_frame: "gate_step env w w' \<Longrightarrow> gate_frame (fst w) (fst w')"
proof (induction rule: gate_step.induct)
  case (raises w json script)
  obtain e v where w: "w = (e, v)" by (rule prod.exhaust)
  show ?case
  proof (cases "read_note env v json")
    case (Inr p)
    define q where "q = snd (n_push (if script \<noteq> [] \<and> sp_sound p \<noteq> [] then p\<lparr>sp_sound_script := script\<rparr> else p) (e_now e) (e_notes e))"
    have "fst (snd (push_notification env json script w)) = e\<lparr>e_notes := q\<rparr>"
      by (simp add: push_notification_def w Inr Let_def q_def split_def)
    moreover have "note_ok (e_notes e) \<longrightarrow> note_ok q" "n_capacity q = n_capacity (e_notes e)"
      using note_do_ok [of "e_notes e" "pages env" "NPush _ _"] note_do_counted [of "pages env" "NPush _ _" "e_notes e"]
      by (simp_all add: q_def counted_def)
    ultimately show ?thesis
      unfolding gate_frame_def script_frame_def w fst_conv
      by (intro conjI exI [of _ "e_host e"] exI [of _ q] exI [of _ "e_bus e"] exI [of _ "e_script_paused e"]
          exI [of _ "e_session_end e"]) (simp_all add: same_place_def)
  qed (simp add: push_notification_def w gate_frame_refl)
next
  case (asks c w)
  obtain e v where w: "w = (e, v)" by (rule prod.exhaust)
  define r where "r = snd (ring_push (ring_memory env v) c (e_bus e))"
  have "fst (snd (submit env c w)) = e\<lparr>e_bus := r\<rparr>" by (simp add: submit_def w r_def split_def)
  moreover have "bus_ok (e_bus e) \<longrightarrow> bus_ok r" using bus.put_ok by (simp add: r_def)
  moreover have "cr_capacity r = cr_capacity (e_bus e)" by (auto simp: r_def ring_push_def split: option.splits)
  ultimately show ?case
    unfolding gate_frame_def script_frame_def w fst_conv
    by (intro conjI exI [of _ "e_host e"] exI [of _ "e_notes e"] exI [of _ r] exI [of _ "e_script_paused e"]
        exI [of _ "e_session_end e"]) (simp_all add: same_place_def)
next
  case (pauses e v b)
  show ?case
    unfolding gate_frame_def script_frame_def fst_conv
    by (intro conjI exI [of _ "e_host e"] exI [of _ "e_notes e"] exI [of _ "e_bus e"] exI [of _ b] exI [of _ "e_session_end e"])
      (simp_all add: same_place_def)
next
  case (starts_over w)
  have "same_place h (restart_turn t h)" for h t by (simp add: same_place_def restart_turn_def start_phase_def)
  then show ?case using wf_restart_turn by (auto simp: gate_frame_def same_place_def intro!: frame_host)
next
  case (closes e v name)
  show ?case
    unfolding gate_frame_def script_frame_def fst_conv
    by (intro conjI exI [of _ "e_host e"] exI [of _ "e_notes e"] exI [of _ "e_bus e"] exI [of _ "e_script_paused e"]
        exI [of _ "e_session_end e \<or> (name \<noteq> [] \<and> name = e_session e)"]) (auto simp: request_session_end_def same_place_def)
qed (simp add: gate_frame_refl)

lemma gate_steps_frame: "(gate_step env)\<^sup>*\<^sup>* w w' \<Longrightarrow> gate_frame (fst w) (fst w')"
  by (induction rule: rtranclp_induct) (auto intro: gate_frame_refl gate_frame_trans gate_step_frame)

lemma gate_asked:
  assumes "scripts_behave env"
  shows "(gate_step env)\<^sup>*\<^sup>* w (snd (show_gate env name w))"
  using assms by (auto simp: show_gate_def scripts_behave_def simp del: split_paired_All split: option.splits)

lemma pick_asked:
  assumes "scripts_behave env"
  shows "(gate_step env)\<^sup>*\<^sup>* w (snd (turn_pick env from dir n steps w))"
proof (induction steps arbitrary: w)
  case (Cons step steps)
  let ?g = "show_gate env (rot_apps (e_host (fst w)) ! nat ((from + dir * int step) mod int n)) w"
  have "(gate_step env)\<^sup>*\<^sup>* w (snd ?g)" by (rule gate_asked [OF assms])
  from rtranclp_trans [OF this Cons.IH [of "snd ?g"]] this show ?case by (simp add: split_def Let_def)
qed simp

lemma pick_place_or_none:
  "fst (turn_pick env from dir n steps w) = - 1 \<or> (\<exists>step \<in> set steps. fst (turn_pick env from dir n steps w) = (from + dir * int step) mod int n)"
proof (induction steps arbitrary: w)
  case (Cons step steps)
  let ?g = "show_gate env (rot_apps (e_host (fst w)) ! nat ((from + dir * int step) mod int n)) w"
  show ?case using Cons.IH [of "snd ?g"] by (auto simp: split_def Let_def)
qed simp

text \<open>A turn settles, asks, and stays or leaves for another app.\<close>

lemma turn_cases:
  assumes "scripts_behave env"
  obtains (short) "turn env dir now w = w"
  | (asks) u where "2 \<le> length (rot_apps (e_host (fst w)))" "(gate_step env)\<^sup>*\<^sup>* (on_host (settle now) w) u"
      "turn env dir now w = on_host (start_phase Fixed now) u
       \<or> (\<exists>step. 1 \<le> step \<and> step < length (rot_apps (e_host (fst u)))
         \<and> turn env dir now w = on_host (\<lambda>h. start_phase InTransition now (h\<lparr>rot_direction := dir,
             rot_target := place (rot_apps h) (rot_current h) dir step\<rparr>)) u)"
proof (cases "length (rot_apps (e_host (fst w))) < 2")
  case True
  then show ?thesis using short by (simp add: turn_def)
next
  case False
  define s where "s = on_host (settle now) w"
  define n where "n = length (rot_apps (e_host (fst s)))"
  define start where "start = rot_current (e_host (fst s))"
  obtain t u where p: "turn_pick env start dir n [1..<n] s = (t, u)" by (rule prod.exhaust)
  have steps: "(gate_step env)\<^sup>*\<^sup>* s u" using pick_asked [OF assms, of s start dir n "[1..<n]"] unfolding p by simp
  have h: "rot_apps (e_host (fst u)) = rot_apps (e_host (fst s))" "rot_current (e_host (fst u)) = start"
    using gate_steps_frame [OF steps] by (simp_all add: gate_frame_def same_place_def start_def)
  have e: "turn env dir now w = on_host (\<lambda>h. if t < 0 then start_phase Fixed now h
      else start_phase InTransition now (h\<lparr>rot_direction := dir, rot_target := t\<rparr>)) u"
    using False p by (simp add: turn_def Let_def flip: s_def n_def start_def)
  have "turn env dir now w = on_host (start_phase Fixed now) u
      \<or> (\<exists>step. 1 \<le> step \<and> step < length (rot_apps (e_host (fst u)))
        \<and> turn env dir now w = on_host (\<lambda>h. start_phase InTransition now (h\<lparr>rot_direction := dir,
            rot_target := place (rot_apps h) (rot_current h) dir step\<rparr>)) u)"
  proof (cases "t < 0")
    case True
    then show ?thesis by (simp add: e on_host_def)
  next
    case taken: False
    then obtain step where "1 \<le> step" "step < n" "t = (start + dir * int step) mod int n"
      using pick_place_or_none [of env start dir n "[1..<n]" s] unfolding p by auto
    then show ?thesis using taken h
      by (intro disjI2 exI [of _ step]) (cases u, simp add: e on_host_def place_def n_def)
  qed
  then show ?thesis using False steps asks by (simp add: s_def)
qed

text \<open>A gate without effects: the turn is that of the rotation alone.\<close>

lemma pick_plain:
  assumes "\<And>name. show_gate env name w = (gate name, w)"
  shows "turn_pick env start dir n steps w =
    (case find (\<lambda>i. gate (rot_apps (e_host (fst w)) ! nat i)) (map (\<lambda>step. (start + dir * int step) mod int n) steps) of
       Some i \<Rightarrow> i | None \<Rightarrow> - 1, w)"
  by (induction steps) (simp_all add: assms Let_def)

lemma turn_plain:
  assumes "\<And>name h. show_gate env name (e\<lparr>e_host := h\<rparr>, v) = (gate name, (e\<lparr>e_host := h\<rparr>, v))"
  shows "turn env dir now (e, v) = (e\<lparr>e_host := begin_transition gate dir now (e_host e)\<rparr>, v)"
  unfolding turn_def begin_transition_def pick_def Let_def
  by (simp add: on_host_def pick_plain [of env "(e\<lparr>e_host := settle now (e_host e)\<rparr>, v)" gate, OF assms])

lemma turn_tick_plain:
  assumes "\<And>name h. show_gate env name (e\<lparr>e_host := h\<rparr>, v) = (gate name, (e\<lparr>e_host := h\<rparr>, v))"
  shows "turn_tick env now dwell tr auto (e, v) = (e\<lparr>e_host := host_tick gate now dwell tr auto (e_host e)\<rparr>, v)"
proof -
  have "turn env dir now (e\<lparr>e_host := h\<rparr>, v) = (e\<lparr>e_host := begin_transition gate dir now h\<rparr>, v)" for dir h
    using turn_plain [of env "e\<lparr>e_host := h\<rparr>" v gate dir now] assms by simp
  then show ?thesis by (simp add: turn_tick_def host_tick_def on_host_def Let_def)
qed

lemma turn_frame:
  assumes "scripts_behave env" and "dir = 1 \<or> dir = - 1"
  shows "script_frame (fst w) (fst (turn env dir now w))"
proof (cases rule: turn_cases [OF assms(1), of dir now w])
  case 1
  then show ?thesis by (simp add: script_frame_refl)
next
  case (2 u)
  let ?s = "on_host (settle now) w"
  have settled: "rot_apps (settle now h) = rot_apps h" for h by (simp add: settle_def start_phase_def Let_def)
  have f: "script_frame (fst w) (fst ?s)" "script_frame (fst ?s) (fst u)" "same_place (e_host (fst ?s)) (e_host (fst u))"
    using gate_steps_frame [OF 2(2)] settle_settled [of "e_host (fst w)" now]
    by (auto simp: gate_frame_def settled intro!: frame_host)
  have host: "wf_host (e_host (fst u))" "rot_phase (e_host (fst u)) = Fixed" if "wf_host (e_host (fst w))"
    using settle_settled [OF that, of now] f(3) same_place_wf [OF f(3)] by (simp_all add: same_place_def)
  have "script_frame (fst w) ((fst u)\<lparr>e_host := h\<rparr>)"
    if h: "rot_apps h = rot_apps (e_host (fst u))" "wf_host (e_host (fst w)) \<Longrightarrow> wf_host h" for h
  proof -
    obtain q b p s k where u: "fst u = (fst w)\<lparr>e_host := k, e_notes := q, e_bus := b, e_script_paused := p, e_session_end := s\<rparr>"
      "rot_apps k = rot_apps (e_host (fst w))" "e_session (fst w) = [] \<longrightarrow> s = e_session_end (fst w)"
      "note_ok (e_notes (fst w)) \<longrightarrow> note_ok q" "n_capacity q = n_capacity (e_notes (fst w))"
      "bus_ok (e_bus (fst w)) \<longrightarrow> bus_ok b" "cr_capacity b = cr_capacity (e_bus (fst w))"
      using script_frame_trans [OF f(1,2)] unfolding script_frame_def by blast
    show ?thesis unfolding script_frame_def
      by (rule exI [of _ h], rule exI [of _ q], rule exI [of _ b], rule exI [of _ p], rule exI [of _ s])
        (use u h in simp)
  qed
  note frame = this
  from 2(3) show ?thesis
  proof (elim disjE exE conjE)
    assume t: "turn env dir now w = on_host (start_phase Fixed now) u"
    show ?thesis unfolding t on_host_fst
      by (rule frame) (use host wf_start_phase [of "e_host (fst u)" now] in \<open>simp_all add: start_phase_def\<close>)
  next
    fix step
    let ?h = "e_host (fst u)"
    assume step: "1 \<le> step" "step < length (rot_apps ?h)"
      and t: "turn env dir now w = on_host (\<lambda>h. start_phase InTransition now (h\<lparr>rot_direction := dir,
          rot_target := place (rot_apps h) (rot_current h) dir step\<rparr>)) u"
    have ne: "rot_apps ?h \<noteq> []" using step by auto
    show ?thesis unfolding t on_host_fst
    proof (rule frame)
      assume "wf_host (e_host (fst w))"
      then have k: "wf_host ?h" by (rule host(1))
      then have "in_apps (rot_apps ?h) (rot_current ?h)" using ne by (simp add: wf_current)
      with k show "wf_host (start_phase InTransition now (?h\<lparr>rot_direction := dir, rot_target := place (rot_apps ?h) (rot_current ?h) dir step\<rparr>))"
        using place_in [OF ne] place_leaves [OF _ step assms(2)] assms(2) ne by (simp add: wf_host_def start_phase_def)
    qed (simp add: start_phase_def)
  qed
qed

lemma turn_tick_frame:
  assumes "scripts_behave env" and "wf_host (e_host (fst w))"
  shows "script_frame (fst w) (fst (turn_tick env now dwell tr auto w))"
proof (cases "rot_apps (e_host (fst w)) = []")
  case False
  define s where "s = on_host (\<lambda>h. if \<not> rot_started h then start_phase (rot_phase h) now h else h) w"
  have s: "wf_host (e_host (fst s))" "script_frame (fst w) (fst s)"
    using wf_start_phase [of "e_host (fst w)" now] assms(2) by (auto simp: s_def start_phase_def intro!: frame_host script_frame_refl)
  have "rot_direction (e_host (fst s)) = 1 \<or> rot_direction (e_host (fst s)) = - 1" using s(1) by (simp add: wf_host_def)
  note turned = turn_frame [OF assms(1) this, of s now]
  have "script_frame (fst s) (fst (on_host (settle now) s))"
    using settle_settled [of "e_host (fst s)" now] s(1) by (auto intro!: frame_host)
  then show ?thesis
    using False script_frame_trans [OF s(2)] s(2) turned by (simp add: turn_tick_def Let_def flip: s_def)
qed (simp add: turn_tick_def script_frame_refl)

lemma script_step_frame:
  assumes "scripts_behave env" and "script_step env w w'"
  shows "script_frame (fst w) (fst w')"
  using assms(2)
proof (cases rule: script_step.cases)
  case plain
  then show ?thesis using gate_step_frame unfolding gate_frame_def by blast
next
  case (goes_to name)
  then show ?thesis using wf_transition_to [of "e_host (fst w)"] by (auto intro!: frame_host)
      (simp add: transition_to_def settle_def start_phase_def Let_def)
qed (use turn_frame [OF assms(1)] in auto)

lemma script_steps_frame: "(script_step env)\<^sup>*\<^sup>* w w' \<Longrightarrow> scripts_behave env \<Longrightarrow> script_frame (fst w) (fst w')"
  by (induction rule: rtranclp_induct) (auto intro: script_frame_refl script_frame_trans script_step_frame)

lemma script_frame_ok:
  assumes "script_frame e e'" and "engine_ok e"
  shows "engine_ok e' \<and> same_loop e e'"
proof -
  obtain h q b p s where "e' = e\<lparr>e_host := h, e_notes := q, e_bus := b, e_script_paused := p, e_session_end := s\<rparr>"
    "rot_apps h = rot_apps (e_host e)" "e_session e = [] \<longrightarrow> s = e_session_end e" "wf_host (e_host e) \<longrightarrow> wf_host h"
    "note_ok (e_notes e) \<longrightarrow> note_ok q" "n_capacity q = n_capacity (e_notes e)"
    "bus_ok (e_bus e) \<longrightarrow> bus_ok b" "cr_capacity b = cr_capacity (e_bus e)"
    using assms(1) unfolding script_frame_def by blast
  then show ?thesis using assms(2) by (auto simp: engine_ok_def same_loop_def sensor_present_def fun_eq_iff)
qed

end
