(* ===== verification/Engine_Invariant.thy ===== *)
theory Engine_Invariant
  imports Engine_Facts
begin

text \<open>
  The invariant of the engine: every operation, command and tick keeps it, whatever the scripts do that
  it starts and ends.
\<close>

definition engine_inv :: "'c engine \<Rightarrow> bool" where
  "engine_inv e \<longleftrightarrow> engine_ok e \<and> loop_ok e"

lemmas inv_parts = engine_inv_def engine_ok_def

lemma rebuild_inv: "engine_ok (fst w) \<Longrightarrow> engine_inv (fst (rebuild_app_list env w))"
  using rebuild_ok by (simp add: engine_inv_def)

lemma inv_host:
  "engine_inv e \<Longrightarrow> (wf_host (e_host e) \<Longrightarrow> wf_host h \<and> rot_apps h = rot_apps (e_host e)) \<Longrightarrow> engine_inv (e\<lparr>e_host := h\<rparr>)"
  using host_moves [of e h] by (simp add: inv_parts)

lemma save_arrangement_same [simp]: "fst (save_arrangement env w) = fst w"
  by (simp add: save_arrangement_def split: prod.splits)

lemma sensor_present_session [simp]:
  "sensor_present (e\<lparr>e_session := x\<rparr>) = sensor_present e" "sensor_present (e\<lparr>e_session_return := x\<rparr>) = sensor_present e"
  "sensor_present (e\<lparr>e_session_end := b\<rparr>) = sensor_present e" "sensor_present (e\<lparr>e_on_demand := xs\<rparr>) = sensor_present e"
  by (simp_all add: sensor_present_def fun_eq_iff)

lemma script_frame_inv: "engine_inv e \<Longrightarrow> script_frame e e' \<Longrightarrow> engine_inv e'"
  using script_frame_ok same_loop_ok unfolding engine_inv_def by blast

section \<open>Sessions\<close>

lemma forget_ok: "engine_ok e \<Longrightarrow> engine_ok (forget_session e)"
  by (simp add: engine_ok_def forget_session_def)

lemma leave_inv:
  assumes "engine_ok (forget_session (fst w))"
  shows "engine_inv (fst (leave_session env w))"
proof -
  obtain e v where w: "w = (e, v)" by (rule prod.exhaust)
  let ?w = "((forget_session e)\<lparr>e_script_paused := False\<rparr>, v)"
  have "engine_inv (fst (rebuild_app_list env ?w))"
    by (rule rebuild_inv) (use assms in \<open>simp add: w engine_ok_def\<close>)
  then have "engine_inv ((fst (rebuild_app_list env ?w))\<lparr>e_host := snd (switch_to x t (e_host (fst (rebuild_app_list env ?w))))\<rparr>)" for x t
    by (rule inv_host) (rule wf_switch_to)
  then show ?thesis by (simp add: w leave_session_def split_def Let_def)
qed

lemma rebuilt_fields:
  assumes "rebuilt e e'"
  shows "e_session e' = e_session e" "e_on_demand e' = e_on_demand e" "e_session_return e' = e_session_return e"
    "e_session_end e' = e_session_end e" "e_now e' = e_now e" "e_bus e' = e_bus e"
  using assms by (auto simp: rebuilt_def)

lemma leave_session_fields:
  "e_session (fst (leave_session env w)) = []" "e_on_demand (fst (leave_session env w)) = e_on_demand (fst w)"
  "e_bus (fst (leave_session env w)) = e_bus (fst w)"
proof -
  obtain e v where w: "w = (e, v)" by (rule prod.exhaust)
  note r = rebuilt_fields [OF rebuild_rebuilt [of "((forget_session e)\<lparr>e_script_paused := False\<rparr>, v)" env]]
  show "e_session (fst (leave_session env w)) = []" "e_on_demand (fst (leave_session env w)) = e_on_demand (fst w)"
    "e_bus (fst (leave_session env w)) = e_bus (fst w)"
    using r by (simp_all add: w leave_session_def split_def Let_def forget_session_def)
qed

lemma unload_frame:
  assumes "scripts_behave env"
  shows "script_frame (fst w) (fst (case scripts env of None \<Rightarrow> w | Some s \<Rightarrow> unload s name w))"
proof (cases "scripts env")
  case (Some s)
  then have "(script_step env)\<^sup>*\<^sup>* w (unload s name w)" using assms by (simp add: scripts_behave_def del: split_paired_All)
  from script_steps_frame [OF this assms] Some show ?thesis by simp
qed (simp add: script_frame_refl)

lemma launch_frame:
  assumes "scripts_behave env" and "scripts env = Some s"
  shows "script_frame (fst w) (fst (snd (launch s name w)))"
proof -
  have "(script_step env)\<^sup>*\<^sup>* w (snd (launch s name w))" using assms by (simp add: scripts_behave_def del: split_paired_All)
  from script_steps_frame [OF this assms(1)] show ?thesis .
qed

lemma script_frame_fields:
  assumes "script_frame e e'"
  shows "e_on_demand e' = e_on_demand e" "e_session e' = e_session e" "e_session_return e' = e_session_return e"
    "e_pushed e' = e_pushed e" "e_now e' = e_now e" "e_script_apps e' = e_script_apps e" "e_disabled e' = e_disabled e"
    "e_order e' = e_order e" "rot_apps (e_host e') = rot_apps (e_host e)"
  using assms by (auto simp: script_frame_def)

lemma end_session_inv:
  assumes "scripts_behave env" and "engine_inv (fst w)"
  shows "engine_inv (fst (end_session env w)) \<and> e_session (fst (end_session env w)) = []
    \<and> e_on_demand (fst (end_session env w)) = e_on_demand (fst w)"
proof (cases "e_session (fst w) = []")
  case False
  let ?u = "case scripts env of None \<Rightarrow> w | Some s \<Rightarrow> unload s (e_session (fst w)) w"
  have u: "script_frame (fst w) (fst ?u)" by (rule unload_frame [OF assms(1)])
  have "engine_ok (fst ?u)" using script_frame_ok [OF u] assms(2) by (simp add: engine_inv_def)
  from leave_inv [OF forget_ok [OF this]] show ?thesis
    using False script_frame_fields(1) [OF u] by (simp add: end_session_def leave_session_fields)
qed (use assms(2) in \<open>simp add: end_session_def\<close>)

lemma start_session_inv:
  assumes "scripts_behave env" and "engine_inv (fst w)"
  shows "engine_inv (fst (snd (start_session env name w)))"
proof (cases "scripts env")
  case (Some s)
  show ?thesis
  proof (cases "name \<notin> set (e_on_demand (fst w)) \<or> e_session (fst w) = name")
    case False
    obtain e v where ended: "end_session env w = (e, v)" by (rule prod.exhaust)
    have e: "engine_inv e" "e_session e = []" "e_on_demand e = e_on_demand (fst w)"
      using end_session_inv [OF assms] by (simp_all add: ended)
    let ?e = "e\<lparr>e_session_return := current_id (e_host e), e_session := name\<rparr>"
    obtain r f u where l: "launch s name (?e, v) = (r, (f, u))" by (rule prod_cases3)
    have f: "script_frame ?e f" using launch_frame [OF assms(1) Some, of "(?e, v)" name] by (simp add: l)
    have "[] \<notin> set (e_on_demand e)" using e(1) by (simp add: inv_parts)
    then have "engine_ok ?e" using False e by (auto simp: inv_parts)
    with script_frame_ok [OF f] have fo: "engine_ok f" "same_loop ?e f" by blast+
    show ?thesis
    proof (cases "r = Ok")
      case True
      let ?w = "(f\<lparr>e_script_paused := False\<rparr>, u)"
      have "engine_inv (fst (rebuild_app_list env ?w))"
        by (rule rebuild_inv) (use fo(1) in \<open>simp add: engine_ok_def\<close>)
      then have "engine_inv ((fst (rebuild_app_list env ?w))\<lparr>e_host := snd (switch_to name t (e_host (fst (rebuild_app_list env ?w))))\<rparr>)" for t
        by (rule inv_host) (rule wf_switch_to)
      then show ?thesis using Some False True by (simp add: start_session_def ended l split_def)
    next
      case refused: False
      have "same_loop e (forget_session f)"
        using fo(2) e(2) by (simp add: same_loop_def forget_session_def)
      then have "engine_inv (forget_session f)"
        using same_loop_ok [of e "forget_session f"] e(1) forget_ok [OF fo(1)] by (simp add: engine_inv_def)
      then show ?thesis using Some False refused by (simp add: start_session_def ended l)
    qed
  qed (use Some assms(2) in \<open>auto simp: start_session_def\<close>)
qed (use assms(2) in \<open>simp add: start_session_def\<close>)

section \<open>Script apps\<close>

lemma sync_inv:
  assumes "engine_inv (fst w)"
  shows "engine_inv (fst (sync_script_app env name w))"
proof -
  obtain e v where w: "w = (e, v)" by (rule prod.exhaust)
  show ?thesis
  proof (cases "name = []")
    case False
    define on where "on = (case scripts env of None \<Rightarrow> False | Some s \<Rightarrow> script_on_demand s v name)"
    define into where "into = (\<lambda>xs :: string list. if name \<in> set xs then xs else xs @ [name])"
    define f where "f = (if on then e\<lparr>e_script_apps := removeAll name (e_script_apps e), e_on_demand := into (e_on_demand e)\<rparr>
      else e\<lparr>e_on_demand := removeAll name (e_on_demand e), e_script_apps := into (e_script_apps e)\<rparr>)"
    define g where "g = (if \<not> on \<and> e_session f = name then forget_session f else f)"
    define h where "h = (if on then snd (forget_arrangement name g) else g)"
    have e: "engine_ok e" using assms by (simp add: w engine_inv_def)
    have "engine_ok g"
    proof (cases on)
      case True
      then show ?thesis using e False by (auto simp: g_def f_def into_def engine_ok_def distinct_removeAll)
    next
      case off: False
      show ?thesis
      proof (cases "e_session e = name")
        case True
        then show ?thesis using e off by (auto simp: g_def f_def into_def engine_ok_def forget_session_def distinct_removeAll)
      next
        case False
        then show ?thesis using e off by (auto simp: g_def f_def into_def engine_ok_def distinct_removeAll)
      qed
    qed
    then have "engine_ok h" by (simp add: h_def forget_arrangement_def engine_ok_def)
    then have "engine_inv (fst (rebuild_app_list env (h, v)))" by (intro rebuild_inv) simp
    moreover have "fst (sync_script_app env name w) = fst (rebuild_app_list env (h, v))"
      using False unfolding sync_script_app_def w Let_def prod.case on_def [symmetric] into_def [symmetric]
      by (simp add: f_def [symmetric] g_def [symmetric] h_def split: prod.splits) (simp add: g_def f_def split: if_splits)
    ultimately show ?thesis by simp
  qed (use assms in \<open>simp add: sync_script_app_def w\<close>)
qed

lemma remove_inv:
  assumes "engine_inv (fst w)"
  shows "engine_inv (fst (remove_script_app env name w))"
proof -
  obtain e v where w: "w = (e, v)" by (rule prod.exhaust)
  have e: "engine_ok e" "loop_ok e" using assms by (simp_all add: w engine_inv_def)
  have d: "distinct (e_on_demand e)" "distinct (e_script_apps e)" using e(1) by (simp_all add: engine_ok_def)
  show ?thesis
  proof (cases "name \<in> set (e_on_demand e)")
    case True
    let ?e = "e\<lparr>e_on_demand := remove1 name (e_on_demand e)\<rparr>"
    show ?thesis
    proof (cases "e_session e = name")
      case in_session: True
      have "engine_ok (forget_session ?e)" using e(1) d by (auto simp: engine_ok_def forget_session_def)
      then have "engine_inv (fst (leave_session env (?e, v)))" by (intro leave_inv) simp
      then show ?thesis using True in_session by (simp add: remove_script_app_def w)
    next
      case False
      have ok: "engine_ok ?e" using e(1) d False by (auto simp: engine_ok_def)
      have "same_loop e ?e" by (simp add: same_loop_def sensor_present_def fun_eq_iff)
      then have "engine_inv ?e" using same_loop_ok e ok by (simp add: engine_inv_def)
      then show ?thesis using True False by (simp add: remove_script_app_def w)
    qed
  next
    case False
    show ?thesis
    proof (cases "name \<in> set (e_script_apps e)")
      case True
      let ?e = "snd (forget_arrangement name (e\<lparr>e_script_apps := remove1 name (e_script_apps e)\<rparr>))"
      have "engine_ok ?e" using e(1) d by (auto simp: engine_ok_def forget_arrangement_def)
      then have "engine_inv (fst (rebuild_app_list env (?e, v)))" by (intro rebuild_inv) simp
      then show ?thesis using False True by (simp add: remove_script_app_def w split_def Let_def)
    qed (use False assms in \<open>simp add: remove_script_app_def w\<close>)
  qed
qed

section \<open>Pushed apps and the arrangement\<close>

text \<open>What stays when the pushed apps, the settings or the state of the current page change.\<close>

definition same_rest :: "'c engine \<Rightarrow> 'c engine \<Rightarrow> bool" where
  "same_rest e e' \<longleftrightarrow> e_host e' = e_host e \<and> e_bus e' = e_bus e \<and> e_script_apps e' = e_script_apps e
     \<and> e_on_demand e' = e_on_demand e \<and> e_session e' = e_session e \<and> e_session_end e' = e_session_end e
     \<and> e_session_return e' = e_session_return e \<and> e_builtins e' = e_builtins e \<and> e_order e' = e_order e
     \<and> e_disabled e' = e_disabled e \<and> e_now e' = e_now e \<and> sensor_present e' = sensor_present e
     \<and> e_script_paused e' = e_script_paused e"

lemma same_rest_refl: "same_rest e e"
  by (simp add: same_rest_def)

lemma same_rest_trans: "same_rest a b \<Longrightarrow> same_rest b c \<Longrightarrow> same_rest a c"
  by (simp add: same_rest_def)

lemma same_rest_ok:
  "engine_ok e \<Longrightarrow> same_rest e e' \<Longrightarrow> e_notes e' = e_notes e \<Longrightarrow> pushed_ok (e_pushed e') \<Longrightarrow> length (e_pushed e') \<le> MAX_PUSHED \<Longrightarrow> engine_ok e'"
  by (simp add: engine_ok_def same_rest_def)

lemma hold_unfinished_rest: "same_rest e (hold_unfinished_page pc p e) \<and> e_notes (hold_unfinished_page pc p e) = e_notes e"
  by (simp add: same_rest_def hold_unfinished_page_def sensor_present_def fun_eq_iff)

lemma rest_pushed: "same_rest e (f\<lparr>e_pushed := es\<rparr>) \<longleftrightarrow> same_rest e f"
    "same_rest e (f\<lparr>e_next_arrival := n\<rparr>) \<longleftrightarrow> same_rest e f"
  by (simp_all add: same_rest_def sensor_present_def fun_eq_iff)

lemma store_parsed_rest: "same_rest e (store_parsed pc x e) \<and> e_notes (store_parsed pc x e) = e_notes e"
proof -
  obtain key base p where x: "x = (key, base, p)" by (rule prod_cases3)
  show ?thesis
    using hold_unfinished_rest [of e pc] same_rest_refl [of e] by (simp add: x store_parsed_def Let_def rest_pushed)
qed

lemma length_filter_weaker: "(\<And>x. P x \<Longrightarrow> Q x) \<Longrightarrow> length (filter P xs) \<le> length (filter Q xs)"
  by (induction xs) auto

lemma store_all:
  assumes "pushed_ok (e_pushed e)"
  shows "same_rest e (fold (store_parsed pc) parsed e) \<and> e_notes (fold (store_parsed pc) parsed e) = e_notes e
    \<and> pushed_ok (e_pushed (fold (store_parsed pc) parsed e))
    \<and> length (e_pushed (fold (store_parsed pc) parsed e))
        \<le> length (e_pushed e) + length (filter (\<lambda>x. pushed_app e (fst x) = None) parsed)"
  using assms
proof (induction parsed arbitrary: e)
  case (Cons x parsed)
  obtain key base q where x: "x = (key, base, q)" by (rule prod_cases3)
  let ?f = "store_parsed pc x e"
  note m = store_parsed_map [OF Cons.prems, of pc key base q, folded x]
  have r: "same_rest e ?f" "e_notes ?f = e_notes e" using store_parsed_rest by blast+
  have IH: "same_rest ?f (fold (store_parsed pc) parsed ?f)" "e_notes (fold (store_parsed pc) parsed ?f) = e_notes ?f"
      "pushed_ok (e_pushed (fold (store_parsed pc) parsed ?f))"
      "length (e_pushed (fold (store_parsed pc) parsed ?f))
        \<le> length (e_pushed ?f) + length (filter (\<lambda>x. pushed_app ?f (fst x) = None) parsed)"
    using Cons.IH [of ?f] m by blast+
  have "length (filter (\<lambda>x. pushed_app ?f (fst x) = None) parsed) \<le> length (filter (\<lambda>x. pushed_app e (fst x) = None) parsed)"
    by (rule length_filter_weaker) (use m in \<open>auto split: if_splits\<close>)
  moreover have "length (e_pushed ?f) = length (e_pushed e) + (if pushed_app e key = None then 1 else 0)" using m by blast
  moreover have "length (filter (\<lambda>x. pushed_app e (fst x) = None) (x # parsed))
      = (if pushed_app e key = None then 1 else 0) + length (filter (\<lambda>x. pushed_app e (fst x) = None) parsed)"
    by (simp add: x)
  ultimately have "length (e_pushed (fold (store_parsed pc) parsed ?f))
      \<le> length (e_pushed e) + length (filter (\<lambda>x. pushed_app e (fst x) = None) (x # parsed))"
    using IH(4) by linarith
  then show ?case using IH(1-3) r same_rest_trans by (simp del: filter.simps) blast
qed (simp add: same_rest_refl)

lemma set_pushed_inv:
  assumes "engine_inv (fst w)"
  shows "engine_inv (fst (snd (set_pushed_app env name json w)))"
proof -
  obtain e v where w: "w = (e, v)" by (rule prod.exhaust)
  show ?thesis
  proof (cases "parse_pushed env name json")
    case (Inr parsed)
    let ?needed = "length (filter (\<lambda>x. pushed_app e (fst x) = None) parsed)"
    let ?free = "if MAX_PUSHED \<le> length (e_pushed e) then 0 else MAX_PUSHED - length (e_pushed e)"
    have needed: "(\<lambda>(key, _). pushed_app e key = None) = (\<lambda>x. pushed_app e (fst x) = None)" by auto
    have e: "engine_ok e" "pushed_ok (e_pushed e)" "length (e_pushed e) \<le> MAX_PUSHED"
      using assms by (simp_all add: w inv_parts)
    let ?f = "fold (store_parsed (pages env)) parsed e"
    note f = store_all [OF e(2), of "pages env" parsed]
    show ?thesis
    proof (cases "?free < ?needed")
      case False
      then have "length (e_pushed ?f) \<le> MAX_PUSHED" using f e(3) by (auto split: if_splits)
      then have "engine_ok ?f" using same_rest_ok [OF e(1)] f by blast
      then have "engine_inv (fst (rebuild_app_list env (?f, v)))" by (intro rebuild_inv) simp
      then show ?thesis using False by (simp add: set_pushed_app_def w Inr Let_def needed)
    qed (use assms in \<open>simp add: set_pushed_app_def w Inr Let_def needed\<close>)
  qed (use assms in \<open>simp add: set_pushed_app_def w\<close>)
qed

lemma pushed_subset_ok:
  assumes "engine_ok e" and "pushed_ok es" and "length es \<le> length (e_pushed e)"
  shows "engine_ok (e\<lparr>e_pushed := es\<rparr>)"
  using assms by (simp add: engine_ok_def)

lemma delete_pushed_inv:
  assumes "engine_inv (fst w)"
  shows "engine_inv (fst (delete_pushed_app env name w))"
proof -
  obtain e v where w: "w = (e, v)" by (rule prod.exhaust)
  have "pushed_ok (e_pushed e)" "engine_ok e" using assms by (simp_all add: w inv_parts)
  then have "engine_ok (e\<lparr>e_pushed := filter P (e_pushed e)\<rparr>)" for P
    by (intro pushed_subset_ok pushed_filter) simp_all
  then show ?thesis unfolding delete_pushed_app_def w prod.case by (intro rebuild_inv) simp
qed

lemma order_inv: "engine_inv (fst w) \<Longrightarrow> engine_inv (fst (snd (set_app_order env json w)))"
proof -
  assume inv: "engine_inv (fst w)"
  have r: "engine_inv (fst (rebuild_app_list env ((fst w)\<lparr>e_order := xs, e_disabled := ys\<rparr>, snd w)))" for xs ys
    by (rule rebuild_inv) (use inv in \<open>simp add: inv_parts\<close>)
  show ?thesis using inv r by (auto simp: set_app_order_def Let_def split: prod.splits option.splits)
qed

lemma enabled_inv: "engine_inv (fst w) \<Longrightarrow> engine_inv (fst (set_app_enabled env name enabled w))"
proof -
  assume inv: "engine_inv (fst w)"
  have r: "engine_inv (fst (rebuild_app_list env ((fst w)\<lparr>e_disabled := ys\<rparr>, snd w)))" for ys
    by (rule rebuild_inv) (use inv in \<open>simp add: inv_parts\<close>)
  show ?thesis using inv r by (auto simp: set_app_enabled_def split: prod.splits)
qed

section \<open>Commands\<close>

text \<open>Without a new name among the pushed apps the loop needs no rebuilding.\<close>

lemma same_rest_inv:
  assumes "engine_inv e" and "same_rest e e'" and "map pa_name (e_pushed e') = map pa_name (e_pushed e)"
    and "note_ok (e_notes e')" and "n_capacity (e_notes e') = MAX_NOTES"
  shows "engine_inv e'"
proof -
  have p: "pushed_ok (e_pushed e')" "length (e_pushed e') = length (e_pushed e)"
    using assms(1,3) pushed_map map_eq_imp_length_eq by (auto simp: inv_parts)
  then have "engine_ok e'" using assms(1,2,4,5) by (simp add: inv_parts same_rest_def)
  moreover have "pa_name ` set (e_pushed e') = pa_name ` set (e_pushed e)" using assms(3) by (metis list.set_map)
  then have "same_loop e e'" using assms(2) by (simp add: same_loop_def same_rest_def)
  ultimately show ?thesis using same_loop_ok [of e e'] assms(1) by (simp add: engine_inv_def)
qed

text \<open>Everything but the notifications, the hold flags and the contents of pages stays.\<close>

lemma fold_hold_rest:
  "same_rest e (fold (\<lambda>a e. if P a e then hold_unfinished_page pc (f a) e else e) xs e)
     \<and> e_notes (fold (\<lambda>a e. if P a e then hold_unfinished_page pc (f a) e else e) xs e) = e_notes e
     \<and> e_pushed (fold (\<lambda>a e. if P a e then hold_unfinished_page pc (f a) e else e) xs e) = e_pushed e"
proof (induction xs arbitrary: e)
  case (Cons x xs)
  let ?f = "if P x e then hold_unfinished_page pc (f x) e else e"
  have "same_rest e ?f \<and> e_notes ?f = e_notes e \<and> e_pushed ?f = e_pushed e"
    using hold_unfinished_rest [of e pc "f x"] same_rest_refl [of e] by simp
  then show ?case using Cons.IH [of ?f] same_rest_trans [of e ?f] by (simp del: hold_unfinished_fields)
qed (simp add: same_rest_refl)

lemma rest_notes:
  "same_rest e (f\<lparr>e_notes := q\<rparr>) \<longleftrightarrow> same_rest e f" "same_rest e (f\<lparr>e_passes_done := a\<rparr>) \<longleftrightarrow> same_rest e f"
  "same_rest e (f\<lparr>e_note_hold := a\<rparr>) \<longleftrightarrow> same_rest e f" "same_rest e (f\<lparr>e_seen_scroll := x\<rparr>) \<longleftrightarrow> same_rest e f"
  "same_rest e (f\<lparr>e_settings := y\<rparr>) \<longleftrightarrow> same_rest e f" "same_rest e (f\<lparr>e_passes_gen := n\<rparr>) \<longleftrightarrow> same_rest e f"
  "same_rest e (f\<lparr>e_done_page := z\<rparr>) \<longleftrightarrow> same_rest e f" "same_rest e (f\<lparr>e_done_revision := n\<rparr>) \<longleftrightarrow> same_rest e f"
  "same_rest e (f\<lparr>e_rotation_hold := a\<rparr>) \<longleftrightarrow> same_rest e f"
  by (simp_all add: same_rest_def sensor_present_def fun_eq_iff)

definition keeps_names :: "'c engine \<Rightarrow> 'c engine \<Rightarrow> bool" where
  "keeps_names e e' \<longleftrightarrow> same_rest e e' \<and> map pa_name (e_pushed e') = map pa_name (e_pushed e)
     \<and> (note_ok (e_notes e) \<longrightarrow> note_ok (e_notes e')) \<and> n_capacity (e_notes e') = n_capacity (e_notes e)"

lemma keeps_names_inv: "engine_inv e \<Longrightarrow> keeps_names e e' \<Longrightarrow> engine_inv e'"
  by (rule same_rest_inv) (auto simp: keeps_names_def inv_parts)

lemma keeps_names_trans: "keeps_names a b \<Longrightarrow> keeps_names b c \<Longrightarrow> keeps_names a c"
  using same_rest_trans by (auto simp: keeps_names_def)

lemma keeps_names_refl: "keeps_names e e"
  by (simp add: keeps_names_def same_rest_refl)

lemma reset_content_keeps: "keeps_names e (reset_content_completion pc assets e)"
proof -
  let ?es = "map (\<lambda>a. a\<lparr>pa_spec := content_reset pc assets (pa_spec a)\<rparr>) (e_pushed e)"
  let ?f = "fold (\<lambda>a e. if sp_content (pa_spec a) \<noteq> None \<and> pa_name a = current_id (e_host e)
      then hold_unfinished_page pc (pa_spec a) e else e) ?es (e\<lparr>e_pushed := ?es\<rparr>)"
  have f: "same_rest (e\<lparr>e_pushed := ?es\<rparr>) ?f" "e_notes ?f = e_notes e" "e_pushed ?f = ?es"
    using fold_hold_rest [of "e\<lparr>e_pushed := ?es\<rparr>"
        "\<lambda>a e. sp_content (pa_spec a) \<noteq> None \<and> pa_name a = current_id (e_host e)" pc pa_spec ?es] by simp_all
  have r: "same_rest e ?f" using same_rest_trans [OF _ f(1), of e] same_rest_refl [of e] by (simp add: rest_pushed)
  have n: "map pa_name ?es = map pa_name (e_pushed e)" by simp
  have q: "note_ok (invalidate_content pc assets q) = note_ok q" "n_capacity (invalidate_content pc assets q) = n_capacity q" for q
    by (simp_all add: note_ok_def invalidate_content_def)
  define g where "g = (case n_current (e_notes ?f) of None \<Rightarrow> ?f
      | Some m \<Rightarrow> if sp_content m = None then ?f else ?f\<lparr>e_passes_done := False, e_note_hold := ends_on_passes pc ?f m True\<rparr>)"
  have g: "same_rest e g" "e_notes g = e_notes e" "e_pushed g = ?es"
    using r f(2,3) by (auto simp: g_def rest_notes split: option.splits)
  have "reset_content_completion pc assets e = g\<lparr>e_notes := invalidate_content pc assets (e_notes g)\<rparr>"
    by (simp only: reset_content_completion_def Let_def g_def)
  then show ?thesis using g n q by (simp add: keeps_names_def rest_notes)
qed

lemma settings_changed_keeps: "keeps_names e (settings_changed pc e)"
proof -
  have k: "keeps_names e (f\<lparr>e_seen_scroll := x\<rparr>) \<longleftrightarrow> keeps_names e f" for f x
    by (simp add: keeps_names_def rest_notes)
  show ?thesis
    using reset_content_keeps [of e pc False] keeps_names_refl [of e] by (simp add: settings_changed_def Let_def k)
qed

lemma settings_keep: "keeps_names e (e\<lparr>e_settings := x\<rparr>)"
  by (simp add: keeps_names_def rest_notes same_rest_refl)

lemma notes_keep:
  "(note_ok (e_notes e) \<Longrightarrow> note_ok q) \<Longrightarrow> n_capacity q = n_capacity (e_notes e) \<Longrightarrow> keeps_names e (e\<lparr>e_notes := q\<rparr>)"
  by (simp add: keeps_names_def rest_notes same_rest_refl)

lemma note_event_keeps: "keeps_names e (e\<lparr>e_notes := note_do pc ev (e_notes e)\<rparr>)"
  by (rule notes_keep) (use note_do_ok note_do_counted [of pc ev "e_notes e"] in \<open>auto simp: counted_def\<close>)

section \<open>Commands\<close>

lemma pause_inv: "engine_inv e \<Longrightarrow> engine_inv (e\<lparr>e_script_paused := b\<rparr>)"
proof -
  assume e: "engine_inv e"
  then have "engine_ok (e\<lparr>e_script_paused := b\<rparr>)" by (simp add: inv_parts)
  moreover have "same_loop e (e\<lparr>e_script_paused := b\<rparr>)" by (simp add: same_loop_def sensor_present_def fun_eq_iff)
  ultimately show ?thesis using same_loop_ok [of e] e by (simp add: engine_inv_def)
qed

lemma switch_inv:
  assumes "scripts_behave env" and "engine_inv (fst w)"
  shows "engine_inv (fst (snd (switch_app env text w)))"
proof -
  obtain e v where w: "w = (e, v)" by (rule prod.exhaust)
  let ?e = "e\<lparr>e_script_paused := False\<rparr>"
  obtain name fast where nf: "(case text of CHR ''{'' # _ \<Rightarrow> read_switch env text | _ \<Rightarrow> (text, False)) = (name, fast)"
    by (rule prod.exhaust)
  have e: "engine_inv ?e" using assms(2) pause_inv by (simp add: w)
  show ?thesis
  proof (cases "name \<in> set (e_on_demand e)")
    case True
    then show ?thesis
      using start_session_inv [OF assms(1), of "(?e, v)" name] e by (simp add: switch_app_def w nf)
  next
    case False
    obtain f u where f: "end_session env (?e, v) = (f, u)" by (rule prod.exhaust)
    have "engine_inv f" using end_session_inv [OF assms(1), of "(?e, v)"] e by (simp add: f)
    then have "engine_inv (f\<lparr>e_host := snd ((if fast then switch_to else transition_to) name (e_now f) (e_host f))\<rparr>)"
      by (rule inv_host) (simp add: wf_switch_to wf_transition_to)
    then show ?thesis using False by (simp add: switch_app_def w nf f split_def)
  qed
qed

lemma turn_inv:
  assumes "scripts_behave env" and "engine_inv (fst w)"
  shows "engine_inv (fst (next_app env w))" "engine_inv (fst (previous_app env w))"
proof -
  obtain e v where f: "end_session env w = (e, v)" by (rule prod.exhaust)
  have e: "engine_inv (e\<lparr>e_script_paused := False\<rparr>)" using end_session_inv [OF assms] by (simp add: f pause_inv)
  have "engine_inv (fst (turn env d t (e\<lparr>e_script_paused := False\<rparr>, v)))" if "d = 1 \<or> d = - 1" for d t
    using script_frame_inv [OF e] turn_frame [OF assms(1) that, of "(e\<lparr>e_script_paused := False\<rparr>, v)" t] by simp
  then show "engine_inv (fst (next_app env w))" "engine_inv (fst (previous_app env w))"
    by (simp_all add: next_app_def previous_app_def f)
qed

lemma notification_inv: "engine_inv (fst w) \<Longrightarrow> engine_inv (fst (snd (push_notification env json script w)))"
proof -
  assume inv: "engine_inv (fst w)"
  have f: "script_frame (fst w) (fst (snd (push_notification env json script w)))"
    using gate_step_frame [OF gate_step.raises] unfolding gate_frame_def by blast
  show ?thesis using script_frame_ok [OF f] same_loop_ok inv unfolding engine_inv_def by blast
qed

lemma submit_inv: "engine_inv (fst w) \<Longrightarrow> engine_inv (fst (snd (submit env c w)))"
proof -
  assume inv: "engine_inv (fst w)"
  obtain e v where w: "w = (e, v)" by (rule prod.exhaust)
  define r where "r = snd (ring_push (ring_memory env v) c (e_bus e))"
  have r: "bus_ok r" "cr_capacity r = QUEUE_DEPTH"
    using inv bus.put_ok by (auto simp: r_def w inv_parts) (auto simp: ring_push_def split: option.splits)
  have "engine_ok (e\<lparr>e_bus := r\<rparr>)" using inv r by (simp add: w inv_parts)
  moreover have "same_loop e (e\<lparr>e_bus := r\<rparr>)" by (simp add: same_loop_def sensor_present_def fun_eq_iff)
  ultimately have "engine_inv (e\<lparr>e_bus := r\<rparr>)" using same_loop_ok [of e] inv by (simp add: w engine_inv_def)
  then show ?thesis by (simp add: submit_def w r_def split_def)
qed

lemma install_step_inv: "install_step env w w' \<Longrightarrow> scripts_behave env \<Longrightarrow> engine_inv (fst w) \<Longrightarrow> engine_inv (fst w')"
  by (induction rule: install_step.induct) (auto intro: script_frame_inv script_step_frame sync_inv remove_inv)

lemma install_steps_inv: "(install_step env)\<^sup>*\<^sup>* w w' \<Longrightarrow> scripts_behave env \<Longrightarrow> engine_inv (fst w) \<Longrightarrow> engine_inv (fst w')"
  by (induction rule: rtranclp_induct) (auto intro: install_step_inv)

lemma dispatch_script_inv:
  assumes "scripts_behave env" and "engine_inv (fst w)"
  shows "engine_inv (fst (snd (dispatch_script env c w)))"
proof (cases "scripts env")
  case (Some s)
  then have "(install_step env)\<^sup>*\<^sup>* w (snd (script_command s c w))" using assms(1) by (simp add: scripts_behave_def del: split_paired_All)
  from install_steps_inv [OF this assms] Some show ?thesis by (simp add: dispatch_script_def split_def)
qed (use assms(2) in \<open>simp add: dispatch_script_def\<close>)

lemma builtin_config_inv: "engine_inv (fst w) \<Longrightarrow> engine_inv (fst (snd (set_builtin_app_config env name json w)))"
  by (auto simp: set_builtin_app_config_def Let_def split: prod.splits intro: keeps_names_inv settings_keep
      keeps_names_trans [OF settings_keep settings_changed_keeps])

lemma apply_settings_inv: "engine_inv (fst w) \<Longrightarrow> engine_inv (fst (snd (apply_settings env json w)))"
  by (auto simp: apply_settings_def split: prod.splits sum.splits intro: keeps_names_inv
      keeps_names_trans [OF settings_keep settings_changed_keeps])

lemma dismiss_inv:
  "engine_inv (fst w) \<Longrightarrow> engine_inv ((fst w)\<lparr>e_notes := n_dismiss t (e_notes (fst w))\<rparr>)"
  "engine_inv (fst w) \<Longrightarrow> engine_inv ((fst w)\<lparr>e_notes := snd (n_dismiss_named name t (e_notes (fst w)))\<rparr>)"
  using keeps_names_inv [of "fst w"] note_event_keeps [of "fst w" _ "NDismiss t"] note_event_keeps [of "fst w" _ "NDismissNamed name t"]
  by auto

lemma dispatch_inv:
  assumes "scripts_behave env" and "engine_inv (fst w)"
  shows "engine_inv (fst (snd (dispatch env c w)))"
proof -
  note invs = notification_inv delete_pushed_inv set_pushed_inv order_inv enabled_inv switch_inv turn_inv dispatch_script_inv
    builtin_config_inv apply_settings_inv dismiss_inv
  show ?thesis
    using assms by (cases "cmd_type c") (auto simp: dispatch_def split_def intro: invs split: option.splits)
qed

section \<open>The tick\<close>

lemma clock_inv: "engine_inv e \<Longrightarrow> engine_inv (e\<lparr>e_now := now\<rparr>)"
proof -
  assume e: "engine_inv e"
  then have "engine_ok (e\<lparr>e_now := now\<rparr>)" by (simp add: inv_parts)
  moreover have "same_loop e (e\<lparr>e_now := now\<rparr>)" by (simp add: same_loop_def sensor_present_def fun_eq_iff)
  ultimately show ?thesis using same_loop_ok [of e] e by (simp add: engine_inv_def)
qed

lemma pop_inv:
  assumes "engine_inv e" and "ring_pop (e_bus e) = Some (c, r)"
  shows "engine_inv (e\<lparr>e_bus := r\<rparr>)"
proof -
  have ok: "bus_ok (e_bus e)" using assms(1) by (simp add: inv_parts)
  have r: "bus_ok r" "cr_capacity r = cr_capacity (e_bus e)"
    using bus.call_some [OF ok assms(2)] assms(2) by auto (auto simp: ring_pop_def split: if_splits option.splits)
  have "engine_ok (e\<lparr>e_bus := r\<rparr>)" using assms(1) r by (simp add: inv_parts)
  moreover have "same_loop e (e\<lparr>e_bus := r\<rparr>)" by (simp add: same_loop_def sensor_present_def fun_eq_iff)
  ultimately show ?thesis using same_loop_ok [of e] assms(1) by (simp add: engine_inv_def)
qed

lemma serve_commands_inv:
  assumes "serve_commands env w = Some w'" and "scripts_behave env" and "engine_inv (fst w)"
  shows "engine_inv (fst w') \<and> ring_waiting (e_bus (fst w')) = []"
proof -
  have "scripts_behave env \<longrightarrow> engine_inv (fst w) \<longrightarrow> engine_inv (fst w') \<and> ring_waiting (e_bus (fst w')) = []"
  proof (rule serve_commands.raw_induct [where P = "\<lambda>env w w'. scripts_behave env \<longrightarrow> engine_inv (fst w) \<longrightarrow>
      engine_inv (fst w') \<and> ring_waiting (e_bus (fst w')) = []", OF _ assms(1)], intro impI)
    fix f env and w w' :: "('a, 'b) world"
    assume IH: "\<And>env w w'. f env w = Some w' \<Longrightarrow> scripts_behave env \<longrightarrow> engine_inv (fst w) \<longrightarrow>
        engine_inv (fst w') \<and> ring_waiting (e_bus (fst w')) = []"
      and body: "(case ring_pop (e_bus (fst w)) of None \<Rightarrow> Some w
        | Some (c, r) \<Rightarrow> f env (snd (dispatch env c (apfst (e_bus_update (\<lambda>_. r)) w)))) = Some w'"
      and b: "scripts_behave env" and inv: "engine_inv (fst w)"
    obtain e v where w: "w = (e, v)" by (rule prod.exhaust)
    have ok: "bus_ok (e_bus e)" using inv by (simp add: w inv_parts)
    show "engine_inv (fst w') \<and> ring_waiting (e_bus (fst w')) = []"
    proof (cases "ring_pop (e_bus e)")
      case None
      then show ?thesis using body inv bus.call_none [OF ok] by (auto simp: w)
    next
      case (Some x)
      obtain c r where x: "x = (c, r)" by (rule prod.exhaust)
      have "engine_inv (e\<lparr>e_bus := r\<rparr>)" using pop_inv Some inv by (simp add: w x)
      then have "engine_inv (fst (snd (dispatch env c (e\<lparr>e_bus := r\<rparr>, v))))" using dispatch_inv [OF b] by simp
      then show ?thesis using IH body b by (simp add: w Some x)
    qed
  qed
  then show ?thesis using assms(2,3) by blast
qed

lemma age_inv: "engine_inv (fst w) \<Longrightarrow> engine_inv (fst (age_apps env now w))"
proof -
  assume inv: "engine_inv (fst w)"
  obtain e v where w: "w = (e, v)" by (rule prod.exhaust)
  define marked where "marked = map (\<lambda>a. if expired now a \<and> sp_expiry (pa_spec a) \<noteq> Remove
      then a\<lparr>pa_spec := (pa_spec a)\<lparr>sp_ended := True\<rparr>\<rparr> else a) (e_pushed e)"
  have n: "map pa_name marked = map pa_name (e_pushed e)" by (simp add: marked_def)
  have e: "engine_ok e" "pushed_ok (e_pushed e)" using inv by (simp_all add: w inv_parts)
  have p: "pushed_ok marked" "length marked = length (e_pushed e)" using pushed_map [OF n e(2)] by (simp_all add: marked_def)
  show ?thesis
  proof (cases "list_ex (dead now) (e_pushed e)")
    case True
    have "engine_ok (e\<lparr>e_pushed := filter (\<lambda>a. \<not> dead now a) marked\<rparr>)"
      by (rule pushed_subset_ok [OF e(1) pushed_filter [OF p(1)]]) (use p(2) length_filter_le in metis)
    then have "engine_inv (fst (rebuild_app_list env (e\<lparr>e_pushed := filter (\<lambda>a. \<not> dead now a) marked\<rparr>, v)))"
      by (intro rebuild_inv) simp
    then show ?thesis using True by (simp add: age_apps_def w Let_def marked_def)
  next
    case False
    have "keeps_names e (e\<lparr>e_pushed := marked\<rparr>)" using n by (simp add: keeps_names_def rest_pushed same_rest_refl)
    then have "engine_inv (e\<lparr>e_pushed := marked\<rparr>)" using keeps_names_inv inv by (simp add: w)
    then show ?thesis using False by (simp add: age_apps_def w Let_def marked_def)
  qed
qed

text \<open>What follows the commands, part by part.\<close>

lemma after_commands_parts:
  obtains e v x d t b where "age_apps env now (if e_session_end (fst w) then end_session env w else w) = (e, v)"
    "after_commands env now w = turn_tick env now d t b (e\<lparr>e_notes := note_do (pages env) x (e_notes e)\<rparr>, v)"
proof -
  obtain e v where a: "age_apps env now (if e_session_end (fst w) then end_session env w else w) = (e, v)" by (rule prod.exhaust)
  define x :: "'a note_event" where "x = NUpdate now (app_duration (e_settings e)) (e_note_hold e)
    (e_passes_done e \<and> e_passes_gen e = n_generation (e_notes e))"
  define f where "f = e\<lparr>e_notes := note_do (pages env) x (e_notes e)\<rparr>"
  have f: "e\<lparr>e_notes := n_update now (app_duration (e_settings e)) (e_note_hold e)
      (e_passes_done e \<and> e_passes_gen e = n_generation (e_notes e)) (e_notes e)\<rparr> = f"
    by (simp add: f_def x_def)
  have "after_commands env now w = turn_tick env now (dwell_of env (f, v)) (transition_duration (e_settings f))
      (auto_transition (e_settings f) \<and> \<not> rotation_holds env (f, v)) (f, v)"
    unfolding after_commands_def Let_def a prod.case f ..
  with that a show ?thesis unfolding f_def by blast
qed

lemma after_commands_inv:
  assumes "scripts_behave env" and "engine_inv (fst w)"
  shows "engine_inv (fst (after_commands env now w))"
proof -
  let ?w = "if e_session_end (fst w) then end_session env w else w"
  obtain e v x d t b where a: "age_apps env now ?w = (e, v)"
      "after_commands env now w = turn_tick env now d t b (e\<lparr>e_notes := note_do (pages env) x (e_notes e)\<rparr>, v)"
    by (rule after_commands_parts)
  have "engine_inv (fst ?w)" using assms(2) end_session_inv [OF assms] by simp
  then have "engine_inv e" using age_inv [of ?w env now] by (simp add: a)
  then have e: "engine_inv (e\<lparr>e_notes := note_do (pages env) x (e_notes e)\<rparr>)" using keeps_names_inv note_event_keeps by blast
  then have "wf_host (e_host (e\<lparr>e_notes := note_do (pages env) x (e_notes e)\<rparr>))" by (simp add: inv_parts)
  then show ?thesis
    using script_frame_inv [OF e turn_tick_frame [OF assms(1), of "(e\<lparr>e_notes := note_do (pages env) x (e_notes e)\<rparr>, v)" now d t b, simplified]]
    by (simp add: a(2))
qed

lemma tick_inv:
  assumes "engine_tick env now w = Some w'" and "scripts_behave env" and "engine_inv (fst w)"
  shows "engine_inv (fst w')"
proof -
  obtain u where u: "serve_commands env (apfst (\<lambda>e. e\<lparr>e_now := now\<rparr>) w) = Some u" "w' = after_commands env now u"
    using assms(1) by (auto simp: engine_tick_def)
  have "engine_inv ((fst w)\<lparr>e_now := now\<rparr>)" using clock_inv [OF assms(3)] .
  then have "engine_inv (fst u)" using serve_commands_inv [OF u(1) assms(2)] by simp
  then show ?thesis using after_commands_inv [OF assms(2)] u(2) by simp
qed

end
