(* ===== verification/Engine_Runs.thy ===== *)
theory Engine_Runs
  imports Engine_Invariant
begin

text \<open>
  The runs of the engine and what the properties of it rest on: what its steps leave in the queue of
  commands and in the record of a session, the commands a tick serves, whom a turn asks, and an example.
\<close>

section \<open>Runs of the engine\<close>

text \<open>
  What can happen next: a command is executed or submitted, a script acts, a sensor is found, a session
  starts or ends, the renderer reports, new assets come in; and the parts of a tick: the clock is read, the
  next command that waits is served, and what follows when none waits.
\<close>

inductive engine_step :: "('c, 'v) surroundings \<Rightarrow> ('c, 'v) world \<Rightarrow> ('c, 'v) world \<Rightarrow> bool" for env where
  executes: "engine_step env w (snd (dispatch env c w))"
| submits: "engine_step env w (snd (submit env c w))"
| reads_clock: "engine_step env (e, v) (e\<lparr>e_now := now\<rparr>, v)"
| serves_next: "ring_pop (e_bus e) = Some (c, r) \<Longrightarrow> engine_step env (e, v) (snd (dispatch env c (e\<lparr>e_bus := r\<rparr>, v)))"
| finishes: "engine_step env w (after_commands env now w)"
| scripted: "install_step env w w' \<Longrightarrow> engine_step env w w'"
| finds: "engine_step env w (set_sensor env sensor there w)"
| session: "engine_step env w (snd (start_session env name w))"
| session_over: "engine_step env w (end_session env w)"
| passes: "engine_step env (e, v) (set_note_passes g b (set_rotation_passes app d r e), v)"
| holds: "engine_step env (e, v) (set_holds a b e, v)"
| assets: "engine_step env (e, v) (reset_content_completion (pages env) True e, v)"

inductive engine_run :: "('c, 'v) surroundings \<Rightarrow> ('c, 'v) world \<Rightarrow> bool" for env where
  boots: "engine_run env (rebuild_app_list env (new_engine builtins settings, v))"
| steps: "engine_run env w \<Longrightarrow> engine_step env w w' \<Longrightarrow> engine_run env w'"

lemma run_steps: "(engine_step env)\<^sup>*\<^sup>* w w' \<Longrightarrow> engine_run env w \<Longrightarrow> engine_run env w'"
  by (induction rule: rtranclp_induct) (auto intro: engine_run.steps)

text \<open>A tick is made of these steps.\<close>

lemma served_steps: "serve_commands env w = Some w' \<Longrightarrow> (engine_step env)\<^sup>*\<^sup>* w w'"
proof (erule serve_commands.raw_induct [rotated])
  fix f env and w w' :: "('a, 'b) world"
  assume IH: "\<And>env w w'. f env w = Some w' \<Longrightarrow> (engine_step env)\<^sup>*\<^sup>* w w'"
    and body: "(case ring_pop (e_bus (fst w)) of None \<Rightarrow> Some w
      | Some (c, r) \<Rightarrow> f env (snd (dispatch env c (apfst (e_bus_update (\<lambda>_. r)) w)))) = Some w'"
  obtain e v where w: "w = (e, v)" by (rule prod.exhaust)
  show "(engine_step env)\<^sup>*\<^sup>* w w'"
  proof (cases "ring_pop (e_bus e)")
    case (Some x)
    obtain c r where x: "x = (c, r)" by (rule prod.exhaust)
    have "engine_step env w (snd (dispatch env c (e\<lparr>e_bus := r\<rparr>, v)))" using engine_step.serves_next Some by (simp add: w x)
    moreover have "(engine_step env)\<^sup>*\<^sup>* (snd (dispatch env c (e\<lparr>e_bus := r\<rparr>, v))) w'"
      by (rule IH) (use body in \<open>simp add: w Some x\<close>)
    ultimately show ?thesis by (rule converse_rtranclp_into_rtranclp)
  qed (use body in \<open>simp add: w\<close>)
qed

lemma tick_steps:
  assumes "engine_tick env now w = Some w'"
  shows "(engine_step env)\<^sup>*\<^sup>* w w'"
proof -
  obtain e v where w: "w = (e, v)" by (rule prod.exhaust)
  obtain u where u: "serve_commands env (e\<lparr>e_now := now\<rparr>, v) = Some u" "w' = after_commands env now u"
    using assms by (auto simp: engine_tick_def w)
  show ?thesis
    unfolding w u(2) using engine_step.reads_clock served_steps [OF u(1)] engine_step.finishes
    by (rule converse_rtranclp_into_rtranclp [OF _ rtranclp.rtrancl_into_rtrancl])
qed

lemma new_engine_ok: "engine_ok (new_engine builtins settings)"
  using wf_new_host new_ring_ok by (simp add: engine_ok_def new_engine_def note_ok_def new_notifications_def pushed_ok_def new_ring_def)

lemma step_inv:
  assumes "engine_step env w w'" and "scripts_behave env" and "engine_inv (fst w)"
  shows "engine_inv (fst w')"
  using assms(1,3)
proof (cases rule: engine_step.cases)
  case (finds sensor there)
  obtain e v where w: "w = (e, v)" by (rule prod.exhaust)
  have "engine_ok e" using assms(3) by (simp add: w engine_inv_def)
  then show ?thesis
    unfolding finds set_sensor_def w prod.case by (intro rebuild_inv) (cases sensor; simp add: engine_ok_def)
next
  case (passes e v g b app d r)
  have "keeps_names e (set_note_passes g b (set_rotation_passes app d r e))"
    by (simp add: keeps_names_def set_note_passes_def set_rotation_passes_def rest_notes same_rest_refl)
  then show ?thesis using keeps_names_inv assms(3) passes by simp
next
  case (holds e v a b)
  have "keeps_names e (set_holds a b e)" by (simp add: keeps_names_def set_holds_def rest_notes same_rest_refl)
  then show ?thesis using keeps_names_inv assms(3) holds by simp
next
  case (assets e v)
  then show ?thesis using keeps_names_inv [OF _ reset_content_keeps] assms(3) by simp
next
  case (serves_next e c r v)
  then show ?thesis using dispatch_inv [OF assms(2), of "(e\<lparr>e_bus := r\<rparr>, v)"] pop_inv [of e c r] assms(3) by simp
qed (use assms(2,3) in \<open>auto intro: dispatch_inv submit_inv clock_inv after_commands_inv install_step_inv start_session_inv
      end_session_inv [THEN conjunct1]\<close>)

lemma run_inv:
  assumes "engine_run env w" and "scripts_behave env"
  shows "engine_inv (fst w)"
  using assms(1)
proof (induction rule: engine_run.induct)
  case (boots builtins settings v)
  then show ?case using new_engine_ok by (intro rebuild_inv) simp
qed (rule step_inv [OF _ assms(2)])

section \<open>What commands leave in the queue\<close>

definition simple :: "command \<Rightarrow> bool" where
  "simple c \<longleftrightarrow> cmd_type c = SetSettings \<or> cmd_type c = SetDisplay"

text \<open>The commands the scripts asked for are behind those that waited.\<close>

definition asked :: "'c engine \<Rightarrow> 'c engine \<Rightarrow> bool" where
  "asked e e' \<longleftrightarrow> bus_ok (e_bus e) \<longrightarrow> bus_ok (e_bus e')
     \<and> (\<exists>cs. ring_waiting (e_bus e') = ring_waiting (e_bus e) @ cs \<and> list_all simple cs)"

lemma asked_same: "e_bus e' = e_bus e \<Longrightarrow> asked e e'"
  by (simp add: asked_def)

lemma asked_trans: "asked a b \<Longrightarrow> asked b c \<Longrightarrow> asked a c"
  unfolding asked_def by (metis append.assoc list_all_append)

lemma gate_step_asked: "gate_step env w w' \<Longrightarrow> asked (fst w) (fst w')"
proof (induction rule: gate_step.induct)
  case (asks c w)
  let ?p = "ring_push (ring_memory env (snd w)) c (e_bus (fst w))"
  have e: "e_bus (fst (snd (submit env c w))) = snd ?p" by (cases w) (simp add: submit_def split_def)
  have "list_all simple (if fst ?p then [c] else [])" using asks by (simp add: simple_def)
  then show ?case
    unfolding asked_def e using bus.put_ok bus.put_waits [of "e_bus (fst w)" "ring_memory env (snd w)" c]
    by (auto intro!: exI [of _ "if fst ?p then [c] else []"])
next
  case (raises w json script)
  show ?case by (rule asked_same) (cases w, simp add: push_notification_def Let_def split_def split: sum.splits)
next
  case (closes e v name)
  show ?case by (rule asked_same) (simp add: request_session_end_def)
qed (auto intro: asked_same)

lemma gate_steps_asked: "(gate_step env)\<^sup>*\<^sup>* w w' \<Longrightarrow> asked (fst w) (fst w')"
  by (induction rule: rtranclp_induct) (auto intro: asked_same asked_trans gate_step_asked)

lemma turn_asked:
  assumes "scripts_behave env"
  shows "asked (fst w) (fst (turn env dir now w))"
proof (cases rule: turn_cases [OF assms, of dir now w])
  case 1
  then show ?thesis by (simp add: asked_same)
next
  case (2 u)
  have "asked (fst w) (fst u)" using asked_trans [OF asked_same gate_steps_asked [OF 2(2)]] by simp
  moreover have "e_bus (fst (turn env dir now w)) = e_bus (fst u)" using 2(3) by (elim disjE exE conjE) simp_all
  ultimately show ?thesis using asked_trans asked_same by blast
qed

lemma asked_bus: "asked a b \<Longrightarrow> e_bus c = e_bus b \<Longrightarrow> asked a c"
  by (rule asked_trans [OF _ asked_same])

lemma script_step_asked: "script_step env w w' \<Longrightarrow> scripts_behave env \<Longrightarrow> asked (fst w) (fst w')"
  by (induction rule: script_step.induct) (auto intro: gate_step_asked turn_asked asked_same)

lemma script_steps_asked: "(script_step env)\<^sup>*\<^sup>* w w' \<Longrightarrow> scripts_behave env \<Longrightarrow> asked (fst w) (fst w')"
  by (induction rule: rtranclp_induct) (auto intro: asked_same asked_trans script_step_asked)

lemma rebuild_bus: "e_bus (fst (rebuild_app_list env w)) = e_bus (fst w)"
  using rebuilt_fields(6) [OF rebuild_rebuilt] .

lemma sync_bus: "e_bus (fst (sync_script_app env name w)) = e_bus (fst w)"
  by (cases w) (simp add: sync_script_app_def Let_def rebuild_bus forget_arrangement_def forget_session_def)

lemma remove_bus: "e_bus (fst (remove_script_app env name w)) = e_bus (fst w)"
  by (cases w) (simp add: remove_script_app_def Let_def rebuild_bus forget_arrangement_def leave_session_fields)

lemma install_step_asked: "install_step env w w' \<Longrightarrow> scripts_behave env \<Longrightarrow> asked (fst w) (fst w')"
  by (induction rule: install_step.induct) (auto intro: script_step_asked asked_same simp: sync_bus remove_bus)

lemma install_steps_asked: "(install_step env)\<^sup>*\<^sup>* w w' \<Longrightarrow> scripts_behave env \<Longrightarrow> asked (fst w) (fst w')"
  by (induction rule: rtranclp_induct) (auto intro: asked_same asked_trans install_step_asked)

lemma end_session_asked:
  assumes "scripts_behave env"
  shows "asked (fst w) (fst (end_session env w))"
proof (cases "e_session (fst w) = [] \<or> scripts env = None")
  case True
  then show ?thesis by (auto simp: end_session_def leave_session_fields intro: asked_same)
next
  case False
  then obtain s where s: "scripts env = Some s" by auto
  have "(script_step env)\<^sup>*\<^sup>* w (unload s name w)" for name using assms by (simp add: scripts_behave_def s del: split_paired_All)
  from asked_trans [OF script_steps_asked [OF this assms] asked_same [OF leave_session_fields(3)]] False show ?thesis
    by (simp add: end_session_def s)
qed

lemma start_session_asked:
  assumes "scripts_behave env"
  shows "asked (fst w) (fst (snd (start_session env name w)))"
proof (cases "scripts env")
  case (Some s)
  show ?thesis
  proof (cases "name \<notin> set (e_on_demand (fst w)) \<or> e_session (fst w) = name")
    case False
    obtain e v where ended: "end_session env w = (e, v)" by (rule prod.exhaust)
    let ?e = "e\<lparr>e_session_return := current_id (e_host e), e_session := name\<rparr>"
    obtain r f u where l: "launch s name (?e, v) = (r, (f, u))" by (rule prod_cases3)
    have "(script_step env)\<^sup>*\<^sup>* (?e, v) (snd (launch s name (?e, v)))"
      using assms by (simp add: scripts_behave_def Some del: split_paired_All)
    from script_steps_asked [OF this assms] have "asked ?e f" by (simp add: l)
    moreover have "asked (fst w) ?e" using end_session_asked [OF assms, of w] by (simp add: ended asked_def)
    ultimately have a: "asked (fst w) f" by (rule asked_trans [rotated])
    have "e_bus (fst (snd (start_session env name w))) = e_bus f"
      using Some False by (simp add: start_session_def ended l split_def rebuild_bus forget_session_def)
    then show ?thesis using asked_trans [OF a asked_same] by blast
  qed (auto simp: start_session_def Some intro: asked_same)
qed (simp add: start_session_def asked_same)

lemma keeps_names_bus: "keeps_names e e' \<Longrightarrow> e_bus e' = e_bus e"
  by (simp add: keeps_names_def same_rest_def)

lemma store_bus: "e_bus (fold (store_parsed pc) ps e) = e_bus e"
proof (induction ps arbitrary: e)
  case (Cons x ps)
  have "e_bus (store_parsed pc x e) = e_bus e" using store_parsed_rest [of e pc x] by (simp add: same_rest_def)
  then show ?case using Cons.IH [of "store_parsed pc x e"] by simp
qed simp

lemma command_bus:
  "e_bus (fst (snd (push_notification env json script w))) = e_bus (fst w)"
  "e_bus (fst (delete_pushed_app env name w)) = e_bus (fst w)"
  "e_bus (fst (snd (set_pushed_app env name json w))) = e_bus (fst w)"
  "e_bus (fst (snd (set_app_order env json w))) = e_bus (fst w)"
  "e_bus (fst (set_app_enabled env name on w)) = e_bus (fst w)"
  "e_bus (fst (snd (apply_settings env json w))) = e_bus (fst w)"
  "e_bus (fst (snd (set_builtin_app_config env name json w))) = e_bus (fst w)"
proof -
  obtain e v where w: "w = (e, v)" by (rule prod.exhaust)
  have s: "e_bus (settings_changed pc f) = e_bus f" for pc and f :: "'a engine"
    using keeps_names_bus [OF settings_changed_keeps] .
  show "e_bus (fst (snd (push_notification env json script w))) = e_bus (fst w)"
    by (simp add: w push_notification_def Let_def split_def split: sum.splits)
  show "e_bus (fst (delete_pushed_app env name w)) = e_bus (fst w)"
    by (simp add: w delete_pushed_app_def rebuild_bus)
  show "e_bus (fst (snd (set_pushed_app env name json w))) = e_bus (fst w)"
    by (cases "parse_pushed env name json") (simp_all add: w set_pushed_app_def Let_def rebuild_bus store_bus)
  show "e_bus (fst (snd (set_app_order env json w))) = e_bus (fst w)"
    by (auto simp: w set_app_order_def Let_def rebuild_bus split: option.splits)
  show "e_bus (fst (set_app_enabled env name on w)) = e_bus (fst w)"
    by (simp add: w set_app_enabled_def rebuild_bus)
  show "e_bus (fst (snd (apply_settings env json w))) = e_bus (fst w)"
    by (simp add: w apply_settings_def s split: sum.splits)
  show "e_bus (fst (snd (set_builtin_app_config env name json w))) = e_bus (fst w)"
    by (cases "patch_builtin env name json (e_settings e)") (simp add: w set_builtin_app_config_def s Let_def)
qed

lemma dispatch_asked:
  assumes "scripts_behave env"
  shows "asked (fst w) (fst (snd (dispatch env c w)))" and "simple c \<Longrightarrow> e_bus (fst (snd (dispatch env c w))) = e_bus (fst w)"
proof -
  show "e_bus (fst (snd (dispatch env c w))) = e_bus (fst w)" if "simple c"
    using that by (auto simp: simple_def dispatch_def command_bus split_def)
  have ds: "asked (fst w) (fst (snd (dispatch_script env c w)))" for w
  proof (cases "scripts env")
    case (Some s)
    then have "(install_step env)\<^sup>*\<^sup>* w (snd (script_command s c w))" using assms by (simp add: scripts_behave_def del: split_paired_All)
    from install_steps_asked [OF this assms] Some show ?thesis by (simp add: dispatch_script_def split_def)
  qed (simp add: dispatch_script_def asked_same)
  have sw: "asked (fst w) (fst (snd (switch_app env t w)))" for t
  proof -
    obtain e v where w: "w = (e, v)" by (rule prod.exhaust)
    let ?w = "(e\<lparr>e_script_paused := False\<rparr>, v)"
    have a: "asked e (e\<lparr>e_script_paused := False\<rparr>)" by (rule asked_same) simp
    obtain f u where f: "end_session env ?w = (f, u)" by (rule prod.exhaust)
    have "asked e f" using asked_trans [OF a] end_session_asked [OF assms, of ?w] by (simp add: f)
    moreover have "asked e (fst (snd (start_session env name ?w)))" for name
      using asked_trans [OF a] start_session_asked [OF assms, of ?w] by simp
    moreover have "asked f (f\<lparr>e_host := h\<rparr>)" for h by (rule asked_same) simp
    ultimately show ?thesis
      by (auto simp: switch_app_def w f Let_def split_def intro: asked_trans)
  qed
  have goes: "asked (fst w) (fst (next_app env w))" "asked (fst w) (fst (previous_app env w))"
    using asked_trans [OF end_session_asked [OF assms, of w] asked_trans [OF asked_same turn_asked [OF assms]]]
    by (simp_all add: next_app_def previous_app_def split_def)
  have gone: "asked (fst w) (fst (snd (dispatch_script env c (delete_pushed_app env (cmd_name c) w))))"
    by (rule asked_trans [OF asked_same ds]) (rule command_bus)
  show "asked (fst w) (fst (snd (dispatch env c w)))"
    using ds sw goes gone
    by (cases "cmd_type c") (auto simp: dispatch_def split_def command_bus intro: asked_same split: option.splits)
qed

lemma aged_bus: "e_bus (fst (age_apps env now w)) = e_bus (fst w)"
  by (cases w) (simp add: age_apps_def Let_def rebuild_bus)

lemma turn_tick_asked:
  assumes "scripts_behave env"
  shows "asked (fst w) (fst (turn_tick env now dwell tr auto w))"
proof -
  define s where "s = on_host (\<lambda>h. if \<not> rot_started h then start_phase (rot_phase h) now h else h) w"
  have "asked (fst w) (fst s)" by (rule asked_same) (simp add: s_def)
  then have "asked (fst w) (fst (turn env d now s))" "asked (fst w) (fst (on_host (settle now) s))" for d
    by (rule asked_trans [OF _ turn_asked [OF assms]], rule asked_bus) simp
  then show ?thesis
    using \<open>asked (fst w) (fst s)\<close> by (simp add: turn_tick_def Let_def asked_same flip: s_def)
qed

lemma after_commands_asked:
  assumes "scripts_behave env"
  shows "asked (fst w) (fst (after_commands env now w))"
proof -
  let ?w = "if e_session_end (fst w) then end_session env w else w"
  obtain e v x d t b where a: "age_apps env now ?w = (e, v)"
      "after_commands env now w = turn_tick env now d t b (e\<lparr>e_notes := note_do (pages env) x (e_notes e)\<rparr>, v)"
    by (rule after_commands_parts)
  have "asked (fst w) (fst ?w)" using end_session_asked [OF assms] by (simp add: asked_same)
  moreover have "e_bus e = e_bus (fst ?w)" using aged_bus [of env now ?w] by (simp add: a)
  ultimately have "asked (fst w) (e\<lparr>e_notes := note_do (pages env) x (e_notes e)\<rparr>)" by - (erule asked_bus, simp)
  then show ?thesis unfolding a(2) by (rule asked_trans [OF _ turn_tick_asked [OF assms], of _ "(f, v)" for f, simplified])
qed

section \<open>The commands a tick serves\<close>

definition pop_bus :: "command_ring \<Rightarrow> ('c, 'v) world \<Rightarrow> ('c, 'v) world" where
  "pop_bus r w = apfst (e_bus_update (\<lambda>_. r)) w"

text \<open>The listed commands are taken from the ring and executed, in this order.\<close>

primrec serves :: "('c, 'v) surroundings \<Rightarrow> command list \<Rightarrow> ('c, 'v) world \<Rightarrow> ('c, 'v) world option" where
  "serves env [] w = Some w"
| "serves env (c # cs) w = (case ring_pop (e_bus (fst w)) of
     None \<Rightarrow> None | Some (d, r) \<Rightarrow> if d = c then serves env cs (snd (dispatch env c (pop_bus r w))) else None)"

lemma serving_ends:
  assumes "scripts_behave env" and "bus_ok (e_bus (fst w))"
  shows "\<exists>cs w'. serves env (ring_waiting (e_bus (fst w)) @ cs) w = Some w' \<and> list_all simple cs
    \<and> ring_waiting (e_bus (fst w')) = [] \<and> serve_commands env w = Some w'"
  using assms(2)
proof (induction w rule: wf_induct_rule [OF wf_measures [of "[\<lambda>w. length (filter (\<lambda>c. \<not> simple c) (ring_waiting (e_bus (fst w)))),
    \<lambda>w. length (ring_waiting (e_bus (fst w)))]"]])
  case (1 w)
  show ?case
  proof (cases "ring_waiting (e_bus (fst w))")
    case Nil
    then have "ring_pop (e_bus (fst w)) = None" using bus.call_none [OF 1(2)] by blast
    then show ?thesis using Nil by (intro exI [of _ "[]"] exI [of _ w]) (simp add: serve_commands.simps)
  next
    case (Cons c ws)
    obtain r where r: "ring_pop (e_bus (fst w)) = Some (c, r)" "ring_waiting r = ws" "bus_ok r"
      using bus.calls_next [OF 1(2) Cons] by blast
    let ?u = "snd (dispatch env c (pop_bus r w))"
    have bus: "e_bus (fst (pop_bus r w)) = r" by (simp add: pop_bus_def)
    obtain asks where u: "bus_ok (e_bus (fst ?u))" "ring_waiting (e_bus (fst ?u)) = ws @ asks" "list_all simple asks"
      using dispatch_asked(1) [OF assms(1), of "pop_bus r w" c] r by (auto simp: asked_def bus)
    have n: "filter (\<lambda>c. \<not> simple c) asks = []" using u(3) by (auto simp: list_all_iff filter_empty_conv)
    have "asks = []" if "simple c" using dispatch_asked(2) [OF assms(1) that, of "pop_bus r w"] u(2) r(2) by (simp add: bus)
    then have "(?u, w) \<in> measures [\<lambda>w. length (filter (\<lambda>c. \<not> simple c) (ring_waiting (e_bus (fst w)))),
        \<lambda>w. length (ring_waiting (e_bus (fst w)))]"
      using u(2) n Cons by (cases "simple c") auto
    from 1(1) [OF this u(1)] obtain cs w' where IH: "serves env (ws @ asks @ cs) ?u = Some w'" "list_all simple cs"
        "ring_waiting (e_bus (fst w')) = []" "serve_commands env ?u = Some w'"
      unfolding u(2) append_assoc by blast
    show ?thesis
      by (rule exI [of _ "asks @ cs"], rule exI [of _ w'], intro conjI)
        (use IH u(3) r Cons in \<open>simp_all add: serve_commands.simps [of env w] pop_bus_def\<close>)
  qed
qed

section \<open>The session and the page it came from\<close>

text \<open>The session goes on as it was, or is over.\<close>

definition goes_on :: "'c engine \<Rightarrow> 'c engine \<Rightarrow> bool" where
  "goes_on e e' \<longleftrightarrow> e_session e' = e_session e \<and> e_session_return e' = e_session_return e \<or> e_session e' = []"

lemma goes_on_same: "e_session e' = e_session e \<Longrightarrow> e_session_return e' = e_session_return e \<Longrightarrow> goes_on e e'"
  by (simp add: goes_on_def)

lemma goes_on_trans: "goes_on a b \<Longrightarrow> goes_on b c \<Longrightarrow> goes_on a c"
  by (auto simp: goes_on_def)

lemma script_frame_on: "script_frame e e' \<Longrightarrow> goes_on e e'"
  by (rule goes_on_same) (rule script_frame_fields, assumption)+

lemma rest_on: "same_rest e e' \<Longrightarrow> goes_on e e'"
  by (simp add: goes_on_same same_rest_def)

lemma keeps_names_on: "keeps_names e e' \<Longrightarrow> goes_on e e'"
  by (simp add: keeps_names_def rest_on)

lemma rebuild_session:
  "e_session (fst (rebuild_app_list env w)) = e_session (fst w)"
  "e_session_return (fst (rebuild_app_list env w)) = e_session_return (fst w)"
  using rebuilt_fields [OF rebuild_rebuilt [of w env]] by blast+

lemma rebuild_on: "goes_on e (fst (rebuild_app_list env w))" if "goes_on e (fst w)"
  using goes_on_trans [OF that goes_on_same] rebuilt_fields [OF rebuild_rebuilt [of w env]] by blast

lemma end_session_on: "goes_on (fst w) (fst (end_session env w))"
  by (auto simp: end_session_def goes_on_def leave_session_fields)

lemma sync_on: "goes_on (fst w) (fst (sync_script_app env name w))"
proof -
  obtain e v where w: "w = (e, v)" by (rule prod.exhaust)
  show ?thesis
    by (simp add: w sync_script_app_def Let_def forget_arrangement_def goes_on_def rebuild_session forget_session_def)
qed

lemma remove_on: "goes_on (fst w) (fst (remove_script_app env name w))"
proof -
  obtain e v where w: "w = (e, v)" by (rule prod.exhaust)
  show ?thesis
    by (simp add: w remove_script_app_def Let_def forget_arrangement_def goes_on_def rebuild_session leave_session_fields)
qed

lemma install_step_on: "install_step env w w' \<Longrightarrow> scripts_behave env \<Longrightarrow> goes_on (fst w) (fst w')"
  by (induction rule: install_step.induct) (auto intro: script_frame_on script_step_frame sync_on remove_on)

lemma install_steps_on: "(install_step env)\<^sup>*\<^sup>* w w' \<Longrightarrow> scripts_behave env \<Longrightarrow> goes_on (fst w) (fst w')"
  by (induction rule: rtranclp_induct) (auto intro: goes_on_same goes_on_trans install_step_on)

lemma dispatch_script_on:
  assumes "scripts_behave env"
  shows "goes_on (fst w) (fst (snd (dispatch_script env c w)))"
proof (cases "scripts env")
  case (Some s)
  then have "(install_step env)\<^sup>*\<^sup>* w (snd (script_command s c w))" using assms by (simp add: scripts_behave_def del: split_paired_All)
  from install_steps_on [OF this assms] Some show ?thesis by (simp add: dispatch_script_def split_def)
qed (simp add: dispatch_script_def goes_on_same)

lemma command_on:
  "goes_on (fst w) (fst (snd (push_notification env json script w)))"
  "goes_on (fst w) (fst (delete_pushed_app env name w))"
  "goes_on (fst w) (fst (snd (set_app_order env json w)))"
  "goes_on (fst w) (fst (set_app_enabled env name on w))"
  "goes_on (fst w) (fst (snd (apply_settings env json w)))"
  "goes_on (fst w) (fst (snd (set_builtin_app_config env name json w)))"
proof -
  obtain e v where w: "w = (e, v)" by (rule prod.exhaust)
  show "goes_on (fst w) (fst (snd (push_notification env json script w)))"
    using gate_step_frame [OF gate_step.raises, of w env json script] unfolding gate_frame_def by (blast intro: script_frame_on)
  show "goes_on (fst w) (fst (delete_pushed_app env name w))"
    unfolding w delete_pushed_app_def prod.case by (rule rebuild_on) (simp add: goes_on_def)
  have "goes_on e (fst (rebuild_app_list env (e\<lparr>e_order := os, e_disabled := ds\<rparr>, v)))"
      "goes_on e (fst (rebuild_app_list env (e\<lparr>e_disabled := ds\<rparr>, v)))" for os ds
    by (rule rebuild_on, simp add: goes_on_def)+
  then show "goes_on (fst w) (fst (snd (set_app_order env json w)))" "goes_on (fst w) (fst (set_app_enabled env name on w))"
    by (auto simp: w set_app_order_def set_app_enabled_def Let_def goes_on_same split: option.splits)
  have s: "goes_on e (settings_changed pc (e\<lparr>e_settings := x\<rparr>))" "goes_on e (e\<lparr>e_settings := x\<rparr>)" for pc x
    by (rule keeps_names_on, rule keeps_names_trans [OF settings_keep settings_changed_keeps], simp add: goes_on_def)
  show "goes_on (fst w) (fst (snd (apply_settings env json w)))"
    using s by (auto simp: w apply_settings_def goes_on_same split: sum.splits)
  show "goes_on (fst w) (fst (snd (set_builtin_app_config env name json w)))"
    using s by (auto simp: w set_builtin_app_config_def Let_def goes_on_same split: prod.splits)
qed

lemma set_pushed_on:
  assumes "engine_inv (fst w)"
  shows "goes_on (fst w) (fst (snd (set_pushed_app env name json w)))"
proof -
  obtain e v where w: "w = (e, v)" by (rule prod.exhaust)
  have "pushed_ok (e_pushed e)" using assms by (simp add: w inv_parts)
  then have "goes_on e (fold (store_parsed pc) ps e)" for pc ps using store_all by (blast intro: rest_on)
  then have "goes_on e (fst (rebuild_app_list env (fold (store_parsed pc) ps e, v)))" for pc ps by (intro rebuild_on) simp
  then show ?thesis by (auto simp: w set_pushed_app_def Let_def goes_on_same split: sum.splits)
qed

text \<open>A session that starts is another one.\<close>

lemma start_session_on:
  assumes "scripts_behave env"
  shows "goes_on (fst w) (fst (snd (start_session env name w))) \<or> e_session (fst (snd (start_session env name w))) \<noteq> e_session (fst w)"
proof (cases "scripts env")
  case (Some s)
  show ?thesis
  proof (cases "name \<notin> set (e_on_demand (fst w)) \<or> e_session (fst w) = name")
    case False
    obtain e v where ended: "end_session env w = (e, v)" by (rule prod.exhaust)
    let ?e = "e\<lparr>e_session_return := current_id (e_host e), e_session := name\<rparr>"
    obtain r f u where l: "launch s name (?e, v) = (r, (f, u))" by (rule prod_cases3)
    have "script_frame ?e f" using launch_frame [OF assms Some, of "(?e, v)" name] by (simp add: l)
    then have "e_session f = name" using script_frame_fields(2) by fastforce
    then have "e_session (fst (snd (start_session env name w))) = (if r = Ok then name else [])"
      using Some False rebuilt_fields(1) [OF rebuild_rebuilt [of "(f\<lparr>e_script_paused := False\<rparr>, u)" env]]
      by (simp add: start_session_def ended l split_def forget_session_def)
    then show ?thesis using False by (auto simp: goes_on_def)
  qed (auto simp: start_session_def Some goes_on_same)
qed (simp add: start_session_def goes_on_same)

lemma dispatch_on:
  assumes "scripts_behave env" and "engine_inv (fst w)"
  shows "goes_on (fst w) (fst (snd (dispatch env c w))) \<or> e_session (fst (snd (dispatch env c w))) \<noteq> e_session (fst w)"
proof -
  obtain e v where w: "w = (e, v)" by (rule prod.exhaust)
  have switch: "goes_on (fst w) (fst (snd (switch_app env t w))) \<or> e_session (fst (snd (switch_app env t w))) \<noteq> e_session (fst w)" for t
  proof -
    let ?w = "(e\<lparr>e_script_paused := False\<rparr>, v)"
    obtain name fast where nf: "(case t of CHR ''{'' # _ \<Rightarrow> read_switch env t | _ \<Rightarrow> (t, False)) = (name, fast)" by (rule prod.exhaust)
    have "goes_on e (fst (end_session env ?w))" using end_session_on [of ?w env] by (simp add: goes_on_def)
    then have "goes_on e ((fst (end_session env ?w))\<lparr>e_host := h\<rparr>)" for h by (simp add: goes_on_def)
    moreover have "goes_on e (fst (snd (start_session env name ?w))) \<or> e_session (fst (snd (start_session env name ?w))) \<noteq> e_session e"
      using start_session_on [OF assms(1), of "?w" name] by (simp add: goes_on_def)
    ultimately show ?thesis by (simp add: w switch_app_def nf split_def Let_def)
  qed
  have turns: "goes_on (fst w) (fst (next_app env w))" "goes_on (fst w) (fst (previous_app env w))"
    by (simp_all add: next_app_def previous_app_def split_def)
      (rule goes_on_trans [OF end_session_on goes_on_trans [OF goes_on_same script_frame_on [OF turn_frame [OF assms(1)]]]], simp_all)+
  have gone: "goes_on (fst w) (fst (snd (dispatch_script env c (delete_pushed_app env (cmd_name c) w))))"
    by (rule goes_on_trans [OF command_on(2) dispatch_script_on [OF assms(1)]])
  show ?thesis
    using switch turns gone dispatch_script_on [OF assms(1), of w c] command_on [of w env] set_pushed_on [OF assms(2), of env]
    by (cases "cmd_type c") (auto simp: dispatch_def split_def goes_on_same split: option.splits)
qed

lemma age_on: "goes_on (fst w) (fst (age_apps env now w))"
  by (cases w) (simp add: age_apps_def Let_def goes_on_def rebuild_session)

lemma after_commands_on:
  assumes "scripts_behave env" and "engine_inv (fst w)"
  shows "goes_on (fst w) (fst (after_commands env now w))"
proof -
  let ?w = "if e_session_end (fst w) then end_session env w else w"
  obtain e v x d t b where a: "age_apps env now ?w = (e, v)"
      "after_commands env now w = turn_tick env now d t b (e\<lparr>e_notes := note_do (pages env) x (e_notes e)\<rparr>, v)"
    by (rule after_commands_parts)
  have "engine_inv (fst ?w)" using assms(2) end_session_inv [OF assms] by simp
  then have "wf_host (e_host e)" using age_inv [of ?w env now] by (simp add: a inv_parts)
  then have "goes_on (e\<lparr>e_notes := note_do (pages env) x (e_notes e)\<rparr>) (fst (after_commands env now w))"
    unfolding a(2) by (intro script_frame_on) (rule turn_tick_frame [OF assms(1), of "(f, v)" for f, simplified], simp)
  then have "goes_on e (fst (after_commands env now w))" by (simp add: goes_on_def)
  moreover have "goes_on (fst ?w) e" using age_on [of ?w env now] by (simp add: a)
  moreover have "goes_on (fst w) (fst ?w)" using end_session_on [of w env] by (simp add: goes_on_same)
  ultimately show ?thesis using goes_on_trans by blast
qed

text \<open>A step after which the same session runs has not touched it.\<close>

lemma step_keeps_return:
  assumes "engine_step env w w'" and "scripts_behave env" and "engine_inv (fst w)"
    and "e_session (fst w') = e_session (fst w)" and "e_session (fst w) \<noteq> []"
  shows "e_session_return (fst w') = e_session_return (fst w)"
proof -
  have "goes_on (fst w) (fst w') \<or> e_session (fst w') \<noteq> e_session (fst w)"
    using assms(1)
  proof (cases rule: engine_step.cases)
    case (serves_next e c r v)
    have "engine_inv (e\<lparr>e_bus := r\<rparr>)" using pop_inv [of e c r] assms(3) serves_next by simp
    then show ?thesis using dispatch_on [OF assms(2), of "(e\<lparr>e_bus := r\<rparr>, v)" c] serves_next by (simp add: goes_on_def)
  next
    case (submits c)
    then show ?thesis by (cases w) (simp add: submit_def split_def goes_on_def)
  next
    case (finds sensor there)
    then show ?thesis by (cases w; cases sensor) (simp_all add: set_sensor_def goes_on_def rebuild_session)
  next
    case (passes e v g b app d r)
    then show ?thesis by (simp add: set_note_passes_def set_rotation_passes_def goes_on_def)
  next
    case (holds e v a b)
    then show ?thesis by (simp add: set_holds_def goes_on_def)
  next
    case (assets e v)
    then show ?thesis using keeps_names_on [OF reset_content_keeps [of e "pages env" True]] by simp
  next
    case scripted
    then show ?thesis using install_step_on [OF _ assms(2)] by blast
  qed (use dispatch_on [OF assms(2,3)] after_commands_on [OF assms(2,3)] start_session_on [OF assms(2), of w]
      end_session_on [of w env] in \<open>auto simp: goes_on_def\<close>)
  then show ?thesis using assms(4,5) by (auto simp: goes_on_def)
qed

lemma session_lasts:
  assumes "(\<lambda>a b. engine_step env a b \<and> e_session (fst b) = name)\<^sup>*\<^sup>* w w'" and "engine_run env w" and "scripts_behave env"
    and "e_session (fst w) = name" and "name \<noteq> []"
  shows "engine_run env w' \<and> e_session (fst w') = name \<and> e_session_return (fst w') = e_session_return (fst w)"
  using assms(1)
proof (induction rule: rtranclp_induct)
  case (step a b)
  then have "engine_run env b" using engine_run.steps by blast
  moreover have "e_session_return (fst b) = e_session_return (fst a)"
    by (rule step_keeps_return [OF _ assms(3) run_inv [OF _ assms(3)]]) (use step assms(5) in auto)
  ultimately show ?case using step by simp
qed (use assms(2,4) in simp)

section \<open>Whom a turn asks\<close>

text \<open>The apps of a list are asked in turn, and all decline.\<close>

primrec all_decline :: "('c, 'v) surroundings \<Rightarrow> string list \<Rightarrow> ('c, 'v) world \<Rightarrow> ('c, 'v) world option" where
  "all_decline env [] w = Some w"
| "all_decline env (n # ns) w = (case show_gate env n w of (shown, w) \<Rightarrow> if shown then None else all_decline env ns w)"

lemma gate_keeps_apps:
  assumes "scripts_behave env"
  shows "same_place (e_host (fst w)) (e_host (fst (snd (show_gate env n w))))"
  using gate_steps_frame [OF gate_asked [OF assms]] unfolding gate_frame_def by blast

lemma pick_asks:
  assumes "scripts_behave env" and "rot_apps (e_host (fst w)) = ids"
  shows "(case turn_pick env start dir n steps w of (t, w') \<Rightarrow>
      t = - 1 \<and> all_decline env (map (\<lambda>s. ids ! nat ((start + dir * int s) mod int n)) steps) w = Some w'
      \<or> (\<exists>pre s post u. steps = pre @ s # post \<and> t = (start + dir * int s) mod int n
           \<and> all_decline env (map (\<lambda>s. ids ! nat ((start + dir * int s) mod int n)) pre) w = Some u
           \<and> show_gate env (ids ! nat t) u = (True, w')))"
  using assms(2)
proof (induction steps arbitrary: w)
  case (Cons s steps)
  define i where "i = (start + dir * int s) mod int n"
  obtain shown u where g: "show_gate env (ids ! nat i) w = (shown, u)" by (rule prod.exhaust)
  show ?case
  proof (cases shown)
    case True
    then have q: "turn_pick env start dir n (s # steps) w = (i, u)" using g Cons.prems by (simp add: Let_def flip: i_def)
    show ?thesis
      unfolding q prod.case
      by (intro disjI2 exI [of _ "[]"] exI [of _ s] exI [of _ steps] exI [of _ w]) (use g True in \<open>simp add: i_def\<close>)
  next
    case False
    have ids: "rot_apps (e_host (fst u)) = ids"
      using gate_keeps_apps [OF assms(1), of w "ids ! nat i"] Cons.prems by (simp add: g same_place_def)
    obtain t w' where p: "turn_pick env start dir n steps u = (t, w')" by (rule prod.exhaust)
    have q: "turn_pick env start dir n (s # steps) w = (t, w')" using g False Cons.prems p by (simp add: Let_def flip: i_def)
    from Cons.IH [OF ids, unfolded p prod.case] show ?thesis
    proof (elim disjE exE conjE)
      fix pre r post x
      assume "steps = pre @ r # post" "t = (start + dir * int r) mod int n" "show_gate env (ids ! nat t) x = (True, w')"
        "all_decline env (map (\<lambda>s. ids ! nat ((start + dir * int s) mod int n)) pre) u = Some x"
      then show ?thesis
        unfolding q prod.case using g False
        by (intro disjI2 exI [of _ "s # pre"] exI [of _ r] exI [of _ post] exI [of _ x]) (simp flip: i_def)
    qed (unfold q prod.case, use g False in \<open>simp flip: i_def\<close>)
  qed
qed simp

lemma split_upt:
  assumes "[1..<n] = pre @ k # post"
  shows "pre = [1..<k] \<and> 1 \<le> k \<and> k < n"
proof -
  have l: "length pre < length [1..<n]" using assms by simp
  have k: "k = [1..<n] ! length pre" using assms by simp
  have "pre = take (length pre) [1..<n]" using assms by simp
  also have "\<dots> = [1..<1 + length pre]" using l by (simp add: take_upt)
  finally show ?thesis using k l by (simp add: nth_upt)
qed

section \<open>An example\<close>

text \<open>One on-demand script, which holds the rotation as it starts.\<close>

definition game_service :: "(unit, unit) script_service" where
  "game_service = \<lparr>wants_show = (\<lambda>_ w. (True, w)), script_duration = (\<lambda>_ _. 0), scroll_holds = (\<lambda>_ _. False),
     is_headless = (\<lambda>_ _. False), is_parked = (\<lambda>_ _. False), script_on_demand = (\<lambda>_ name. name = ''game''),
     set_running = (\<lambda>_ v. v), launch = (\<lambda>_ w. (Ok, apfst (\<lambda>e. e\<lparr>e_script_paused := True\<rparr>) w)), unload = (\<lambda>_ w. w),
     script_command = (\<lambda>_ w. (Ok, w))\<rparr>"

definition game_env :: "(unit, unit) surroundings" where
  "game_env = \<lparr>pages = plain_pages, scripts = Some game_service, save_order = None, json_string = id, ring_memory = (\<lambda>_. True),
     drops_retired = True, json_shape_of = (\<lambda>t. if t = ''two'' then Array [Some ''a'', None, Some ''b''] else Malformed),
     read_spec = (\<lambda>t. Some ((example_note [] True)\<lparr>sp_lifetime := if t = ''a'' then 60 else 0\<rparr>)), read_note = (\<lambda>_ _. Inl ParseError), read_order = (\<lambda>_. None),
     read_switch = (\<lambda>t. (t, False)), read_on = (\<lambda>_. None), empty_object = (\<lambda>_. False),
     read_settings = (\<lambda>_ s. Inr s), patch_builtin = (\<lambda>_ _ s. (Ok, s, False)), elsewhere = (\<lambda>_ v. (Ok, v))\<rparr>"

lemma game_behaves: "scripts_behave game_env"
proof -
  have "script_step game_env w (apfst (\<lambda>e. e\<lparr>e_script_paused := True\<rparr>) w)" for w
    by (cases w) (simp add: script_step.plain gate_step.pauses)
  then show ?thesis by (auto simp: scripts_behave_def game_env_def game_service_def)
qed

definition example_settings :: engine_settings where
  "example_settings = \<lparr>app_duration = 7000, transition_duration = 500, auto_transition = True,
     scroll_defaults = \<lparr>sd_mode = 0, sd_direction = 0, sd_entry = 0, sd_when_fits = 0, sd_speed = 100, sd_gap = 8, sd_hold = 1000\<rparr>\<rparr>"

definition booted :: "(unit, unit) world" where
  "booted = rebuild_app_list game_env (new_engine [''Time'', ''Date''] example_settings, ())"

lemma booted_run: "engine_run game_env booted"
  unfolding booted_def by (rule engine_run.boots)

lemma booted_state:
  "e_pushed (fst booted) = []" "e_session (fst booted) = []" "e_on_demand (fst booted) = []" "e_now (fst booted) = 0"
  "e_next_arrival (fst booted) = 0" "e_builtins (fst booted) = [''Time'', ''Date'']" "e_order (fst booted) = []"
  "e_disabled (fst booted) = []" "e_script_apps (fst booted) = []"
  using rebuild_rebuilt [of "(new_engine [''Time'', ''Date''] example_settings :: unit engine, ())" game_env]
  by (auto simp: booted_def rebuilt_def new_engine_def)

definition two_apps_parsed :: "unit parsed_app list" where
  "two_apps_parsed = [(''x0'', ''x'', (example_note ''x0'' True)\<lparr>sp_lifetime := 60\<rparr>), (''x1'', ''x'', example_note ''x1'' True)]"

lemma first_digits: "digit_char 0 = CHR ''0''" "digit_char (Suc 0) = CHR ''1''"
  by (simp_all add: digit_char_def char_of_eq_iff take_bit_eq_mod)

lemma parsed_two: "parse_pushed game_env ''x'' ''two'' = Inr two_apps_parsed"
  by (simp add: two_apps_parsed_def parse_pushed_def game_env_def parse_one_def example_note_def print_nat.simps first_digits)

lemma two_taken: "set_pushed_app game_env ''x'' ''two'' booted
    = (Ok, rebuild_app_list game_env (apfst (fold (store_parsed plain_pages) two_apps_parsed) booted))"
proof -
  obtain e v where w: "booted = (e, v)" by (rule prod.exhaust)
  have "e_pushed e = []" using booted_state(1) by (simp add: w)
  moreover have "pages game_env = plain_pages" by (simp add: game_env_def)
  ultimately show ?thesis unfolding w by (simp add: set_pushed_app_def parsed_two pushed_app_def pushed_at_def pushed_lower_def)
      (simp add: two_apps_parsed_def)
qed

lemma two_stored: "e_pushed (fst (snd (set_pushed_app game_env ''x'' ''two'' booted))) =
    [\<lparr>pa_name = ''x0'', pa_spec = (example_note ''x0'' True)\<lparr>sp_lifetime := 60\<rparr>, pa_received = 0, pa_base = ''x'', pa_arrival = 0\<rparr>,
     \<lparr>pa_name = ''x1'', pa_spec = example_note ''x1'' True, pa_received = 0, pa_base = ''x'', pa_arrival = 1\<rparr>]"
proof -
  have "e_pushed (fst (rebuild_app_list env w)) = e_pushed (fst w)" for env :: "(unit, unit) surroundings" and w
    using rebuild_rebuilt [of w env] by (auto simp: rebuilt_def)
  then show ?thesis
    using booted_state by (simp add: two_taken two_apps_parsed_def store_parsed_def pushed_lower_def less_char_def wrap32_def)
qed

section \<open>What the properties rest on\<close>

lemma rebuild_apps:
  "rot_apps (set_apps ids h) = ids"
  by (simp add: set_apps_def Let_def)

lemma aged_at:
  fixes e :: "'c engine"
  assumes "pushed_ok (e_pushed e)"
  shows "pushed_at name (e_pushed (fst (age_apps env now (e, v)))) =
    (case pushed_at name (e_pushed e) of None \<Rightarrow> None
     | Some a \<Rightarrow> if dead now a then None
         else Some (if expired now a then a\<lparr>pa_spec := (pa_spec a)\<lparr>sp_ended := True\<rparr>\<rparr> else a))"
proof -
  define aged where "aged = (\<lambda>a :: 'c pushed_app. if expired now a \<and> sp_expiry (pa_spec a) \<noteq> Remove
      then a\<lparr>pa_spec := (pa_spec a)\<lparr>sp_ended := True\<rparr>\<rparr> else a)"
  let ?es = "filter (\<lambda>a. \<not> dead now a) (map aged (e_pushed e))"
  have same: "dead now (aged a) = dead now a" "pa_name (aged a) = pa_name a" for a
    by (simp_all add: aged_def dead_def expired_def)
  have all: "?es = map aged (e_pushed e)" if "\<not> list_ex (dead now) (e_pushed e)"
    using that by (auto simp: filter_id_conv list_ex_iff same)
  have ok: "pushed_ok ?es" by (rule pushed_filter, rule pushed_map [OF _ assms]) (simp add: same)
  have pushed: "e_pushed (fst (age_apps env now (e, v))) = ?es"
  proof (cases "list_ex (dead now) (e_pushed e)")
    case True
    have "e_pushed (fst (rebuild_app_list env w)) = e_pushed (fst w)" for w using rebuild_rebuilt [of w env] by (auto simp: rebuilt_def)
    then show ?thesis using True by (simp add: age_apps_def Let_def aged_def)
  next
    case False
    then show ?thesis unfolding all [OF False] by (simp add: age_apps_def Let_def aged_def)
  qed
  have "pushed_at name ?es = Some b \<longleftrightarrow> (\<exists>a. pushed_at name (e_pushed e) = Some a \<and> \<not> dead now a \<and> b = aged a)" for b
    unfolding pushed_at_some [OF ok] pushed_at_some [OF assms] by (auto simp: same)
  then have "pushed_at name ?es = (case pushed_at name (e_pushed e) of None \<Rightarrow> None
      | Some a \<Rightarrow> if dead now a then None else Some (aged a))"
    by (intro option_same) (auto split: option.splits)
  moreover have "aged a = (if expired now a then a\<lparr>pa_spec := (pa_spec a)\<lparr>sp_ended := True\<rparr>\<rparr> else a)" if "\<not> dead now a" for a
    using that by (simp add: aged_def dead_def)
  ultimately show ?thesis unfolding pushed by (auto split: option.splits)
qed

definition put_parsed :: "'c page_content \<Rightarrow> 'c parsed_app \<Rightarrow> (string \<rightharpoonup> 'c page_spec) \<Rightarrow> (string \<rightharpoonup> 'c page_spec)" where
  "put_parsed pc x m = (case x of (key, base, p) \<Rightarrow>
     m(key \<mapsto> (case m key of None \<Rightarrow> p | Some old \<Rightarrow> inherit_content pc old p)))"

lemma stored_map:
  "pushed_ok (e_pushed e) \<Longrightarrow> pushed_app (fold (store_parsed pc) ps e) = fold (put_parsed pc) ps (pushed_app e)"
proof (induction ps arbitrary: e)
  case (Cons x ps)
  obtain key base p where x: "x = (key, base, p)" by (rule prod_cases3)
  note m = store_parsed_map [OF Cons.prems, of pc key base p, folded x]
  have "pushed_app (store_parsed pc x e) = put_parsed pc x (pushed_app e)" using m by (simp add: put_parsed_def x)
  then show ?case using Cons.IH [of "store_parsed pc x e"] m by simp
qed simp

lemma rebuilt_pushed: "pushed_app (fst (rebuild_app_list env w)) = pushed_app (fst w)"
  using rebuild_rebuilt [of w env] by (auto simp: rebuilt_def pushed_app_def fun_eq_iff)

text \<open>A started session has the loop to itself.\<close>

lemma session_rebuilt:
  assumes "e_session e \<noteq> []"
  shows "rot_apps (e_host (fst (rebuild_app_list env (e, v)))) = [e_session e]"
  using rebuild_rebuilt [of "(e, v)" env] assms by (auto simp: rebuilt_def rebuild_apps)

lemma switched_id: "x \<in> set (rot_apps h) \<Longrightarrow> current_id (snd (switch_to x now h)) = x \<and> rot_phase (snd (switch_to x now h)) = Fixed
    \<and> rot_apps (snd (switch_to x now h)) = rot_apps h"
  using index_from_cases [of 0 x "rot_apps h"] by (auto simp: switch_to_id start_phase_def current_id_def in_apps_def)

lemma session_starts:
  assumes "scripts_behave env" and "engine_inv (fst w)" and "e_session (fst w) = []" and "start_session env name w = (Ok, w1)"
  shows "name \<in> set (e_on_demand (fst w)) \<and> name \<noteq> [] \<and> e_session (fst w1) = name \<and> e_session_return (fst w1) = current_id (e_host (fst w))
    \<and> rot_apps (e_host (fst w1)) = [name] \<and> current_id (e_host (fst w1)) = name \<and> \<not> e_script_paused (fst w1)"
proof -
  obtain s where s: "scripts env = Some s" using assms(4) by (cases "scripts env") (auto simp: start_session_def)
  obtain e v where w: "w = (e, v)" by (rule prod.exhaust)
  have "[] \<notin> set (e_on_demand e)" using assms(2) by (simp add: w inv_parts)
  then have name: "name \<in> set (e_on_demand e)" "name \<noteq> []"
    using assms(4) by (auto simp: start_session_def s w split: if_splits)
  have same: "end_session env (e, v) = (e, v)" using assms(3) by (simp add: end_session_def w)
  let ?e = "e\<lparr>e_session_return := current_id (e_host e), e_session := name\<rparr>"
  obtain r f u where l: "launch s name (?e, v) = (r, (f, u))" by (rule prod_cases3)
  have "script_frame ?e f" using launch_frame [OF assms(1) s, of "(?e, v)" name] by (simp add: l)
  note f = script_frame_fields [OF this, simplified]
  have r: "r = Ok" using assms(3,4) name by (auto simp: start_session_def s same l w split: if_splits prod.splits)
  let ?w = "(f\<lparr>e_script_paused := False\<rparr>, u)"
  note rb = rebuilt_fields [OF rebuild_rebuilt [of ?w env]]
  have apps: "rot_apps (e_host (fst (rebuild_app_list env ?w))) = [name]" using session_rebuilt [of "fst ?w"] f name by simp
  then have sw: "current_id (snd (switch_to name t (e_host (fst (rebuild_app_list env ?w))))) = name"
      "rot_apps (snd (switch_to name t (e_host (fst (rebuild_app_list env ?w))))) = [name]" for t
    using switched_id [of name "e_host (fst (rebuild_app_list env ?w))" t] by simp_all
  have "e_script_paused (fst (rebuild_app_list env ?w)) = False" using rebuild_rebuilt [of ?w env] by (auto simp: rebuilt_def)
  moreover have "w1 = apfst (\<lambda>e. e\<lparr>e_host := snd (switch_to name (e_now e) (e_host e))\<rparr>) (rebuild_app_list env ?w)"
    using assms(3,4) name r by (auto simp: start_session_def s same l w split_def apfst_def map_prod_def)
  ultimately show ?thesis using name f rb sw by (simp add: w)
qed

lemma session_ends:
  assumes "scripts_behave env" and "e_session (fst w) \<noteq> []"
  shows "e_session (fst (end_session env w)) = [] \<and> (e_session_return (fst w) \<in> set (rot_apps (e_host (fst (end_session env w)))) \<longrightarrow>
    current_id (e_host (fst (end_session env w))) = e_session_return (fst w) \<and> rot_phase (e_host (fst (end_session env w))) = Fixed)"
proof -
  obtain f u where u: "(case scripts env of None \<Rightarrow> w | Some s \<Rightarrow> unload s (e_session (fst w)) w) = (f, u)" by (rule prod.exhaust)
  have "script_frame (fst w) f" using unload_frame [OF assms(1), of w "e_session (fst w)"] by (simp add: u)
  note f = script_frame_fields [OF this]
  let ?w = "((forget_session f)\<lparr>e_script_paused := False\<rparr>, u)"
  have host: "rot_apps (snd (switch_to x t h)) = rot_apps h" for x t h by (simp add: switch_to_def Let_def start_phase_def)
  have "fst (end_session env w) = (fst (rebuild_app_list env ?w))
      \<lparr>e_host := snd (switch_to (e_session_return (fst w)) (e_now (fst (rebuild_app_list env ?w))) (e_host (fst (rebuild_app_list env ?w))))\<rparr>"
    using assms(2) f by (simp add: end_session_def u leave_session_def split_def Let_def)
  moreover have "e_session (fst (rebuild_app_list env ?w)) = []" using rebuilt_fields(1) [OF rebuild_rebuilt [of ?w env]] by (simp add: forget_session_def)
  ultimately show ?thesis using switched_id host by auto
qed

section \<open>The pushed apps after the commands\<close>

lemma rebuild_pushed: "e_pushed (fst (rebuild_app_list env w)) = e_pushed (fst w)"
  using rebuild_rebuilt [of w env] by (auto simp: rebuilt_def)

lemma end_session_pushed:
  assumes "scripts_behave env"
  shows "e_pushed (fst (end_session env w)) = e_pushed (fst w)"
proof (cases "e_session (fst w) = []")
  case False
  let ?u = "case scripts env of None \<Rightarrow> w | Some s \<Rightarrow> unload s (e_session (fst w)) w"
  have "e_pushed (fst (leave_session env u)) = e_pushed (fst u)" for u
    by (cases u) (simp add: leave_session_def split_def Let_def rebuild_pushed forget_session_def)
  then show ?thesis
    using False script_frame_fields(4) [OF unload_frame [OF assms, of w "e_session (fst w)"]] by (simp add: end_session_def)
qed (simp add: end_session_def)

lemma after_commands_pushed:
  assumes "scripts_behave env" and "engine_inv (fst w)"
  shows "pushed_at name (e_pushed (fst (after_commands env now w))) =
    (case pushed_at name (e_pushed (fst w)) of None \<Rightarrow> None
     | Some a \<Rightarrow> if dead now a then None
         else Some (if expired now a then a\<lparr>pa_spec := (pa_spec a)\<lparr>sp_ended := True\<rparr>\<rparr> else a))"
proof -
  let ?w = "if e_session_end (fst w) then end_session env w else w"
  obtain e v x d t b where a: "age_apps env now ?w = (e, v)"
      "after_commands env now w = turn_tick env now d t b (e\<lparr>e_notes := note_do (pages env) x (e_notes e)\<rparr>, v)"
    by (rule after_commands_parts)
  have inv: "engine_inv (fst ?w)" using assms(2) end_session_inv [OF assms] by simp
  then have "wf_host (e_host e)" using age_inv [of ?w env now] by (simp add: a inv_parts)
  then have "e_pushed (fst (after_commands env now w)) = e_pushed e"
    using script_frame_fields(4) [OF turn_tick_frame [OF assms(1), of "(e\<lparr>e_notes := note_do (pages env) x (e_notes e)\<rparr>, v)" now d t b]]
    by (simp add: a(2))
  moreover have "pushed_ok (e_pushed (fst ?w))" using inv by (simp add: inv_parts)
  from aged_at [OF this, of name env now "snd ?w"] have "pushed_at name (e_pushed e) =
    (case pushed_at name (e_pushed (fst ?w)) of None \<Rightarrow> None
     | Some a \<Rightarrow> if dead now a then None
         else Some (if expired now a then a\<lparr>pa_spec := (pa_spec a)\<lparr>sp_ended := True\<rparr>\<rparr> else a))"
    unfolding prod.collapse a(1) fst_conv .
  moreover have "e_pushed (fst ?w) = e_pushed (fst w)" using end_session_pushed [OF assms(1)] by simp
  ultimately show ?thesis by simp
qed

end
