(* ===== verification/Engine_Properties.thy ===== *)
theory Engine_Properties
  imports Engine_Runs
begin

text \<open>
  The properties of the engine: its invariant over all runs, the commands a tick serves, whom a turn of
  the rotation asks, what becomes of pushed apps, and the round trip of a session.
\<close>

text \<open>
  C4. Whatever commands, ticks, scripts and reports come, in whatever order: the pushed apps stay sorted
  by name and within their limit, notifications and waiting commands within theirs, the rotation stands
  on an app of its list, an app runs either in the loop or on demand, and the loop only holds apps that
  exist and are switched on, or the one on-demand app whose session it is.
\<close>

theorem engine_invariant:
  assumes "engine_run env w" and "scripts_behave env"
  shows "let e = fst w in
    sorted_wrt (<) (map pa_name (e_pushed e)) \<and> length (e_pushed e) \<le> MAX_PUSHED
    \<and> length (n_queue (e_notes e)) \<le> MAX_NOTES \<and> length (ring_waiting (e_bus e)) \<le> QUEUE_DEPTH
    \<and> (rot_apps (e_host e) \<noteq> [] \<longrightarrow> in_apps (rot_apps (e_host e)) (rot_current (e_host e)))
    \<and> (rot_phase (e_host e) = InTransition \<longrightarrow> in_apps (rot_apps (e_host e)) (rot_target (e_host e)))
    \<and> set (e_script_apps e) \<inter> set (e_on_demand e) = {}
    \<and> (if e_session e = [] then \<forall>n \<in> set (rot_apps (e_host e)). n \<in> set (known_apps e) \<and> is_enabled e n
       else rot_apps (e_host e) = [e_session e] \<and> e_session e \<in> set (e_on_demand e))"
proof -
  have inv: "engine_ok (fst w)" "loop_ok (fst w)" using run_inv [OF assms] by (simp_all add: engine_inv_def)
  have "length (ring_waiting (e_bus (fst w))) \<le> QUEUE_DEPTH"
    using inv(1) by (simp add: engine_ok_def bus_ok_def ring_waiting_def)
  moreover have "length (n_queue (e_notes (fst w))) \<le> max 1 (n_capacity (e_notes (fst w)))" "n_capacity (e_notes (fst w)) = MAX_NOTES"
    using inv(1) unfolding engine_ok_def note_ok_def by blast+
  then have "length (n_queue (e_notes (fst w))) \<le> MAX_NOTES" by simp
  ultimately show ?thesis
    using inv by (auto simp: Let_def engine_ok_def loop_ok_def may_loop_def pushed_ok_def wf_host_def split: if_splits)
qed

theorem engine_invariant_witness:
  "length (ring_waiting (e_bus (fst booted))) \<le> 16 \<and> rot_apps (e_host (fst booted)) \<noteq> []
    \<and> in_apps (rot_apps (e_host (fst booted))) (rot_current (e_host (fst booted)))"
proof -
  have "rot_apps (e_host (fst booted)) = [''Time'', ''Date'']"
    using wf_set_apps [OF wf_new_host]
    by (simp add: booted_def rebuild_app_list_def running_apps_def known_apps_def new_engine_def has_builtin_def sensor_present_def
        pushed_app_def pushed_at_def pushed_lower_def game_env_def game_service_def is_enabled_def Let_def)
  then show ?thesis using engine_invariant [OF booted_run game_behaves] by (simp add: Let_def)
qed

text \<open>
  C5. Every tick returns, and serves every command that waits: in the order they were submitted, and
  after them what the scripts they started have asked for meanwhile, which can only be settings and the
  display; when the serving is over none waits. What scripts ask for after that, as their session ends or
  as they are asked whether they want to be shown, is settings and the display again and waits for the
  next tick.
\<close>

theorem tick_serves_commands:
  assumes "engine_run env (e, v)" and "scripts_behave env"
  shows "\<exists>asked w. serves env (ring_waiting (e_bus e) @ asked) (e\<lparr>e_now := now\<rparr>, v) = Some w \<and> list_all simple asked
    \<and> ring_waiting (e_bus (fst w)) = [] \<and> engine_tick env now (e, v) = Some (after_commands env now w)
    \<and> list_all simple (ring_waiting (e_bus (fst (after_commands env now w))))"
proof -
  have "bus_ok (e_bus e)" using run_inv [OF assms] by (simp add: inv_parts)
  then obtain cs w where w: "serves env (ring_waiting (e_bus e) @ cs) (e\<lparr>e_now := now\<rparr>, v) = Some w" "list_all simple cs"
      "ring_waiting (e_bus (fst w)) = []" "serve_commands env (e\<lparr>e_now := now\<rparr>, v) = Some w"
    using serving_ends [OF assms(2), of "(e\<lparr>e_now := now\<rparr>, v)"] by auto
  have "engine_inv (fst w)" using serve_commands_inv [OF w(4) assms(2)] clock_inv [OF run_inv [OF assms]] by simp
  then have "list_all simple (ring_waiting (e_bus (fst (after_commands env now w))))"
    using after_commands_asked [OF assms(2), of w now] w(3) by (auto simp: asked_def inv_parts)
  then show ?thesis using w by (intro exI [of _ cs] exI [of _ w]) (simp add: engine_tick_def)
qed

theorem tick_serves_commands_witness:
  "\<exists>w. engine_tick game_env 40 (snd (submit game_env (no_command\<lparr>cmd_type := NextApp\<rparr>) booted)) = Some w"
proof -
  obtain e v where w: "snd (submit game_env (no_command\<lparr>cmd_type := NextApp\<rparr>) booted) = (e, v)" by (rule prod.exhaust)
  have "engine_run game_env (e, v)" using engine_run.steps [OF booted_run engine_step.submits] by (metis w)
  from tick_serves_commands [OF this game_behaves, of 40] show ?thesis unfolding w by blast
qed



text \<open>
  C20. A payload of pushed apps takes effect as a whole or not at all: when it is refused nothing has
  changed, and otherwise every app of the payload is stored under its name, in the order of the payload,
  and all other apps are as before. There are never more than fifty.
\<close>

theorem set_pushed_all_or_nothing:
  assumes "engine_run env w" and "scripts_behave env"
  shows "case set_pushed_app env name json w of (r, w') \<Rightarrow>
    if r = Ok then \<exists>parsed. parse_pushed env name json = Inr parsed
        \<and> pushed_app (fst w') = fold (put_parsed (pages env)) parsed (pushed_app (fst w))
        \<and> length (e_pushed (fst w')) \<le> MAX_PUSHED
    else w' = w"
proof (cases "parse_pushed env name json")
  case (Inl r)
  then have "r \<noteq> Ok" by (auto simp: parse_pushed_def split: json_shape.splits option.splits)
  then show ?thesis using Inl by (cases w) (simp add: set_pushed_app_def)
next
  case (Inr parsed)
  obtain e v where w: "w = (e, v)" by (rule prod.exhaust)
  have inv: "engine_inv (fst w)" by (rule run_inv [OF assms])
  have "length (e_pushed (fst (snd (set_pushed_app env name json w)))) \<le> MAX_PUSHED"
    using set_pushed_inv [OF inv] by (simp add: inv_parts)
  moreover have "pushed_app (fold (store_parsed (pages env)) parsed e) = fold (put_parsed (pages env)) parsed (pushed_app e)"
    using inv by (intro stored_map) (simp add: w inv_parts)
  ultimately show ?thesis by (auto simp: w set_pushed_app_def Inr Let_def rebuilt_pushed split: if_splits)
qed

theorem set_pushed_all_or_nothing_witness:
  "pushed_app (fst (snd (set_pushed_app game_env ''x'' ''two'' booted))) ''x1'' = Some (example_note ''x1'' True)"
proof -
  obtain parsed where "parse_pushed game_env ''x'' ''two'' = Inr parsed"
    "pushed_app (fst (snd (set_pushed_app game_env ''x'' ''two'' booted))) = fold (put_parsed (pages game_env)) parsed (pushed_app (fst booted))"
    using set_pushed_all_or_nothing [OF booted_run game_behaves, of "''x''" "''two''"] by (auto simp: two_taken)
  then show ?thesis
    using booted_state(1)
    by (auto simp: parsed_two two_apps_parsed_def put_parsed_def pushed_app_def pushed_at_def pushed_lower_def)
qed

text \<open>
  C21. Pushed apps live as long as they were given. After every tick, of the apps that its commands have
  left one whose lifetime is over is gone when it was to be removed, is marked when it was to stay, and
  every other app is as it was.
\<close>

theorem apps_live_their_time:
  assumes "engine_run env w" and "scripts_behave env" and "engine_tick env now w = Some w'"
  shows "\<exists>w1. serve_commands env (apfst (\<lambda>e. e\<lparr>e_now := now\<rparr>) w) = Some w1 \<and> pushed_app (fst w') name =
    (case pushed_at name (e_pushed (fst w1)) of None \<Rightarrow> None
     | Some a \<Rightarrow>
         if 0 < sp_lifetime (pa_spec a) \<and> sp_lifetime (pa_spec a) \<le> now - pa_received a
         then (if sp_expiry (pa_spec a) = Remove then None else Some ((pa_spec a)\<lparr>sp_ended := True\<rparr>))
         else Some (pa_spec a))"
proof -
  obtain w1 where w1: "serve_commands env (apfst (\<lambda>e. e\<lparr>e_now := now\<rparr>) w) = Some w1" "w' = after_commands env now w1"
    using assms(3) by (auto simp: engine_tick_def)
  have "engine_inv (fst w1)" using serve_commands_inv [OF w1(1) assms(2)] clock_inv [OF run_inv [OF assms(1,2)]] by simp
  from after_commands_pushed [OF assms(2) this, of name now] w1 show ?thesis
    by (intro exI [of _ w1]) (auto simp: pushed_app_def dead_def expired_def split: option.splits)
qed

theorem apps_live_their_time_witness:
  "\<exists>w'. engine_tick game_env 60 (snd (set_pushed_app game_env ''x'' ''two'' booted)) = Some w'
     \<and> pushed_app (fst w') ''x0'' = None \<and> pushed_app (fst w') ''x1'' = Some (example_note ''x1'' True)
     \<and> pushed_app (fst (snd (set_pushed_app game_env ''x'' ''two'' booted))) ''x0'' \<noteq> None"
proof -
  obtain e v where w: "snd (set_pushed_app game_env ''x'' ''two'' booted) = (e, v)" by (rule prod.exhaust)
  have "snd (dispatch game_env (no_command\<lparr>cmd_type := SetPushedApp, cmd_name := ''x'', cmd_payload := ''two''\<rparr>) booted) = (e, v)"
    using w by (simp add: dispatch_def game_env_def no_command_def)
  then have run: "engine_run game_env (e, v)" using engine_run.steps [OF booted_run engine_step.executes] by metis
  have "e_bus e = e_bus (fst booted)" using command_bus(3) [of game_env "''x''" "''two''" booted] by (simp add: w)
  then have "ring_pop (e_bus e) = None" by (simp add: booted_def rebuild_bus new_engine_def new_ring_def ring_pop_def)
  then have served: "serve_commands game_env (apfst (\<lambda>e. e\<lparr>e_now := 60\<rparr>) (e, v)) = Some (e\<lparr>e_now := 60\<rparr>, v)"
    by (simp add: serve_commands.simps)
  then have tick: "engine_tick game_env 60 (e, v) = Some (after_commands game_env 60 (e\<lparr>e_now := 60\<rparr>, v))"
    by (simp add: engine_tick_def)
  have at: "pushed_at ''x0'' (e_pushed e) = Some \<lparr>pa_name = ''x0'', pa_spec = (example_note ''x0'' True)\<lparr>sp_lifetime := 60\<rparr>,
      pa_received = 0, pa_base = ''x'', pa_arrival = 0\<rparr>"
    "pushed_at ''x1'' (e_pushed e) = Some \<lparr>pa_name = ''x1'', pa_spec = example_note ''x1'' True,
      pa_received = 0, pa_base = ''x'', pa_arrival = 1\<rparr>"
    using two_stored by (simp_all add: w pushed_at_def pushed_lower_def less_char_def)
  show ?thesis
    using apps_live_their_time [OF run game_behaves tick, of "''x0''"] apps_live_their_time [OF run game_behaves tick, of "''x1''"]
      tick at served unfolding w by (simp add: pushed_app_def example_note_def)
qed

text \<open>
  C19. A session comes back to where it started: an on-demand app that starts has the panel to itself,
  and after any steps of the engine during which its session goes on (commands, ticks, scripts, reports
  and sensors among them), when it ends the page of before is on screen again, if that app is still in the
  loop.
\<close>

theorem session_round_trip:
  assumes "engine_run env w" and "scripts_behave env" and "e_session (fst w) = []" and "start_session env name w = (Ok, w1)"
    and "(\<lambda>a b. engine_step env a b \<and> e_session (fst b) = name)\<^sup>*\<^sup>* w1 w2"
  shows "rot_apps (e_host (fst w1)) = [name] \<and> current_id (e_host (fst w1)) = name \<and> e_session (fst (end_session env w2)) = []
    \<and> (current_id (e_host (fst w)) \<in> set (rot_apps (e_host (fst (end_session env w2)))) \<longrightarrow>
        current_id (e_host (fst (end_session env w2))) = current_id (e_host (fst w))
        \<and> rot_phase (e_host (fst (end_session env w2))) = Fixed)"
proof -
  note start = session_starts [OF assms(2) run_inv [OF assms(1,2)] assms(3,4)]
  have "engine_run env w1" using engine_run.steps [OF assms(1) engine_step.session, of name] assms(4) by simp
  from session_lasts [OF assms(5) this assms(2)] start have "e_session (fst w2) = name"
    "e_session_return (fst w2) = e_session_return (fst w1)" by blast+
  then show ?thesis using start session_ends [OF assms(2), of w2] by simp
qed

theorem session_round_trip_witness:
  "let w = sync_script_app game_env ''game'' booted; w1 = snd (start_session game_env ''game'' w); w2 = set_sensor game_env Battery False w1
   in current_id (e_host (fst w1)) = ''game'' \<and> e_session (fst w2) = ''game'' \<and> e_session (fst (end_session game_env w2)) = []"
proof -
  define w where "w = sync_script_app game_env ''game'' booted"
  obtain r w1 where s: "start_session game_env ''game'' w = (r, w1)" by (rule prod.exhaust)
  have run: "engine_run game_env w" unfolding w_def by (rule engine_run.steps [OF booted_run engine_step.scripted [OF install_step.filed]])
  obtain e v where b: "booted = (e, v)" by (rule prod.exhaust)
  have sc: "scripts game_env = Some game_service" by (simp add: game_env_def)
  have od: "script_on_demand game_service u name \<longleftrightarrow> name = ''game''" for u name by (simp add: game_service_def)
  have w: "e_on_demand (fst w) = [''game'']" "e_session (fst w) = []"
    using booted_state
    by (simp_all add: w_def b sync_script_app_def sc od forget_arrangement_def rebuilt_fields [OF rebuild_rebuilt] Let_def)
  have "r = Ok" using s w by (auto simp: start_session_def end_session_def game_env_def game_service_def split: prod.splits)
  moreover have "e_session (fst w1) = ''game''"
    using session_starts [OF game_behaves run_inv [OF run game_behaves] w(2)] s calculation by simp
  moreover define w2 where "w2 = set_sensor game_env Battery False w1"
  ultimately have g: "r = Ok" "e_session (fst w2) = ''game''" by (simp_all add: set_sensor_def rebuild_session split: prod.splits)
  have "(\<lambda>a b. engine_step game_env a b \<and> e_session (fst b) = ''game'')\<^sup>*\<^sup>* w1 w2"
    using g(2) by (intro r_into_rtranclp) (simp add: w2_def engine_step.finds)
  from session_round_trip [OF run game_behaves w(2) _ this] s g show ?thesis by (simp add: Let_def flip: w_def w2_def)
qed

end
